(* ===== verification/Prelude.thy ===== *)
theory Prelude
  imports Complex_Main "HOL-Library.Word" "HOL-Library.Sublist"
begin

text \<open>
  Shared vocabulary of the development: JavaScript strings and the string operations the
  sources use, bytes, JSON values, the exception monad in which the stateful operations are
  written, and the generic lemmas on lists that several components need.

  A JavaScript string is a list of UTF-16 code units (\<open>16 word\<close>), so \<open>length\<close> is what
  \<open>.length\<close> counts. A literal of the sources is written \<open>js ''abc''\<close>.
\<close>

unbundle bit_operations_syntax

named_theorems monad_simps

subsection \<open>Strings and bytes\<close>

type_synonym jschar = "16 word"
type_synonym jsstring = "16 word list"
type_synonym byte = "8 word"
type_synonym bytes = "8 word list"

text \<open>Finite JavaScript numbers are rationals; the sources only compare, store and copy the
  ones modelled with this type (timestamps, ranks).\<close>

type_synonym jsnum = rat

definition js :: "string \<Rightarrow> jsstring" where
  "js s = map of_char s"

lemma unat_of_char16 [simp]: "unat (of_char c :: 16 word) = of_char c"
proof -
  have a: "(of_char c :: nat) < 2 ^ LENGTH(16)"
    by (rule less_le_trans [OF nat_of_char_less_256]) simp
  have b: "(of_char c :: 16 word) = of_nat (of_char c)"
    by (rule of_nat_of_char [symmetric])
  show ?thesis unfolding b
    by (simp only: unsigned_of_nat of_nat_id) (rule take_bit_nat_eq_self [OF a])
qed

lemma of_char16_eq [simp]: "(of_char c :: 16 word) = of_char d \<longleftrightarrow> c = d"
  by (metis of_char_eq_iff unat_of_char16)

lemma js_eq_iff [simp]: "js s = js t \<longleftrightarrow> s = t"
proof -
  have "inj (of_char :: char \<Rightarrow> 16 word)" by (rule injI) simp
  then show ?thesis by (simp add: js_def inj_map_eq_map)
qed

lemma js_Nil [simp]: "js [] = []" "js s = [] \<longleftrightarrow> s = []" "[] = js s \<longleftrightarrow> s = []"
  by (auto simp: js_def)

lemma length_js [simp]: "length (js s) = length s"
  by (simp add: js_def)

lemma js_append [simp]: "js s @ js t = js (s @ t)"
  by (simp add: js_def)

lemma js_append_assoc [simp]: "js s @ js t @ u = js (s @ t) @ u"
  by (simp add: js_def)

lemma js_Cons: "js (c # s) = of_char c # js s"
  by (simp add: js_def)

text \<open>\<open>\s\<close> of a regular expression and the characters \<open>trim\<close> removes are the same set.\<close>

definition ws_codes :: "nat list" where
  "ws_codes = [9, 10, 11, 12, 13, 32, 160, 5760, 8192, 8193, 8194, 8195, 8196, 8197, 8198,
     8199, 8200, 8201, 8202, 8232, 8233, 8239, 8287, 12288, 65279]"

definition is_ws :: "jschar \<Rightarrow> bool" where
  "is_ws c = (unat c \<in> set ws_codes)"

definition trim_end :: "jsstring \<Rightarrow> jsstring" where
  "trim_end s = rev (dropWhile is_ws (rev s))"

definition trim :: "jsstring \<Rightarrow> jsstring" where
  "trim s = trim_end (dropWhile is_ws s)"

lemma length_trim_le: "length (trim s) \<le> length s"
  unfolding trim_def trim_end_def
  by (metis length_dropWhile_le length_rev le_trans)

lemma trim_Nil [simp]: "trim [] = []"
  by (simp add: trim_def trim_end_def)

lemma set_trim: "set (trim s) \<subseteq> set s"
  unfolding trim_def trim_end_def by (auto dest!: set_dropWhileD)

text \<open>A trimmed string is a contiguous part of the string it came from.\<close>

lemma sublist_trim: "sublist (trim s) s"
proof -
  have "prefix (trim s) (dropWhile is_ws s)"
    unfolding trim_def trim_end_def
    by (metis suffix_dropWhile suffix_to_prefix rev_rev_ident)
  then show ?thesis
    by (meson prefix_imp_sublist suffix_dropWhile suffix_imp_sublist sublist_order.order_trans)
qed

text \<open>\<open>String.prototype.split\<close> with a character-class separator taken one run at a time,
  as in \<open>split(/\s+/)\<close>: leading and trailing runs give empty pieces.\<close>

function split_runs :: "('a \<Rightarrow> bool) \<Rightarrow> 'a list \<Rightarrow> 'a list \<Rightarrow> 'a list list" where
  "split_runs p acc [] = [rev acc]"
| "split_runs p acc (c # cs) =
     (if p c then rev acc # split_runs p [] (dropWhile p cs) else split_runs p (c # acc) cs)"
  by pat_completeness auto
termination
  by (relation "measure (\<lambda>(p, acc, s). length s)")
     (auto simp: le_imp_less_Suc length_dropWhile_le)

text \<open>\<open>split(sep)\<close> for a non-empty literal separator.\<close>

fun split_on :: "'a list \<Rightarrow> 'a list \<Rightarrow> 'a list \<Rightarrow> nat \<Rightarrow> 'a list list" where
  "split_on sep acc [] skip = [rev acc]"
| "split_on sep acc (c # cs) (Suc n) = split_on sep acc cs n"
| "split_on sep acc (c # cs) 0 =
     (if sep \<noteq> [] \<and> prefix sep (c # cs)
      then rev acc # split_on sep [] cs (length sep - 1)
      else split_on sep (c # acc) cs 0)"

definition split_str :: "jsstring \<Rightarrow> jsstring \<Rightarrow> jsstring list" where
  "split_str sep s = split_on sep [] s 0"

text \<open>\<open>Array.prototype.join\<close>.\<close>

fun join :: "'a list \<Rightarrow> 'a list list \<Rightarrow> 'a list" where
  "join sep [] = []"
| "join sep [x] = x"
| "join sep (x # y # ys) = x @ sep @ join sep (y # ys)"

text \<open>\<open>indexOf\<close> (None for -1), \<open>lastIndexOf\<close> and \<open>includes\<close>.\<close>

fun index_of :: "'a list \<Rightarrow> 'a list \<Rightarrow> nat option" where
  "index_of p [] = (if p = [] then Some 0 else None)"
| "index_of p (x # xs) =
     (if prefix p (x # xs) then Some 0 else map_option Suc (index_of p xs))"

fun last_index_of :: "'a list \<Rightarrow> 'a list \<Rightarrow> nat option" where
  "last_index_of p [] = (if p = [] then Some 0 else None)"
| "last_index_of p (x # xs) =
     (case last_index_of p xs of
        Some i \<Rightarrow> Some (Suc i)
      | None \<Rightarrow> if prefix p (x # xs) then Some 0 else None)"

definition str_includes :: "'a list \<Rightarrow> 'a list \<Rightarrow> bool" where
  "str_includes s p = (index_of p s \<noteq> None)"

lemma index_of_None_iff: "index_of p s = None \<longleftrightarrow> \<not> sublist p s"
  by (induction s) (auto simp: sublist_Cons_right)

lemma str_includes_iff_sublist: "str_includes s p \<longleftrightarrow> sublist p s"
  by (simp add: str_includes_def index_of_None_iff)

lemma index_of_Some_prefix: "index_of p s = Some i \<Longrightarrow> i \<le> length s \<and> prefix p (drop i s)"
  by (induction s arbitrary: i) (auto split: if_splits)

text \<open>\<open>String(n)\<close> of a natural number, and \<open>toLowerCase\<close> with the Unicode table beyond ASCII as an
  argument.\<close>

fun decimal :: "nat \<Rightarrow> jsstring" where
  "decimal n = (if n < 10 then [of_nat (48 + n)] else decimal (n div 10) @ [of_nat (48 + n mod 10)])"

declare decimal.simps [simp del]

definition toLowerCase :: "(jschar \<Rightarrow> jsstring) \<Rightarrow> jsstring \<Rightarrow> jsstring" where
  "toLowerCase fold_of s =
     concat (map (\<lambda>c. if 65 \<le> c \<and> c \<le> 90 then [c + 32] else if c < 128 then [c] else fold_of c) s)"

text \<open>\<open>slice(a, b)\<close> for indices that are not negative.\<close>

definition slice :: "nat \<Rightarrow> nat \<Rightarrow> 'a list \<Rightarrow> 'a list" where
  "slice a b s = take (b - a) (drop a s)"

lemma length_slice_le: "length (slice a b s) \<le> b - a"
  by (simp add: slice_def)

subsection \<open>JSON values\<close>

datatype json =
    JNull
  | JBool bool
  | JNum jsnum
  | JStr jsstring
  | JArr "json list"
  | JObj "(jsstring \<times> json) list"

text \<open>Property access: \<open>None\<close> is \<open>undefined\<close> (a missing property, or a property of a value
  that is not an object).\<close>

fun getProp :: "json \<Rightarrow> jsstring \<Rightarrow> json option" where
  "getProp (JObj kvs) k = map_of kvs k"
| "getProp _ k = None"

text \<open>The operator \<open>a ?? b\<close> on an optional property whose null counts as missing.\<close>

fun defined :: "json option \<Rightarrow> json option" where
  "defined None = None"
| "defined (Some JNull) = None"
| "defined (Some v) = Some v"

definition nullish :: "'a option \<Rightarrow> 'a \<Rightarrow> 'a" where
  "nullish a b = (case a of Some x \<Rightarrow> x | None \<Rightarrow> b)"

lemma nullish_simps [simp]: "nullish None b = b" "nullish (Some x) b = x"
  by (simp_all add: nullish_def)

subsection \<open>Setting properties of an object\<close>

text \<open>An assignment keeps the place of a property that exists; a spread assigns one after the other.\<close>

definition put_prop :: "(jsstring \<times> 'v) list \<Rightarrow> jsstring \<times> 'v \<Rightarrow> (jsstring \<times> 'v) list" where
  "put_prop kvs p =
     (if fst p \<in> fst ` set kvs then map (\<lambda>q. if fst q = fst p then p else q) kvs else kvs @ [p])"

definition with_props :: "(jsstring \<times> 'v) list \<Rightarrow> (jsstring \<times> 'v) list \<Rightarrow> (jsstring \<times> 'v) list" where
  "with_props kvs ps = foldl put_prop kvs ps"

lemma map_of_replace:
  "map_of (map (\<lambda>q. if fst q = k then (k, v) else q) kvs) x = (if x = k \<and> k \<in> fst ` set kvs then Some v else map_of kvs x)"
proof (induction kvs)
  case (Cons q kvs)
  then show ?case by (cases q) (auto simp: rev_image_eqI)
qed simp

lemma map_of_put_prop [simp]: "map_of (put_prop kvs (k, v)) = (map_of kvs)(k \<mapsto> v)"
proof
  fix x
  show "map_of (put_prop kvs (k, v)) x = ((map_of kvs)(k \<mapsto> v)) x"
  proof (cases "k \<in> fst ` set kvs")
    case False
    then have "map_of kvs k = None" by (simp add: map_of_eq_None_iff)
    then show ?thesis using False by (auto simp: put_prop_def map_add_def split: option.splits)
  qed (simp add: put_prop_def map_of_replace)
qed

subsection \<open>Computations that keep a state and may throw\<close>

text \<open>
  A computation maps the state before to an outcome (\<open>Inl\<close> an exception, \<open>Inr\<close> a value) and
  the state after. The state is kept when an exception is thrown: what ran before the throw
  has happened, which is what makes transactions worth stating.
\<close>

type_synonym ('s, 'e, 'a) exc = "'s \<Rightarrow> ('e + 'a) \<times> 's"

definition ret :: "'a \<Rightarrow> ('s, 'e, 'a) exc" where
  "ret a = (\<lambda>s. (Inr a, s))"

definition throw :: "'e \<Rightarrow> ('s, 'e, 'a) exc" where
  "throw e = (\<lambda>s. (Inl e, s))"

definition andThen :: "('s, 'e, 'a) exc \<Rightarrow> ('a \<Rightarrow> ('s, 'e, 'b) exc) \<Rightarrow> ('s, 'e, 'b) exc" where
  "andThen m f = (\<lambda>s. case m s of (Inl e, s') \<Rightarrow> (Inl e, s') | (Inr a, s') \<Rightarrow> f a s')"

text \<open>\<open>try { m } catch (e) { h e }\<close>\<close>

definition catch :: "('s, 'e, 'a) exc \<Rightarrow> ('e \<Rightarrow> ('s, 'e, 'a) exc) \<Rightarrow> ('s, 'e, 'a) exc" where
  "catch m h = (\<lambda>s. case m s of (Inl e, s') \<Rightarrow> h e s' | (Inr a, s') \<Rightarrow> (Inr a, s'))"

text \<open>\<open>for (const x of xs) f(x)\<close>\<close>

fun forEach :: "('a \<Rightarrow> ('s, 'e, unit) exc) \<Rightarrow> 'a list \<Rightarrow> ('s, 'e, unit) exc" where
  "forEach f [] = ret ()"
| "forEach f (x # xs) = andThen (f x) (\<lambda>_. forEach f xs)"

lemma ret_apply [monad_simps]: "ret a s = (Inr a, s)"
  by (simp add: ret_def)

lemma throw_apply [monad_simps]: "throw e s = (Inl e, s)"
  by (simp add: throw_def)

lemma andThen_apply [monad_simps]:
  "andThen m f s = (case m s of (Inl e, s') \<Rightarrow> (Inl e, s') | (Inr a, s') \<Rightarrow> f a s')"
  by (simp add: andThen_def)

lemma catch_apply [monad_simps]:
  "catch m h s = (case m s of (Inl e, s') \<Rightarrow> h e s' | (Inr a, s') \<Rightarrow> (Inr a, s'))"
  by (simp add: catch_def)

lemma andThen_Inr:
  assumes "andThen m f s = (Inr b, s')"
  obtains a t where "m s = (Inr a, t)" "f a t = (Inr b, s')"
  using assms by (auto simp: andThen_def split: prod.splits sum.splits)

text \<open>A relation between states that every step keeps, also when it throws.\<close>

definition keeps :: "('s \<Rightarrow> bool) \<Rightarrow> ('s, 'e, 'a) exc \<Rightarrow> bool" where
  "keeps P m \<longleftrightarrow> (\<forall>s. P s \<longrightarrow> P (snd (m s)))"

lemma keepsD: "keeps P m \<Longrightarrow> P s \<Longrightarrow> P (snd (m s))"
  by (simp add: keeps_def)

lemma keeps_ret [intro]: "keeps P (ret a)"
  by (simp add: keeps_def ret_def)

lemma keeps_throw [intro]: "keeps P (throw e)"
  by (simp add: keeps_def throw_def)

lemma keeps_andThen [intro]: "keeps P m \<Longrightarrow> (\<And>a. keeps P (f a)) \<Longrightarrow> keeps P (andThen m f)"
  by (force simp: keeps_def andThen_def split: prod.splits sum.splits)

lemma keeps_forEach [intro]: "(\<And>x. keeps P (f x)) \<Longrightarrow> keeps P (forEach f xs)"
  by (induction xs) auto

lemma keeps_if [intro]: "(b \<Longrightarrow> keeps P m) \<Longrightarrow> (\<not> b \<Longrightarrow> keeps P n) \<Longrightarrow> keeps P (if b then m else n)"
  by simp

lemma keeps_case_prod [intro]: "(\<And>a b. keeps P (f a b)) \<Longrightarrow> keeps P (case x of (a, b) \<Rightarrow> f a b)"
  by (cases x) simp

text \<open>\<open>returns m a\<close>: from some state \<open>m\<close> yields \<open>a\<close>. The rule for sequencing hands that fact to
  the rest of the computation.\<close>

definition returns :: "('s, 'e, 'a) exc \<Rightarrow> 'a \<Rightarrow> bool" where
  "returns m a \<longleftrightarrow> (\<exists>s s'. m s = (Inr a, s'))"

lemma keeps_bind:
  "keeps P m \<Longrightarrow> (\<And>a. returns m a \<Longrightarrow> keeps P (f a)) \<Longrightarrow> keeps P (andThen m f)"
  by (fastforce simp: keeps_def returns_def andThen_def split: prod.splits sum.splits)

lemma returns_andThen: "returns (andThen m f) b \<Longrightarrow> \<exists>a. returns m a \<and> returns (f a) b"
  unfolding returns_def by (metis andThen_Inr)

lemma returns_throw [simp]: "\<not> returns (throw e) a"
  by (simp add: returns_def throw_def)

lemma returns_ret [simp]: "returns (ret a) b \<longleftrightarrow> a = b"
  by (simp add: returns_def ret_def)

text \<open>Partial correctness of a computation that may throw: a postcondition for its value, and a
  predicate kept when it throws.\<close>

definition hoare :: "('s \<Rightarrow> bool) \<Rightarrow> ('s, 'e, 'a) exc \<Rightarrow> ('a \<Rightarrow> 's \<Rightarrow> bool) \<Rightarrow> bool" where
  "hoare P m R \<longleftrightarrow> (\<forall>s a s'. P s \<longrightarrow> m s = (Inr a, s') \<longrightarrow> R a s')"

lemma hoare_andThen: "hoare P m R \<Longrightarrow> (\<And>a. hoare (R a) (f a) S) \<Longrightarrow> hoare P (andThen m f) S"
  unfolding hoare_def by (metis andThen_Inr)

lemma hoare_keeps: "keeps P m \<Longrightarrow> hoare P m (\<lambda>_. P)"
  unfolding hoare_def keeps_def by (metis snd_conv)

lemma hoare_pass:
  "keeps P m \<Longrightarrow> (\<And>a. hoare P (f a) R) \<Longrightarrow> hoare P (andThen m f) R"
  by (rule hoare_andThen [OF hoare_keeps])

definition err_keeps :: "('s \<Rightarrow> bool) \<Rightarrow> ('s, 'e, 'a) exc \<Rightarrow> bool" where
  "err_keeps P m \<longleftrightarrow> (\<forall>s e s'. P s \<longrightarrow> m s = (Inl e, s') \<longrightarrow> P s')"

lemma err_keeps_andThen: "keeps P m \<Longrightarrow> (\<And>a. err_keeps P (f a)) \<Longrightarrow> err_keeps P (andThen m f)"
proof -
  assume m: "keeps P m" and f: "\<And>a. err_keeps P (f a)"
  have "P s'" if s: "P s" and r: "andThen m f s = (Inl e, s')" for s e s'
  proof -
    obtain x t where x: "m s = (x, t)" by fastforce
    have "P t" using m s x by (metis keepsD snd_conv)
    then show ?thesis using r x f by (cases x) (auto simp: andThen_def err_keeps_def)
  qed
  then show ?thesis unfolding err_keeps_def by blast
qed

lemma err_keeps_last: "err_keeps P m \<Longrightarrow> err_keeps P (andThen m (\<lambda>a. ret (g a)))"
  by (auto simp: err_keeps_def andThen_def ret_def split: prod.splits sum.splits)

lemma err_keeps_if: "err_keeps P m \<Longrightarrow> err_keeps P n \<Longrightarrow> err_keeps P (if b then m else n)"
  by simp

lemma err_keeps_throw: "err_keeps P (throw e)"
  by (simp add: err_keeps_def throw_def)

lemma hoare_if: "hoare P m R \<Longrightarrow> hoare P n R \<Longrightarrow> hoare P (if b then m else n) R"
  by simp

lemma hoare_throw: "hoare P (throw e) R"
  by (simp add: hoare_def throw_def)

lemma err_keeps_keeps: "keeps P m \<Longrightarrow> err_keeps P m"
  unfolding err_keeps_def keeps_def by (metis snd_conv)

subsection \<open>Lists\<close>

text \<open>\<open>ORDER BY k DESC\<close>: a stable sort on the negated key.\<close>

definition sort_desc :: "('a \<Rightarrow> 'k::{linorder,ab_group_add,ordered_ab_group_add}) \<Rightarrow> 'a list \<Rightarrow> 'a list" where
  "sort_desc k xs = sort_key (\<lambda>x. - k x) xs"

lemma set_sort_desc [simp]: "set (sort_desc k xs) = set xs"
  by (simp add: sort_desc_def)

lemma length_sort_desc [simp]: "length (sort_desc k xs) = length xs"
  by (simp add: sort_desc_def)

lemma distinct_sort_desc [simp]: "distinct (map f (sort_desc k xs)) = distinct (map f xs)"
  by (simp add: sort_desc_def distinct_map)

lemma sorted_sort_desc: "sorted_wrt (\<lambda>x y. k y \<le> k x) (sort_desc k xs)"
proof -
  have "sorted (map (\<lambda>x. - k x) (sort_desc k xs))"
    by (simp add: sort_desc_def)
  then show ?thesis
    by (simp add: sorted_wrt_map)
qed

end
