(* ===== verification/Bytes.thy ===== *)
theory Bytes
  imports Prelude
begin

text \<open>
  The byte helpers of \<open>web-client/caladon/src/bytes.ts\<close>: base64 (the manual encoder and decoder
  and the platform \<open>btoa\<close>/\<open>atob\<close> they prefer), hex, concatenation, and the UTF-8 conversions
  of \<open>TextEncoder\<close>/\<open>TextDecoder\<close> they wrap. The main results are the round trips; the base64
  decoder accumulates in a 32-bit integer that is never masked, so its round trip is a
  statement about wrap-around.
\<close>

subsection \<open>Base64\<close>

definition B64_CHARS :: jsstring where
  "B64_CHARS = js ''ABCDEFGHIJKLMNOPQRSTUVWXYZabcdefghijklmnopqrstuvwxyz0123456789+/''"

text \<open>The loop of the manual encoder takes three bytes at a time; bitwise operators of
  JavaScript work on 32-bit integers. The index is below 64, so the lookup is in range.\<close>

definition b64_char :: "32 word \<Rightarrow> jschar" where
  "b64_char i = B64_CHARS ! unat i"

definition sextet0 :: "byte \<Rightarrow> 32 word" where
  "sextet0 b0 = drop_bit 2 (ucast b0)"

definition sextet1 :: "byte \<Rightarrow> byte \<Rightarrow> 32 word" where
  "sextet1 b0 b1 = push_bit 4 (ucast b0 AND 3) OR drop_bit 4 (ucast b1)"

definition sextet2 :: "byte \<Rightarrow> byte \<Rightarrow> 32 word" where
  "sextet2 b1 b2 = push_bit 2 (ucast b1 AND 15) OR drop_bit 6 (ucast b2)"

definition sextet3 :: "byte \<Rightarrow> 32 word" where
  "sextet3 b2 = ucast b2 AND 63"

fun toBase64_manual :: "bytes \<Rightarrow> jsstring" where
  "toBase64_manual [] = []"
| "toBase64_manual [b0] =
     [b64_char (sextet0 b0), b64_char (sextet1 b0 0)] @ js ''==''"
| "toBase64_manual [b0, b1] =
     [b64_char (sextet0 b0), b64_char (sextet1 b0 b1), b64_char (sextet2 b1 0)] @ js ''=''"
| "toBase64_manual (b0 # b1 # b2 # bs) =
     [b64_char (sextet0 b0), b64_char (sextet1 b0 b1), b64_char (sextet2 b1 b2),
      b64_char (sextet3 b2)] @ toBase64_manual bs"

text \<open>\<open>B64_CHARS.indexOf(c)\<close> as a 32-bit integer: a character outside the alphabet gives -1,
  all ones.\<close>

definition b64_index :: "jschar \<Rightarrow> 32 word" where
  "b64_index c = (case index_of [c] B64_CHARS of Some i \<Rightarrow> of_nat i | None \<Rightarrow> -1)"

text \<open>The decoder's loop: \<open>val\<close> keeps all earlier bits and wraps at 32, \<open>bits\<close> counts the
  ones not yet written.\<close>

fun b64_loop :: "32 word \<Rightarrow> nat \<Rightarrow> jsstring \<Rightarrow> bytes" where
  "b64_loop val bits [] = []"
| "b64_loop val bits (c # cs) =
     (let val' = push_bit 6 val OR b64_index c; bits' = bits + 6
      in if 8 \<le> bits'
         then ucast (signed_drop_bit (bits' - 8) val' AND 0xFF) # b64_loop val' (bits' - 8) cs
         else b64_loop val' bits' cs)"

text \<open>\<open>b64.replace(/=+$/, '')\<close>\<close>

definition strip_padding :: "jsstring \<Rightarrow> jsstring" where
  "strip_padding s = rev (dropWhile (\<lambda>c. c = of_char (CHR ''='')) (rev s))"

definition fromBase64_manual :: "jsstring \<Rightarrow> bytes" where
  "fromBase64_manual b64 = b64_loop 0 0 (strip_padding b64)"

text \<open>The platform functions, when they exist: \<open>btoa\<close> on a string of characters below 256,
  \<open>atob\<close> that throws (\<open>None\<close>) on an invalid input.\<close>

record b64_platform =
  btoa :: "(jsstring \<Rightarrow> jsstring) option"
  atob :: "(jsstring \<Rightarrow> jsstring option) option"

definition toBase64 :: "b64_platform \<Rightarrow> bytes \<Rightarrow> jsstring" where
  "toBase64 p bs = (case btoa p of
     Some f \<Rightarrow> f (map ucast bs)
   | None \<Rightarrow> toBase64_manual bs)"

definition fromBase64 :: "b64_platform \<Rightarrow> jsstring \<Rightarrow> bytes option" where
  "fromBase64 p s = (case atob p of
     Some f \<Rightarrow> map_option (map ucast) (f s)
   | None \<Rightarrow> Some (fromBase64_manual s))"

subsubsection \<open>The encoder and decoder on numbers\<close>

lemma byte_less: "unat (b :: byte) < 256"
  using unsigned_less [of b] by simp

lemma of_nat_unatI: "unat w = n \<Longrightarrow> w = of_nat n"
  by auto

lemma and_mask_nat: "(m::nat) AND 3 = m mod 4" "m AND 15 = m mod 16" "m AND 63 = m mod 64"
proof -
  have "(3::nat) = mask 2" "(15::nat) = mask 4" "(63::nat) = mask 6"
    by (simp_all add: mask_eq_exp_minus_1)
  then show "m AND 3 = m mod 4" "m AND 15 = m mod 16" "m AND 63 = m mod 64"
    by (simp_all only: take_bit_eq_mask [symmetric]) (simp_all add: take_bit_eq_mod)
qed

lemma unat_ucast_byte: "unat (ucast (b :: byte) :: 32 word) = unat b"
proof -
  have "unat b < 2 ^ LENGTH(32)"
    by (rule less_le_trans [OF unsigned_less]) simp
  then show ?thesis
    by (simp only: unsigned_ucast_eq) (rule take_bit_nat_eq_self)
qed

lemma unat_drop: "unat (drop_bit k (w :: 32 word)) = unat w div 2 ^ k"
proof -
  have "unat (drop_bit k w) = drop_bit k (unat w)"
    unfolding unsigned_drop_bit_eq
    by (simp only: take_bit_nat_eq_self [OF unsigned_less])
  then show ?thesis by (simp only: drop_bit_eq_div [where 'a = nat])
qed

lemma unat_and_mask:
  "unat ((w :: 32 word) AND 3) = unat w mod 4"
  "unat (w AND 15) = unat w mod 16"
  "unat (w AND 63) = unat w mod 64"
  by (simp_all add: unsigned_and_eq and_mask_nat)

lemma or_push_nat:
  assumes "i < 2 ^ k"
  shows "push_bit k x OR i = x * 2 ^ k + (i::nat)"
proof -
  have i: "take_bit k i = i" using assms by (rule take_bit_nat_eq_self)
  have "push_bit k x AND take_bit k i = 0"
    by (rule bit_eqI) (auto simp: bit_simps)
  then have "push_bit k x AND i = 0" by (simp only: i)
  then have "push_bit k x + i = push_bit k x OR i" by (rule disjunctive_add_eq_or)
  then show ?thesis by (simp add: push_bit_eq_mult)
qed

lemma or_push_of_nat:
  assumes "i < 2 ^ k"
  shows "push_bit k (of_nat x) OR of_nat i = (of_nat (x * 2 ^ k + i) :: 'a::len word)"
proof -
  have "push_bit k (of_nat x) OR of_nat i = (of_nat (push_bit k x OR i) :: 'a word)"
    by (simp only: push_bit_of_nat of_nat_or_eq)
  then show ?thesis using or_push_nat [OF assms] by simp
qed

lemma emit_of_nat:
  assumes "k \<le> 24"
  shows "(ucast (signed_drop_bit k (of_nat x :: 32 word) AND 0xFF) :: byte) = of_nat (x div 2 ^ k)"
proof (rule bit_word_eqI)
  fix n assume "n < LENGTH(8)"
  then have n: "n < 8" by simp
  have "(0xFF :: 32 word) = mask 8" by (simp add: mask_eq_exp_minus_1)
  then have "bit (0xFF :: 32 word) n" using n by (simp only: bit_mask_iff) simp
  moreover have "\<not> 32 - k \<le> n" using n assms by simp
  ultimately show "bit (ucast (signed_drop_bit k (of_nat x :: 32 word) AND 0xFF) :: byte) n
      = bit (of_nat (x div 2 ^ k) :: byte) n"
    using n assms
    by (simp add: bit_ucast_iff bit_and_iff bit_signed_drop_bit_iff bit_of_nat_iff
        drop_bit_eq_div [symmetric] bit_drop_bit_eq)
qed

lemma sextet0_nat: "sextet0 b0 = of_nat (unat b0 div 4)"
  by (rule of_nat_unatI) (simp only: sextet0_def unat_drop unat_ucast_byte, simp)

lemma sextet1_nat: "sextet1 b0 b1 = of_nat ((unat b0 mod 4) * 16 + unat b1 div 16)"
proof -
  have a: "ucast b0 AND (3 :: 32 word) = of_nat (unat b0 mod 4)"
    by (rule of_nat_unatI) (simp only: unat_and_mask unat_ucast_byte)
  have b: "drop_bit 4 (ucast b1 :: 32 word) = of_nat (unat b1 div 16)"
    by (rule of_nat_unatI) (simp only: unat_drop unat_ucast_byte, simp)
  have "unat b1 div 16 < 2 ^ 4" using byte_less [of b1] by simp
  then show ?thesis
    unfolding sextet1_def a b by (subst or_push_of_nat) simp_all
qed

lemma sextet2_nat: "sextet2 b1 b2 = of_nat ((unat b1 mod 16) * 4 + unat b2 div 64)"
proof -
  have a: "ucast b1 AND (15 :: 32 word) = of_nat (unat b1 mod 16)"
    by (rule of_nat_unatI) (simp only: unat_and_mask unat_ucast_byte)
  have b: "drop_bit 6 (ucast b2 :: 32 word) = of_nat (unat b2 div 64)"
    by (rule of_nat_unatI) (simp only: unat_drop unat_ucast_byte, simp)
  have "unat b2 div 64 < 2 ^ 2" using byte_less [of b2] by simp
  then show ?thesis
    unfolding sextet2_def a b by (subst or_push_of_nat) simp_all
qed

lemma sextet3_nat: "sextet3 b2 = of_nat (unat b2 mod 64)"
  by (rule of_nat_unatI) (simp only: sextet3_def unat_and_mask unat_ucast_byte)

text \<open>The alphabet: 64 different characters, none of them the padding character.\<close>

lemma B64_CHARS_facts: "length B64_CHARS = 64" "distinct B64_CHARS"
  "of_char (CHR ''='') \<notin> set B64_CHARS"
  by (simp_all add: B64_CHARS_def js_def)

lemma index_of_single: "index_of [xs ! i] xs = Some i" if "i < length xs" "distinct xs"
  using that
proof (induction xs arbitrary: i)
  case (Cons x xs)
  then show ?case by (cases i) (auto simp: nth_Cons')
qed simp

lemma b64_index_char: "i < 64 \<Longrightarrow> b64_index (b64_char (of_nat i)) = of_nat i"
  by (simp add: b64_index_def b64_char_def index_of_single B64_CHARS_facts unat_of_nat
      take_bit_nat_eq_self_iff)

lemma b64_char_neq: "i < 64 \<Longrightarrow> b64_char (of_nat i) \<noteq> of_char (CHR ''='')"
proof -
  assume i: "i < 64"
  then have "unat (of_nat i :: 32 word) = i"
    by (simp add: unat_of_nat take_bit_nat_eq_self_iff)
  then have "b64_char (of_nat i) \<in> set B64_CHARS"
    using i by (simp add: b64_char_def B64_CHARS_facts)
  then show ?thesis using B64_CHARS_facts(3) by metis
qed

subsubsection \<open>Round trip\<close>

lemma b64_loop_step:
  assumes "i < 64" "bits \<le> 18"
  shows "b64_loop (of_nat x) bits (b64_char (of_nat i) # cs) =
    (if 2 \<le> bits
     then of_nat ((x * 64 + i) div 2 ^ (bits - 2)) # b64_loop (of_nat (x * 64 + i)) (bits - 2) cs
     else b64_loop (of_nat (x * 64 + i)) (bits + 6) cs)"
proof -
  have v: "push_bit 6 (of_nat x) OR b64_index (b64_char (of_nat i)) = (of_nat (x * 64 + i) :: 32 word)"
    using or_push_of_nat [of i 6 x] assms(1) by (simp only: b64_index_char) simp
  have "8 \<le> bits + 6 \<longleftrightarrow> 2 \<le> bits" "bits + 6 - 8 = bits - 2" by arith+
  then show ?thesis
    using assms by (simp only: b64_loop.simps Let_def v emit_of_nat)
qed

text \<open>One full group: whatever is left in \<open>val\<close> above the group does not show.\<close>

lemma div_strip: "(x * (k * m) + (r :: nat)) div m = x * k + r div m" if "0 < m"
  using that by (simp add: mult.assoc [symmetric] div_mult_self4 add.commute)

lemma of_nat_byte: "(of_nat (x * 256 + unat b) :: byte) = b"
proof -
  have z: "(256 :: byte) = 0" by simp
  have "(of_nat (x * 256 + unat b) :: byte) = of_nat x * 256 + of_nat (unat b)"
    by (simp only: of_nat_add of_nat_mult of_nat_numeral)
  then have "(of_nat (x * 256 + unat b) :: byte) = of_nat (unat b)"
    by (simp only: z mult_zero_right add_0)
  then show ?thesis by simp
qed

lemma group_value:
  assumes "b0 < 256" "b1 < 256" "b2 < (256 :: nat)"
  defines "i0 \<equiv> b0 div 4" and "i1 \<equiv> (b0 mod 4) * 16 + b1 div 16"
    and "i2 \<equiv> (b1 mod 16) * 4 + b2 div 64" and "i3 \<equiv> b2 mod 64"
  shows "((x * 64 + i0) * 64 + i1) div 16 = x * 256 + b0"
    and "(((x * 64 + i0) * 64 + i1) * 64 + i2) div 4 = (x * 256 + b0) * 256 + b1"
    and "(((x * 64 + i0) * 64 + i1) * 64 + i2) * 64 + i3 = ((x * 256 + b0) * 256 + b1) * 256 + b2"
    and "i0 < 64" "i1 < 64" "i2 < 64" "i3 < 64"
proof -
  obtain q0 r0 where b0: "b0 = 4 * q0 + r0" "r0 < 4"
    by (metis mult_div_mod_eq mod_less_divisor zero_less_numeral)
  obtain q1 r1 where b1: "b1 = 16 * q1 + r1" "r1 < 16"
    by (metis mult_div_mod_eq mod_less_divisor zero_less_numeral)
  obtain q2 r2 where b2: "b2 = 64 * q2 + r2" "r2 < 64"
    by (metis mult_div_mod_eq mod_less_divisor zero_less_numeral)
  have i: "i0 = q0" "i1 = r0 * 16 + q1" "i2 = r1 * 4 + q2" "i3 = r2"
    using b0 b1 b2 by (simp_all add: i0_def i1_def i2_def i3_def)
  have q: "q0 < 64" "q1 < 16" "q2 < 4"
    using assms b0 b1 b2 by simp_all
  have "(x * 64 + i0) * 64 + i1 = q1 + (x * 256 + b0) * 16"
    by (simp add: i b0 algebra_simps)
  then show "((x * 64 + i0) * 64 + i1) div 16 = x * 256 + b0" using q by simp
  have "((x * 64 + i0) * 64 + i1) * 64 + i2 = q2 + ((x * 256 + b0) * 256 + b1) * 4"
    by (simp add: i b0 b1 algebra_simps)
  then show "(((x * 64 + i0) * 64 + i1) * 64 + i2) div 4 = (x * 256 + b0) * 256 + b1"
    using q by simp
  show "(((x * 64 + i0) * 64 + i1) * 64 + i2) * 64 + i3 = ((x * 256 + b0) * 256 + b1) * 256 + b2"
    by (simp add: i b0 b1 b2 algebra_simps)
  show "i0 < 64" "i1 < 64" "i2 < 64" "i3 < 64"
    using q b0 b1 b2 by (simp_all add: i)
qed

lemma b64_loop_steps:
  assumes "i < 64"
  shows "b64_loop (of_nat x) 0 (b64_char (of_nat i) # cs) = b64_loop (of_nat (x * 64 + i)) 6 cs"
    and "b64_loop (of_nat x) 6 (b64_char (of_nat i) # cs)
      = of_nat ((x * 64 + i) div 16) # b64_loop (of_nat (x * 64 + i)) 4 cs"
    and "b64_loop (of_nat x) 4 (b64_char (of_nat i) # cs)
      = of_nat ((x * 64 + i) div 4) # b64_loop (of_nat (x * 64 + i)) 2 cs"
    and "b64_loop (of_nat x) 2 (b64_char (of_nat i) # cs)
      = of_nat (x * 64 + i) # b64_loop (of_nat (x * 64 + i)) 0 cs"
  using b64_loop_step [OF assms, of 0 x cs] b64_loop_step [OF assms, of 6 x cs]
    b64_loop_step [OF assms, of 4 x cs] b64_loop_step [OF assms, of 2 x cs]
  by simp_all

lemma b64_group:
  "b64_loop (of_nat x) 0
      (b64_char (sextet0 c0) # b64_char (sextet1 c0 c1) # b64_char (sextet2 c1 c2)
       # b64_char (sextet3 c2) # cs)
    = c0 # c1 # c2 # b64_loop (of_nat (((x * 256 + unat c0) * 256 + unat c1) * 256 + unat c2)) 0 cs"
proof -
  have b: "unat c0 < 256" "unat c1 < 256" "unat c2 < 256" by (rule byte_less)+
  note g = group_value [OF b]
  show ?thesis
    unfolding sextet0_nat sextet1_nat sextet2_nat sextet3_nat
    by (simp only: b64_loop_steps g of_nat_byte)
qed

lemma b64_tail:
  "b64_loop (of_nat x) 0 [b64_char (sextet0 c0), b64_char (sextet1 c0 c1)] = [c0]"
  "b64_loop (of_nat x) 0 [b64_char (sextet0 c0), b64_char (sextet1 c0 c1), b64_char (sextet2 c1 c2)]
    = [c0, c1]"
proof -
  have b: "unat c0 < 256" "unat c1 < 256" "unat c2 < 256" by (rule byte_less)+
  note g = group_value [OF b]
  show "b64_loop (of_nat x) 0 [b64_char (sextet0 c0), b64_char (sextet1 c0 c1)] = [c0]"
    unfolding sextet0_nat sextet1_nat by (simp only: b64_loop_steps g of_nat_byte b64_loop.simps(1))
  show "b64_loop (of_nat x) 0 [b64_char (sextet0 c0), b64_char (sextet1 c0 c1),
      b64_char (sextet2 c1 c2)] = [c0, c1]"
    unfolding sextet0_nat sextet1_nat sextet2_nat
    by (simp only: b64_loop_steps g of_nat_byte b64_loop.simps(1))
qed

lemma strip_padding_append:
  assumes "\<And>c. c \<in> set s \<Longrightarrow> c \<noteq> of_char (CHR ''='')" "set p \<subseteq> {of_char (CHR ''='')}"
  shows "strip_padding (s @ p) = s"
proof -
  have "dropWhile (\<lambda>c. c = of_char (CHR ''='')) (rev p @ rev s) = rev s"
  proof (subst dropWhile_append2)
    show "\<And>x. x \<in> set (rev p) \<Longrightarrow> x = of_char (CHR ''='')" using assms(2) by auto
    show "dropWhile (\<lambda>c. c = of_char (CHR ''='')) (rev s) = rev s"
      using assms(1) by (cases s rule: rev_cases) auto
  qed
  then show ?thesis by (simp add: strip_padding_def)
qed

text \<open>The encoded string without its padding, and what the decoder makes of it from any state
  of its accumulator.\<close>

fun b64_body :: "bytes \<Rightarrow> jsstring" where
  "b64_body [] = []"
| "b64_body [b0] = [b64_char (sextet0 b0), b64_char (sextet1 b0 0)]"
| "b64_body [b0, b1] =
     [b64_char (sextet0 b0), b64_char (sextet1 b0 b1), b64_char (sextet2 b1 0)]"
| "b64_body (b0 # b1 # b2 # bs) =
     [b64_char (sextet0 b0), b64_char (sextet1 b0 b1), b64_char (sextet2 b1 b2),
      b64_char (sextet3 b2)] @ b64_body bs"

lemma toBase64_manual_body: "\<exists>p. toBase64_manual bs = b64_body bs @ p \<and> set p \<subseteq> {of_char (CHR ''='')}"
  by (induction bs rule: b64_body.induct) (auto simp: js_def)

lemma sextet_char_neq:
  "b64_char (sextet0 b0) \<noteq> of_char (CHR ''='')" "b64_char (sextet1 b0 b1) \<noteq> of_char (CHR ''='')"
  "b64_char (sextet2 b1 b2) \<noteq> of_char (CHR ''='')" "b64_char (sextet3 b2) \<noteq> of_char (CHR ''='')"
proof -
  have b: "unat b0 < 256" "unat b1 < 256" "unat b2 < 256" by (rule byte_less)+
  note g = group_value(4-7) [OF b]
  show "b64_char (sextet0 b0) \<noteq> of_char (CHR ''='')" "b64_char (sextet1 b0 b1) \<noteq> of_char (CHR ''='')"
    "b64_char (sextet2 b1 b2) \<noteq> of_char (CHR ''='')" "b64_char (sextet3 b2) \<noteq> of_char (CHR ''='')"
    unfolding sextet0_nat sextet1_nat sextet2_nat sextet3_nat by (rule b64_char_neq, rule g)+
qed

lemma b64_body_no_pad: "of_char (CHR ''='') \<notin> set (b64_body bs)"
  by (induction bs rule: b64_body.induct)
    (simp_all only: b64_body.simps set_append list.set Un_iff insert_iff empty_iff
      sextet_char_neq sextet_char_neq [symmetric] simp_thms)

lemma b64_loop_body: "b64_loop (of_nat x) 0 (b64_body bs) = bs"
proof (induction bs arbitrary: x rule: b64_body.induct)
  case 1
  show ?case by (simp only: b64_body.simps b64_loop.simps)
next
  case (2 b0)
  show ?case by (simp only: b64_body.simps b64_tail)
next
  case (3 b0 b1)
  show ?case by (simp only: b64_body.simps b64_tail)
next
  case (4 b0 b1 b2 bs)
  then show ?case by (simp only: b64_body.simps append.simps b64_group)
qed

lemma b64_manual_roundtrip: "fromBase64_manual (toBase64_manual bs) = bs"
proof -
  obtain p where p: "toBase64_manual bs = b64_body bs @ p" "set p \<subseteq> {of_char (CHR ''='')}"
    using toBase64_manual_body by blast
  have "strip_padding (toBase64_manual bs) = b64_body bs"
    unfolding p(1) by (rule strip_padding_append [OF _ p(2)]) (use b64_body_no_pad in metis)
  then show ?thesis
    using b64_loop_body [of 0 bs] by (simp add: fromBase64_manual_def)
qed

text \<open>The decoder allocates \<open>Math.floor(clean.length * 6 / 8)\<close> bytes: the loop writes exactly
  that many, so no write falls outside the array and no byte of it is left unwritten.\<close>

lemma length_b64_loop: "bits < 8 \<Longrightarrow> length (b64_loop val bits cs) = (bits + 6 * length cs) div 8"
proof (induction cs arbitrary: val bits)
  case (Cons c cs)
  show ?case
  proof (cases "8 \<le> bits + 6")
    case True
    then have "(bits + 6 * length (c # cs)) div 8 = Suc ((bits - 2 + 6 * length cs) div 8)"
      by (simp add: div_nat_eqI) 
    then show ?thesis using Cons.IH [of "bits - 2"] Cons.prems True by (simp add: Let_def)
  next
    case False
    then show ?thesis using Cons.IH [of "bits + 6"] Cons.prems by (simp add: Let_def algebra_simps)
  qed
qed simp

subsection \<open>Hex and concatenation\<close>

definition hex_digits :: jsstring where
  "hex_digits = js ''0123456789abcdef''"

definition hex_digit :: "nat \<Rightarrow> jschar" where
  "hex_digit n = hex_digits ! n"

text \<open>\<open>b.toString(16)\<close> of a byte, then \<open>padStart(2, '0')\<close>.\<close>

definition byte_toString16 :: "byte \<Rightarrow> jsstring" where
  "byte_toString16 b = (if unat b < 16 then [hex_digit (unat b)]
     else [hex_digit (unat b div 16), hex_digit (unat b mod 16)])"

definition padStart :: "nat \<Rightarrow> jschar \<Rightarrow> jsstring \<Rightarrow> jsstring" where
  "padStart n c s = replicate (n - length s) c @ s"

fun toHex :: "bytes \<Rightarrow> jsstring" where
  "toHex [] = []"
| "toHex (b # bs) = padStart 2 (of_char (CHR ''0'')) (byte_toString16 b) @ toHex bs"

text \<open>\<open>parseInt(s, 16)\<close>: leading white space, a sign and a \<open>0x\<close> prefix are skipped, the longest
  run of hexadecimal digits is read, and no digit at all is NaN (\<open>None\<close>).\<close>

definition hex_value :: "jschar \<Rightarrow> nat option" where
  "hex_value c = (let n = unat c in
     if 48 \<le> n \<and> n \<le> 57 then Some (n - 48)
     else if 97 \<le> n \<and> n \<le> 102 then Some (n - 87)
     else if 65 \<le> n \<and> n \<le> 70 then Some (n - 55)
     else None)"

fun hex_run :: "nat \<Rightarrow> jsstring \<Rightarrow> nat" where
  "hex_run acc [] = acc"
| "hex_run acc (c # cs) = (case hex_value c of None \<Rightarrow> acc | Some d \<Rightarrow> hex_run (acc * 16 + d) cs)"

definition parse_sign :: "jsstring \<Rightarrow> int \<times> jsstring" where
  "parse_sign s = (case s of [] \<Rightarrow> (1, [])
     | c # cs \<Rightarrow> if c = of_char (CHR ''-'') then (-1, cs)
                 else if c = of_char (CHR ''+'') then (1, cs) else (1, s))"

definition strip_0x :: "jsstring \<Rightarrow> jsstring" where
  "strip_0x s = (if prefix (js ''0x'') s \<or> prefix (js ''0X'') s then drop 2 s else s)"

definition parseInt16 :: "jsstring \<Rightarrow> int option" where
  "parseInt16 s = (let (sg, r) = parse_sign (dropWhile is_ws s); d = strip_0x r
     in case d of [] \<Rightarrow> None
        | c # _ \<Rightarrow> if hex_value c = None then None else Some (sg * int (hex_run 0 d)))"

text \<open>Storing a number in a \<open>Uint8Array\<close> reduces it modulo 256; NaN is stored as 0.\<close>

definition to_uint8 :: "int option \<Rightarrow> byte" where
  "to_uint8 v = (case v of None \<Rightarrow> 0 | Some n \<Rightarrow> of_int n)"

fun fromHex_loop :: "jsstring \<Rightarrow> bytes" where
  "fromHex_loop (c # d # cs) = to_uint8 (parseInt16 [c, d]) # fromHex_loop cs"
| "fromHex_loop _ = []"

definition fromHex :: "jsstring \<Rightarrow> bytes" where
  "fromHex hex = fromHex_loop (if prefix (js ''0x'') hex then drop 2 hex else hex)"

definition concatBytes :: "bytes list \<Rightarrow> bytes" where
  "concatBytes parts = concat parts"

lemma toHex_pair: "toHex (b # bs) = [hex_digit (unat b div 16), hex_digit (unat b mod 16)] @ toHex bs"
  by (simp add: byte_toString16_def padStart_def hex_digit_def hex_digits_def js_def)

lemma length_toHex: "length (toHex bs) = 2 * length bs"
  by (induction bs) (simp_all add: toHex_pair del: toHex.simps(2))

lemma hex_digits_codes: "hex_digits = map of_nat ([48..<58] @ [97..<103])"
  by (simp add: hex_digits_def js_def upt_rec)

lemma unat_hex_digit:
  assumes "n < 16"
  shows "unat (hex_digit n) = (if n < 10 then n + 48 else n + 87)"
proof -
  have "hex_digit n = of_nat (if n < 10 then n + 48 else n + 87)"
  proof -
    have "n < length ([48..<58] @ [97..<103])" using assms by simp
    moreover have "([48..<58] @ [97..<103]) ! n = (if n < 10 then n + 48 else n + 87)"
      using assms nth_upt [of 48 n 58] nth_upt [of 97 "n - 10" 103]
      by (simp del: upt_rec_numeral add: nth_append)
    ultimately show ?thesis unfolding hex_digit_def hex_digits_codes by (simp only: nth_map)
  qed
  then show ?thesis using assms
    by (simp only: unsigned_of_nat) (auto intro!: take_bit_nat_eq_self)
qed

lemma hex_digit_neq:
  assumes "n < 16" "(of_char c :: nat) < 48 \<or> 102 < (of_char c :: nat) \<or> (of_char c :: nat) = 88"
  shows "hex_digit n \<noteq> of_char c"
proof
  assume "hex_digit n = of_char c"
  then have "unat (hex_digit n) = of_char c" by (simp only: unat_of_char16)
  then show False using assms by (auto simp: unat_hex_digit split: if_splits)
qed

lemma hex_digit_facts:
  assumes "n < 16"
  shows "hex_value (hex_digit n) = Some n" "\<not> is_ws (hex_digit n)"
    "hex_digit n \<noteq> of_char (CHR ''-'')" "hex_digit n \<noteq> of_char (CHR ''+'')"
    "hex_digit n \<noteq> of_char (CHR ''x'')" "hex_digit n \<noteq> of_char (CHR ''X'')"
proof -
  show "hex_value (hex_digit n) = Some n"
    using assms by (auto simp: hex_value_def unat_hex_digit Let_def)
  show "\<not> is_ws (hex_digit n)"
    using assms by (auto simp: is_ws_def ws_codes_def unat_hex_digit)
  show "hex_digit n \<noteq> of_char (CHR ''-'')" "hex_digit n \<noteq> of_char (CHR ''+'')"
    "hex_digit n \<noteq> of_char (CHR ''x'')" "hex_digit n \<noteq> of_char (CHR ''X'')"
    by (rule hex_digit_neq [OF assms], simp)+
qed

lemma parseInt16_pair:
  assumes "m < 16" "n < 16"
  shows "parseInt16 [hex_digit m, hex_digit n] = Some (int (m * 16 + n))"
  using hex_digit_facts [OF assms(1)] hex_digit_facts [OF assms(2)]
  by (simp add: parseInt16_def parse_sign_def strip_0x_def js_def)

lemma fromHex_loop_toHex: "fromHex_loop (toHex bs) = bs"
proof (induction bs)
  case (Cons b bs)
  have "unat b < 256" by (rule byte_less)
  then have h: "unat b div 16 < 16" "unat b mod 16 < 16" by auto
  have "to_uint8 (Some (int (unat b div 16 * 16 + unat b mod 16))) = b"
    by (simp only: div_mult_mod_eq) (simp add: to_uint8_def)
  with Cons show ?case
    by (simp only: toHex_pair append.simps fromHex_loop.simps parseInt16_pair [OF h])
qed simp

lemma toHex_no_0x: "\<not> prefix (js ''0x'') (toHex bs)"
proof (cases bs)
  case (Cons b bs')
  have "unat b mod 16 < 16" by simp
  then have "hex_digit (unat b mod 16) \<noteq> of_char (CHR ''x'')" by (rule hex_digit_facts)
  then show ?thesis unfolding Cons toHex_pair by (auto simp: js_def)
qed simp

lemma fromHex_toHex: "fromHex (toHex bs) = bs"
  by (simp add: fromHex_def toHex_no_0x fromHex_loop_toHex)

lemma toHex_inj: "toHex a = toHex b \<longleftrightarrow> a = b"
  by (metis fromHex_toHex)

lemma toHex_append: "toHex (a @ b) = toHex a @ toHex b"
  by (induction a) auto

subsection \<open>UTF-8\<close>

text \<open>\<open>TextEncoder\<close> reads the code units as Unicode scalar values, a surrogate without its
  partner as U+FFFD, and writes one to four bytes for each.\<close>

definition is_high :: "nat \<Rightarrow> bool" where
  "is_high c = (0xD800 \<le> c \<and> c \<le> 0xDBFF)"

definition is_low :: "nat \<Rightarrow> bool" where
  "is_low c = (0xDC00 \<le> c \<and> c \<le> 0xDFFF)"

fun scalars :: "nat list \<Rightarrow> nat list" where
  "scalars [] = []"
| "scalars [c] = [if is_high c \<or> is_low c then 0xFFFD else c]"
| "scalars (c # d # cs) =
     (if is_high c \<and> is_low d
      then (0x10000 + (c - 0xD800) * 0x400 + (d - 0xDC00)) # scalars cs
      else (if is_high c \<or> is_low c then 0xFFFD else c) # scalars (d # cs))"

definition utf8_bytes :: "nat \<Rightarrow> nat list" where
  "utf8_bytes c =
     (if c < 0x80 then [c]
      else if c < 0x800 then [0xC0 + c div 64, 0x80 + c mod 64]
      else if c < 0x10000 then [0xE0 + c div 4096, 0x80 + c div 64 mod 64, 0x80 + c mod 64]
      else [0xF0 + c div 262144, 0x80 + c div 4096 mod 64, 0x80 + c div 64 mod 64, 0x80 + c mod 64])"

definition utf8 :: "jsstring \<Rightarrow> bytes" where
  "utf8 s = map of_nat (concat (map utf8_bytes (scalars (map unat s))))"

text \<open>\<open>TextDecoder\<close>: the decoder of the Encoding standard. Its state is the code point so far,
  the number of continuation bytes still needed and the bounds for the next one; a byte
  outside the bounds gives U+FFFD and is read again as a first byte. A byte order mark at
  the start is dropped.\<close>

function utf8_decode :: "nat \<Rightarrow> nat \<Rightarrow> nat \<Rightarrow> nat \<Rightarrow> nat list \<Rightarrow> nat list" where
  "utf8_decode cp needed lo hi [] = (if needed = 0 then [] else [0xFFFD])"
| "utf8_decode cp needed lo hi (b # bs) =
     (if needed = 0 then
        if b \<le> 0x7F then b # utf8_decode 0 0 0x80 0xBF bs
        else if 0xC2 \<le> b \<and> b \<le> 0xDF then utf8_decode (b - 0xC0) 1 0x80 0xBF bs
        else if 0xE0 \<le> b \<and> b \<le> 0xEF then
          utf8_decode (b - 0xE0) 2 (if b = 0xE0 then 0xA0 else 0x80) (if b = 0xED then 0x9F else 0xBF) bs
        else if 0xF0 \<le> b \<and> b \<le> 0xF4 then
          utf8_decode (b - 0xF0) 3 (if b = 0xF0 then 0x90 else 0x80) (if b = 0xF4 then 0x8F else 0xBF) bs
        else 0xFFFD # utf8_decode 0 0 0x80 0xBF bs
      else if b < lo \<or> hi < b then 0xFFFD # utf8_decode 0 0 0x80 0xBF (b # bs)
      else if needed = 1 then (cp * 64 + b mod 64) # utf8_decode 0 0 0x80 0xBF bs
      else utf8_decode (cp * 64 + b mod 64) (needed - 1) 0x80 0xBF bs)"
  by pat_completeness auto
termination
  by (relation "measure (\<lambda>(cp, needed, lo, hi, bs). 2 * length bs + (if needed = 0 then 0 else 1))") auto

declare utf8_decode.simps(2) [simp del]

definition to_utf16 :: "nat \<Rightarrow> nat list" where
  "to_utf16 c = (if c < 0x10000 then [c]
     else [0xD800 + (c - 0x10000) div 0x400, 0xDC00 + (c - 0x10000) mod 0x400])"

definition strip_bom :: "nat list \<Rightarrow> nat list" where
  "strip_bom cs = (case cs of c # r \<Rightarrow> if c = 0xFEFF then r else cs | [] \<Rightarrow> [])"

definition fromUtf8 :: "bytes \<Rightarrow> jsstring" where
  "fromUtf8 bs = map of_nat (concat (map to_utf16 (strip_bom (utf8_decode 0 0 0x80 0xBF (map unat bs)))))"

text \<open>Strings whose surrogates are paired, the ones UTF-8 can carry.\<close>

fun well_formed :: "nat list \<Rightarrow> bool" where
  "well_formed [] = True"
| "well_formed [c] = (\<not> is_high c \<and> \<not> is_low c)"
| "well_formed (c # d # cs) =
     (if is_high c then is_low d \<and> well_formed cs else \<not> is_low c \<and> well_formed (d # cs))"

definition scalar :: "nat \<Rightarrow> bool" where
  "scalar c = (c < 0x110000 \<and> \<not> is_high c \<and> \<not> is_low c)"

lemma surrogate_pair:
  assumes "is_high c" "is_low d"
  shows "scalar (0x10000 + (c - 0xD800) * 0x400 + (d - 0xDC00))"
    and "to_utf16 (0x10000 + (c - 0xD800) * 0x400 + (d - 0xDC00)) = [c, d]"
proof -
  obtain h l where "c = 0xD800 + h" "d = 0xDC00 + l" "h < 0x400" "l < 0x400"
    using assms by (auto simp: is_high_def is_low_def le_iff_add)
  then show "scalar (0x10000 + (c - 0xD800) * 0x400 + (d - 0xDC00))"
    "to_utf16 (0x10000 + (c - 0xD800) * 0x400 + (d - 0xDC00)) = [c, d]"
    by (simp_all add: scalar_def is_high_def is_low_def to_utf16_def)
qed

lemma scalar_FFFD: "scalar 0xFFFD"
  by (simp add: scalar_def is_high_def is_low_def)

lemma scalar_BMP: "c < 65536 \<Longrightarrow> \<not> is_high c \<Longrightarrow> \<not> is_low c \<Longrightarrow> scalar c"
  by (simp add: scalar_def)

lemma scalars_scalar: "\<forall>c\<in>set s. c < 65536 \<Longrightarrow> \<forall>c\<in>set (scalars s). scalar c"
  by (induction s rule: scalars.induct)
    (simp_all add: surrogate_pair(1) scalar_FFFD scalar_BMP)

lemma scalars_inverse:
  "well_formed s \<Longrightarrow> \<forall>c\<in>set s. c < 65536 \<Longrightarrow> concat (map to_utf16 (scalars s)) = s"
proof (induction s rule: scalars.induct)
  case (3 c d cs)
  then show ?case
    by (cases "is_high c") (simp_all add: surrogate_pair(2), simp add: to_utf16_def)
qed (auto simp: to_utf16_def)

text \<open>One scalar value, written and read back.\<close>

lemma decode_cont:
  assumes "0 < n" "lo \<le> 0x80 + x" "0x80 + x \<le> hi" "x < 64"
  shows "utf8_decode cp n lo hi ((0x80 + x) # bs) =
    (if n = 1 then (cp * 64 + x) # utf8_decode 0 0 0x80 0xBF bs
     else utf8_decode (cp * 64 + x) (n - 1) 0x80 0xBF bs)"
proof -
  have "0x80 + x = x + 2 * 64" by simp
  then have m: "(0x80 + x) mod 64 = x"
    by (simp only: mod_mult_self1 mod_less [OF assms(4)])
  have "n \<noteq> 0" "\<not> (0x80 + x < lo \<or> hi < 0x80 + x)" using assms by auto
  then show ?thesis unfolding utf8_decode.simps(2) [of cp n lo hi "0x80 + x" bs]
    by (simp only: if_False m)
qed

lemma decode_lead:
  "2 \<le> y \<Longrightarrow> y < 32 \<Longrightarrow> utf8_decode 0 0 lo hi ((0xC0 + y) # bs) = utf8_decode y 1 0x80 0xBF bs"
  "z < 16 \<Longrightarrow> utf8_decode 0 0 lo hi ((0xE0 + z) # bs)
     = utf8_decode z 2 (if z = 0 then 0xA0 else 0x80) (if z = 13 then 0x9F else 0xBF) bs"
  "w < 5 \<Longrightarrow> utf8_decode 0 0 lo hi ((0xF0 + w) # bs)
     = utf8_decode w 3 (if w = 0 then 0x90 else 0x80) (if w = 4 then 0x8F else 0xBF) bs"
  by (simp_all add: utf8_decode.simps(2))

lemma utf8_bytes_cases:
  assumes "scalar c"
  obtains (one) "c < 0x80" "utf8_bytes c = [c]"
  | (two) y x where "c = y * 64 + x" "2 \<le> y" "y < 32" "x < 64" "utf8_bytes c = [0xC0 + y, 0x80 + x]"
  | (three) z y x where "c = (z * 64 + y) * 64 + x" "z < 16" "y < 64" "x < 64"
      "z = 0 \<Longrightarrow> 32 \<le> y" "z = 13 \<Longrightarrow> y < 32" "utf8_bytes c = [0xE0 + z, 0x80 + y, 0x80 + x]"
  | (four) w z y x where "c = ((w * 64 + z) * 64 + y) * 64 + x" "w < 5" "z < 64" "y < 64" "x < 64"
      "w = 0 \<Longrightarrow> 16 \<le> z" "w = 4 \<Longrightarrow> z < 16" "utf8_bytes c = [0xF0 + w, 0x80 + z, 0x80 + y, 0x80 + x]"
proof -
  define x y z w where "x = c mod 64" "y = c div 64 mod 64" "z = c div 4096 mod 64" "w = c div 262144"
  have lt: "x < 64" "y < 64" "z < 64" by (simp_all add: x_y_z_w_def)
  have "c div 4096 = c div 64 div 64" "c div 262144 = c div 4096 div 64"
    by (simp_all add: div_mult2_eq [symmetric])
  then have d: "c div 4096 = w * 64 + z" "c div 64 = (w * 64 + z) * 64 + y"
    and c: "c = ((w * 64 + z) * 64 + y) * 64 + x"
    unfolding x_y_z_w_def by (simp_all only: div_mult_mod_eq)
  have e: "c = 262144 * w + 4096 * z + 64 * y + x" using c by simp
  have s: "c < 0x110000" "c < 0xD800 \<or> 0xDFFF < c"
    using assms by (auto simp: scalar_def is_high_def is_low_def)
  consider "c < 0x80" | "0x80 \<le> c" "c < 0x800" | "0x800 \<le> c" "c < 0x10000" | "0x10000 \<le> c"
    by linarith
  then show ?thesis
  proof cases
    case 1
    then show ?thesis by (intro one) (simp_all add: utf8_bytes_def)
  next
    case 2
    then have "w = 0" "z = 0" unfolding x_y_z_w_def by simp_all
    with 2 c d lt show ?thesis
      by (intro two [of y x]) (simp_all add: utf8_bytes_def x_y_z_w_def(1) [symmetric])
  next
    case 3
    then have w: "w = 0" unfolding x_y_z_w_def by simp
    have "z = 0 \<Longrightarrow> 32 \<le> y" "z = 13 \<Longrightarrow> y < 32" "z < 16" using 3 s e w lt by simp_all
    moreover have "utf8_bytes c = [0xE0 + z, 0x80 + y, 0x80 + x]"
      using 3 d w lt by (simp add: utf8_bytes_def x_y_z_w_def(1) [symmetric])
    ultimately show ?thesis using e lt w by (intro three [of z y x]) simp_all
  next
    case 4
    have "w = 0 \<Longrightarrow> 16 \<le> z" "w = 4 \<Longrightarrow> z < 16" "w < 5" using 4 s e lt by simp_all
    moreover have "utf8_bytes c = [0xF0 + w, 0x80 + z, 0x80 + y, 0x80 + x]"
      using 4 by (simp add: utf8_bytes_def x_y_z_w_def)
    ultimately show ?thesis using e lt by (intro four [of w z y x]) simp_all
  qed
qed

lemma utf8_decode_bytes:
  assumes "scalar c"
  shows "utf8_decode 0 0 0x80 0xBF (utf8_bytes c @ bs) = c # utf8_decode 0 0 0x80 0xBF bs"
  using assms
  by (cases rule: utf8_bytes_cases)
    (auto simp: decode_lead decode_cont utf8_decode.simps(2) [of 0 0])

lemma utf8_decode_concat:
  "\<forall>c\<in>set cs. scalar c \<Longrightarrow> utf8_decode 0 0 0x80 0xBF (concat (map utf8_bytes cs)) = cs"
  by (induction cs) (simp_all add: utf8_decode_bytes)

lemma utf8_bytes_less: "scalar c \<Longrightarrow> b \<in> set (utf8_bytes c) \<Longrightarrow> b < 256"
  by (cases rule: utf8_bytes_cases) auto

lemma strip_bom_scalars: "s = [] \<or> hd s \<noteq> 0xFEFF \<Longrightarrow> strip_bom (scalars s) = scalars s"
  by (induction s rule: scalars.induct) (auto simp: strip_bom_def)

lemma utf8_roundtrip:
  assumes "well_formed (map unat s)" "take 1 s \<noteq> [0xFEFF]"
  shows "fromUtf8 (utf8 s) = s"
proof -
  let ?n = "map unat s"
  have small: "\<forall>c\<in>set ?n. c < 65536"
    by (auto intro: less_le_trans [OF unsigned_less])
  then have sc: "\<forall>c\<in>set (scalars ?n). scalar c" by (rule scalars_scalar)
  have bom: "?n = [] \<or> hd ?n \<noteq> 0xFEFF"
  proof (cases s)
    case (Cons c cs)
    then have "c \<noteq> 0xFEFF" using assms(2) by simp
    then have "unat c \<noteq> unat (0xFEFF :: jschar)" by (metis unsigned_word_eqI)
    then show ?thesis using Cons by simp
  qed simp
  have "map unat (utf8 s) = concat (map utf8_bytes (scalars ?n))"
    unfolding utf8_def map_map
    by (rule map_idI) (use sc utf8_bytes_less in \<open>auto simp: unsigned_of_nat take_bit_nat_eq_self_iff\<close>)
  then have "fromUtf8 (utf8 s) = map of_nat (concat (map to_utf16 (scalars ?n)))"
    by (simp add: fromUtf8_def utf8_decode_concat [OF sc] strip_bom_scalars [OF bom])
  also have "\<dots> = s"
    by (simp add: scalars_inverse [OF assms(1) small] map_idI)
  finally show ?thesis .
qed

subsection \<open>Properties\<close>

text \<open>The manual base64 decoder inverts the manual encoder on every byte string, although the
  decoder's 32-bit accumulator is never masked and wraps around from the sixth character on; and
  on any input it writes exactly the \<open>Math.floor(clean.length * 6 / 8)\<close> bytes it allocated.\<close>

theorem base64_roundtrip:
  "fromBase64_manual (toBase64_manual bs) = bs
   \<and> length (fromBase64_manual s) = length (strip_padding s) * 6 div 8"
  using b64_manual_roundtrip length_b64_loop [of 0 0 "strip_padding s"]
  by (simp add: fromBase64_manual_def mult.commute)

text \<open>Hex decoding inverts hex encoding, with and without the \<open>0x\<close> prefix.\<close>

theorem hex_roundtrip:
  "fromHex (toHex bs) = bs \<and> fromHex (js ''0x'' @ toHex bs) = bs"
proof -
  have "drop 2 (js ''0x'' @ toHex bs) = toHex bs" by (simp add: js_def)
  moreover have "prefix (js ''0x'') (js ''0x'' @ toHex bs)" by simp
  ultimately show ?thesis
    by (simp only: fromHex_toHex fromHex_def if_True fromHex_loop_toHex toHex_no_0x if_False simp_thms)
qed

text \<open>UTF-8 decoding inverts encoding on every string whose surrogates are paired and that does
  not start with a byte order mark (which the decoder drops).\<close>

theorem utf8_text_roundtrip:
  assumes "well_formed (map unat s)" "take 1 s \<noteq> [0xFEFF]"
  shows "fromUtf8 (utf8 s) = s"
  using assms by (rule utf8_roundtrip)

lemma utf8_text_roundtrip_witness: "fromUtf8 (utf8 [0xD83D, 0xDE00, 0xE9, 0x41]) = [0xD83D, 0xDE00, 0xE9, 0x41]"
  by (rule utf8_text_roundtrip) (simp_all add: is_high_def is_low_def)

end
