(* ===== verification/StoreTypes.thy ===== *)
theory StoreTypes
  imports Bytes
begin

text \<open>
  The contract of the device store, \<open>overlay/client/src/lib/store/types.ts\<close>, and the tables of
  \<open>schema.sql.ts\<close>: the stored shapes, the requests and responses, the database as the rows of
  its tables in rowid order, and the generic facts about a table with a primary key that the
  statements of the worker rest on (what an upsert and a delete do to lookup, keys and order).
\<close>

subsection \<open>Stored shapes\<close>

record StoredConversation =
  cv_conversationId :: jsstring
  cv_title :: "jsstring option"
  cv_endpoint :: "jsstring option"
  cv_model :: "jsstring option"
  cv_createdAt :: jsnum
  cv_updatedAt :: jsnum
  cv_convoJson :: jsstring

record StoredMessage =
  ms_messageId :: jsstring
  ms_conversationId :: jsstring
  ms_parentMessageId :: "jsstring option"
  ms_isCreatedByUser :: bool
  ms_text :: jsstring
  ms_contentJson :: "jsstring option"
  ms_model :: "jsstring option"
  ms_createdAt :: jsnum
  ms_updatedAt :: jsnum

text \<open>A 32-bit float is its bit pattern.\<close>

type_synonym f32 = "32 word"

record VectorChunk =
  vc_text :: jsstring
  vc_vec :: "f32 list"

record SearchHit =
  sh_messageId :: jsstring
  sh_conversationId :: jsstring
  sh_snippet :: jsstring
  sh_rank :: jsnum
  sh_createdAt :: jsnum

record StoredVector =
  sv_messageId :: jsstring
  sv_ord :: nat
  sv_text :: jsstring
  sv_vec :: "f32 list"

record StoredMemory =
  my_key :: jsstring
  my_value :: jsstring
  my_tokenCount :: nat
  my_updatedAt :: jsnum

record StoredAgent =
  ag_agentId :: jsstring
  ag_name :: jsstring
  ag_description :: "jsstring option"
  ag_instructions :: "jsstring option"
  ag_model :: "jsstring option"
  ag_provider :: "jsstring option"
  ag_tools :: "jsstring option"
  ag_configJson :: jsstring
  ag_createdAt :: jsnum
  ag_updatedAt :: jsnum

record StoredSkill =
  sk_skillId :: jsstring
  sk_name :: jsstring
  sk_description :: "jsstring option"
  sk_body :: jsstring
  sk_createdAt :: jsnum
  sk_updatedAt :: jsnum

subsection \<open>Requests and responses\<close>

datatype request_body =
    INIT jsstring
  | PERSIST_TURN jsstring StoredMessage StoredMessage StoredConversation
  | HYDRATE_CONVO jsstring
  | LIST_CONVOS "int option" "jsnum option"
  | FORK jsstring jsstring
  | IMPORT "json option"
  | DELETE_CONVO jsstring
  | SEARCH jsstring "int option" "jsnum option"
  | STORE_VECTORS jsstring "VectorChunk list"
  | HYDRATE_VECTORS
  | UPSERT_MEMORY jsstring jsstring "jsstring option"
  | DELETE_MEMORY jsstring
  | LIST_MEMORIES
  | UPSERT_AGENT StoredAgent
  | GET_AGENT jsstring
  | LIST_AGENTS
  | DELETE_AGENT jsstring
  | UPSERT_SKILL StoredSkill
  | GET_SKILL jsstring
  | LIST_SKILLS
  | DELETE_SKILL jsstring
  | CLEAR_ALL

record StoreRequest =
  sq_requestId :: jsstring
  sq_body :: request_body

text \<open>What a failing request throws: the store not open, the errors of SQLite and of its binding,
  a value of the wrong type, and the failures of opening.\<close>

datatype serror =
    NotInitialised
  | NoSuchTable
  | ForeignKey
  | UniqueViolation
  | UnsupportedBind
  | FtsSyntax
  | SqliteNoModule
  | NotADatabase
  | Fts5Missing
  | StoreTypeError

datatype response_body =
    OK "jsstring option"
  | ERROR serror
  | HYDRATE "StoredConversation option" "StoredMessage list"
  | CONVOS "StoredConversation list" "jsnum option"
  | HITS "SearchHit list" "jsnum option"
  | VECTORS "StoredVector list"
  | MEMORIES "StoredMemory list"
  | AGENTS "StoredAgent list"
  | AGENT "StoredAgent option"
  | SKILLS "StoredSkill list"
  | SKILL "StoredSkill option"

record StoreResponse =
  sr_requestId :: jsstring
  sr_body :: response_body

subsection \<open>The database\<close>

datatype table =
    TConversations | TMessages | TFts | TFiles | TChunks | TEmbeddings | TMessageEmbeddings
  | TMemories | TAgents | TSkills

text \<open>A row of \<open>messages\<close>: the implicit rowid, which the FTS index refers to, and the flag as the
  integer it is stored as.\<close>

record message_row =
  mr_rowid :: nat
  mr_messageId :: jsstring
  mr_conversationId :: jsstring
  mr_parentMessageId :: "jsstring option"
  mr_isCreatedByUser :: int
  mr_text :: jsstring
  mr_contentJson :: "jsstring option"
  mr_model :: "jsstring option"
  mr_createdAt :: jsnum
  mr_updatedAt :: jsnum

record embedding_row =
  er_messageId :: jsstring
  er_ord :: nat
  er_text :: jsstring
  er_vec :: bytes

record file_row =
  fr_fileId :: jsstring
  fr_conversationId :: "jsstring option"
  fr_name :: jsstring
  fr_mime :: "jsstring option"
  fr_createdAt :: jsnum

record chunk_row =
  cr_chunkId :: jsstring
  cr_fileId :: jsstring
  cr_ord :: nat
  cr_text :: jsstring

record chunk_embedding_row =
  ce_chunkId :: jsstring
  ce_vec :: bytes

text \<open>The tables that exist, whether \<open>message_embeddings\<close> exists in its old shape, with a foreign key, and the
  rows in rowid order. \<open>messages_fts\<close> is the content of the external index.\<close>

record sdb =
  tables :: "table list"
  me_fk :: bool
  user_version :: nat
  conversations :: "StoredConversation list"
  messages :: "message_row list"
  messages_fts :: "(nat \<times> jsstring) list"
  files :: "file_row list"
  chunks :: "chunk_row list"
  embeddings :: "chunk_embedding_row list"
  message_embeddings :: "embedding_row list"
  memories :: "StoredMemory list"
  agents :: "StoredAgent list"
  skills :: "StoredSkill list"

definition empty_db :: sdb where
  "empty_db = \<lparr>tables = [], me_fk = False, user_version = 0, conversations = [], messages = [],
     messages_fts = [], files = [], chunks = [], embeddings = [], message_embeddings = [],
     memories = [], agents = [], skills = []\<rparr>"

definition SCHEMA_VERSION :: nat where "SCHEMA_VERSION = 5"

definition schema_tables :: "table list" where
  "schema_tables = [TConversations, TMessages, TFts, TFiles, TChunks, TEmbeddings,
     TMessageEmbeddings, TMemories, TAgents, TSkills]"

subsection \<open>Tables with a primary key\<close>

text \<open>\<open>INSERT ... ON CONFLICT(key) DO UPDATE SET ...\<close>: an existing row is updated where it stands
  (\<open>upd old new\<close>), a new row goes to the end.\<close>

definition upsert_row :: "('r \<Rightarrow> 'k) \<Rightarrow> ('r \<Rightarrow> 'r \<Rightarrow> 'r) \<Rightarrow> 'r \<Rightarrow> 'r list \<Rightarrow> 'r list" where
  "upsert_row key upd r rows =
     (if key r \<in> key ` set rows then map (\<lambda>x. if key x = key r then upd x r else x) rows
      else rows @ [r])"

definition delete_row :: "('r \<Rightarrow> 'k) \<Rightarrow> 'k \<Rightarrow> 'r list \<Rightarrow> 'r list" where
  "delete_row key k rows = filter (\<lambda>x. key x \<noteq> k) rows"

definition find_row :: "('r \<Rightarrow> 'k) \<Rightarrow> 'k \<Rightarrow> 'r list \<Rightarrow> 'r option" where
  "find_row key k rows = (case filter (\<lambda>x. key x = k) rows of [] \<Rightarrow> None | x # _ \<Rightarrow> Some x)"

definition unique :: "('r \<Rightarrow> 'k) \<Rightarrow> 'r list \<Rightarrow> bool" where
  "unique key rows = distinct (map key rows)"

lemma unique_Nil [simp]: "unique key []"
  by (simp add: unique_def)

lemma unique_upsert [intro]:
  assumes "unique key rows" "\<And>x. key (upd x r) = key x"
  shows "unique key (upsert_row key upd r rows)"
proof -
  have "map key (map (\<lambda>x. if key x = key r then upd x r else x) rows) = map key rows"
    using assms(2) by (simp add: map_eq_conv)
  then show ?thesis using assms(1)
    by (auto simp: unique_def upsert_row_def simp del: map_map)
qed

lemma unique_delete [intro]: "unique key rows \<Longrightarrow> unique key (delete_row key k rows)"
  by (simp add: unique_def delete_row_def distinct_map_filter)

lemma unique_filter [intro]: "unique key rows \<Longrightarrow> unique key (filter P rows)"
  by (simp add: unique_def distinct_map_filter)

lemma find_row_Nil [simp]: "find_row key k [] = None"
  by (simp add: find_row_def)

lemma find_row_Cons [simp]: "find_row key k (x # xs) = (if key x = k then Some x else find_row key k xs)"
  by (simp add: find_row_def)

lemma find_row_append:
  "find_row key k (xs @ ys) = (case find_row key k xs of Some x \<Rightarrow> Some x | None \<Rightarrow> find_row key k ys)"
  by (induction xs) auto

lemma find_row_None_iff: "find_row key k rows = None \<longleftrightarrow> k \<notin> key ` set rows"
  by (induction rows) auto

lemma find_row_SomeD: "find_row key k rows = Some x \<Longrightarrow> x \<in> set rows \<and> key x = k"
  by (induction rows) (auto split: if_splits)

lemma find_row_unique: "unique key rows \<Longrightarrow> x \<in> set rows \<Longrightarrow> find_row key (key x) rows = Some x"
  by (induction rows) (auto simp: unique_def)

lemma find_row_delete: "find_row key k (delete_row key k' rows) = (if k = k' then None else find_row key k rows)"
  by (induction rows) (auto simp: delete_row_def)

lemma find_row_upsert:
  assumes "\<And>x. key (upd x r) = key x"
  shows "find_row key k (upsert_row key upd r rows) =
    (if k = key r
     then Some (case find_row key k rows of None \<Rightarrow> r | Some x \<Rightarrow> upd x r)
     else find_row key k rows)"
proof -
  have m: "find_row key k' (map (\<lambda>x. if key x = key r then upd x r else x) xs) =
      map_option (\<lambda>x. if key x = key r then upd x r else x) (find_row key k' xs)" for k' xs
    using assms by (induction xs) auto
  show ?thesis
  proof (cases "key r \<in> key ` set rows")
    case True
    then obtain x where x: "find_row key (key r) rows = Some x"
      using find_row_None_iff [of key "key r" rows] by (cases "find_row key (key r) rows") auto
    then have kx: "key x = key r" by (auto dest: find_row_SomeD)
    have u: "upsert_row key upd r rows = map (\<lambda>x. if key x = key r then upd x r else x) rows"
      using True by (simp add: upsert_row_def)
    show ?thesis
    proof (cases "k = key r")
      case True
      then show ?thesis using x kx by (simp add: u m)
    next
      case False
      then show ?thesis
        by (cases "find_row key k rows") (auto simp: u m dest: find_row_SomeD)
    qed
  next
    case False
    then have "find_row key (key r) rows = None" by (simp add: find_row_None_iff)
    then show ?thesis using False
      by (auto simp: upsert_row_def find_row_append split: option.splits)
  qed
qed

lemma set_delete_row: "set (delete_row key k rows) = {x \<in> set rows. key x \<noteq> k}"
  by (auto simp: delete_row_def)

lemma keys_upsert:
  assumes "\<And>x. key (upd x r) = key x"
  shows "key ` set (upsert_row key upd r rows) = insert (key r) (key ` set rows)"
proof (cases "key r \<in> key ` set rows")
  case True
  have "map key (map (\<lambda>x. if key x = key r then upd x r else x) rows) = map key rows"
    using assms by simp
  then have "key ` set (map (\<lambda>x. if key x = key r then upd x r else x) rows) = key ` set rows"
    by (metis set_map)
  then show ?thesis using True by (simp add: upsert_row_def insert_absorb)
next
  case False
  then show ?thesis by (simp add: upsert_row_def)
qed

lemma length_upsert:
  "length (upsert_row key upd r rows) = (if key r \<in> key ` set rows then length rows else Suc (length rows))"
  by (simp add: upsert_row_def)

end
