(* ===== verification/StoreWorker.thy ===== *)
theory StoreWorker
  imports StoreTypes "HOL-Library.List_Lexorder"
begin

text \<open>
  The store worker, \<open>overlay/client/src/lib/store/worker/store.worker.ts\<close>: opening the encrypted
  database, every statement it runs, the transactions around them and the dispatch of requests
  one at a time. A statement is the function on the tables that its SQL text denotes; FTS5
  matching, the clock, the random identifiers, the JSON codec and SHA-256 are parameters.
\<close>

subsection \<open>Parameters and state\<close>

text \<open>What deleting the file through the pool does: its \<open>unlink\<close> removes the file, without one
  \<open>wipeFiles\<close> removes every file, and a failure is ignored.\<close>

datatype pool_delete = UnlinkFile | WipeFiles | DeleteFails

record store_env =
  e_now :: "nat \<Rightarrow> jsnum"
  e_uuid :: "nat \<Rightarrow> jsstring"
  e_parse :: "jsstring \<Rightarrow> json option"
  e_stringify :: "json \<Rightarrow> jsstring"
  e_toString :: "json \<Rightarrow> jsstring"
  e_dateParse :: "jsstring \<Rightarrow> jsnum option"
  e_numText :: "jsnum \<Rightarrow> jsstring"
  e_sha256 :: "bytes \<Rightarrow> bytes"
  e_fts :: "(nat \<times> jsstring) list \<Rightarrow> jsstring \<Rightarrow> (nat \<times> jsstring \<times> jsnum) list option"
  e_module_ok :: "nat \<Rightarrow> bool"
  e_fts5 :: bool
  e_isolated :: bool
  e_has_pool :: bool
  e_pool_ok :: "nat \<Rightarrow> bool"
  e_open_ok :: "nat \<Rightarrow> bool"
  e_pool_delete :: pool_delete

text \<open>An open connection: where the data lives, the key given by \<open>PRAGMA key\<close> and the contents.
  A file on disk is the contents under the key they were written with, or unreadable.\<close>

datatype location = Memory | File jsstring

record conn =
  cn_loc :: location
  cn_key :: jsstring
  cn_db :: sdb

datatype disk_file = Enc jsstring sdb | Damaged

text \<open>The worker's variables \<open>db\<close>, \<open>persistent\<close> and \<open>poolUtil\<close> (whether the pool is installed),
  the files on disk, and the number of values drawn from the clock and the random source.\<close>

record wstate =
  w_db :: "conn option"
  w_persistent :: bool
  w_pool :: bool
  w_disk :: "jsstring \<Rightarrow> disk_file option"
  w_seed :: nat

type_synonym 'a op = "(wstate, serror, 'a) exc"

definition draw :: "nat op" where
  "draw = (\<lambda>s. (Inr (w_seed s), s\<lparr>w_seed := Suc (w_seed s)\<rparr>))"

definition dateNow :: "store_env \<Rightarrow> jsnum op" where
  "dateNow env = andThen draw (\<lambda>k. ret (e_now env k))"

definition randomId :: "store_env \<Rightarrow> jsstring op" where
  "randomId env = andThen draw (\<lambda>k. ret (e_uuid env k))"

definition mustDb :: "conn op" where
  "mustDb = (\<lambda>s. case w_db s of None \<Rightarrow> throw NotInitialised s | Some c \<Rightarrow> ret c s)"

text \<open>Replacing the contents of the open database; a file-backed one is written through.\<close>

definition put_db :: "sdb \<Rightarrow> wstate \<Rightarrow> wstate" where
  "put_db d s = (case w_db s of
     None \<Rightarrow> s
   | Some c \<Rightarrow>
       (case cn_loc c of
          Memory \<Rightarrow> s\<lparr>w_db := Some (c\<lparr>cn_db := d\<rparr>)\<rparr>
        | File f \<Rightarrow> s\<lparr>w_db := Some (c\<lparr>cn_db := d\<rparr>), w_disk := (w_disk s)(f \<mapsto> Enc (cn_key c) d)\<rparr>))"

text \<open>\<open>prepare\<close> fails on a table that does not exist.\<close>

definition prepare :: "table list \<Rightarrow> sdb op" where
  "prepare ts = andThen mustDb (\<lambda>c.
     if set ts \<subseteq> set (tables (cn_db c)) then ret (cn_db c) else throw NoSuchTable)"

text \<open>A statement that returns no rows: it changes the tables as a whole or fails and changes
  nothing.\<close>

definition run :: "table list \<Rightarrow> (sdb \<Rightarrow> serror + sdb) \<Rightarrow> unit op" where
  "run ts f = andThen (prepare ts) (\<lambda>d.
     case f d of Inl e \<Rightarrow> throw e | Inr d' \<Rightarrow> (\<lambda>s. ret () (put_db d' s)))"

definition query :: "table list \<Rightarrow> (sdb \<Rightarrow> 'a) \<Rightarrow> 'a op" where
  "query ts f = andThen (prepare ts) (\<lambda>d. ret (f d))"

text \<open>\<open>tx\<close>: the contents at BEGIN come back on a throw.\<close>

definition tx :: "'a op \<Rightarrow> 'a op" where
  "tx fn = andThen mustDb (\<lambda>c s.
     case fn s of
       (Inl e, s') \<Rightarrow> (Inl e, put_db (cn_db c) s')
     | (Inr a, s') \<Rightarrow> (Inr a, s'))"

subsection \<open>Vectors and rows\<close>

text \<open>The little-endian bytes of a \<open>Float32Array\<close>, and back: incomplete trailing bytes are
  dropped.\<close>

definition f32_bytes :: "f32 \<Rightarrow> bytes" where
  "f32_bytes w = [ucast w, ucast (drop_bit 8 w), ucast (drop_bit 16 w), ucast (drop_bit 24 w)]"

definition vecToBlob :: "f32 list \<Rightarrow> bytes" where
  "vecToBlob v = concat (map f32_bytes v)"

fun blobToVec :: "bytes \<Rightarrow> f32 list" where
  "blobToVec (a # b # c # d # bs) =
     (ucast a OR push_bit 8 (ucast b) OR push_bit 16 (ucast c) OR push_bit 24 (ucast d)) # blobToVec bs"
| "blobToVec _ = []"

definition rowToConvo :: "StoredConversation \<Rightarrow> StoredConversation" where
  "rowToConvo r = \<lparr>cv_conversationId = cv_conversationId r, cv_title = cv_title r,
     cv_endpoint = cv_endpoint r, cv_model = cv_model r, cv_createdAt = cv_createdAt r,
     cv_updatedAt = cv_updatedAt r, cv_convoJson = cv_convoJson r\<rparr>"

definition rowToMessage :: "message_row \<Rightarrow> StoredMessage" where
  "rowToMessage r = \<lparr>ms_messageId = mr_messageId r, ms_conversationId = mr_conversationId r,
     ms_parentMessageId = mr_parentMessageId r, ms_isCreatedByUser = (mr_isCreatedByUser r = 1),
     ms_text = mr_text r, ms_contentJson = mr_contentJson r, ms_model = mr_model r,
     ms_createdAt = mr_createdAt r, ms_updatedAt = mr_updatedAt r\<rparr>"

subsection \<open>Opening\<close>

definition DB_FILE_BASE :: jsstring where "DB_FILE_BASE = js ''caladon-store-v1''"

definition dbFileFor :: "store_env \<Rightarrow> jsstring \<Rightarrow> jsstring" where
  "dbFileFor env hexKey =
     DB_FILE_BASE @ js ''-'' @ toHex (take 8 (e_sha256 env (utf8 hexKey))) @ js ''.db''"

text \<open>\<open>openDb\<close>: the file through the cipher VFS when the page is isolated and the pool installs,
  otherwise an in-memory database. Opening a file does not read it.\<close>

definition openDb :: "store_env \<Rightarrow> jsstring \<Rightarrow> location op" where
  "openDb env dbFile = andThen draw (\<lambda>k s.
     if e_isolated env \<and> e_has_pool env \<and> (w_pool s \<or> e_pool_ok env k) then
       if e_open_ok env k then ret (File dbFile) (s\<lparr>w_pool := True, w_persistent := True\<rparr>)
       else ret Memory (s\<lparr>w_pool := True, w_persistent := False\<rparr>)
     else ret Memory (s\<lparr>w_persistent := False\<rparr>))"

text \<open>The connection after \<open>PRAGMA key\<close>, and the first read of its pages.\<close>

definition connect :: "location \<Rightarrow> jsstring \<Rightarrow> unit op" where
  "connect loc hexKey = (\<lambda>s. ret () (s\<lparr>w_db := Some \<lparr>cn_loc = loc, cn_key = hexKey,
     cn_db = (case loc of Memory \<Rightarrow> empty_db
       | File f \<Rightarrow> (case w_disk s f of Some (Enc k d) \<Rightarrow> if k = hexKey then d else empty_db | _ \<Rightarrow> empty_db))\<rparr>\<rparr>))"

definition first_read :: "unit op" where
  "first_read = (\<lambda>s. case w_db s of
     None \<Rightarrow> throw NotInitialised s
   | Some c \<Rightarrow>
       (case cn_loc c of
          Memory \<Rightarrow> ret () s
        | File f \<Rightarrow>
            (case w_disk s f of
               None \<Rightarrow> ret () s
             | Some (Enc k d) \<Rightarrow> if k = cn_key c then ret () s else throw NotADatabase s
             | Some Damaged \<Rightarrow> throw NotADatabase s)))"

text \<open>The self-heal path: close, delete the file, open and key again.\<close>

definition recreate :: "store_env \<Rightarrow> jsstring \<Rightarrow> jsstring \<Rightarrow> unit op" where
  "recreate env dbFile hexKey =
     andThen (\<lambda>s. ret () (s\<lparr>w_db := None, w_disk :=
         (case e_pool_delete env of
            UnlinkFile \<Rightarrow> (w_disk s)(dbFile := None)
          | WipeFiles \<Rightarrow> (\<lambda>_. None)
          | DeleteFails \<Rightarrow> w_disk s)\<rparr>)) (\<lambda>_.
     andThen (openDb env dbFile) (\<lambda>loc.
     andThen (connect loc hexKey) (\<lambda>_. first_read)))"

text \<open>The migration and the idempotent schema: a table that exists is left as it is.\<close>

definition migrate :: "sdb \<Rightarrow> sdb" where
  "migrate d = (if me_fk d
     then d\<lparr>tables := filter (\<lambda>t. t \<noteq> TMessageEmbeddings) (tables d), me_fk := False, message_embeddings := []\<rparr>
     else d)"

definition add_tables :: "table list \<Rightarrow> sdb \<Rightarrow> sdb" where
  "add_tables ts d = d\<lparr>tables := tables d @ filter (\<lambda>t. t \<notin> set (tables d)) ts\<rparr>"

definition apply_schema :: "store_env \<Rightarrow> unit op" where
  "apply_schema env = andThen mustDb (\<lambda>c s.
     if TFts \<notin> set (tables (cn_db c)) \<and> \<not> e_fts5 env
     then throw SqliteNoModule (put_db (add_tables [TConversations, TMessages] (cn_db c)) s)
     else ret () (put_db ((add_tables schema_tables (cn_db c))\<lparr>user_version := SCHEMA_VERSION\<rparr>) s))"

definition check_fts :: "unit op" where
  "check_fts = andThen mustDb (\<lambda>c. if TFts \<in> set (tables (cn_db c)) then ret () else throw Fts5Missing)"

definition init :: "store_env \<Rightarrow> jsstring \<Rightarrow> unit op" where
  "init env hexKey = (\<lambda>s.
     if w_db s \<noteq> None then ret () s
     else
       andThen draw (\<lambda>k.
       if \<not> e_module_ok env k then throw SqliteNoModule
       else
       andThen (openDb env (dbFileFor env hexKey)) (\<lambda>loc.
       andThen (connect loc hexKey) (\<lambda>_.
       andThen (\<lambda>s. if w_persistent s
                     then catch first_read (\<lambda>_. recreate env (dbFileFor env hexKey) hexKey) s
                     else ret () s) (\<lambda>_.
       andThen mustDb (\<lambda>c.
       andThen (\<lambda>s. ret () (put_db (migrate (cn_db c)) s)) (\<lambda>_.
       andThen (apply_schema env) (\<lambda>_.
       check_fts))))))) s)"

subsection \<open>Conversations and messages\<close>

definition convo_upsert :: "StoredConversation \<Rightarrow> sdb \<Rightarrow> sdb" where
  "convo_upsert c d = d\<lparr>conversations :=
     upsert_row cv_conversationId
       (\<lambda>old new. old\<lparr>cv_title := cv_title new, cv_endpoint := cv_endpoint new, cv_model := cv_model new,
          cv_updatedAt := cv_updatedAt new, cv_convoJson := cv_convoJson new\<rparr>)
       c (conversations d)\<rparr>"

definition upsertConvo :: "StoredConversation \<Rightarrow> unit op" where
  "upsertConvo c = run [TConversations] (\<lambda>d. Inr (convo_upsert c d))"

definition next_rowid :: "message_row list \<Rightarrow> nat" where
  "next_rowid rows = Suc (foldr (\<lambda>r n. max (mr_rowid r) n) rows 0)"

definition message_row_of :: "StoredMessage \<Rightarrow> nat \<Rightarrow> message_row" where
  "message_row_of m rid = \<lparr>mr_rowid = rid, mr_messageId = ms_messageId m,
     mr_conversationId = ms_conversationId m, mr_parentMessageId = ms_parentMessageId m,
     mr_isCreatedByUser = (if ms_isCreatedByUser m then 1 else 0), mr_text = ms_text m,
     mr_contentJson = ms_contentJson m, mr_model = ms_model m, mr_createdAt = ms_createdAt m,
     mr_updatedAt = ms_updatedAt m\<rparr>"

text \<open>\<open>DO UPDATE\<close> sets every column but the key and \<open>createdAt\<close>; the rowid stays.\<close>

definition message_update :: "message_row \<Rightarrow> message_row \<Rightarrow> message_row" where
  "message_update old new = new\<lparr>mr_rowid := mr_rowid old, mr_messageId := mr_messageId old,
     mr_createdAt := mr_createdAt old\<rparr>"

text \<open>The triggers \<open>messages_ai\<close>, \<open>messages_au\<close> and \<open>messages_ad\<close>, present when the index is.\<close>

definition fts_add :: "message_row \<Rightarrow> sdb \<Rightarrow> sdb" where
  "fts_add r d = (if TFts \<in> set (tables d) then d\<lparr>messages_fts := messages_fts d @ [(mr_rowid r, mr_text r)]\<rparr> else d)"

definition fts_remove :: "message_row \<Rightarrow> sdb \<Rightarrow> sdb" where
  "fts_remove r d = (if TFts \<in> set (tables d)
     then d\<lparr>messages_fts := filter (\<lambda>e. e \<noteq> (mr_rowid r, mr_text r)) (messages_fts d)\<rparr> else d)"

definition message_upsert :: "StoredMessage \<Rightarrow> sdb \<Rightarrow> serror + sdb" where
  "message_upsert m d =
     (if ms_conversationId m \<notin> cv_conversationId ` set (conversations d) then Inl ForeignKey
      else
        let new = message_row_of m (next_rowid (messages d));
            d' = d\<lparr>messages := upsert_row mr_messageId message_update new (messages d)\<rparr>
        in Inr (case find_row mr_messageId (ms_messageId m) (messages d) of
             None \<Rightarrow> fts_add new d'
           | Some old \<Rightarrow> fts_add (message_update old new) (fts_remove old d')))"

definition upsertMessage :: "StoredMessage \<Rightarrow> unit op" where
  "upsertMessage m = run [TMessages] (message_upsert m)"

definition persistTurn :: "StoredConversation \<Rightarrow> StoredMessage \<Rightarrow> StoredMessage \<Rightarrow> unit op" where
  "persistTurn c userMsg assistantMsg = tx (
     andThen (upsertConvo c) (\<lambda>_.
     andThen (upsertMessage userMsg) (\<lambda>_.
     upsertMessage assistantMsg)))"

definition select_convo :: "jsstring \<Rightarrow> sdb \<Rightarrow> StoredConversation option" where
  "select_convo cid d = map_option rowToConvo (find_row cv_conversationId cid (conversations d))"

definition select_messages :: "jsstring \<Rightarrow> sdb \<Rightarrow> StoredMessage list" where
  "select_messages cid d = map rowToMessage
     (sort_key mr_createdAt (sort_key mr_rowid
       (filter (\<lambda>r. mr_conversationId r = cid) (messages d))))"

definition hydrateConvo :: "jsstring \<Rightarrow> (StoredConversation option \<times> StoredMessage list) op" where
  "hydrateConvo cid =
     andThen (query [TConversations] (select_convo cid)) (\<lambda>conversation.
     andThen (query [TMessages] (select_messages cid)) (\<lambda>ms.
     ret (conversation, ms)))"

text \<open>A cursor is used when it is truthy: 0 counts as none.\<close>

definition use_cursor :: "jsnum option \<Rightarrow> jsnum option" where
  "use_cursor cursor = (case cursor of Some c \<Rightarrow> if c = 0 then None else Some c | None \<Rightarrow> None)"

definition clamp_limit :: "int \<Rightarrow> int \<Rightarrow> nat" where
  "clamp_limit limit cap = nat (max 1 (min limit cap))"

definition convo_page :: "nat \<Rightarrow> jsnum option \<Rightarrow> sdb \<Rightarrow> StoredConversation list" where
  "convo_page n cursor d = take n (sort_desc cv_updatedAt
     (case cursor of None \<Rightarrow> conversations d | Some c \<Rightarrow> filter (\<lambda>r. cv_updatedAt r < c) (conversations d)))"

definition listConvos :: "int \<Rightarrow> jsnum option \<Rightarrow> (StoredConversation list \<times> jsnum option) op" where
  "listConvos limit cursor =
     (let lim = clamp_limit limit 200 in
      andThen (query [TConversations] (convo_page (Suc lim) (use_cursor cursor))) (\<lambda>rows.
      let hasMore = lim < length rows;
          page = (if hasMore then take lim rows else rows);
          convos = map rowToConvo page
      in ret (convos, if hasMore then Some (cv_updatedAt (last convos)) else None)))"

definition fts_remove_all :: "message_row list \<Rightarrow> sdb \<Rightarrow> sdb" where
  "fts_remove_all rs d = foldl (\<lambda>d r. fts_remove r d) d rs"

text \<open>ON DELETE CASCADE takes the messages with it, and the delete trigger their index entries.\<close>

definition convo_delete :: "jsstring \<Rightarrow> sdb \<Rightarrow> sdb" where
  "convo_delete cid d =
     fts_remove_all (filter (\<lambda>r. mr_conversationId r = cid) (messages d))
       (d\<lparr>conversations := delete_row cv_conversationId cid (conversations d),
          messages := filter (\<lambda>r. mr_conversationId r \<noteq> cid) (messages d)\<rparr>)"

definition deleteConvo :: "jsstring \<Rightarrow> unit op" where
  "deleteConvo cid = run [TConversations] (\<lambda>d. Inr (convo_delete cid d))"

subsection \<open>Fork\<close>

text \<open>\<open>new Map(all.map(...)).get(id)\<close>: of rows with the same id the last one wins.\<close>

definition by_id :: "StoredMessage list \<Rightarrow> jsstring \<Rightarrow> StoredMessage option" where
  "by_id all mid = find_row ms_messageId mid (rev all)"

text \<open>A parent pointer that is null or empty ends the walk.\<close>

definition parent_of :: "StoredMessage \<Rightarrow> jsstring option" where
  "parent_of m = (case ms_parentMessageId m of Some p \<Rightarrow> if p = [] then None else Some p | None \<Rightarrow> None)"

function walk :: "StoredMessage list \<Rightarrow> jsstring list \<Rightarrow> jsstring option \<Rightarrow> StoredMessage list" where
  "walk all guard None = []"
| "walk all guard (Some mid) =
     (case by_id all mid of
        None \<Rightarrow> []
      | Some m \<Rightarrow> if mid \<in> set guard then [] else m # walk all (mid # guard) (parent_of m))"
  by pat_completeness auto
termination
proof (relation "measure (\<lambda>(all, guard, cur). length (filter (\<lambda>m. ms_messageId m \<notin> set guard) all))", simp, goal_cases)
  case (1 all guard mid m)
  then have "m \<in> set all" "ms_messageId m = mid"
    by (auto simp: by_id_def dest: find_row_SomeD)
  then have m: "m \<in> set (filter (\<lambda>m. ms_messageId m \<notin> set guard) all)" using 1 by simp
  have "filter (\<lambda>m. ms_messageId m \<notin> set (mid # guard)) all =
    filter (\<lambda>m. ms_messageId m \<noteq> mid) (filter (\<lambda>m. ms_messageId m \<notin> set guard) all)"
    by (auto intro: filter_cong)
  also have "length \<dots> < length (filter (\<lambda>m. ms_messageId m \<notin> set guard) all)"
    using m \<open>ms_messageId m = mid\<close> by (intro length_filter_less [of m]) auto
  finally show ?case by simp
qed

definition lineage :: "StoredMessage list \<Rightarrow> jsstring \<Rightarrow> StoredMessage list" where
  "lineage all fromMessageId = rev (walk all [] (Some fromMessageId))"

text \<open>\<open>parsed.conversationId = id\<close> on parsed JSON: only an object or an array takes a property, and
  an array does not serialize it.\<close>

fun set_field :: "jsstring \<Rightarrow> json \<Rightarrow> (jsstring \<times> json) list \<Rightarrow> (jsstring \<times> json) list" where
  "set_field k v [] = [(k, v)]"
| "set_field k v ((k', v') # kvs) = (if k' = k then (k, v) # kvs else (k', v') # set_field k v kvs)"

definition rekey_json :: "store_env \<Rightarrow> jsstring \<Rightarrow> jsstring \<Rightarrow> jsstring" where
  "rekey_json env convoJson newId =
     (case e_parse env convoJson of
        Some (JObj kvs) \<Rightarrow> e_stringify env (JObj (set_field (js ''conversationId'') (JStr newId) kvs))
      | Some (JArr a) \<Rightarrow> e_stringify env (JArr a)
      | _ \<Rightarrow> convoJson)"

definition fork_convo :: "store_env \<Rightarrow> StoredConversation option \<Rightarrow> jsstring \<Rightarrow> jsnum \<Rightarrow> StoredConversation" where
  "fork_convo env src newId now = \<lparr>cv_conversationId = newId,
     cv_title = Some (case src of
        Some c \<Rightarrow> nullish (cv_title c) (js ''Conversation'') @ js '' (fork)''
      | None \<Rightarrow> js ''Conversation (fork)''),
     cv_endpoint = (case src of Some c \<Rightarrow> cv_endpoint c | None \<Rightarrow> None),
     cv_model = (case src of Some c \<Rightarrow> cv_model c | None \<Rightarrow> None),
     cv_createdAt = now, cv_updatedAt = now,
     cv_convoJson = rekey_json env (case src of Some c \<Rightarrow> cv_convoJson c | None \<Rightarrow> js ''{}'') newId\<rparr>"

text \<open>The new ids, drawn in lineage order.\<close>

fun draw_ids :: "store_env \<Rightarrow> StoredMessage list \<Rightarrow> (jsstring \<times> jsstring) list op" where
  "draw_ids env [] = ret []"
| "draw_ids env (m # ms) =
     andThen (randomId env) (\<lambda>i.
     andThen (draw_ids env ms) (\<lambda>r. ret ((ms_messageId m, i) # r)))"

definition fork_message :: "(jsstring \<times> jsstring) list \<Rightarrow> jsstring \<Rightarrow> jsnum \<Rightarrow> StoredMessage \<Rightarrow> StoredMessage" where
  "fork_message idMap newConvoId now m = m\<lparr>ms_messageId := the (map_of idMap (ms_messageId m)),
     ms_conversationId := newConvoId,
     ms_parentMessageId := (case parent_of m of Some p \<Rightarrow> map_of idMap p | None \<Rightarrow> None),
     ms_updatedAt := now\<rparr>"

definition forkConversation :: "store_env \<Rightarrow> jsstring \<Rightarrow> jsstring \<Rightarrow> jsstring op" where
  "forkConversation env conversationId fromMessageId = tx (
     andThen (query [TMessages] (\<lambda>d. map rowToMessage
        (filter (\<lambda>r. mr_conversationId r = conversationId) (messages d)))) (\<lambda>all.
     let lin = lineage all fromMessageId in
     andThen (query [TConversations] (select_convo conversationId)) (\<lambda>src.
     andThen (dateNow env) (\<lambda>now.
     andThen (randomId env) (\<lambda>newConvoId.
     andThen (upsertConvo (fork_convo env src newConvoId now)) (\<lambda>_.
     andThen (draw_ids env lin) (\<lambda>idMap.
     andThen (forEach (\<lambda>m. upsertMessage (fork_message idMap newConvoId now m)) lin) (\<lambda>_.
     ret newConvoId))))))))"

subsection \<open>Import\<close>

text \<open>\<open>String(v)\<close>.\<close>

definition js_String :: "store_env \<Rightarrow> json \<Rightarrow> jsstring" where
  "js_String env v = (case v of JStr s \<Rightarrow> s | _ \<Rightarrow> e_toString env v)"

text \<open>Binding a value to a TEXT column: null, a string, a number or a boolean as text; an object
  or an array is not bindable.\<close>

definition bind_text :: "store_env \<Rightarrow> json option \<Rightarrow> serror + jsstring option" where
  "bind_text env v =
     (case v of
        None \<Rightarrow> Inr None
      | Some JNull \<Rightarrow> Inr None
      | Some (JStr s) \<Rightarrow> Inr (Some s)
      | Some (JNum n) \<Rightarrow> Inr (Some (e_numText env n))
      | Some (JBool b) \<Rightarrow> Inr (Some (js (if b then ''1'' else ''0'')))
      | Some (JArr _) \<Rightarrow> Inl UnsupportedBind
      | Some (JObj _) \<Rightarrow> Inl UnsupportedBind)"

definition toMs :: "store_env \<Rightarrow> json option \<Rightarrow> jsnum option" where
  "toMs env v =
     (case v of
        None \<Rightarrow> None
      | Some JNull \<Rightarrow> None
      | Some (JNum n) \<Rightarrow> Some n
      | Some w \<Rightarrow> e_dateParse env (js_String env w))"

text \<open>The text parts of a content array.\<close>

definition part_text :: "json \<Rightarrow> jsstring list" where
  "part_text part =
     (case getProp part (js ''text'') of
        Some (JStr s) \<Rightarrow> [s]
      | Some (JObj kvs) \<Rightarrow> (case map_of kvs (js ''value'') of Some (JStr s) \<Rightarrow> [s] | _ \<Rightarrow> [])
      | _ \<Rightarrow> [])"

definition extractText :: "json list \<Rightarrow> jsstring" where
  "extractText content = join [10] (concat (map part_text content))"

definition import_text :: "json \<Rightarrow> jsstring" where
  "import_text m =
     (case getProp m (js ''text'') of
        Some (JStr s) \<Rightarrow> s
      | _ \<Rightarrow> (case getProp m (js ''content'') of Some (JArr a) \<Rightarrow> extractText a | _ \<Rightarrow> []))"

fun json_truthy :: "json \<Rightarrow> bool" where
  "json_truthy JNull = False"
| "json_truthy (JBool b) = b"
| "json_truthy (JNum n) = (n \<noteq> 0)"
| "json_truthy (JStr s) = (s \<noteq> [])"
| "json_truthy (JArr _) = True"
| "json_truthy (JObj _) = True"

definition import_by_user :: "json \<Rightarrow> bool" where
  "import_by_user m =
     (case defined (getProp m (js ''isCreatedByUser'')) of
        Some v \<Rightarrow> json_truthy v
      | None \<Rightarrow> getProp m (js ''sender'') = Some (JStr (js ''User'')))"

definition from_bind :: "serror + 'a \<Rightarrow> 'a op" where
  "from_bind x = (case x of Inl e \<Rightarrow> throw e | Inr a \<Rightarrow> ret a)"

text \<open>An id that is given, or a fresh one.\<close>

definition id_or_random :: "store_env \<Rightarrow> json option \<Rightarrow> jsstring op" where
  "id_or_random env v = (case defined v of Some x \<Rightarrow> ret (js_String env x) | None \<Rightarrow> randomId env)"

definition import_message :: "store_env \<Rightarrow> jsstring \<Rightarrow> jsnum \<Rightarrow> json \<Rightarrow> unit op" where
  "import_message env conversationId now m =
     (if m = JNull then throw StoreTypeError
      else
      andThen (id_or_random env (getProp m (js ''messageId''))) (\<lambda>messageId.
      andThen (prepare [TMessages]) (\<lambda>_.
      andThen (from_bind (bind_text env (getProp m (js ''parentMessageId'')))) (\<lambda>parent.
      andThen (from_bind (bind_text env (getProp m (js ''model'')))) (\<lambda>model.
      upsertMessage
        \<lparr>ms_messageId = messageId, ms_conversationId = conversationId, ms_parentMessageId = parent,
         ms_isCreatedByUser = import_by_user m, ms_text = import_text m,
         ms_contentJson = map_option (e_stringify env) (defined (getProp m (js ''content''))),
         ms_model = model,
         ms_createdAt = nullish (toMs env (getProp m (js ''createdAt''))) now,
         ms_updatedAt = nullish (toMs env (getProp m (js ''updatedAt''))) now\<rparr>)))))"

definition import_body :: "store_env \<Rightarrow> json \<Rightarrow> unit op" where
  "import_body env raw =
     andThen (id_or_random env
       (case defined (getProp raw (js ''conversationId'')) of Some v \<Rightarrow> Some v | None \<Rightarrow> getProp raw (js ''id'')))
       (\<lambda>conversationId.
     andThen (dateNow env) (\<lambda>now.
     andThen (prepare [TConversations]) (\<lambda>_.
     andThen (from_bind (bind_text env (getProp raw (js ''title'')))) (\<lambda>title.
     andThen (from_bind (bind_text env (getProp raw (js ''endpoint'')))) (\<lambda>endpoint.
     andThen (from_bind (bind_text env (getProp raw (js ''model'')))) (\<lambda>model.
     andThen (upsertConvo
       \<lparr>cv_conversationId = conversationId, cv_title = title, cv_endpoint = endpoint, cv_model = model,
        cv_createdAt = nullish (toMs env (getProp raw (js ''createdAt''))) now,
        cv_updatedAt = nullish (toMs env (getProp raw (js ''updatedAt''))) now,
        cv_convoJson = e_stringify env raw\<rparr>) (\<lambda>_.
     forEach (import_message env conversationId now)
       (case getProp raw (js ''messages'') of Some (JArr ms) \<Rightarrow> ms | _ \<Rightarrow> []))))))))"

text \<open>Only objects (arrays among them) are read; null and primitive values are skipped.\<close>

definition import_convo :: "store_env \<Rightarrow> json \<Rightarrow> unit op" where
  "import_convo env raw =
     (case raw of
        JObj _ \<Rightarrow> import_body env raw
      | JArr _ \<Rightarrow> import_body env raw
      | _ \<Rightarrow> ret ())"

definition importChatExport :: "store_env \<Rightarrow> json option \<Rightarrow> unit op" where
  "importChatExport env v = tx (forEach (import_convo env)
     (case v of Some (JArr cs) \<Rightarrow> cs | Some w \<Rightarrow> [w] | None \<Rightarrow> []))"

subsection \<open>Search\<close>

definition quote_char :: jschar where "quote_char = 34"

definition fts_stripped :: "jschar \<Rightarrow> bool" where
  "fts_stripped c = (c \<in> set (quote_char # js ''()*:^-''))"

definition fts_token :: "jsstring \<Rightarrow> jsstring" where
  "fts_token t = trim (filter (\<lambda>c. \<not> fts_stripped c) t)"

definition sanitizeFtsQuery :: "jsstring \<Rightarrow> jsstring" where
  "sanitizeFtsQuery q = join (js '' '')
     (map (\<lambda>t. [quote_char] @ t @ [quote_char])
       (filter (\<lambda>t. t \<noteq> []) (map fts_token (split_runs is_ws [] q))))"

text \<open>The rows of the join: the matches of the index whose message exists, best rank first.\<close>

definition fts_rows :: "store_env \<Rightarrow> jsstring \<Rightarrow> jsnum option \<Rightarrow> nat \<Rightarrow> sdb \<Rightarrow> SearchHit list option" where
  "fts_rows env match cursor n d =
     (case e_fts env (messages_fts d) match of
        None \<Rightarrow> None
      | Some ms \<Rightarrow> Some (take n (sort_key sh_rank (concat (map (\<lambda>(rid, snip, rank).
          map (\<lambda>r. \<lparr>sh_messageId = mr_messageId r, sh_conversationId = mr_conversationId r,
                    sh_snippet = snip, sh_rank = rank, sh_createdAt = mr_createdAt r\<rparr>)
              (filter (\<lambda>r. mr_rowid r = rid) (messages d)))
          (filter (\<lambda>(rid, snip, rank). case cursor of None \<Rightarrow> True | Some c \<Rightarrow> c < rank) ms))))))"

definition search :: "store_env \<Rightarrow> jsstring \<Rightarrow> int \<Rightarrow> jsnum option \<Rightarrow> (SearchHit list \<times> jsnum option) op" where
  "search env queryStr limit cursor =
     (let lim = clamp_limit limit 100; match = sanitizeFtsQuery queryStr in
      if match = [] then ret ([], None)
      else
      andThen (query [TFts, TMessages] (fts_rows env match (use_cursor cursor) (Suc lim))) (\<lambda>rs.
      case rs of
        None \<Rightarrow> throw FtsSyntax
      | Some rows \<Rightarrow>
          let hasMore = lim < length rows;
              hits = (if hasMore then take lim rows else rows)
          in ret (hits, if hasMore then Some (sh_rank (last hits)) else None)))"

subsection \<open>Vectors\<close>

definition vectors_delete :: "jsstring \<Rightarrow> sdb \<Rightarrow> sdb" where
  "vectors_delete owner d = d\<lparr>message_embeddings := filter (\<lambda>r. er_messageId r \<noteq> owner) (message_embeddings d)\<rparr>"

definition vector_insert :: "embedding_row \<Rightarrow> sdb \<Rightarrow> serror + sdb" where
  "vector_insert r d =
     (if (er_messageId r, er_ord r) \<in> (\<lambda>x. (er_messageId x, er_ord x)) ` set (message_embeddings d)
      then Inl UniqueViolation
      else Inr (d\<lparr>message_embeddings := message_embeddings d @ [r]\<rparr>))"

definition storeVectors :: "jsstring \<Rightarrow> VectorChunk list \<Rightarrow> unit op" where
  "storeVectors owner cs = tx (
     andThen (run [TMessageEmbeddings] (\<lambda>d. Inr (vectors_delete owner d))) (\<lambda>_.
     forEach (\<lambda>(i, c). run [TMessageEmbeddings] (vector_insert
         \<lparr>er_messageId = owner, er_ord = i, er_text = vc_text c, er_vec = vecToBlob (vc_vec c)\<rparr>))
       (zip [0..<length cs] cs)))"

text \<open>\<open>ORDER BY messageId, ord\<close>: text compares by its UTF-8 bytes.\<close>

definition select_vectors :: "sdb \<Rightarrow> StoredVector list" where
  "select_vectors d = map (\<lambda>r. \<lparr>sv_messageId = er_messageId r, sv_ord = er_ord r, sv_text = er_text r,
       sv_vec = blobToVec (er_vec r)\<rparr>)
     (sort_key (\<lambda>r. utf8 (er_messageId r)) (sort_key er_ord (message_embeddings d)))"

definition hydrateVectors :: "StoredVector list op" where
  "hydrateVectors = query [TMessageEmbeddings] select_vectors"

subsection \<open>Memories, agents and skills\<close>

definition estimateTokens :: "jsstring \<Rightarrow> nat" where
  "estimateTokens s = max 1 ((length s + 3) div 4)"

definition memory_put :: "StoredMemory \<Rightarrow> sdb \<Rightarrow> sdb" where
  "memory_put m d = d\<lparr>memories := upsert_row my_key
     (\<lambda>old new. old\<lparr>my_value := my_value new, my_tokenCount := my_tokenCount new, my_updatedAt := my_updatedAt new\<rparr>)
     m (memories d)\<rparr>"

definition memory_remove :: "jsstring \<Rightarrow> sdb \<Rightarrow> sdb" where
  "memory_remove k d = d\<lparr>memories := delete_row my_key k (memories d)\<rparr>"

definition upsertMemory :: "store_env \<Rightarrow> jsstring \<Rightarrow> jsstring \<Rightarrow> jsstring option \<Rightarrow> unit op" where
  "upsertMemory env key value previousKey = tx (
     andThen (case previousKey of
         Some p \<Rightarrow> if p \<noteq> [] \<and> p \<noteq> key then run [TMemories] (\<lambda>d. Inr (memory_remove p d)) else ret ()
       | None \<Rightarrow> ret ()) (\<lambda>_.
     andThen (dateNow env) (\<lambda>now.
     run [TMemories] (\<lambda>d. Inr (memory_put \<lparr>my_key = key, my_value = value,
       my_tokenCount = estimateTokens value, my_updatedAt = now\<rparr> d)))))"

definition deleteMemory :: "jsstring \<Rightarrow> unit op" where
  "deleteMemory k = run [TMemories] (\<lambda>d. Inr (memory_remove k d))"

definition listMemories :: "StoredMemory list op" where
  "listMemories = query [TMemories] (\<lambda>d. sort_desc my_updatedAt (memories d))"

definition agent_put :: "StoredAgent \<Rightarrow> sdb \<Rightarrow> sdb" where
  "agent_put a d = d\<lparr>agents := upsert_row ag_agentId
     (\<lambda>old new. new\<lparr>ag_agentId := ag_agentId old, ag_createdAt := ag_createdAt old\<rparr>) a (agents d)\<rparr>"

definition agent_remove :: "jsstring \<Rightarrow> sdb \<Rightarrow> sdb" where
  "agent_remove k d = d\<lparr>agents := delete_row ag_agentId k (agents d)\<rparr>"

definition agent_find :: "jsstring \<Rightarrow> sdb \<Rightarrow> StoredAgent option" where
  "agent_find k d = find_row ag_agentId k (agents d)"

definition agent_list :: "sdb \<Rightarrow> StoredAgent list" where
  "agent_list d = sort_desc ag_updatedAt (agents d)"

definition upsertAgent :: "StoredAgent \<Rightarrow> unit op" where
  "upsertAgent a = run [TAgents] (\<lambda>d. Inr (agent_put a d))"

definition getAgent :: "jsstring \<Rightarrow> StoredAgent option op" where
  "getAgent k = query [TAgents] (agent_find k)"

definition listAgents :: "StoredAgent list op" where
  "listAgents = query [TAgents] agent_list"

definition deleteAgent :: "jsstring \<Rightarrow> unit op" where
  "deleteAgent k = run [TAgents] (\<lambda>d. Inr (agent_remove k d))"

definition skill_put :: "StoredSkill \<Rightarrow> sdb \<Rightarrow> sdb" where
  "skill_put a d = d\<lparr>skills := upsert_row sk_skillId
     (\<lambda>old new. new\<lparr>sk_skillId := sk_skillId old, sk_createdAt := sk_createdAt old\<rparr>) a (skills d)\<rparr>"

definition skill_remove :: "jsstring \<Rightarrow> sdb \<Rightarrow> sdb" where
  "skill_remove k d = d\<lparr>skills := delete_row sk_skillId k (skills d)\<rparr>"

definition skill_find :: "jsstring \<Rightarrow> sdb \<Rightarrow> StoredSkill option" where
  "skill_find k d = find_row sk_skillId k (skills d)"

definition skill_list :: "sdb \<Rightarrow> StoredSkill list" where
  "skill_list d = sort_desc sk_updatedAt (skills d)"

definition upsertSkill :: "StoredSkill \<Rightarrow> unit op" where
  "upsertSkill a = run [TSkills] (\<lambda>d. Inr (skill_put a d))"

definition getSkill :: "jsstring \<Rightarrow> StoredSkill option op" where
  "getSkill k = query [TSkills] (skill_find k)"

definition listSkills :: "StoredSkill list op" where
  "listSkills = query [TSkills] skill_list"

definition deleteSkill :: "jsstring \<Rightarrow> unit op" where
  "deleteSkill k = run [TSkills] (\<lambda>d. Inr (skill_remove k d))"

subsection \<open>Clearing\<close>

text \<open>\<open>DELETE FROM conversations\<close> cascades as a single delete does.\<close>

definition convos_clear :: "sdb \<Rightarrow> sdb" where
  "convos_clear d =
     (let ids = cv_conversationId ` set (conversations d) in
      fts_remove_all (filter (\<lambda>r. mr_conversationId r \<in> ids) (messages d))
        (d\<lparr>conversations := [], messages := filter (\<lambda>r. mr_conversationId r \<notin> ids) (messages d)\<rparr>))"

definition clearAll :: "unit op" where
  "clearAll =
     andThen (tx (
       andThen (run [TMessageEmbeddings] (\<lambda>d. Inr (d\<lparr>message_embeddings := []\<rparr>))) (\<lambda>_.
       andThen (run [TEmbeddings] (\<lambda>d. Inr (d\<lparr>embeddings := []\<rparr>))) (\<lambda>_.
       andThen (run [TChunks] (\<lambda>d. Inr (d\<lparr>chunks := []\<rparr>))) (\<lambda>_.
       andThen (run [TFiles] (\<lambda>d. Inr (d\<lparr>files := []\<rparr>))) (\<lambda>_.
       andThen (run [TMessages] (\<lambda>d. Inr (fts_remove_all (messages d) (d\<lparr>messages := []\<rparr>)))) (\<lambda>_.
       andThen (run [TConversations] (\<lambda>d. Inr (convos_clear d))) (\<lambda>_.
       andThen (run [TMemories] (\<lambda>d. Inr (d\<lparr>memories := []\<rparr>))) (\<lambda>_.
       andThen (run [TAgents] (\<lambda>d. Inr (d\<lparr>agents := []\<rparr>))) (\<lambda>_.
       run [TSkills] (\<lambda>d. Inr (d\<lparr>skills := []\<rparr>)))))))))))) (\<lambda>_.
     run [TFts, TMessages] (\<lambda>d. Inr (d\<lparr>messages_fts := map (\<lambda>r. (mr_rowid r, mr_text r)) (messages d)\<rparr>)))"

subsection \<open>Dispatch\<close>

definition reply :: "response_body \<Rightarrow> response_body op" where "reply b = ret b"

fun handle_body :: "store_env \<Rightarrow> request_body \<Rightarrow> response_body op" where
  "handle_body env (INIT k) = andThen (init env k) (\<lambda>_. reply (OK None))"
| "handle_body env (PERSIST_TURN cid u a c) = andThen (persistTurn c u a) (\<lambda>_. reply (OK None))"
| "handle_body env (HYDRATE_CONVO cid) = andThen (hydrateConvo cid) (\<lambda>(c, ms). reply (HYDRATE c ms))"
| "handle_body env (LIST_CONVOS limit cursor) =
     andThen (listConvos (nullish limit 50) cursor) (\<lambda>(cs, n). reply (CONVOS cs n))"
| "handle_body env (FORK cid mid) = andThen (forkConversation env cid mid) (\<lambda>i. reply (OK (Some i)))"
| "handle_body env (IMPORT j) = andThen (importChatExport env j) (\<lambda>_. reply (OK None))"
| "handle_body env (DELETE_CONVO cid) = andThen (deleteConvo cid) (\<lambda>_. reply (OK None))"
| "handle_body env (SEARCH q limit cursor) =
     andThen (search env q (nullish limit 20) cursor) (\<lambda>(hs, n). reply (HITS hs n))"
| "handle_body env (STORE_VECTORS mid cs) = andThen (storeVectors mid cs) (\<lambda>_. reply (OK None))"
| "handle_body env HYDRATE_VECTORS = andThen hydrateVectors (\<lambda>vs. reply (VECTORS vs))"
| "handle_body env (UPSERT_MEMORY k v p) = andThen (upsertMemory env k v p) (\<lambda>_. reply (OK None))"
| "handle_body env (DELETE_MEMORY k) = andThen (deleteMemory k) (\<lambda>_. reply (OK None))"
| "handle_body env LIST_MEMORIES = andThen listMemories (\<lambda>ms. reply (MEMORIES ms))"
| "handle_body env (UPSERT_AGENT a) = andThen (upsertAgent a) (\<lambda>_. reply (OK None))"
| "handle_body env (GET_AGENT k) = andThen (getAgent k) (\<lambda>a. reply (AGENT a))"
| "handle_body env LIST_AGENTS = andThen listAgents (\<lambda>as. reply (AGENTS as))"
| "handle_body env (DELETE_AGENT k) = andThen (deleteAgent k) (\<lambda>_. reply (OK None))"
| "handle_body env (UPSERT_SKILL a) = andThen (upsertSkill a) (\<lambda>_. reply (OK None))"
| "handle_body env (GET_SKILL k) = andThen (getSkill k) (\<lambda>a. reply (SKILL a))"
| "handle_body env LIST_SKILLS = andThen listSkills (\<lambda>as. reply (SKILLS as))"
| "handle_body env (DELETE_SKILL k) = andThen (deleteSkill k) (\<lambda>_. reply (OK None))"
| "handle_body env CLEAR_ALL = andThen clearAll (\<lambda>_. reply (OK None))"

text \<open>One turn of the queue: the response carries the id of its request, an exception becomes an
  ERROR.\<close>

definition handle :: "store_env \<Rightarrow> StoreRequest \<Rightarrow> wstate \<Rightarrow> StoreResponse \<times> wstate" where
  "handle env req s =
     (case handle_body env (sq_body req) s of
        (Inl e, s') \<Rightarrow> (\<lparr>sr_requestId = sq_requestId req, sr_body = ERROR e\<rparr>, s')
      | (Inr b, s') \<Rightarrow> (\<lparr>sr_requestId = sq_requestId req, sr_body = b\<rparr>, s'))"

text \<open>The promise chain: requests are taken in the order they were posted.\<close>

fun run_queue :: "store_env \<Rightarrow> StoreRequest list \<Rightarrow> wstate \<Rightarrow> StoreResponse list \<times> wstate" where
  "run_queue env [] s = ([], s)"
| "run_queue env (q # qs) s =
     (let (r, s') = handle env q s; (rs, s'') = run_queue env qs s' in (r # rs, s''))"

definition new_worker :: "(jsstring \<Rightarrow> disk_file option) \<Rightarrow> wstate" where
  "new_worker disk = \<lparr>w_db = None, w_persistent = False, w_pool = False, w_disk = disk, w_seed = 0\<rparr>"

end
