(* ===== verification/StoreInvariant.thy ===== *)
theory StoreInvariant
  imports StoreWorker
begin

text \<open>
  The invariant of the device store and its preservation: keys are unique, every message belongs
  to a conversation, and the full-text index holds exactly the messages. Every request keeps it,
  whether it succeeds or fails; a request that fails leaves the database as it was.
\<close>

subsection \<open>The invariant\<close>

definition fts_synced :: "sdb \<Rightarrow> bool" where
  "fts_synced d \<longleftrightarrow> set (messages_fts d) = (\<lambda>r. (mr_rowid r, mr_text r)) ` set (messages d)"

definition keys_ok :: "sdb \<Rightarrow> bool" where
  "keys_ok d \<longleftrightarrow> unique cv_conversationId (conversations d) \<and> unique mr_messageId (messages d)
     \<and> unique mr_rowid (messages d) \<and> unique my_key (memories d) \<and> unique ag_agentId (agents d)
     \<and> unique sk_skillId (skills d) \<and> unique (\<lambda>r. (er_messageId r, er_ord r)) (message_embeddings d)"

definition refs_ok :: "sdb \<Rightarrow> bool" where
  "refs_ok d \<longleftrightarrow> (\<forall>r\<in>set (messages d). mr_conversationId r \<in> cv_conversationId ` set (conversations d))"

definition db_ok :: "sdb \<Rightarrow> bool" where
  "db_ok d \<longleftrightarrow> keys_ok d \<and> refs_ok d
     \<and> (if TFts \<in> set (tables d) then fts_synced d
        else TMessages \<notin> set (tables d) \<and> messages d = [] \<and> messages_fts d = [])"

definition worker_ok :: "wstate \<Rightarrow> bool" where
  "worker_ok s \<longleftrightarrow> (case w_db s of None \<Rightarrow> True | Some c \<Rightarrow> db_ok (cn_db c))
     \<and> (\<forall>f k d. w_disk s f = Some (Enc k d) \<longrightarrow> db_ok d)"

lemma db_ok_empty [simp]: "db_ok empty_db"
  by (simp add: db_ok_def empty_db_def keys_ok_def refs_ok_def)

subsection \<open>Statements\<close>

lemma put_db_ok: "worker_ok s \<Longrightarrow> db_ok d \<Longrightarrow> worker_ok (put_db d s)"
  by (auto simp: worker_ok_def put_db_def split: option.splits location.splits)

lemma worker_okD: "worker_ok s \<Longrightarrow> w_db s = Some c \<Longrightarrow> db_ok (cn_db c)"
  by (simp add: worker_ok_def)

lemma keeps_query [intro]: "keeps P (query ts f)"
  by (auto simp: keeps_def query_def prepare_def mustDb_def andThen_def throw_def ret_def
      split: option.splits)

lemma keeps_prepare [intro]: "keeps P (prepare ts)"
  by (auto simp: keeps_def prepare_def mustDb_def andThen_def throw_def ret_def split: option.splits)

lemma keeps_mustDb [intro]: "keeps P mustDb"
  by (auto simp: keeps_def mustDb_def throw_def ret_def split: option.splits)

lemma keeps_draw: "keeps worker_ok draw"
  by (auto simp: keeps_def draw_def worker_ok_def)

lemma keeps_clock [intro]: "keeps worker_ok (dateNow env)" "keeps worker_ok (randomId env)"
  unfolding dateNow_def randomId_def by (intro keeps_andThen keeps_draw keeps_ret)+

lemma keeps_run:
  assumes "\<And>d d'. db_ok d \<Longrightarrow> set ts \<subseteq> set (tables d) \<Longrightarrow> f d = Inr d' \<Longrightarrow> db_ok d'"
  shows "keeps worker_ok (run ts f)"
  using assms
  by (auto simp: keeps_def run_def prepare_def mustDb_def andThen_def throw_def ret_def
      split: option.splits sum.splits intro!: put_db_ok dest: worker_okD)

lemma keeps_tx:
  assumes "keeps worker_ok fn"
  shows "keeps worker_ok (tx fn)"
  unfolding keeps_def
proof (intro allI impI)
  fix s assume s: "worker_ok s"
  obtain r t where t: "fn s = (r, t)" by fastforce
  have "worker_ok t" using assms s t by (metis keepsD snd_conv)
  then show "worker_ok (snd (tx fn s))"
    using s t by (auto simp: tx_def mustDb_def andThen_def throw_def ret_def
        split: option.splits sum.splits intro!: put_db_ok dest: worker_okD)
qed

subsection \<open>The tables under each statement\<close>

lemma fts_fields:
  "tables (fts_add r d) = tables d" "tables (fts_remove r d) = tables d"
  "messages (fts_add r d) = messages d" "messages (fts_remove r d) = messages d"
  "conversations (fts_add r d) = conversations d" "conversations (fts_remove r d) = conversations d"
  "memories (fts_add r d) = memories d" "memories (fts_remove r d) = memories d"
  "agents (fts_add r d) = agents d" "agents (fts_remove r d) = agents d"
  "skills (fts_add r d) = skills d" "skills (fts_remove r d) = skills d"
  "message_embeddings (fts_add r d) = message_embeddings d"
  "message_embeddings (fts_remove r d) = message_embeddings d"
  by (simp_all add: fts_add_def fts_remove_def)

lemma fts_remove_all_fields:
  "tables (fts_remove_all rs d) = tables d" "messages (fts_remove_all rs d) = messages d"
  "conversations (fts_remove_all rs d) = conversations d" "memories (fts_remove_all rs d) = memories d"
  "agents (fts_remove_all rs d) = agents d" "skills (fts_remove_all rs d) = skills d"
  "message_embeddings (fts_remove_all rs d) = message_embeddings d"
  by (induction rs arbitrary: d) (simp_all add: fts_remove_all_def fts_fields)

lemma fts_remove_all_fts:
  "TFts \<in> set (tables d) \<Longrightarrow> set (messages_fts (fts_remove_all rs d))
    = set (messages_fts d) - (\<lambda>r. (mr_rowid r, mr_text r)) ` set rs"
proof (induction rs arbitrary: d)
  case (Cons r rs)
  have "fts_remove_all (r # rs) d = fts_remove_all rs (fts_remove r d)" by (simp add: fts_remove_all_def)
  then show ?case using Cons by (auto simp: fts_fields) (auto simp: fts_remove_def)
qed (simp add: fts_remove_all_def)

lemma fts_remove_all_none: "TFts \<notin> set (tables d) \<Longrightarrow> fts_remove_all rs d = d"
  by (induction rs) (simp_all add: fts_remove_all_def fts_remove_def)

lemma next_rowid_fresh: "r \<in> set rows \<Longrightarrow> mr_rowid r < next_rowid rows"
proof -
  assume "r \<in> set rows"
  then have "mr_rowid r \<le> foldr (\<lambda>r n. max (mr_rowid r) n) rows 0"
    by (induction rows) auto
  then show ?thesis by (simp add: next_rowid_def)
qed

lemma convo_upsert_ok: "db_ok d \<Longrightarrow> db_ok (convo_upsert c d)"
proof -
  let ?u = "\<lambda>old new. old\<lparr>cv_title := cv_title new, cv_endpoint := cv_endpoint new, cv_model := cv_model new,
          cv_updatedAt := cv_updatedAt new, cv_convoJson := cv_convoJson new\<rparr>"
  assume d: "db_ok d"
  have "unique cv_conversationId (upsert_row cv_conversationId ?u c (conversations d))"
    using d by (intro unique_upsert) (simp_all add: db_ok_def keys_ok_def)
  moreover have "cv_conversationId ` set (upsert_row cv_conversationId ?u c (conversations d))
      = insert (cv_conversationId c) (cv_conversationId ` set (conversations d))"
    by (rule keys_upsert) simp
  ultimately show ?thesis
    using d by (auto simp: db_ok_def keys_ok_def refs_ok_def convo_upsert_def fts_synced_def)
qed

lemma set_upsert_message:
  assumes "unique mr_messageId rows"
  shows "set (upsert_row mr_messageId message_update new rows) =
    (case find_row mr_messageId (mr_messageId new) rows of
       None \<Rightarrow> insert new (set rows)
     | Some old \<Rightarrow> insert (message_update old new) (set rows - {old}))"
proof (cases "find_row mr_messageId (mr_messageId new) rows")
  case None
  then have "mr_messageId new \<notin> mr_messageId ` set rows" by (simp add: find_row_None_iff)
  then show ?thesis using None by (simp add: upsert_row_def)
next
  case (Some old)
  then have o: "old \<in> set rows" "mr_messageId old = mr_messageId new"
    by (auto dest: find_row_SomeD)
  have u: "x = old" if "x \<in> set rows" "mr_messageId x = mr_messageId new" for x
    using assms that o by (metis find_row_unique option.inject)
  have "(\<lambda>x. if mr_messageId x = mr_messageId new then message_update x new else x) ` set rows
      = (\<lambda>x. if x = old then message_update old new else x) ` set rows"
  proof (rule image_cong)
    fix x assume x: "x \<in> set rows"
    have "mr_messageId x = mr_messageId new \<longleftrightarrow> x = old" using u [OF x] o(2) by blast
    then show "(if mr_messageId x = mr_messageId new then message_update x new else x)
        = (if x = old then message_update old new else x)" by simp
  qed simp
  also have "\<dots> = insert (message_update old new) (set rows - {old})"
    using o(1) by auto
  finally have "set (map (\<lambda>x. if mr_messageId x = mr_messageId new then message_update x new else x) rows)
      = insert (message_update old new) (set rows - {old})" by simp
  moreover have "mr_messageId new \<in> mr_messageId ` set rows" using o by (metis imageI)
  ultimately show ?thesis using Some by (simp add: upsert_row_def)
qed

lemma message_upsert_ok:
  assumes d: "db_ok d" and t: "TMessages \<in> set (tables d)" and r: "message_upsert m d = Inr d'"
  shows "db_ok d'"
proof -
  define new where "new = message_row_of m (next_rowid (messages d))"
  define ms' where "ms' = upsert_row mr_messageId message_update new (messages d)"
  have n: "mr_messageId new = ms_messageId m" "mr_conversationId new = ms_conversationId m"
    "mr_rowid new = next_rowid (messages d)"
    by (simp_all add: new_def message_row_of_def)
  have fts: "TFts \<in> set (tables d)" using d t by (auto simp: db_ok_def split: if_splits)
  have k: "unique mr_messageId (messages d)" "unique mr_rowid (messages d)"
    using d by (simp_all add: db_ok_def keys_ok_def)
  have conv: "ms_conversationId m \<in> cv_conversationId ` set (conversations d)"
    using r by (auto simp: message_upsert_def split: if_splits)
  have u1: "unique mr_messageId ms'"
    unfolding ms'_def using k(1) by (intro unique_upsert) (simp_all add: message_update_def)
  note sm = set_upsert_message [OF k(1), of new, folded ms'_def, unfolded n]
  show ?thesis
  proof (cases "find_row mr_messageId (ms_messageId m) (messages d)")
    case None
    then have d': "d' = fts_add new (d\<lparr>messages := ms'\<rparr>)"
      using r conv by (simp add: message_upsert_def Let_def new_def ms'_def)
    have ms: "ms' = messages d @ [new]"
      using None by (simp add: ms'_def upsert_row_def n find_row_None_iff)
    have "next_rowid (messages d) \<notin> mr_rowid ` set (messages d)"
      using next_rowid_fresh by (metis imageE less_irrefl)
    then have "unique mr_rowid ms'"
      using k(2) unfolding ms by (simp add: unique_def n)
    moreover have "refs_ok d'"
      using d conv by (auto simp: d' ms db_ok_def refs_ok_def fts_fields n)
    moreover have "fts_synced d'"
      using d fts by (auto simp: d' ms db_ok_def fts_synced_def fts_fields) (auto simp: fts_add_def)
    ultimately show ?thesis
      using d fts u1 by (auto simp: d' db_ok_def keys_ok_def fts_fields)
  next
    case (Some old)
    then have o: "old \<in> set (messages d)" "mr_messageId old = ms_messageId m"
      by (auto dest: find_row_SomeD)
    let ?upd = "message_update old new"
    have d': "d' = fts_add ?upd (fts_remove old (d\<lparr>messages := ms'\<rparr>))"
      using r conv Some by (simp add: message_upsert_def Let_def new_def ms'_def)
    have ms: "set ms' = insert ?upd (set (messages d) - {old})" using sm Some by simp
    have rid: "mr_rowid (if mr_messageId x = mr_messageId new then message_update x new else x) = mr_rowid x" for x
      by (simp add: message_update_def)
    have "mr_messageId new \<in> mr_messageId ` set (messages d)" using o n by force
    then have "map mr_rowid ms' = map mr_rowid (messages d)"
      by (simp add: ms'_def upsert_row_def rid)
    then have "unique mr_rowid ms'" using k(2) by (simp add: unique_def)
    moreover have "refs_ok d'"
      using d conv by (auto simp: d' ms db_ok_def refs_ok_def fts_fields n message_update_def)
    moreover have "fts_synced d'"
    proof -
      have inj: "x = old" if "x \<in> set (messages d)" "mr_rowid x = mr_rowid old" for x
        using k(2) that o(1) by (metis find_row_unique option.inject)
      have "set (messages_fts d') = insert (mr_rowid ?upd, mr_text ?upd)
          (set (messages_fts d) - {(mr_rowid old, mr_text old)})"
        using fts by (auto simp: d' fts_add_def fts_remove_def)
      also have "\<dots> = (\<lambda>r. (mr_rowid r, mr_text r)) ` set ms'"
        using d fts inj o unfolding ms by (auto simp: db_ok_def fts_synced_def)
      finally show ?thesis by (simp add: fts_synced_def d' fts_fields)
    qed
    ultimately show ?thesis
      using d fts u1 by (auto simp: d' db_ok_def keys_ok_def fts_fields)
  qed
qed

lemma convo_delete_ok:
  assumes "db_ok d"
  shows "db_ok (convo_delete cid d)"
proof -
  let ?d = "d\<lparr>conversations := delete_row cv_conversationId cid (conversations d),
          messages := filter (\<lambda>r. mr_conversationId r \<noteq> cid) (messages d)\<rparr>"
  have k: "keys_ok (convo_delete cid d)"
    using assms by (auto simp: db_ok_def keys_ok_def convo_delete_def fts_remove_all_fields)
  have r: "refs_ok (convo_delete cid d)"
    using assms by (auto simp: db_ok_def refs_ok_def convo_delete_def fts_remove_all_fields set_delete_row)
  show ?thesis
  proof (cases "TFts \<in> set (tables d)")
    case True
    let ?f = "\<lambda>r. (mr_rowid r, mr_text r)"
    have u: "unique mr_rowid (messages d)" using assms by (simp add: db_ok_def keys_ok_def)
    have inj: "inj_on ?f (set (messages d))"
      by (rule inj_onI) (metis u find_row_unique option.inject prod.inject)
    have s: "set (messages_fts d) = ?f ` set (messages d)" using assms True by (simp add: db_ok_def fts_synced_def)
    have e: "set (filter (\<lambda>r. mr_conversationId r \<noteq> cid) (messages d))
        = set (messages d) - set (filter (\<lambda>r. mr_conversationId r = cid) (messages d))" by auto
    have "set (messages_fts (convo_delete cid d)) = set (messages_fts d)
        - (\<lambda>r. (mr_rowid r, mr_text r)) ` set (filter (\<lambda>r. mr_conversationId r = cid) (messages d))"
      using True by (simp add: convo_delete_def fts_remove_all_fts)
    also have "\<dots> = (\<lambda>r. (mr_rowid r, mr_text r)) ` set (filter (\<lambda>r. mr_conversationId r \<noteq> cid) (messages d))"
      unfolding e s by (rule inj_on_image_set_diff [OF inj, symmetric]) auto
    finally show ?thesis using k r True
      by (simp add: db_ok_def fts_synced_def convo_delete_def fts_remove_all_fields)
  next
    case False
    then show ?thesis using k r assms
      by (simp add: db_ok_def convo_delete_def fts_remove_all_none)
  qed
qed

subsection \<open>The operations\<close>

lemma keeps_forEach_set: "(\<And>x. x \<in> set xs \<Longrightarrow> keeps P (f x)) \<Longrightarrow> keeps P (forEach f xs)"
  by (induction xs) auto

lemma keeps_upserts [intro]:
  "keeps worker_ok (upsertConvo c)" "keeps worker_ok (upsertMessage m)"
  unfolding upsertConvo_def upsertMessage_def
  by (intro keeps_run; auto intro: convo_upsert_ok message_upsert_ok)+

lemma keeps_persistTurn [intro]: "keeps worker_ok (persistTurn c u a)"
  unfolding persistTurn_def by (intro keeps_tx keeps_andThen keeps_upserts)

lemma keeps_reads [intro]:
  "keeps P (hydrateConvo cid)" "keeps P (listConvos limit cursor)" "keeps P (search env q limit cursor)"
  "keeps P hydrateVectors" "keeps P listMemories" "keeps P (getAgent k)" "keeps P listAgents"
  "keeps P (getSkill k)" "keeps P listSkills"
  unfolding hydrateConvo_def listConvos_def search_def hydrateVectors_def listMemories_def
    getAgent_def listAgents_def getSkill_def listSkills_def Let_def
  by (auto intro!: keeps_andThen split: option.splits)

lemma keeps_deleteConvo [intro]: "keeps worker_ok (deleteConvo cid)"
  unfolding deleteConvo_def by (intro keeps_run) (auto intro: convo_delete_ok)

lemma keeps_draw_ids [intro]: "keeps worker_ok (draw_ids env ms)"
  by (induction ms) auto

lemma keeps_fork [intro]: "keeps worker_ok (forkConversation env cid mid)"
  unfolding forkConversation_def Let_def
  by (intro keeps_tx keeps_andThen keeps_query keeps_clock keeps_upserts keeps_draw_ids keeps_forEach keeps_ret)

lemma keeps_from_bind [intro]: "keeps P (from_bind x)"
  unfolding from_bind_def by (auto split: sum.splits)

lemma keeps_id_or_random [intro]: "keeps worker_ok (id_or_random env v)"
  unfolding id_or_random_def by (auto split: option.splits)

lemma keeps_import [intro]: "keeps worker_ok (importChatExport env v)"
proof -
  have m: "keeps worker_ok (import_message env cid now m)" for cid now m
    unfolding import_message_def
    by (intro keeps_if keeps_throw keeps_andThen keeps_id_or_random keeps_prepare keeps_from_bind keeps_upserts)
  have b: "keeps worker_ok (import_body env raw)" for raw
    unfolding import_body_def
    by (intro keeps_andThen keeps_id_or_random keeps_prepare keeps_from_bind keeps_upserts keeps_clock
        keeps_forEach m)
  have "keeps worker_ok (import_convo env raw)" for raw
    unfolding import_convo_def using b by (auto split: json.splits)
  then show ?thesis unfolding importChatExport_def by (intro keeps_tx keeps_forEach)
qed

text \<open>A statement on a table the invariant says no more about than its key.\<close>

lemma db_ok_upd:
  "db_ok d \<Longrightarrow> unique my_key ms \<Longrightarrow> db_ok (d\<lparr>memories := ms\<rparr>)"
  "db_ok d \<Longrightarrow> unique ag_agentId as \<Longrightarrow> db_ok (d\<lparr>agents := as\<rparr>)"
  "db_ok d \<Longrightarrow> unique sk_skillId ks \<Longrightarrow> db_ok (d\<lparr>skills := ks\<rparr>)"
  "db_ok d \<Longrightarrow> unique (\<lambda>r. (er_messageId r, er_ord r)) es \<Longrightarrow> db_ok (d\<lparr>message_embeddings := es\<rparr>)"
  "db_ok d \<Longrightarrow> db_ok (d\<lparr>files := fl\<rparr>)" "db_ok d \<Longrightarrow> db_ok (d\<lparr>chunks := cl\<rparr>)"
  "db_ok d \<Longrightarrow> db_ok (d\<lparr>embeddings := el\<rparr>)"
  by (auto simp: db_ok_def keys_ok_def refs_ok_def fts_synced_def split: if_splits)

lemma db_okD:
  assumes "db_ok d"
  shows "unique my_key (memories d)" "unique ag_agentId (agents d)" "unique sk_skillId (skills d)"
    "unique (\<lambda>r. (er_messageId r, er_ord r)) (message_embeddings d)"
    "unique cv_conversationId (conversations d)" "unique mr_messageId (messages d)"
  using assms by (simp_all add: db_ok_def keys_ok_def)

lemma put_remove_ok:
  "db_ok d \<Longrightarrow> db_ok (memory_put m d)" "db_ok d \<Longrightarrow> db_ok (memory_remove k d)"
  "db_ok d \<Longrightarrow> db_ok (agent_put a d)" "db_ok d \<Longrightarrow> db_ok (agent_remove k d)"
  "db_ok d \<Longrightarrow> db_ok (skill_put sk d)" "db_ok d \<Longrightarrow> db_ok (skill_remove k d)"
  unfolding memory_put_def memory_remove_def agent_put_def agent_remove_def skill_put_def skill_remove_def
  by (intro db_ok_upd unique_upsert unique_delete db_okD; simp)+

lemma keeps_keyed [intro]:
  "keeps worker_ok (deleteMemory k)" "keeps worker_ok (upsertAgent a)" "keeps worker_ok (deleteAgent k)"
  "keeps worker_ok (upsertSkill sk)" "keeps worker_ok (deleteSkill k)"
  unfolding deleteMemory_def upsertAgent_def deleteAgent_def upsertSkill_def deleteSkill_def
  by (intro keeps_run; auto intro: put_remove_ok)+

lemma keeps_upsertMemory [intro]: "keeps worker_ok (upsertMemory env k v p)"
  unfolding upsertMemory_def
  by (auto intro!: keeps_tx keeps_andThen keeps_run keeps_clock keeps_if put_remove_ok split: option.splits)

lemma vector_insert_ok: "db_ok d \<Longrightarrow> vector_insert r d = Inr d' \<Longrightarrow> db_ok d'"
  unfolding vector_insert_def
  by (auto split: if_splits intro!: db_ok_upd dest: db_okD(4) simp: unique_def image_iff)

lemma keeps_storeVectors [intro]: "keeps worker_ok (storeVectors owner cs)"
  unfolding storeVectors_def vectors_delete_def
  by (auto intro!: keeps_tx keeps_andThen keeps_run keeps_forEach keeps_case_prod db_ok_upd unique_filter
      dest: db_okD(4) intro: vector_insert_ok)

lemma clear_messages_ok:
  assumes "db_ok d"
  shows "db_ok (fts_remove_all (messages d) (d\<lparr>messages := []\<rparr>))"
    and "db_ok (fts_remove_all (messages d) (d\<lparr>conversations := [], messages := []\<rparr>))"
proof -
  have s: "set (messages_fts d) = (\<lambda>r. (mr_rowid r, mr_text r)) ` set (messages d)"
    if "TFts \<in> set (tables d)"
    using assms that by (simp add: db_ok_def fts_synced_def)
  have k: "keys_ok d" using assms by (simp add: db_ok_def)
  have f: "messages_fts d = []" if "TFts \<notin> set (tables d)" using assms that by (simp add: db_ok_def)
  have t: "TFts \<notin> set (tables d) \<Longrightarrow> TMessages \<notin> set (tables d)" using assms by (simp add: db_ok_def)
  show "db_ok (fts_remove_all (messages d) (d\<lparr>messages := []\<rparr>))"
  proof (cases "TFts \<in> set (tables d)")
    case True
    then have "set (messages_fts (fts_remove_all (messages d) (d\<lparr>messages := []\<rparr>))) = {}"
      by (simp add: fts_remove_all_fts s)
    then show ?thesis using k True
      by (simp add: db_ok_def keys_ok_def refs_ok_def fts_synced_def fts_remove_all_fields)
  next
    case False
    then show ?thesis using k t f
      by (simp add: db_ok_def keys_ok_def refs_ok_def fts_remove_all_none)
  qed
  show "db_ok (fts_remove_all (messages d) (d\<lparr>conversations := [], messages := []\<rparr>))"
  proof (cases "TFts \<in> set (tables d)")
    case True
    then have "set (messages_fts (fts_remove_all (messages d) (d\<lparr>conversations := [], messages := []\<rparr>))) = {}"
      by (simp add: fts_remove_all_fts s)
    then show ?thesis using k True
      by (simp add: db_ok_def keys_ok_def refs_ok_def fts_synced_def fts_remove_all_fields)
  next
    case False
    then show ?thesis using k t f
      by (simp add: db_ok_def keys_ok_def refs_ok_def fts_remove_all_none)
  qed
qed

lemma convos_clear_ok: "db_ok d \<Longrightarrow> db_ok (convos_clear d)"
proof -
  let ?ids = "cv_conversationId ` set (conversations d)"
  assume d: "db_ok d"
  then have "filter (\<lambda>r. mr_conversationId r \<notin> ?ids) (messages d) = []"
    "filter (\<lambda>r. mr_conversationId r \<in> ?ids) (messages d) = messages d"
    by (auto simp: db_ok_def refs_ok_def filter_empty_conv intro!: filter_True)
  then show ?thesis using clear_messages_ok(2) [OF d] by (simp add: convos_clear_def Let_def)
qed

lemma rebuild_ok:
  "db_ok d \<Longrightarrow> TFts \<in> set (tables d) \<Longrightarrow>
    db_ok (d\<lparr>messages_fts := map (\<lambda>r. (mr_rowid r, mr_text r)) (messages d)\<rparr>)"
  by (simp add: db_ok_def keys_ok_def refs_ok_def fts_synced_def)

lemma keeps_clearAll [intro]: "keeps worker_ok clearAll"
  unfolding clearAll_def
  by (intro keeps_andThen keeps_tx keeps_run; clarsimp; intro clear_messages_ok convos_clear_ok rebuild_ok db_ok_upd;
      simp add: unique_def)

subsection \<open>Opening\<close>

lemma keeps_catch: "keeps P m \<Longrightarrow> (\<And>e. keeps P (h e)) \<Longrightarrow> keeps P (catch m h)"
  by (force simp: keeps_def catch_def split: prod.splits sum.splits)

lemma keeps_openDb: "keeps worker_ok (openDb env f)"
  unfolding openDb_def
  by (intro keeps_andThen keeps_draw) (simp add: keeps_def worker_ok_def ret_def)

lemma keeps_connect: "keeps worker_ok (connect loc k)"
  by (auto simp: keeps_def connect_def worker_ok_def ret_def split: location.splits option.splits disk_file.splits)

lemma keeps_first_read: "keeps P first_read"
  by (auto simp: keeps_def first_read_def ret_def throw_def
      split: location.splits option.splits disk_file.splits)

lemma keeps_recreate: "keeps worker_ok (recreate env f k)"
  unfolding recreate_def
  by (intro keeps_andThen keeps_openDb keeps_connect keeps_first_read)
    (auto simp: keeps_def worker_ok_def ret_def split: pool_delete.splits)

lemma migrate_ok: "db_ok d \<Longrightarrow> db_ok (migrate d)"
  by (auto simp: migrate_def db_ok_def keys_ok_def refs_ok_def fts_synced_def)

lemma schema_ok: "db_ok d \<Longrightarrow> db_ok ((add_tables schema_tables d)\<lparr>user_version := v\<rparr>)"
  by (auto simp: add_tables_def schema_tables_def db_ok_def keys_ok_def refs_ok_def fts_synced_def split: if_splits)

lemma keeps_migrate: "db_ok (cn_db c) \<Longrightarrow> keeps worker_ok (\<lambda>s. ret () (put_db (migrate (cn_db c)) s))"
  by (simp add: keeps_def ret_def put_db_ok migrate_ok)

text \<open>A computation that continues with the open connection, whose contents the invariant covers.\<close>

lemma keeps_mustDb_bind:
  assumes "\<And>c. db_ok (cn_db c) \<Longrightarrow> keeps worker_ok (f c)"
  shows "keeps worker_ok (andThen mustDb f)"
  using assms
  by (auto simp: keeps_def mustDb_def andThen_def throw_def ret_def split: option.splits dest: worker_okD)

lemma keeps_apply_schema: "e_fts5 env \<Longrightarrow> keeps worker_ok (apply_schema env)"
  unfolding apply_schema_def
  by (intro keeps_mustDb_bind) (simp add: keeps_def ret_def put_db_ok schema_ok)

lemma keeps_init: "e_fts5 env \<Longrightarrow> keeps worker_ok (init env k)"
proof -
  assume f: "e_fts5 env"
  have r: "keeps worker_ok (\<lambda>s. if w_persistent s
      then catch first_read (\<lambda>_. recreate env (dbFileFor env k) k) s else ret () s)"
    using keeps_catch [OF keeps_first_read [of worker_ok] keeps_recreate [of env "dbFileFor env k" k]]
    by (simp add: keeps_def ret_def)
  have "keeps worker_ok (andThen draw (\<lambda>i.
       if \<not> e_module_ok env i then throw SqliteNoModule
       else
       andThen (openDb env (dbFileFor env k)) (\<lambda>loc.
       andThen (connect loc k) (\<lambda>_.
       andThen (\<lambda>s. if w_persistent s
                     then catch first_read (\<lambda>_. recreate env (dbFileFor env k) k) s
                     else ret () s) (\<lambda>_.
       andThen mustDb (\<lambda>c.
       andThen (\<lambda>s. ret () (put_db (migrate (cn_db c)) s)) (\<lambda>_.
       andThen (apply_schema env) (\<lambda>_.
       check_fts))))))))"
    unfolding check_fts_def
    by (intro keeps_andThen keeps_mustDb_bind keeps_draw keeps_if keeps_throw keeps_openDb keeps_connect r
        keeps_migrate keeps_apply_schema keeps_mustDb keeps_ret f) simp_all
  then show ?thesis unfolding init_def keeps_def by (simp add: ret_def)
qed

subsection \<open>Every request\<close>

lemma keeps_reply [intro]: "keeps P (reply b)"
  unfolding reply_def by (rule keeps_ret)

lemma keeps_handle_body: "e_fts5 env \<Longrightarrow> keeps worker_ok (handle_body env b)"
  by (cases b) (auto intro!: keeps_andThen keeps_init)

lemma handle_ok: "e_fts5 env \<Longrightarrow> worker_ok s \<Longrightarrow> worker_ok (snd (handle env q s))"
  using keepsD [OF keeps_handle_body [of env "sq_body q"], of s]
  by (auto simp: handle_def split: prod.splits sum.splits)

lemma run_queue_ok: "e_fts5 env \<Longrightarrow> worker_ok s \<Longrightarrow> worker_ok (snd (run_queue env qs s))"
proof (induction qs arbitrary: s)
  case (Cons q qs)
  then show ?case using handle_ok [of env s q]
    by (auto simp: Let_def split: prod.splits) (metis snd_conv)
qed simp

subsection \<open>A failing request changes nothing\<close>

text \<open>\<open>conn_is c s\<close>: the connection is \<open>c\<close> up to the contents.\<close>

definition conn_is :: "conn \<Rightarrow> wstate \<Rightarrow> bool" where
  "conn_is c s \<longleftrightarrow> (\<exists>d. w_db s = Some (c\<lparr>cn_db := d\<rparr>))"

lemma put_db_back:
  assumes "conn_is c s"
  shows "w_db (put_db (cn_db c) s) = Some c"
proof -
  obtain d where "w_db s = Some (c\<lparr>cn_db := d\<rparr>)" using assms by (auto simp: conn_is_def)
  then show ?thesis by (cases "cn_loc c") (auto simp: put_db_def)
qed

lemma put_db_conn: "conn_is c s \<Longrightarrow> conn_is c (put_db d s)"
  by (auto simp: conn_is_def put_db_def split: location.splits)

lemma conn_run [intro]: "keeps (conn_is c) (run ts f)"
  by (auto simp: keeps_def run_def prepare_def mustDb_def andThen_def throw_def ret_def
      split: option.splits sum.splits intro: put_db_conn)

lemma conn_draw [intro]: "keeps (conn_is c) draw"
  by (auto simp: keeps_def draw_def conn_is_def)

lemma conn_clock [intro]: "keeps (conn_is c) (dateNow env)" "keeps (conn_is c) (randomId env)"
  unfolding dateNow_def randomId_def by (intro keeps_andThen conn_draw keeps_ret)+

lemma conn_upserts [intro]: "keeps (conn_is c) (upsertConvo cv)" "keeps (conn_is c) (upsertMessage m)"
  unfolding upsertConvo_def upsertMessage_def by (intro conn_run)+

text \<open>Rolling back restores the connection exactly; a single statement that fails never changed
  it.\<close>

definition atomic :: "'a op \<Rightarrow> bool" where
  "atomic m \<longleftrightarrow> (\<forall>s e s'. m s = (Inl e, s') \<longrightarrow> w_db s' = w_db s)"

lemma atomic_tx:
  assumes "\<And>c. keeps (conn_is c) fn"
  shows "atomic (tx fn)"
  unfolding atomic_def
proof (intro allI impI)
  fix s e s' assume r: "tx fn s = (Inl e, s')"
  show "w_db s' = w_db s"
  proof (cases "w_db s")
    case None
    then show ?thesis using r by (auto simp: tx_def mustDb_def andThen_def throw_def)
  next
    case (Some c)
    obtain x t where x: "fn s = (x, t)" by fastforce
    have "conn_is c s" using Some by (auto simp: conn_is_def intro: exI [of _ "cn_db c"])
    then have "conn_is c t" using assms x by (metis keepsD snd_conv)
    moreover have "s' = put_db (cn_db c) t"
      using r Some x by (auto simp: tx_def mustDb_def andThen_def ret_def split: sum.splits)
    ultimately show ?thesis using put_db_back Some by simp
  qed
qed

lemma atomic_run: "atomic (run ts f)"
  by (auto simp: atomic_def run_def prepare_def mustDb_def andThen_def throw_def ret_def
      split: option.splits sum.splits if_splits)

lemma atomic_pure: "(\<And>Q. keeps Q m) \<Longrightarrow> atomic m"
proof -
  assume k: "\<And>Q. keeps Q m"
  have "w_db (snd (m s)) = w_db s" for s
    using keepsD [OF k [of "\<lambda>t. w_db t = w_db s"], of s] by simp
  then show "atomic m" unfolding atomic_def by (metis snd_conv)
qed

lemma atomic_reply: "atomic m \<Longrightarrow> atomic (andThen m (\<lambda>a. reply (g a)))"
  by (auto simp: atomic_def andThen_def reply_def ret_def split: prod.splits sum.splits)

lemma atomic_writes:
  "atomic (persistTurn c u a)" "atomic (forkConversation env cid mid)" "atomic (importChatExport env v)"
  "atomic (deleteConvo cid)" "atomic (storeVectors mid cs)" "atomic (upsertMemory env k v' p)"
  "atomic (deleteMemory k)" "atomic (upsertAgent ag)" "atomic (deleteAgent k)"
  "atomic (upsertSkill sk)" "atomic (deleteSkill k)"
proof -
  have ids: "keeps (conn_is c) (draw_ids env ms)" for c ms by (induction ms) auto
  have idr: "keeps (conn_is c) (id_or_random env v)" for c v
    unfolding id_or_random_def by (auto split: option.splits)
  have im: "keeps (conn_is c) (import_message env cid now m)" for c cid now m
    unfolding import_message_def
    by (intro keeps_if keeps_throw keeps_andThen idr keeps_prepare keeps_from_bind conn_upserts)
  have ib: "keeps (conn_is c) (import_body env raw)" for c raw
    unfolding import_body_def
    by (intro keeps_andThen idr keeps_prepare keeps_from_bind conn_upserts conn_clock keeps_forEach im)
  have ic: "keeps (conn_is c) (import_convo env raw)" for c raw
    unfolding import_convo_def using ib by (auto split: json.splits)
  show "atomic (persistTurn c u a)"
    unfolding persistTurn_def by (intro atomic_tx keeps_andThen conn_upserts)
  show "atomic (forkConversation env cid mid)"
    unfolding forkConversation_def Let_def
    by (intro atomic_tx keeps_andThen keeps_query conn_clock conn_upserts ids keeps_forEach keeps_ret)
  show "atomic (importChatExport env v)"
    unfolding importChatExport_def by (intro atomic_tx keeps_forEach ic)
  show "atomic (storeVectors mid cs)"
    unfolding storeVectors_def by (intro atomic_tx keeps_andThen conn_run keeps_forEach keeps_case_prod)
  show "atomic (upsertMemory env k v' p)"
    unfolding upsertMemory_def
    by (auto intro!: atomic_tx keeps_andThen conn_clock conn_run keeps_if split: option.splits)
  show "atomic (deleteConvo cid)" "atomic (deleteMemory k)" "atomic (upsertAgent ag)" "atomic (deleteAgent k)"
    "atomic (upsertSkill sk)" "atomic (deleteSkill k)"
    unfolding deleteConvo_def deleteMemory_def upsertAgent_def deleteAgent_def upsertSkill_def deleteSkill_def
    by (rule atomic_run)+
qed

text \<open>Clearing runs one more statement after its transaction; under the invariant that statement
  cannot fail once the transaction has succeeded.\<close>

definition has_tables :: "table list \<Rightarrow> wstate \<Rightarrow> bool" where
  "has_tables T s \<longleftrightarrow> (\<exists>c. w_db s = Some c \<and> tables (cn_db c) = T)"

lemma run_tables:
  assumes "\<And>d d'. f d = Inr d' \<Longrightarrow> tables d' = tables d"
  shows "keeps (has_tables T) (run ts f)" "hoare (has_tables T) (run ts f) (\<lambda>_ s. has_tables T s \<and> set ts \<subseteq> set T)"
  using assms
  by (auto simp: keeps_def hoare_def has_tables_def run_def prepare_def mustDb_def andThen_def throw_def ret_def
      put_db_def split: option.splits sum.splits if_splits location.splits)

lemma hoare_conj: "(F \<Longrightarrow> hoare P m R) \<Longrightarrow> hoare (\<lambda>s. P s \<and> F) m R"
  by (auto simp: hoare_def)

lemma hoare_post_const: "keeps P m \<Longrightarrow> F \<Longrightarrow> hoare P m (\<lambda>_ s. P s \<and> F)"
  using hoare_keeps by (force simp: hoare_def)

lemma hoare_tx: "hoare P m R \<Longrightarrow> hoare P (tx m) R"
  by (auto simp: hoare_def tx_def mustDb_def andThen_def ret_def throw_def
      split: option.splits prod.splits sum.splits)

lemma clearAll_atomic:
  assumes ok: "worker_ok s" and r: "clearAll s = (Inl e, s')"
  shows "w_db s' = w_db s"
proof -
  define body where "body = tx (
       andThen (run [TMessageEmbeddings] (\<lambda>d. Inr (d\<lparr>message_embeddings := []\<rparr>))) (\<lambda>_.
       andThen (run [TEmbeddings] (\<lambda>d. Inr (d\<lparr>embeddings := []\<rparr>))) (\<lambda>_.
       andThen (run [TChunks] (\<lambda>d. Inr (d\<lparr>chunks := []\<rparr>))) (\<lambda>_.
       andThen (run [TFiles] (\<lambda>d. Inr (d\<lparr>files := []\<rparr>))) (\<lambda>_.
       andThen (run [TMessages] (\<lambda>d. Inr (fts_remove_all (messages d) (d\<lparr>messages := []\<rparr>)))) (\<lambda>_.
       andThen (run [TConversations] (\<lambda>d. Inr (convos_clear d))) (\<lambda>_.
       andThen (run [TMemories] (\<lambda>d. Inr (d\<lparr>memories := []\<rparr>))) (\<lambda>_.
       andThen (run [TAgents] (\<lambda>d. Inr (d\<lparr>agents := []\<rparr>))) (\<lambda>_.
       run [TSkills] (\<lambda>d. Inr (d\<lparr>skills := []\<rparr>)))))))))))"
  have c: "clearAll = andThen body (\<lambda>_. run [TFts, TMessages]
      (\<lambda>d. Inr (d\<lparr>messages_fts := map (\<lambda>r. (mr_rowid r, mr_text r)) (messages d)\<rparr>)))"
    by (simp add: clearAll_def body_def)
  have kb: "keeps worker_ok body"
    unfolding body_def
    by (intro keeps_andThen keeps_tx keeps_run; clarsimp; intro clear_messages_ok convos_clear_ok rebuild_ok db_ok_upd;
        simp add: unique_def)
  have ab: "atomic body" unfolding body_def by (intro atomic_tx keeps_andThen conn_run)
  have hb: "hoare (has_tables T) body (\<lambda>_ s. has_tables T s \<and> set [TMessages] \<subseteq> set T)" for T
    unfolding body_def
    by (rule hoare_tx, rule hoare_pass, rule run_tables, simp, rule hoare_pass, rule run_tables, simp,
      rule hoare_pass, rule run_tables, simp, rule hoare_pass, rule run_tables, simp,
      rule hoare_andThen, rule run_tables(2), simp add: fts_remove_all_fields,
      rule hoare_conj, intro hoare_pass hoare_post_const run_tables, auto simp: convos_clear_def fts_remove_all_fields Let_def)
  obtain x t where x: "body s = (x, t)" by fastforce
  show ?thesis
  proof (cases x)
    case (Inl e')
    then have "s' = t" using r x by (simp add: c andThen_def)
    then show ?thesis using ab x Inl by (auto simp: atomic_def)
  next
    case (Inr u)
    then obtain c' where c': "w_db s = Some c'"
      using x by (cases "w_db s") (auto simp: body_def tx_def mustDb_def andThen_def throw_def)
    then have "has_tables (tables (cn_db c')) s" by (simp add: has_tables_def)
    then have "has_tables (tables (cn_db c')) t" "TMessages \<in> set (tables (cn_db c'))"
      using hb x Inr by (auto simp: hoare_def)
    moreover have "worker_ok t" using kb ok x by (metis keepsD snd_conv)
    ultimately obtain ct where "w_db t = Some ct" "TMessages \<in> set (tables (cn_db ct))" "db_ok (cn_db ct)"
      by (auto simp: has_tables_def dest: worker_okD)
    then have "fst (clearAll s) = Inr ()"
      using x Inr by (auto simp: c andThen_def run_def prepare_def mustDb_def ret_def db_ok_def split: if_splits)
    then show ?thesis using r by simp
  qed
qed

end
