(* ===== verification/StoreLaws.thy ===== *)
theory StoreLaws
  imports StoreInvariant
begin

text \<open>
  The interfaces of the device store as locales. A keyed store offers put, remove, find and list
  over a database; what a caller may rely on is stated by its laws, and the consequences, among
  them the refinement of any history of writes by updates of a finite map, are proved once. The
  memories, agents and skills of the worker are instances. A request queue answers every request
  once, in order, and keeps what each step keeps; the worker's dispatch is an instance.
\<close>

subsection \<open>Keyed stores\<close>

datatype ('k, 'r) change = Put 'r | Remove 'k

text \<open>The map that a history of writes denotes: a put onto an existing key merges with the record
  found there.\<close>

fun write_map :: "('r \<Rightarrow> 'k) \<Rightarrow> ('r \<Rightarrow> 'r \<Rightarrow> 'r) \<Rightarrow> ('k, 'r) change \<Rightarrow> ('k \<Rightarrow> 'r option) \<Rightarrow> ('k \<Rightarrow> 'r option)" where
  "write_map key merge (Put r) m = m(key r \<mapsto> (case m (key r) of None \<Rightarrow> r | Some x \<Rightarrow> merge x r))"
| "write_map key merge (Remove k) m = m(k := None)"

locale keyed_store =
  fixes put :: "'r \<Rightarrow> 'd \<Rightarrow> 'd"
    and remove :: "'k \<Rightarrow> 'd \<Rightarrow> 'd"
    and find :: "'k \<Rightarrow> 'd \<Rightarrow> 'r option"
    and list :: "'d \<Rightarrow> 'r list"
    and key :: "'r \<Rightarrow> 'k"
    and merge :: "'r \<Rightarrow> 'r \<Rightarrow> 'r"
    and ok :: "'d \<Rightarrow> bool"
  assumes ok_put: "ok d \<Longrightarrow> ok (put r d)"
    and ok_remove: "ok d \<Longrightarrow> ok (remove k d)"
    and key_merge: "key (merge x r) = key x"
    and find_put: "ok d \<Longrightarrow> find k (put r d) =
      (if k = key r then Some (case find k d of None \<Rightarrow> r | Some x \<Rightarrow> merge x r) else find k d)"
    and find_remove: "ok d \<Longrightarrow> find k (remove k' d) = (if k = k' then None else find k d)"
    and list_find: "ok d \<Longrightarrow> r \<in> set (list d) \<longleftrightarrow> find (key r) d = Some r"
    and find_key: "ok d \<Longrightarrow> find k d = Some r \<Longrightarrow> key r = k"
    and list_keys: "ok d \<Longrightarrow> distinct (map key (list d))"
begin

fun exec :: "('k, 'r) change \<Rightarrow> 'd \<Rightarrow> 'd" where
  "exec (Put r) d = put r d"
| "exec (Remove k) d = remove k d"

lemma ok_exec: "ok d \<Longrightarrow> ok (exec w d)"
  by (cases w) (simp_all add: ok_put ok_remove)

lemma find_exec: "ok d \<Longrightarrow> (\<lambda>k. find k (exec w d)) = write_map key merge w (\<lambda>k. find k d)"
  by (cases w) (auto simp: find_put find_remove)

lemma history:
  "ok d \<Longrightarrow> ok (fold exec ws d)
    \<and> (\<lambda>k. find k (fold exec ws d)) = fold (write_map key merge) ws (\<lambda>k. find k d)"
proof (induction ws arbitrary: d)
  case (Cons w ws)
  have "ok (exec w d)" using Cons.prems by (rule ok_exec)
  from Cons.IH [OF this] show ?case using Cons.prems by (simp add: find_exec)
qed simp

lemma list_removed: "ok d \<Longrightarrow> set (list (remove k d)) = {r \<in> set (list d). key r \<noteq> k}"
  by (auto simp: list_find ok_remove find_remove split: if_splits)

lemma list_range: "ok d \<Longrightarrow> set (list d) = ran (\<lambda>k. find k d)"
  using list_find find_key unfolding ran_def by blast

lemma list_length: "ok d \<Longrightarrow> length (list d) = card (dom (\<lambda>k. find k d))"
proof -
  assume d: "ok d"
  have "key ` set (list d) = dom (\<lambda>k. find k d)"
  proof (rule set_eqI)
    fix k
    show "k \<in> key ` set (list d) \<longleftrightarrow> k \<in> dom (\<lambda>k. find k d)"
      using find_key [OF d, of k] list_find [OF d] by (auto simp: image_iff)
  qed
  moreover have "card (key ` set (list d)) = length (list d)"
    using distinct_card [OF list_keys [OF d]] by simp
  ultimately show ?thesis by simp
qed

end

text \<open>Tables of records under a key, updated where they stand, satisfy the laws.\<close>

locale keyed_rows =
  fixes key :: "'r \<Rightarrow> 'k"
    and merge :: "'r \<Rightarrow> 'r \<Rightarrow> 'r"
    and rows :: "sdb \<Rightarrow> 'r list"
    and set_rows :: "'r list \<Rightarrow> sdb \<Rightarrow> sdb"
    and stamp :: "'r \<Rightarrow> jsnum"
  assumes merge_key: "key (merge x r) = key x"
    and rows_set: "rows (set_rows rs d) = rs"
    and rows_unique: "db_ok d \<Longrightarrow> unique key (rows d)"
    and set_rows_ok: "db_ok d \<Longrightarrow> unique key rs \<Longrightarrow> db_ok (set_rows rs d)"

sublocale keyed_rows \<subseteq> keyed_store
  "\<lambda>r d. set_rows (upsert_row key merge r (rows d)) d"
  "\<lambda>k d. set_rows (delete_row key k (rows d)) d"
  "\<lambda>k d. find_row key k (rows d)"
  "\<lambda>d. sort_desc stamp (rows d)"
  key merge db_ok
proof (unfold_locales, goal_cases)
  case (1 d r)
  then show ?case by (intro set_rows_ok unique_upsert rows_unique merge_key)
next
  case (6 d r)
  then show ?case using find_row_unique [OF rows_unique] find_row_SomeD by fastforce
next
  case (8 d)
  then show ?case using rows_unique [of d] by (simp add: unique_def)
qed (auto simp: merge_key rows_set find_row_upsert find_row_delete
      dest: find_row_SomeD intro: set_rows_ok unique_delete rows_unique)

definition agent_merge :: "StoredAgent \<Rightarrow> StoredAgent \<Rightarrow> StoredAgent" where
  "agent_merge old new = new\<lparr>ag_agentId := ag_agentId old, ag_createdAt := ag_createdAt old\<rparr>"

definition skill_merge :: "StoredSkill \<Rightarrow> StoredSkill \<Rightarrow> StoredSkill" where
  "skill_merge old new = new\<lparr>sk_skillId := sk_skillId old, sk_createdAt := sk_createdAt old\<rparr>"

definition memory_merge :: "StoredMemory \<Rightarrow> StoredMemory \<Rightarrow> StoredMemory" where
  "memory_merge old new =
     old\<lparr>my_value := my_value new, my_tokenCount := my_tokenCount new, my_updatedAt := my_updatedAt new\<rparr>"

interpretation agent_rows: keyed_rows ag_agentId agent_merge agents "\<lambda>rs d. d\<lparr>agents := rs\<rparr>" ag_updatedAt
  by unfold_locales (auto simp: agent_merge_def dest: db_okD intro: db_ok_upd)

interpretation skill_rows: keyed_rows sk_skillId skill_merge skills "\<lambda>rs d. d\<lparr>skills := rs\<rparr>" sk_updatedAt
  by unfold_locales (auto simp: skill_merge_def dest: db_okD intro: db_ok_upd)

interpretation memory_rows: keyed_rows my_key memory_merge memories "\<lambda>rs d. d\<lparr>memories := rs\<rparr>" my_updatedAt
  by unfold_locales (auto simp: memory_merge_def dest: db_okD intro: db_ok_upd)

lemma keyed_folds:
  "agent_put = (\<lambda>r d. d\<lparr>agents := upsert_row ag_agentId agent_merge r (agents d)\<rparr>)"
  "agent_remove = (\<lambda>k d. d\<lparr>agents := delete_row ag_agentId k (agents d)\<rparr>)"
  "agent_find = (\<lambda>k d. find_row ag_agentId k (agents d))"
  "agent_list = (\<lambda>d. sort_desc ag_updatedAt (agents d))"
  "skill_put = (\<lambda>r d. d\<lparr>skills := upsert_row sk_skillId skill_merge r (skills d)\<rparr>)"
  "skill_remove = (\<lambda>k d. d\<lparr>skills := delete_row sk_skillId k (skills d)\<rparr>)"
  "skill_find = (\<lambda>k d. find_row sk_skillId k (skills d))"
  "skill_list = (\<lambda>d. sort_desc sk_updatedAt (skills d))"
  "memory_put = (\<lambda>r d. d\<lparr>memories := upsert_row my_key memory_merge r (memories d)\<rparr>)"
  "memory_remove = (\<lambda>k d. d\<lparr>memories := delete_row my_key k (memories d)\<rparr>)"
  by (auto simp: fun_eq_iff agent_put_def agent_remove_def agent_find_def agent_list_def skill_put_def
      skill_remove_def skill_find_def skill_list_def memory_put_def memory_remove_def
      agent_merge_def [abs_def] skill_merge_def [abs_def] memory_merge_def [abs_def])

interpretation agents: keyed_store agent_put agent_remove agent_find agent_list ag_agentId agent_merge db_ok
  unfolding keyed_folds by (rule agent_rows.keyed_store_axioms)

interpretation skills: keyed_store skill_put skill_remove skill_find skill_list sk_skillId skill_merge db_ok
  unfolding keyed_folds by (rule skill_rows.keyed_store_axioms)

subsection \<open>Request queues\<close>

locale request_queue =
  fixes step :: "'q \<Rightarrow> 's \<Rightarrow> 'r \<times> 's"
    and serve :: "'q list \<Rightarrow> 's \<Rightarrow> 'r list \<times> 's"
    and request_id :: "'q \<Rightarrow> 'i"
    and response_id :: "'r \<Rightarrow> 'i"
    and inv :: "'s \<Rightarrow> bool"
  assumes serve_Nil: "serve [] s = ([], s)"
    and serve_Cons: "serve (q # qs) s =
      (fst (step q s) # fst (serve qs (snd (step q s))), snd (serve qs (snd (step q s))))"
    and step_id: "response_id (fst (step q s)) = request_id q"
    and step_inv: "inv s \<Longrightarrow> inv (snd (step q s))"
begin

lemma serve_inv: "inv s \<Longrightarrow> inv (snd (serve qs s))"
  by (induction qs arbitrary: s) (simp_all add: serve_Nil serve_Cons step_inv)

lemma serve_ids: "map response_id (fst (serve qs s)) = map request_id qs"
  by (induction qs arbitrary: s) (simp_all add: serve_Nil serve_Cons step_id)

lemma serve_append:
  "serve (ps @ qs) s =
    (fst (serve ps s) @ fst (serve qs (snd (serve ps s))), snd (serve qs (snd (serve ps s))))"
  by (induction ps arbitrary: s) (simp_all add: serve_Nil serve_Cons)

text \<open>A step of the queue sees exactly the state its predecessors left.\<close>

lemma serve_nth:
  "i < length qs \<Longrightarrow> fst (serve qs s) ! i = fst (step (qs ! i) (snd (serve (take i qs) s)))"
proof (induction qs arbitrary: s i)
  case (Cons q qs)
  then show ?case by (cases i) (simp_all add: serve_Nil serve_Cons)
qed simp

end

text \<open>The parameters of a worker whose SQLite build has FTS5, as the bundled one does.\<close>

lemma handle_id: "sr_requestId (fst (handle env q s)) = sq_requestId q"
  by (simp add: handle_def split: prod.splits sum.splits)

lemma run_queue_Cons:
  "run_queue env (q # qs) s =
    (fst (handle env q s) # fst (run_queue env qs (snd (handle env q s))),
     snd (run_queue env qs (snd (handle env q s))))"
  by (simp add: Let_def split: prod.splits)

interpretation worker: request_queue "handle env" "run_queue env" sq_requestId sr_requestId
  "\<lambda>s. e_fts5 env \<longrightarrow> worker_ok s" for env
  by unfold_locales (simp_all add: handle_id run_queue_Cons handle_ok del: run_queue.simps(2))

end
