(* ===== verification/StoreProps.thy ===== *)
theory StoreProps
  imports StoreLaws
begin

text \<open>
  What the device store promises its client: the invariant over any history of requests, rollback
  of failed requests, the order of responses, and the behaviour of each request on the open
  database (turns, listing, deletion, vectors, keyed records, search queries, clearing).
\<close>

subsection \<open>An open database\<close>

definition opened :: "wstate \<Rightarrow> sdb \<Rightarrow> bool" where
  "opened s d \<longleftrightarrow> (\<exists>c. w_db s = Some c \<and> cn_db c = d) \<and> set schema_tables \<subseteq> set (tables d) \<and> db_ok d"

lemma openedD:
  "opened s d \<Longrightarrow> t \<in> set (tables d)" "opened s d \<Longrightarrow> db_ok d" "opened s d \<Longrightarrow> w_db s \<noteq> None"
  by (cases t; auto simp: opened_def schema_tables_def) (auto simp: opened_def)

lemma query_open: "opened s d \<Longrightarrow> query ts f s = (Inr (f d), s)"
  by (auto simp: query_def prepare_def mustDb_def monad_simps opened_def dest: openedD(1) [of s d])
    (meson opened_def openedD(1))

lemma run_open:
  "opened s d \<Longrightarrow> run ts f s = (case f d of Inl e \<Rightarrow> (Inl e, s) | Inr d' \<Rightarrow> (Inr (), put_db d' s))"
proof -
  assume o: "opened s d"
  have t: "set ts \<subseteq> set (tables d)" using openedD(1) [OF o] by auto
  obtain c where c: "w_db s = Some c" "cn_db c = d" using o by (auto simp: opened_def)
  show ?thesis using t c
    by (auto simp: run_def prepare_def mustDb_def monad_simps split: sum.splits)
qed

lemma w_db_put: "w_db (put_db d s) = map_option (\<lambda>c. c\<lparr>cn_db := d\<rparr>) (w_db s)"
  by (auto simp: put_db_def split: option.splits location.splits)

lemma put_db_put: "put_db d' (put_db d s) = put_db d' s"
  by (auto simp: put_db_def split: option.splits location.splits)

lemma put_db_open:
  "opened s d \<Longrightarrow> db_ok d' \<Longrightarrow> tables d' = tables d \<Longrightarrow> opened (put_db d' s) d'"
  by (auto simp: opened_def w_db_put)

lemma tx_open:
  "opened s d \<Longrightarrow> tx m s = (case m s of (Inl e, s') \<Rightarrow> (Inl e, put_db d s') | r \<Rightarrow> r)"
  by (auto simp: opened_def tx_def mustDb_def monad_simps split: sum.splits)

subsection \<open>A sample store\<close>

text \<open>A store with one conversation of two messages, one agent and one memory, over a platform with
  counting identifiers; the closed instances of the theorems below are about it.\<close>

definition sample_env :: store_env where
  "sample_env = \<lparr>e_now = of_nat, e_uuid = (\<lambda>n. replicate n 117), e_parse = (\<lambda>_. None), e_stringify = (\<lambda>_. []),
     e_toString = (\<lambda>_. []), e_dateParse = (\<lambda>_. None), e_numText = (\<lambda>_. []), e_sha256 = id,
     e_fts = (\<lambda>_ _. Some []), e_module_ok = (\<lambda>_. True), e_fts5 = True, e_isolated = True, e_has_pool = True,
     e_pool_ok = (\<lambda>_. True), e_open_ok = (\<lambda>_. True), e_pool_delete = UnlinkFile\<rparr>"

definition sample_convo :: "jsstring \<Rightarrow> jsnum \<Rightarrow> StoredConversation" where
  "sample_convo i t = \<lparr>cv_conversationId = i, cv_title = None, cv_endpoint = None, cv_model = None,
     cv_createdAt = 1, cv_updatedAt = t, cv_convoJson = []\<rparr>"

definition sample_message :: "jsstring \<Rightarrow> jsstring \<Rightarrow> jsstring option \<Rightarrow> StoredMessage" where
  "sample_message c i p = \<lparr>ms_messageId = i, ms_conversationId = c, ms_parentMessageId = p,
     ms_isCreatedByUser = True, ms_text = [], ms_contentJson = None, ms_model = None, ms_createdAt = 2,
     ms_updatedAt = 2\<rparr>"

definition sample_agent :: "jsstring \<Rightarrow> StoredAgent" where
  "sample_agent i = \<lparr>ag_agentId = i, ag_name = [], ag_description = None, ag_instructions = None,
     ag_model = None, ag_provider = None, ag_tools = None, ag_configJson = [], ag_createdAt = 3, ag_updatedAt = 3\<rparr>"

definition sample_db :: sdb where
  "sample_db = empty_db\<lparr>tables := schema_tables, user_version := SCHEMA_VERSION,
     conversations := [sample_convo (js ''c'') 4],
     messages := [message_row_of (sample_message (js ''c'') (js ''m'') None) 1,
                  message_row_of (sample_message (js ''c'') (js ''n'') (Some (js ''m''))) 2],
     messages_fts := [(1, []), (2, [])], agents := [sample_agent (js ''a'')]\<rparr>"

definition sample_state :: wstate where
  "sample_state = \<lparr>w_db = Some \<lparr>cn_loc = Memory, cn_key = [], cn_db = sample_db\<rparr>, w_persistent = False,
     w_pool = False, w_disk = \<lambda>_. None, w_seed = 0\<rparr>"

lemma sample_opened: "opened sample_state sample_db"
  by (simp add: opened_def sample_state_def sample_db_def db_ok_def keys_ok_def refs_ok_def fts_synced_def
      empty_db_def unique_def sample_convo_def message_row_of_def sample_message_def schema_tables_def)

text \<open>The response to a request body in a state.\<close>

definition answer :: "store_env \<Rightarrow> request_body \<Rightarrow> wstate \<Rightarrow> response_body" where
  "answer env b s = sr_body (fst (handle env \<lparr>sq_requestId = [], sq_body = b\<rparr> s))"

definition after :: "store_env \<Rightarrow> request_body \<Rightarrow> wstate \<Rightarrow> wstate" where
  "after env b s = snd (handle env \<lparr>sq_requestId = [], sq_body = b\<rparr> s)"

lemma handle_parts:
  "handle env q s = (\<lparr>sr_requestId = sq_requestId q, sr_body = answer env (sq_body q) s\<rparr>, after env (sq_body q) s)"
  by (simp add: handle_def answer_def after_def split: prod.splits sum.splits)

lemma answer_eq:
  "answer env b s = (case fst (handle_body env b s) of Inl e \<Rightarrow> ERROR e | Inr r \<Rightarrow> r)"
  "after env b s = snd (handle_body env b s)"
  by (simp_all add: handle_def answer_def after_def split: prod.splits sum.splits)

subsection \<open>Histories of requests\<close>

text \<open>C26. After any sequence of requests to a new worker, failed ones included, the open database
  and every file on disk have unique keys, no message without its conversation, and a full-text
  index of exactly the messages.\<close>

theorem store_invariant:
  assumes "e_fts5 env" and "\<And>f k d. disk f = Some (Enc k d) \<Longrightarrow> db_ok d"
  shows "worker_ok (snd (run_queue env reqs (new_worker disk)))"
proof -
  have "worker_ok (new_worker disk)" using assms(2) by (auto simp: worker_ok_def new_worker_def)
  then show ?thesis using worker.serve_inv [of env "new_worker disk" reqs] assms(1) by simp
qed

theorem store_invariant_witness:
  "worker_ok (snd (run_queue sample_env [\<lparr>sq_requestId = js ''r'', sq_body = INIT (js ''k'')\<rparr>]
     (new_worker (\<lambda>f. if f = js ''f'' then Some (Enc (js ''k'') sample_db) else None))))"
  using sample_opened
  by (intro store_invariant) (auto simp: sample_env_def opened_def split: if_splits)

text \<open>Responses carry the ids of their requests, one each, in the order of posting, and the
  i-th response is what its request gives in the state its predecessors left.\<close>

theorem responses_in_order:
  "map sr_requestId (fst (run_queue env reqs s)) = map sq_requestId reqs
   \<and> (\<forall>i. i < length reqs \<longrightarrow> fst (run_queue env reqs s) ! i
        = fst (handle env (reqs ! i) (snd (run_queue env (take i reqs) s))))"
  using worker.serve_ids worker.serve_nth by blast

theorem responses_in_order_witness:
  "let qs = [\<lparr>sq_requestId = js ''p'', sq_body = LIST_AGENTS\<rparr>, \<lparr>sq_requestId = js ''q'', sq_body = LIST_SKILLS\<rparr>]
   in sr_requestId (fst (run_queue sample_env qs sample_state) ! 1) = js ''q''
      \<and> fst (run_queue sample_env qs sample_state) ! 1
        = fst (handle sample_env (qs ! 1) (snd (run_queue sample_env (take 1 qs) sample_state)))"
  using responses_in_order [of sample_env "[\<lparr>sq_requestId = js ''p'', sq_body = LIST_AGENTS\<rparr>,
    \<lparr>sq_requestId = js ''q'', sq_body = LIST_SKILLS\<rparr>]" sample_state]
  by (simp add: Let_def handle_id)

lemma body_not_ERROR: "handle_body env b s \<noteq> (Inr (ERROR e), s')"
  by (cases b) (auto simp: andThen_def reply_def ret_def split: prod.splits sum.splits)

lemma atomic_handle_body:
  assumes "\<And>k. b \<noteq> INIT k" "b \<noteq> CLEAR_ALL"
  shows "atomic (handle_body env b)"
proof -
  have r: "atomic (andThen m (\<lambda>a. reply (g a)))" if "\<And>Q. keeps Q m" for m :: "'a op" and g
    using that by (intro atomic_reply atomic_pure)
  show ?thesis
  proof (cases b)
    case (INIT k)
    then show ?thesis using assms(1) by blast
  next
    case CLEAR_ALL
    then show ?thesis using assms(2) by blast
  qed (simp_all only: handle_body.simps split_def, (intro atomic_reply atomic_writes r keeps_reads)+)
qed

text \<open>C27. A request other than INIT that is answered with an ERROR leaves the open database as it
  was, however many of its statements had run.\<close>

theorem failed_request_changes_nothing:
  assumes "worker_ok s" and "\<And>k. sq_body q \<noteq> INIT k"
    and "sr_body (fst (handle env q s)) = ERROR e"
  shows "w_db (snd (handle env q s)) = w_db s"
proof -
  obtain x s' where x: "handle_body env (sq_body q) s = (x, s')" by fastforce
  have e: "x = Inl e"
    using assms(3) x body_not_ERROR [of env "sq_body q" s e s']
    by (auto simp: handle_def split: sum.splits)
  have c: "andThen clearAll (\<lambda>_. reply (OK None)) s = (Inl e, s') \<Longrightarrow> w_db s' = w_db s"
    using clearAll_atomic [OF assms(1)]
    by (auto simp: andThen_def reply_def ret_def split: prod.splits sum.splits)
  have "w_db s' = w_db s"
  proof (cases "sq_body q = CLEAR_ALL")
    case True
    then show ?thesis using x c by (simp add: e)
  next
    case False
    then have "atomic (handle_body env (sq_body q))" using assms(2) by (intro atomic_handle_body)
    then show ?thesis using x by (auto simp: e atomic_def)
  qed
  then show ?thesis using x by (simp add: handle_def e)
qed

theorem failed_request_changes_nothing_witness:
  "let q = \<lparr>sq_requestId = js ''r'', sq_body = PERSIST_TURN (js ''z'') (sample_message (js ''z'') (js ''u'') None)
       (sample_message (js ''y'') (js ''v'') None) (sample_convo (js ''z'') 1)\<rparr>
   in w_db (snd (handle sample_env q sample_state)) = w_db sample_state"
  unfolding Let_def
  by (rule failed_request_changes_nothing [where e = ForeignKey])
    (use sample_opened in \<open>simp_all add: opened_def worker_ok_def sample_state_def\<close>,
     simp add: handle_def persistTurn_def tx_def mustDb_def monad_simps upsertConvo_def upsertMessage_def run_def
       prepare_def put_db_def sample_db_def empty_db_def schema_tables_def convo_upsert_def upsert_row_def
       sample_convo_def message_upsert_def sample_message_def Let_def find_row_def message_row_of_def
       fts_add_def split: sum.splits)

lemma f32_roundtrip: "(ucast (ucast w :: 8 word) :: 32 word) OR push_bit 8 (ucast (ucast (drop_bit 8 w) :: 8 word))
   OR push_bit 16 (ucast (ucast (drop_bit 16 w) :: 8 word)) OR push_bit 24 (ucast (ucast (drop_bit 24 w) :: 8 word)) = w"
  by (rule bit_word_eqI) (auto simp: bit_simps not_less, rule ccontr, simp add: not_less)

lemma blobToVec_vecToBlob: "blobToVec (vecToBlob v) = v"
  by (induction v) (simp_all add: vecToBlob_def f32_bytes_def f32_roundtrip)

lemma after_run:
  "opened s d \<Longrightarrow> handle_body env b = andThen (run ts f) (\<lambda>_. reply r) \<Longrightarrow> f d = Inr d' \<Longrightarrow>
    after env b s = put_db d' s \<and> answer env b s = r"
  by (simp add: answer_eq run_open monad_simps reply_def)

subsection \<open>Keyed records\<close>

fun agent_request :: "(jsstring, StoredAgent) change \<Rightarrow> request_body" where
  "agent_request (Put a) = UPSERT_AGENT a"
| "agent_request (Remove k) = DELETE_AGENT k"

fun skill_request :: "(jsstring, StoredSkill) change \<Rightarrow> request_body" where
  "skill_request (Put a) = UPSERT_SKILL a"
| "skill_request (Remove k) = DELETE_SKILL k"

lemma tables_exec [simp]: "tables (agents.exec w d) = tables d" "tables (skills.exec v d) = tables d"
  by (cases w; simp add: agent_put_def agent_remove_def) (cases v; simp add: skill_put_def skill_remove_def)

lemma agent_request_exec:
  "opened s d \<Longrightarrow> after env (agent_request w) s = put_db (agents.exec w d) s"
  by (cases w) (auto simp: answer_eq upsertAgent_def deleteAgent_def run_open monad_simps reply_def)

lemma skill_request_exec:
  "opened s d \<Longrightarrow> after env (skill_request w) s = put_db (skills.exec w d) s"
  by (cases w) (auto simp: answer_eq upsertSkill_def deleteSkill_def run_open monad_simps reply_def)

lemma queue_exec:
  assumes "\<And>w s d. opened s d \<Longrightarrow> opened (after env (req w) s) (ex w d)"
  shows "opened s d \<Longrightarrow>
    opened (snd (run_queue env (map (\<lambda>w. \<lparr>sq_requestId = rid w, sq_body = req w\<rparr>) ws) s)) (fold ex ws d)"
  by (induction ws arbitrary: s d)
    (simp_all add: run_queue_Cons handle_parts assms del: run_queue.simps(2))

lemma last_queue:
  "last (fst (run_queue env (qs @ [q]) s)) = fst (handle env q (snd (run_queue env qs s)))"
  by (simp add: worker.serve_append run_queue_Cons del: run_queue.simps(2))

text \<open>Whatever upserts and deletions of agents are posted, the agent read afterwards is the one
  the same history gives on a finite map, where an upsert of an existing agent keeps its creation
  time; the listing holds exactly the agents of that map, each once.\<close>

theorem agents_refine_map:
  assumes "opened s d"
  shows "let m = fold (write_map ag_agentId agent_merge) ws (\<lambda>k. agent_find k d);
             s' = snd (run_queue env (map (\<lambda>w. \<lparr>sq_requestId = rid w, sq_body = agent_request w\<rparr>) ws) s)
         in answer env (GET_AGENT k) s' = AGENT (m k)
            \<and> (\<exists>as. answer env LIST_AGENTS s' = AGENTS as \<and> set as = ran m \<and> length as = card (dom m)
                \<and> sorted_wrt (\<lambda>x y. ag_updatedAt y \<le> ag_updatedAt x) as)"
proof -
  define m where "m = fold (write_map ag_agentId agent_merge) ws (\<lambda>k. agent_find k d)"
  define s' where "s' = snd (run_queue env (map (\<lambda>w. \<lparr>sq_requestId = rid w, sq_body = agent_request w\<rparr>) ws) s)"
  have step: "opened (after env (agent_request w) t) (agents.exec w e)" if "opened t e" for w t e
    using that by (simp add: agent_request_exec put_db_open agents.ok_exec openedD(2))
  have o: "opened s' (fold agents.exec ws d)"
    unfolding s'_def by (rule queue_exec [OF step assms(1)])
  note h = agents.history [OF openedD(2) [OF assms(1)], of ws]
  have f: "agent_find k (fold agents.exec ws d) = m k" for k
    using h by (simp add: m_def fun_eq_iff)
  have m: "(\<lambda>k. agent_find k (fold agents.exec ws d)) = m" using f by (simp add: fun_eq_iff)
  have "answer env (GET_AGENT k) s' = AGENT (m k)"
    by (simp add: answer_eq getAgent_def query_open [OF o] monad_simps reply_def f)
  moreover have "answer env LIST_AGENTS s' = AGENTS (agent_list (fold agents.exec ws d))"
    by (simp add: answer_eq listAgents_def query_open [OF o] monad_simps reply_def)
  moreover have "set (agent_list (fold agents.exec ws d)) = ran m"
    "length (agent_list (fold agents.exec ws d)) = card (dom m)"
    using agents.list_range agents.list_length h by (auto simp: m)
  ultimately show ?thesis
    using sorted_sort_desc [of ag_updatedAt "agents (fold agents.exec ws d)"]
    by (simp add: agent_list_def m_def s'_def Let_def)
qed

theorem agents_refine_map_witness:
  "answer sample_env (GET_AGENT (js ''b'')) (snd (run_queue sample_env
     (map (\<lambda>w. \<lparr>sq_requestId = [], sq_body = agent_request w\<rparr>) [Put (sample_agent (js ''b'')), Remove (js ''a'')])
     sample_state)) = AGENT (Some (sample_agent (js ''b'')))"
  using agents_refine_map [OF sample_opened, of "[Put (sample_agent (js ''b'')), Remove (js ''a'')]" sample_env "\<lambda>_. []" "js ''b''"]
  by (simp add: Let_def sample_agent_def agent_find_def sample_db_def empty_db_def split: if_splits)

subsection \<open>Vectors\<close>

definition vector_rows :: "jsstring \<Rightarrow> (nat \<times> VectorChunk) list \<Rightarrow> embedding_row list" where
  "vector_rows owner ics = map (\<lambda>(i, c). \<lparr>er_messageId = owner, er_ord = i, er_text = vc_text c,
     er_vec = vecToBlob (vc_vec c)\<rparr>) ics"

lemma storeVectors_loop:
  assumes "opened s d" "distinct (map fst ics)"
    "\<And>i. i \<in> fst ` set ics \<Longrightarrow> (owner, i) \<notin> (\<lambda>x. (er_messageId x, er_ord x)) ` set (message_embeddings d)"
  shows "\<exists>s'. forEach (\<lambda>(i, c). run [TMessageEmbeddings] (vector_insert
         \<lparr>er_messageId = owner, er_ord = i, er_text = vc_text c, er_vec = vecToBlob (vc_vec c)\<rparr>)) ics s
    = (Inr (), s') \<and> opened s' (d\<lparr>message_embeddings := message_embeddings d @ vector_rows owner ics\<rparr>)"
  using assms
proof (induction ics arbitrary: s d)
  case Nil
  then show ?case by (simp add: ret_def vector_rows_def)
next
  case (Cons ic ics)
  obtain i c where ic: "ic = (i, c)" by fastforce
  let ?r = "\<lparr>er_messageId = owner, er_ord = i, er_text = vc_text c, er_vec = vecToBlob (vc_vec c)\<rparr>"
  let ?d = "d\<lparr>message_embeddings := message_embeddings d @ [?r]\<rparr>"
  have f: "(owner, i) \<notin> (\<lambda>x. (er_messageId x, er_ord x)) ` set (message_embeddings d)"
    using Cons.prems(3) [of i] by (simp add: ic)
  have v: "vector_insert ?r d = Inr ?d" using f by (auto simp: vector_insert_def)
  have o: "opened (put_db ?d s) ?d"
    by (rule put_db_open [OF Cons.prems(1)]) (simp_all add: vector_insert_ok [OF openedD(2) [OF Cons.prems(1)] v])
  have n: "\<And>j. j \<in> fst ` set ics \<Longrightarrow> (owner, j) \<notin> (\<lambda>x. (er_messageId x, er_ord x)) ` set (message_embeddings ?d)"
    using Cons.prems(2,3) by (auto simp: ic)
  obtain s' where "forEach (\<lambda>(i, c). run [TMessageEmbeddings] (vector_insert
         \<lparr>er_messageId = owner, er_ord = i, er_text = vc_text c, er_vec = vecToBlob (vc_vec c)\<rparr>)) ics (put_db ?d s)
    = (Inr (), s')" "opened s' (?d\<lparr>message_embeddings := message_embeddings ?d @ vector_rows owner ics\<rparr>)"
    using Cons.IH [OF o _ n] Cons.prems(2) by auto
  then show ?case by (simp add: ic monad_simps run_open [OF Cons.prems(1)] v vector_rows_def)
qed

lemma sort_key_two:
  "sort_key f (sort_key g (filter P xs)) = filter P (sort_key f (sort_key g xs))"
  by (simp add: filter_sort)

lemma stored_vector_rows:
  "map (\<lambda>r. \<lparr>sv_messageId = er_messageId r, sv_ord = er_ord r, sv_text = er_text r, sv_vec = blobToVec (er_vec r)\<rparr>)
     (sort_key (\<lambda>r. utf8 (er_messageId r)) (sort_key er_ord (vector_rows owner (zip [0..<length cs] cs))))
   = map (\<lambda>(i, c). \<lparr>sv_messageId = owner, sv_ord = i, sv_text = vc_text c, sv_vec = vc_vec c\<rparr>)
       (zip [0..<length cs] cs)"
proof -
  let ?v = "vector_rows owner (zip [0..<length cs] cs)"
  have "map er_ord ?v = map fst (zip [0..<length cs] cs)" by (simp add: vector_rows_def split_def comp_def)
  then have o: "sort_key er_ord ?v = ?v" by (intro sort_key_id_if_sorted) simp
  have "map (\<lambda>r. utf8 (er_messageId r)) ?v = replicate (length ?v) (utf8 owner)"
    by (rule replicate_eqI) (auto simp: vector_rows_def)
  then have u: "sort_key (\<lambda>r. utf8 (er_messageId r)) ?v = ?v" by (intro sort_key_id_if_sorted) simp
  show ?thesis
    unfolding o u by (simp add: vector_rows_def split_def comp_def blobToVec_vecToBlob)
qed

lemma vectors_read_back:
  assumes "opened s d"
  shows "answer env (STORE_VECTORS owner cs) s = OK None"
    and "\<exists>vs. answer env HYDRATE_VECTORS (after env (STORE_VECTORS owner cs) s) = VECTORS vs
    \<and> filter (\<lambda>v. sv_messageId v = owner) vs
      = map (\<lambda>(i, c). \<lparr>sv_messageId = owner, sv_ord = i, sv_text = vc_text c, sv_vec = vc_vec c\<rparr>)
          (zip [0..<length cs] cs)
    \<and> answer env HYDRATE_VECTORS s = VECTORS (select_vectors d)
    \<and> filter (\<lambda>v. sv_messageId v \<noteq> owner) vs = filter (\<lambda>v. sv_messageId v \<noteq> owner) (select_vectors d)"
proof -
  let ?ics = "zip [0..<length cs] cs"
  let ?d = "vectors_delete owner d"
  have o1: "opened (put_db ?d s) ?d"
    unfolding vectors_delete_def
    by (rule put_db_open [OF assms], intro db_ok_upd unique_filter db_okD(4) openedD(2) [OF assms]) simp
  obtain s' where s': "forEach (\<lambda>(i, c). run [TMessageEmbeddings] (vector_insert
         \<lparr>er_messageId = owner, er_ord = i, er_text = vc_text c, er_vec = vecToBlob (vc_vec c)\<rparr>)) ?ics (put_db ?d s)
    = (Inr (), s')" "opened s' (?d\<lparr>message_embeddings := message_embeddings ?d @ vector_rows owner ?ics\<rparr>)"
    using storeVectors_loop [OF o1, of ?ics owner] by (auto simp: vectors_delete_def)
  have a: "after env (STORE_VECTORS owner cs) s = s'"
    by (simp add: answer_eq storeVectors_def tx_open [OF assms] monad_simps run_open [OF assms] s' reply_def)
  let ?rows = "filter (\<lambda>r. er_messageId r \<noteq> owner) (message_embeddings d) @ vector_rows owner ?ics"
  have h: "answer env HYDRATE_VECTORS s' = VECTORS (select_vectors (d\<lparr>message_embeddings := ?rows\<rparr>))"
    by (simp add: answer_eq hydrateVectors_def query_open [OF s'(2)] monad_simps reply_def
        vectors_delete_def select_vectors_def)
  have own: "\<forall>r\<in>set (vector_rows owner ?ics). er_messageId r = owner"
    by (auto simp: vector_rows_def)
  then have f1: "filter (\<lambda>r. er_messageId r = owner) ?rows = vector_rows owner ?ics"
    and f2: "filter (\<lambda>r. er_messageId r \<noteq> owner) ?rows
      = filter (\<lambda>r. er_messageId r \<noteq> owner) (message_embeddings d)"
    by (auto simp: filter_empty_conv)
  show "answer env (STORE_VECTORS owner cs) s = OK None"
    by (simp add: answer_eq storeVectors_def tx_open [OF assms] monad_simps run_open [OF assms] s' reply_def)
  show "\<exists>vs. answer env HYDRATE_VECTORS (after env (STORE_VECTORS owner cs) s) = VECTORS vs
    \<and> filter (\<lambda>v. sv_messageId v = owner) vs
      = map (\<lambda>(i, c). \<lparr>sv_messageId = owner, sv_ord = i, sv_text = vc_text c, sv_vec = vc_vec c\<rparr>)
          (zip [0..<length cs] cs)
    \<and> answer env HYDRATE_VECTORS s = VECTORS (select_vectors d)
    \<and> filter (\<lambda>v. sv_messageId v \<noteq> owner) vs = filter (\<lambda>v. sv_messageId v \<noteq> owner) (select_vectors d)"
    unfolding a h using f1 f2 stored_vector_rows [of owner cs]
    by (simp add: answer_eq hydrateVectors_def query_open [OF assms] monad_simps reply_def select_vectors_def
        filter_map comp_def sort_key_two [symmetric] del: filter_append)
qed

text \<open>C33. Vectors stored for a message come back from HYDRATE_VECTORS as the chunks that were stored,
  in order and bit for bit, in place of what was stored for it before; the vectors of other
  messages are untouched.\<close>

theorem vectors_roundtrip:
  assumes "opened s d"
  shows "\<exists>vs. answer env HYDRATE_VECTORS (after env (STORE_VECTORS owner cs) s) = VECTORS vs
    \<and> filter (\<lambda>v. sv_messageId v = owner) vs
      = map (\<lambda>(i, c). \<lparr>sv_messageId = owner, sv_ord = i, sv_text = vc_text c, sv_vec = vc_vec c\<rparr>)
          (zip [0..<length cs] cs)
    \<and> answer env HYDRATE_VECTORS s = VECTORS (select_vectors d)
    \<and> filter (\<lambda>v. sv_messageId v \<noteq> owner) vs = filter (\<lambda>v. sv_messageId v \<noteq> owner) (select_vectors d)"
  using vectors_read_back(2) [OF assms] .

theorem vectors_roundtrip_witness:
  "\<exists>vs. answer sample_env HYDRATE_VECTORS
      (after sample_env (STORE_VECTORS (js ''m'') [\<lparr>vc_text = js ''t'', vc_vec = [1, 2]\<rparr>]) sample_state) = VECTORS vs
    \<and> filter (\<lambda>v. sv_messageId v = js ''m'') vs
      = [\<lparr>sv_messageId = js ''m'', sv_ord = 0, sv_text = js ''t'', sv_vec = [1, 2]\<rparr>]"
  using vectors_roundtrip [OF sample_opened, of sample_env "js ''m''" "[\<lparr>vc_text = js ''t'', vc_vec = [1, 2]\<rparr>]"]
  by auto

subsection \<open>Clearing and deleting\<close>

text \<open>Deleting a conversation removes it, its messages and their index entries and nothing else;
  the vectors stored for its messages remain.\<close>

theorem delete_convo_cascades:
  assumes "opened s d"
  shows "answer env (DELETE_CONVO cid) s = OK None
    \<and> (\<exists>d'. opened (after env (DELETE_CONVO cid) s) d'
        \<and> conversations d' = filter (\<lambda>c. cv_conversationId c \<noteq> cid) (conversations d)
        \<and> messages d' = filter (\<lambda>r. mr_conversationId r \<noteq> cid) (messages d)
        \<and> set (messages_fts d') = (\<lambda>r. (mr_rowid r, mr_text r)) ` set (messages d')
        \<and> message_embeddings d' = message_embeddings d
        \<and> memories d' = memories d \<and> agents d' = agents d \<and> skills d' = skills d)"
proof -
  let ?d = "convo_delete cid d"
  have ok: "db_ok ?d" using openedD(2) [OF assms] by (rule convo_delete_ok)
  have t: "tables ?d = tables d" by (simp add: convo_delete_def fts_remove_all_fields)
  have o: "opened (put_db ?d s) ?d" by (rule put_db_open [OF assms ok t])
  have "TFts \<in> set (tables ?d)" using openedD(1) [OF assms] t by simp
  then have "fts_synced ?d" using ok by (simp add: db_ok_def)
  then show ?thesis
    using o
    by (auto simp: answer_eq deleteConvo_def run_open [OF assms] monad_simps reply_def fts_synced_def
        intro!: exI [of _ ?d]) (simp_all add: convo_delete_def fts_remove_all_fields delete_row_def)
qed

theorem delete_convo_cascades_witness:
  "\<exists>d'. opened (after sample_env (DELETE_CONVO (js ''c'')) sample_state) d' \<and> messages d' = []"
  using delete_convo_cascades [OF sample_opened, of sample_env "js ''c''"]
  by (auto simp: sample_db_def message_row_of_def sample_message_def)

lemma fts_remove_all_more:
  "files (fts_remove_all rs d) = files d" "chunks (fts_remove_all rs d) = chunks d"
  "embeddings (fts_remove_all rs d) = embeddings d"
  by (induction rs arbitrary: d) (simp_all add: fts_remove_all_def fts_remove_def)

text \<open>Clearing the store empties every table and the full-text index.\<close>

theorem clear_all_empties:
  assumes "opened s d"
  shows "answer env CLEAR_ALL s = OK None
    \<and> (\<exists>d'. opened (after env CLEAR_ALL s) d' \<and> conversations d' = [] \<and> messages d' = [] \<and> messages_fts d' = []
        \<and> files d' = [] \<and> chunks d' = [] \<and> embeddings d' = [] \<and> message_embeddings d' = []
        \<and> memories d' = [] \<and> agents d' = [] \<and> skills d' = [])"
proof -
  obtain c where c: "w_db s = Some c" "cn_db c = d" using assms by (auto simp: opened_def)
  have all: "\<And>t. t \<in> set (tables d)" using openedD(1) [OF assms] .
  have r: "run ts f t = (case f (cn_db b) of Inl e \<Rightarrow> (Inl e, t) | Inr e' \<Rightarrow> (Inr (), put_db e' t))"
    if "w_db t = Some b" "tables (cn_db b) = tables d" for ts f t b
    using that all by (auto simp: run_def prepare_def mustDb_def monad_simps split: sum.splits)
  define d' where "d' = (convos_clear (fts_remove_all (messages d)
      (d\<lparr>message_embeddings := [], embeddings := [], chunks := [], files := [], messages := []\<rparr>)))
      \<lparr>memories := [], agents := [], skills := [], messages_fts := []\<rparr>"
  have f: "tables d' = tables d" "conversations d' = []" "messages d' = []" "messages_fts d' = []"
    "message_embeddings d' = []" "memories d' = []" "agents d' = []" "skills d' = []"
    "files d' = []" "chunks d' = []" "embeddings d' = []"
    by (simp_all add: d'_def convos_clear_def fts_remove_all_fields fts_remove_all_more)
  have run: "clearAll s = (Inr (), put_db d' s)"
    unfolding clearAll_def
    by (simp add: monad_simps tx_open [OF assms] r [OF c(1)] c w_db_put r fts_remove_all_fields
        convos_clear_def Let_def d'_def put_db_put)
  have "db_ok d'" using f all [of TFts] by (simp add: db_ok_def keys_ok_def refs_ok_def fts_synced_def)
  then have "opened (put_db d' s) d'" using put_db_open [OF assms] f(1) by blast
  then show ?thesis using f by (auto simp: answer_eq run monad_simps reply_def)
qed

theorem clear_all_empties_witness:
  "\<exists>d'. opened (after sample_env CLEAR_ALL sample_state) d' \<and> messages d' = [] \<and> messages_fts d' = []"
  using clear_all_empties [OF sample_opened, of sample_env] by blast

subsection \<open>Memories\<close>

lemma set_upsert_replace:
  assumes "\<And>x. key x = key r \<Longrightarrow> upd x r = r"
  shows "set (upsert_row key upd r rows) = insert r {x \<in> set rows. key x \<noteq> key r}"
proof (cases "key r \<in> key ` set rows")
  case True
  then obtain x where "x \<in> set rows" "key x = key r" by force
  then have "r \<in> (\<lambda>x. if key x = key r then upd x r else x) ` set rows"
    using assms by (force simp: image_iff)
  then show ?thesis using True assms by (auto simp: upsert_row_def)
next
  case False
  then show ?thesis by (auto simp: upsert_row_def) (metis imageI)
qed

text \<open>Upserting a memory under a key leaves one memory under that key, with the new value and its
  token estimate; renaming drops the memory under the old key, and all others stay.\<close>

theorem upsert_memory_renames:
  assumes "opened s d"
  shows "\<exists>ms. answer env LIST_MEMORIES (after env (UPSERT_MEMORY key value previousKey) s) = MEMORIES ms
    \<and> answer env (UPSERT_MEMORY key value previousKey) s = OK None
    \<and> distinct (map my_key ms)
    \<and> set ms = insert \<lparr>my_key = key, my_value = value, my_tokenCount = estimateTokens value,
                       my_updatedAt = e_now env (w_seed s)\<rparr>
        {m \<in> set (memories d). my_key m \<noteq> key \<and> \<not> (previousKey = Some (my_key m) \<and> my_key m \<noteq> [])}"
proof -
  define b where "b = (case previousKey of Some p \<Rightarrow> p \<noteq> [] \<and> p \<noteq> key | None \<Rightarrow> False)"
  define d1 where "d1 = (if b then memory_remove (the previousKey) d else d)"
  define s1 where "s1 = (if b then put_db d1 s else s)"
  let ?m = "\<lparr>my_key = key, my_value = value, my_tokenCount = estimateTokens value,
       my_updatedAt = e_now env (w_seed s)\<rparr>"
  let ?d = "memory_put ?m d1"
  have t: "tables d1 = tables d" by (simp add: d1_def memory_remove_def)
  have ok: "db_ok d1" using openedD(2) [OF assms] by (simp add: d1_def put_remove_ok)
  have o1: "opened s1 d1"
    using assms ok t put_db_open [OF assms ok t] by (auto simp: s1_def d1_def)
  have seed: "w_seed s1 = w_seed s"
    by (auto simp: s1_def put_db_def split: option.splits location.splits)
  have pre: "(case previousKey of
         Some p \<Rightarrow> if p \<noteq> [] \<and> p \<noteq> key then run [TMemories] (\<lambda>d. Inr (memory_remove p d)) else ret ()
       | None \<Rightarrow> ret ()) s = (Inr (), s1)"
    by (auto simp: s1_def d1_def b_def run_open [OF assms] ret_def split: option.splits)
  let ?s2 = "s1\<lparr>w_seed := Suc (w_seed s)\<rparr>"
  have o2: "opened ?s2 d1" using o1 by (simp add: opened_def)
  have o3: "opened (put_db ?d ?s2) ?d"
    by (rule put_db_open [OF o2 put_remove_ok(1) [OF ok]]) (simp add: memory_put_def)
  have r: "upsertMemory env key value previousKey s = (Inr (), put_db ?d ?s2)"
    by (simp add: upsertMemory_def tx_open [OF assms] andThen_def [of "case previousKey of None \<Rightarrow> _ | Some x \<Rightarrow> _ x"]
        pre dateNow_def draw_def ret_def andThen_def run_open [OF o2] seed)
  have "set (memories ?d) = insert ?m {m \<in> set (memories d1). my_key m \<noteq> key}"
    unfolding memory_put_def by (simp add: set_upsert_replace)
  also have "{m \<in> set (memories d1). my_key m \<noteq> key}
      = {m \<in> set (memories d). my_key m \<noteq> key \<and> \<not> (previousKey = Some (my_key m) \<and> my_key m \<noteq> [])}"
    by (auto simp: d1_def b_def memory_remove_def set_delete_row split: option.splits)
  finally have st: "set (memories ?d) = insert ?m
      {m \<in> set (memories d). my_key m \<noteq> key \<and> \<not> (previousKey = Some (my_key m) \<and> my_key m \<noteq> [])}" .
  have "unique my_key (memories ?d)" using o3 openedD(2) db_okD(1) by blast
  then show ?thesis
    using st by (simp add: answer_eq r listMemories_def query_open [OF o3] monad_simps reply_def unique_def)
qed

theorem upsert_memory_renames_witness:
  "answer sample_env (UPSERT_MEMORY (js ''k'') (js ''v'') (Some (js ''o''))) sample_state = OK None"
  using upsert_memory_renames [OF sample_opened, of sample_env "js ''k''" "js ''v''" "Some (js ''o'')"] by blast

subsection \<open>Search queries\<close>

lemma split_runs_concat: "concat (split_runs p acc s) = rev acc @ filter (\<lambda>c. \<not> p c) s"
proof (induction p acc s rule: split_runs.induct)
  case (2 p acc c cs)
  have "filter (\<lambda>c. \<not> p c) (dropWhile p cs) = filter (\<lambda>c. \<not> p c) cs" by (induction cs) auto
  then show ?case using 2 by simp
qed simp

lemma split_runs_free: "\<forall>c\<in>set acc. \<not> p c \<Longrightarrow> x \<in> set (split_runs p acc s) \<Longrightarrow> c \<in> set x \<Longrightarrow> \<not> p c"
  by (induction p acc s arbitrary: x rule: split_runs.induct) (auto split: if_splits)

lemma concat_nonempty: "concat (filter (\<lambda>t. t \<noteq> []) xs) = concat xs"
  by (induction xs) auto

lemma join_phrases_empty: "join sep (map (\<lambda>t. [x] @ t @ [x]) ts) = [] \<longleftrightarrow> ts = []"
  by (induction ts rule: induct_list012) simp_all

lemma trim_free: "\<forall>c\<in>set s. \<not> is_ws c \<Longrightarrow> trim s = s"
proof -
  assume a: "\<forall>c\<in>set s. \<not> is_ws c"
  have d: "dropWhile is_ws t = t" if "\<forall>c\<in>set t. \<not> is_ws c" for t
    using that by (cases t) auto
  show ?thesis using a by (simp add: trim_def trim_end_def d)
qed

text \<open>A search query reaches FTS5 as a space-separated list of quoted phrases: no phrase holds a
  quote, an operator character or white space, none is empty, and together they hold every other
  character of the query in order. A query of nothing else gives the empty string.\<close>

theorem sanitized_query_is_phrases:
  "\<exists>ts. sanitizeFtsQuery q = join (js '' '') (map (\<lambda>t. [quote_char] @ t @ [quote_char]) ts)
    \<and> (\<forall>t\<in>set ts. t \<noteq> [] \<and> (\<forall>c\<in>set t. \<not> fts_stripped c \<and> \<not> is_ws c))
    \<and> concat ts = filter (\<lambda>c. \<not> fts_stripped c \<and> \<not> is_ws c) q
    \<and> (sanitizeFtsQuery q = [] \<longleftrightarrow> (\<forall>c\<in>set q. fts_stripped c \<or> is_ws c))"
proof -
  let ?P = "split_runs is_ws [] q"
  let ?ts = "filter (\<lambda>t. t \<noteq> []) (map fts_token ?P)"
  have free: "\<forall>c\<in>set x. \<not> is_ws c" if "x \<in> set ?P" for x
    using split_runs_free [of "[]" is_ws x q] that by simp
  have tok: "fts_token x = filter (\<lambda>c. \<not> fts_stripped c) x" if "x \<in> set ?P" for x
    unfolding fts_token_def using free [OF that] by (intro trim_free) auto
  have el: "t \<noteq> [] \<and> (\<forall>c\<in>set t. \<not> fts_stripped c \<and> \<not> is_ws c)" if "t \<in> set ?ts" for t
    using that free by (auto simp: tok)
  have "concat ?ts = concat (map fts_token ?P)" by (rule concat_nonempty)
  also have "\<dots> = concat (map (filter (\<lambda>c. \<not> fts_stripped c)) ?P)" by (simp add: tok cong: map_cong)
  also have "\<dots> = filter (\<lambda>c. \<not> fts_stripped c) (concat ?P)" by (simp add: filter_concat)
  also have "\<dots> = filter (\<lambda>c. \<not> fts_stripped c \<and> \<not> is_ws c) q"
    by (simp add: split_runs_concat conj_commute)
  finally have cc: "concat ?ts = filter (\<lambda>c. \<not> fts_stripped c \<and> \<not> is_ws c) q" .
  have "sanitizeFtsQuery q = [] \<longleftrightarrow> ?ts = []" unfolding sanitizeFtsQuery_def by (rule join_phrases_empty)
  also have "\<dots> \<longleftrightarrow> concat ?ts = []" using el by (cases ?ts) auto
  also have "\<dots> \<longleftrightarrow> (\<forall>c\<in>set q. fts_stripped c \<or> is_ws c)" unfolding cc by (auto simp: filter_empty_conv)
  finally have "sanitizeFtsQuery q = [] \<longleftrightarrow> (\<forall>c\<in>set q. fts_stripped c \<or> is_ws c)" .
  moreover have "\<forall>t\<in>set ?ts. t \<noteq> [] \<and> (\<forall>c\<in>set t. \<not> fts_stripped c \<and> \<not> is_ws c)" using el by blast
  ultimately show ?thesis using cc sanitizeFtsQuery_def by blast
qed

theorem sanitized_query_is_phrases_witness:
  "sanitizeFtsQuery (js ''* -'') = []"
  using sanitized_query_is_phrases [of "js ''* -''"]
  by (auto simp: js_def fts_stripped_def is_ws_def ws_codes_def)

subsection \<open>Listing\<close>

text \<open>The client that follows the cursor: page after page until there is none.\<close>

fun follow_cursor :: "store_env \<Rightarrow> int \<Rightarrow> jsnum option \<Rightarrow> nat \<Rightarrow> wstate \<Rightarrow> StoredConversation list option" where
  "follow_cursor env n cursor 0 s = None"
| "follow_cursor env n cursor (Suc k) s =
     (case answer env (LIST_CONVOS (Some n) cursor) s of
        CONVOS cs None \<Rightarrow> Some cs
      | CONVOS cs (Some t) \<Rightarrow> map_option ((@) cs) (follow_cursor env n (Some t) k s)
      | _ \<Rightarrow> None)"

definition older :: "jsnum option \<Rightarrow> sdb \<Rightarrow> StoredConversation list" where
  "older cursor d = sort_desc cv_updatedAt
     (case cursor of None \<Rightarrow> conversations d | Some c \<Rightarrow> filter (\<lambda>r. cv_updatedAt r < c) (conversations d))"

lemma rowToConvo_id [simp]: "rowToConvo = id"
  by (rule ext) (simp add: rowToConvo_def)

lemma clamp_pos: "0 < clamp_limit n c"
  by (simp add: clamp_limit_def)

lemma list_answer:
  assumes "opened s d"
  shows "answer env (LIST_CONVOS (Some n) cursor) s =
    (let xs = older (use_cursor cursor) d; lim = clamp_limit n 200 in
     CONVOS (take lim xs) (if lim < length xs then Some (cv_updatedAt (last (take lim xs))) else None))"
  by (auto simp: answer_eq listConvos_def query_open [OF assms] monad_simps reply_def Let_def convo_page_def
      older_def min_def not_less)

text \<open>A page of conversations has at most the clamped limit of rows, is ordered by last update,
  starts with the newest conversation older than the cursor and skips none; the cursor it returns
  is the time of its last row, and there is one exactly when more conversations follow.\<close>

theorem list_convos_page:
  assumes "opened s d"
  shows "\<exists>cs next. answer env (LIST_CONVOS (Some n) cursor) s = CONVOS cs next
    \<and> length cs \<le> clamp_limit n 200 \<and> clamp_limit n 200 \<in> {1..200}
    \<and> sorted_wrt (\<lambda>x y. cv_updatedAt y \<le> cv_updatedAt x) cs
    \<and> (\<exists>rest. cs @ rest = older (use_cursor cursor) d
         \<and> next = (if rest = [] then None else Some (cv_updatedAt (last cs))))"
proof -
  let ?xs = "older (use_cursor cursor) d" and ?l = "clamp_limit n 200"
  have "sorted_wrt (\<lambda>x y. cv_updatedAt y \<le> cv_updatedAt x) ?xs" by (simp add: older_def sorted_sort_desc)
  then have "sorted_wrt (\<lambda>x y. cv_updatedAt y \<le> cv_updatedAt x) (take ?l ?xs)" by (rule sorted_wrt_take)
  moreover have "?l \<in> {1..200}" by (auto simp: clamp_limit_def)
  moreover have "take ?l ?xs @ drop ?l ?xs = ?xs" by simp
  ultimately show ?thesis
    unfolding list_answer [OF assms] Let_def
    by (intro exI conjI) (rule refl, simp, assumption, assumption, assumption, simp add: not_less)
qed

theorem list_convos_page_witness:
  "\<exists>cs next. answer sample_env (LIST_CONVOS (Some 0) None) sample_state = CONVOS cs next \<and> length cs \<le> 1"
  using list_convos_page [OF sample_opened, of sample_env 0 None] by (auto simp: clamp_limit_def)

lemma older_split:
  assumes dist: "distinct (map cv_updatedAt (conversations d))"
    and l: "0 < l" "l < length (older cursor d)"
  shows "drop l (older cursor d) = older (Some (cv_updatedAt (last (take l (older cursor d))))) d"
proof -
  let ?xs = "older cursor d" and ?u = cv_updatedAt
  let ?t = "?u (last (take l ?xs))"
  have st: "sorted_wrt (\<lambda>x y. ?u y \<le> ?u x) ?xs" by (simp add: older_def sorted_sort_desc)
  have dx: "distinct (map ?u ?xs)"
    using dist by (auto simp: older_def distinct_map_filter split: option.splits)
  have t: "?t = ?u (?xs ! (l - 1))" using l by (subst last_conv_nth) (auto simp: min_def)
  have le: "?u (?xs ! j) \<le> ?u (?xs ! i)" if "i \<le> j" "j < length ?xs" for i j
    using that st sorted_wrt_nth_less [OF st, of i j] by (cases "i = j") auto
  have ne: "?u (?xs ! i) \<noteq> ?u (?xs ! j)" if "i \<noteq> j" "i < length ?xs" "j < length ?xs" for i j
    using dx that by (metis nth_eq_iff_index_eq nth_map length_map)
  have a: "\<forall>x\<in>set (take l ?xs). \<not> ?u x < ?t"
    unfolding t using le l by (auto simp: in_set_conv_nth not_less)
  have b: "\<forall>x\<in>set (drop l ?xs). ?u x < ?t"
  proof
    fix x assume "x \<in> set (drop l ?xs)"
    then obtain i where i: "i < length ?xs - l" "x = ?xs ! (l + i)" by (auto simp: in_set_conv_nth)
    have "?u x \<le> ?t" unfolding t i(2) using i l by (intro le) auto
    moreover have "?u x \<noteq> ?t" unfolding t i(2) using i l by (intro ne) auto
    ultimately show "?u x < ?t" by simp
  qed
  have "drop l ?xs = filter (\<lambda>x. ?u x < ?t) (take l ?xs @ drop l ?xs)"
    using a b by (simp add: filter_empty_conv filter_True del: append_take_drop_id)
  also have "\<dots> = filter (\<lambda>x. ?u x < ?t) ?xs" by simp
  also have "\<dots> = older (Some ?t) d"
  proof (cases cursor)
    case None
    then show ?thesis by (simp add: older_def sort_desc_def filter_sort)
  next
    case (Some c)
    have "?xs ! (l - 1) \<in> set ?xs" using l by (intro nth_mem) simp
    then have "?t < c" unfolding t by (simp add: older_def Some)
    then have "filter (\<lambda>x. ?u x < ?t) (filter (\<lambda>r. ?u r < c) (conversations d))
        = filter (\<lambda>x. ?u x < ?t) (conversations d)" by (auto intro: filter_cong)
    then show ?thesis by (simp add: older_def Some sort_desc_def filter_sort)
  qed
  finally show ?thesis .
qed

text \<open>C32. When the update times are distinct and not zero, a client that follows the cursor from the
  start reads every conversation exactly once, newest first, within one request per conversation.\<close>

theorem cursor_reads_everything:
  assumes "opened s d" and "distinct (map cv_updatedAt (conversations d))"
    and "0 \<notin> cv_updatedAt ` set (conversations d)"
  shows "follow_cursor env n None (Suc (length (conversations d))) s
    = Some (sort_desc cv_updatedAt (conversations d))"
proof -
  have "follow_cursor env n cursor (Suc k) s = Some (older cursor d)"
    if "length (older cursor d) \<le> k" "use_cursor cursor = cursor" for k cursor
    using that
  proof (induction k arbitrary: cursor)
    case 0
    then show ?case by (simp add: list_answer [OF assms(1)] Let_def)
  next
    case (Suc k)
    let ?xs = "older cursor d" and ?l = "clamp_limit n 200"
    show ?case
    proof (cases "?l < length ?xs")
      case False
      then show ?thesis using Suc.prems by (subst follow_cursor.simps) (simp add: list_answer [OF assms(1)] Let_def)
    next
      case True
      let ?t = "cv_updatedAt (last (take ?l ?xs))"
      have sp: "drop ?l ?xs = older (Some ?t) d" by (rule older_split [OF assms(2) clamp_pos True])
      have ne: "take ?l ?xs \<noteq> []" using True clamp_pos [of n 200] by auto
      have "last (take ?l ?xs) \<in> set ?xs" using last_in_set [OF ne] by (metis in_set_takeD)
      then have "last (take ?l ?xs) \<in> set (conversations d)"
        by (auto simp: older_def split: option.splits)
      then have "?t \<noteq> 0" using assms(3) by force
      then have u: "use_cursor (Some ?t) = Some ?t" by (simp add: use_cursor_def)
      have "length (older (Some ?t) d) \<le> k"
        using Suc.prems(1) True clamp_pos [of n 200] by (simp add: sp [symmetric])
      then have r: "follow_cursor env n (Some ?t) (Suc k) s = Some (older (Some ?t) d)"
        using Suc.IH u by blast
      have "?xs = take ?l ?xs @ older (Some ?t) d" by (simp add: sp [symmetric])
      then show ?thesis using True Suc.prems r
        by (subst follow_cursor.simps) (simp add: list_answer [OF assms(1)] Let_def)
    qed
  qed
  from this [of None "length (conversations d)"] show ?thesis
    by (simp add: older_def use_cursor_def)
qed

theorem cursor_reads_everything_witness:
  "follow_cursor sample_env 1 None 2 sample_state = Some [sample_convo (js ''c'') 4]"
  using cursor_reads_everything [OF sample_opened, of sample_env 1]
  by (simp add: sample_db_def sample_convo_def sort_desc_def numeral_2_eq_2)

text \<open>Two conversations with the same update time on either side of a page boundary: the second is
  never listed.\<close>

definition tie_convo :: "jsstring \<Rightarrow> StoredConversation" where
  "tie_convo i = \<lparr>cv_conversationId = i, cv_title = None, cv_endpoint = None, cv_model = None,
     cv_createdAt = 1, cv_updatedAt = 7, cv_convoJson = []\<rparr>"

definition tie_state :: wstate where
  "tie_state = \<lparr>w_db = Some \<lparr>cn_loc = Memory, cn_key = [], cn_db =
       empty_db\<lparr>tables := schema_tables, conversations := [tie_convo (js ''a''), tie_convo (js ''b'')]\<rparr>\<rparr>,
     w_persistent = False, w_pool = False, w_disk = \<lambda>_. None, w_seed = 0\<rparr>"

theorem tied_conversation_never_listed:
  "follow_cursor env 1 None (Suc (Suc k)) tie_state = Some [tie_convo (js ''a'')]"
  by (simp add: answer_eq tie_state_def listConvos_def query_def prepare_def mustDb_def monad_simps reply_def
      clamp_limit_def convo_page_def use_cursor_def sort_desc_def tie_convo_def schema_tables_def empty_db_def
      take_Cons)

end
