(* ===== verification/StoreTurns.thy ===== *)
theory StoreTurns
  imports StoreProps
begin

text \<open>
  Turns and forks. The messages and conversations of the database are abstracted to finite maps
  from ids; persisting a turn is a pair of map updates, and hydrating reads them back in order. A
  fork copies the lineage of a message under fresh ids and leaves everything else alone.
\<close>

subsection \<open>The abstract view\<close>

definition abs_convos :: "sdb \<Rightarrow> jsstring \<Rightarrow> StoredConversation option" where
  "abs_convos d k = find_row cv_conversationId k (conversations d)"

definition abs_msgs :: "sdb \<Rightarrow> jsstring \<Rightarrow> StoredMessage option" where
  "abs_msgs d k = map_option rowToMessage (find_row mr_messageId k (messages d))"

definition put_convo :: "StoredConversation \<Rightarrow> (jsstring \<Rightarrow> StoredConversation option) \<Rightarrow> jsstring \<Rightarrow> StoredConversation option" where
  "put_convo c m = m(cv_conversationId c \<mapsto> (case m (cv_conversationId c) of
     None \<Rightarrow> c | Some old \<Rightarrow> c\<lparr>cv_createdAt := cv_createdAt old\<rparr>))"

definition put_msg :: "StoredMessage \<Rightarrow> (jsstring \<Rightarrow> StoredMessage option) \<Rightarrow> jsstring \<Rightarrow> StoredMessage option" where
  "put_msg x m = m(ms_messageId x \<mapsto> (case m (ms_messageId x) of
     None \<Rightarrow> x | Some old \<Rightarrow> x\<lparr>ms_createdAt := ms_createdAt old\<rparr>))"

lemma rowToMessage_id [simp]: "ms_messageId (rowToMessage r) = mr_messageId r"
  "ms_conversationId (rowToMessage r) = mr_conversationId r" "ms_createdAt (rowToMessage r) = mr_createdAt r"
  by (simp_all add: rowToMessage_def)

lemma rowToMessage_of [simp]: "rowToMessage (message_row_of m n) = m"
  by (simp add: rowToMessage_def message_row_of_def)

lemma rowToMessage_update:
  "mr_messageId old = ms_messageId m \<Longrightarrow>
    rowToMessage (message_update old (message_row_of m n)) = m\<lparr>ms_createdAt := mr_createdAt old\<rparr>"
  by (simp add: rowToMessage_def message_row_of_def message_update_def)

lemma abs_convo_upsert: "abs_convos (convo_upsert c d) = put_convo c (abs_convos d)"
proof
  fix k
  have "find_row cv_conversationId k (conversations (convo_upsert c d)) =
    (if k = cv_conversationId c
     then Some (case find_row cv_conversationId k (conversations d) of None \<Rightarrow> c
       | Some old \<Rightarrow> old\<lparr>cv_title := cv_title c, cv_endpoint := cv_endpoint c, cv_model := cv_model c,
          cv_updatedAt := cv_updatedAt c, cv_convoJson := cv_convoJson c\<rparr>)
     else find_row cv_conversationId k (conversations d))"
    unfolding convo_upsert_def by (simp add: find_row_upsert cong: option.case_cong)
  then show "abs_convos (convo_upsert c d) k = put_convo c (abs_convos d) k"
    by (auto simp: abs_convos_def put_convo_def split: option.splits dest: find_row_SomeD)
qed

lemma message_upsert_abs:
  assumes "ms_conversationId m \<in> cv_conversationId ` set (conversations d)"
  shows "\<exists>d'. message_upsert m d = Inr d' \<and> abs_msgs d' = put_msg m (abs_msgs d)
    \<and> conversations d' = conversations d \<and> tables d' = tables d
    \<and> messages d' = upsert_row mr_messageId message_update (message_row_of m (next_rowid (messages d))) (messages d)"
proof -
  let ?new = "message_row_of m (next_rowid (messages d))"
  let ?d = "d\<lparr>messages := upsert_row mr_messageId message_update ?new (messages d)\<rparr>"
  define d' where "d' = (case find_row mr_messageId (ms_messageId m) (messages d) of
       None \<Rightarrow> fts_add ?new ?d | Some old \<Rightarrow> fts_add (message_update old ?new) (fts_remove old ?d))"
  have r: "message_upsert m d = Inr d'" using assms by (simp add: message_upsert_def d'_def Let_def)
  have f: "messages d' = messages ?d" "conversations d' = conversations d" "tables d' = tables d"
    by (auto simp: d'_def fts_fields split: option.splits)
  have n: "mr_messageId ?new = ms_messageId m" by (simp add: message_row_of_def)
  have "abs_msgs d' k = put_msg m (abs_msgs d) k" for k
  proof -
    have "find_row mr_messageId k (messages d') =
      (if k = ms_messageId m
       then Some (case find_row mr_messageId k (messages d) of None \<Rightarrow> ?new | Some x \<Rightarrow> message_update x ?new)
       else find_row mr_messageId k (messages d))"
      using find_row_upsert [of mr_messageId message_update ?new k "messages d"]
      by (simp add: f n message_update_def cong: option.case_cong)
    then show ?thesis
      by (cases "find_row mr_messageId (ms_messageId m) (messages d)")
        (auto simp: abs_msgs_def put_msg_def rowToMessage_update dest: find_row_SomeD)
  qed
  then show ?thesis using r f by (auto simp: fun_eq_iff)
qed

lemma upsertMessage_open:
  assumes "opened s d" "ms_conversationId m \<in> cv_conversationId ` set (conversations d)"
  obtains d' where "upsertMessage m s = (Inr (), put_db d' s)" "opened (put_db d' s) d'"
    "abs_msgs d' = put_msg m (abs_msgs d)" "conversations d' = conversations d"
    "messages d' = upsert_row mr_messageId message_update (message_row_of m (next_rowid (messages d))) (messages d)"
proof -
  obtain d' where d': "message_upsert m d = Inr d'" "abs_msgs d' = put_msg m (abs_msgs d)"
    "conversations d' = conversations d" "tables d' = tables d"
    "messages d' = upsert_row mr_messageId message_update (message_row_of m (next_rowid (messages d))) (messages d)"
    using message_upsert_abs [OF assms(2)] by blast
  have "db_ok d'" using message_upsert_ok [OF openedD(2) [OF assms(1)] _ d'(1)] openedD(1) [OF assms(1)] by blast
  then have "opened (put_db d' s) d'" using put_db_open [OF assms(1)] d'(4) by blast
  then show ?thesis using that d' by (simp add: upsertMessage_def run_open [OF assms(1)])
qed

lemma upsertConvo_open:
  assumes "opened s d"
  shows "upsertConvo c s = (Inr (), put_db (convo_upsert c d) s)"
    and "opened (put_db (convo_upsert c d) s) (convo_upsert c d)"
proof -
  show "upsertConvo c s = (Inr (), put_db (convo_upsert c d) s)"
    by (simp add: upsertConvo_def run_open [OF assms])
  have "tables (convo_upsert c d) = tables d" by (simp add: convo_upsert_def)
  then show "opened (put_db (convo_upsert c d) s) (convo_upsert c d)"
    using put_db_open [OF assms convo_upsert_ok [OF openedD(2) [OF assms]]] by blast
qed

lemma convo_upsert_fields:
  "messages (convo_upsert c d) = messages d"
  "cv_conversationId ` set (conversations (convo_upsert c d))
     = insert (cv_conversationId c) (cv_conversationId ` set (conversations d))"
  by (simp_all add: convo_upsert_def keys_upsert)

lemma hydrate_open:
  assumes "opened s d"
  shows "\<exists>ms. answer env (HYDRATE_CONVO cid) s = HYDRATE (abs_convos d cid) ms
    \<and> set ms = {m \<in> ran (abs_msgs d). ms_conversationId m = cid}
    \<and> distinct (map ms_messageId ms) \<and> sorted (map ms_createdAt ms)"
proof -
  let ?ms = "select_messages cid d"
  have u: "unique mr_messageId (messages d)" using openedD(2) [OF assms] by (rule db_okD)
  have r: "ran (abs_msgs d) = rowToMessage ` set (messages d)"
  proof (rule set_eqI)
    fix m
    show "m \<in> ran (abs_msgs d) \<longleftrightarrow> m \<in> rowToMessage ` set (messages d)"
      using find_row_unique [OF u] find_row_SomeD by (fastforce simp: ran_def abs_msgs_def)
  qed
  have "set ?ms = {m \<in> ran (abs_msgs d). ms_conversationId m = cid}"
    by (auto simp: select_messages_def r)
  moreover have "distinct (map mr_messageId (filter P (messages d)))" for P
    using u by (simp add: unique_def distinct_map_filter)
  then have "distinct (map ms_messageId ?ms)"
    by (simp add: select_messages_def comp_def distinct_map)
  moreover have "sorted (map ms_createdAt ?ms)"
    by (simp add: select_messages_def comp_def)
  moreover have "answer env (HYDRATE_CONVO cid) s = HYDRATE (abs_convos d cid) ?ms"
    by (simp add: answer_eq hydrateConvo_def query_open [OF assms] monad_simps reply_def select_convo_def
        abs_convos_def option.map_id0 [unfolded id_def] id_def)
  ultimately show ?thesis by blast
qed

lemma abs_msgs_cong: "messages d = messages d' \<Longrightarrow> abs_msgs d = abs_msgs d'"
  by (rule ext) (simp add: abs_msgs_def)

lemma turn_hydrates:
  assumes "opened s d" and "ms_conversationId u = cv_conversationId c"
    and "ms_conversationId a = cv_conversationId c"
  shows "answer env (PERSIST_TURN cid u a c) s = OK None
    \<and> (\<exists>ms. answer env (HYDRATE_CONVO cid') (after env (PERSIST_TURN cid u a c) s)
          = HYDRATE (put_convo c (abs_convos d) cid') ms
        \<and> set ms = {m \<in> ran (put_msg a (put_msg u (abs_msgs d))). ms_conversationId m = cid'}
        \<and> distinct (map ms_messageId ms) \<and> sorted (map ms_createdAt ms))"
proof -
  let ?d1 = "convo_upsert c d"
  have o1: "opened (put_db ?d1 s) ?d1" by (rule upsertConvo_open(2) [OF assms(1)])
  obtain d2 where d2: "upsertMessage u (put_db ?d1 s) = (Inr (), put_db d2 (put_db ?d1 s))"
    "opened (put_db d2 (put_db ?d1 s)) d2" "abs_msgs d2 = put_msg u (abs_msgs ?d1)"
    "conversations d2 = conversations ?d1"
    by (rule upsertMessage_open [OF o1, of u]) (simp_all add: convo_upsert_fields assms(2))
  obtain d3 where d3: "upsertMessage a (put_db d2 (put_db ?d1 s)) = (Inr (), put_db d3 (put_db d2 (put_db ?d1 s)))"
    "opened (put_db d3 (put_db d2 (put_db ?d1 s))) d3" "abs_msgs d3 = put_msg a (abs_msgs d2)"
    "conversations d3 = conversations d2"
    by (rule upsertMessage_open [OF d2(2), of a]) (simp_all add: convo_upsert_fields assms(3) d2(4))
  have r: "persistTurn c u a s = (Inr (), put_db d3 (put_db d2 (put_db ?d1 s)))"
    by (simp add: persistTurn_def tx_open [OF assms(1)] monad_simps upsertConvo_open(1) [OF assms(1)] d2(1) d3(1))
  have m: "abs_msgs d3 = put_msg a (put_msg u (abs_msgs d))"
    using abs_msgs_cong [OF convo_upsert_fields(1)] by (simp add: d3(3) d2(3))
  have v: "abs_convos d3 = put_convo c (abs_convos d)"
    using abs_convo_upsert [of c d] by (simp add: abs_convos_def [abs_def] d3(4) d2(4))
  show ?thesis
    using hydrate_open [OF d3(2), of env cid'] by (simp add: answer_eq(2) r monad_simps reply_def m v)
      (simp add: answer_eq r monad_simps reply_def)
qed

text \<open>C28. After a turn is persisted, hydrating any conversation returns what the turn's two message
  updates and its conversation update make of the stored maps: the new turn is there, an existing
  row keeps its creation time, every other message is as it was, without duplicates and in the
  order of creation.\<close>

theorem persist_then_hydrate:
  assumes "opened s d" and "ms_conversationId u = cv_conversationId c"
    and "ms_conversationId a = cv_conversationId c"
  shows "answer env (PERSIST_TURN cid u a c) s = OK None
    \<and> (\<exists>ms. answer env (HYDRATE_CONVO cid') (after env (PERSIST_TURN cid u a c) s)
          = HYDRATE (put_convo c (abs_convos d) cid') ms
        \<and> set ms = {m \<in> ran (put_msg a (put_msg u (abs_msgs d))). ms_conversationId m = cid'}
        \<and> distinct (map ms_messageId ms) \<and> sorted (map ms_createdAt ms))"
  using turn_hydrates [OF assms] .

theorem persist_then_hydrate_witness:
  "answer sample_env (PERSIST_TURN (js ''c'') (sample_message (js ''c'') (js ''u'') (Some (js ''n'')))
     (sample_message (js ''c'') (js ''v'') (Some (js ''u''))) (sample_convo (js ''c'') 5)) sample_state = OK None"
  using persist_then_hydrate [OF sample_opened, of "sample_message (js ''c'') (js ''u'') (Some (js ''n''))"
      "sample_convo (js ''c'') 5" "sample_message (js ''c'') (js ''v'') (Some (js ''u''))" sample_env "js ''c''"]
  by (simp add: sample_message_def sample_convo_def)

subsection \<open>Lineage\<close>

text \<open>Consecutive messages of the walk are linked by parent pointers, ids are distinct, and the
  walk starts at the requested message.\<close>

lemma walk_step:
  "by_id all mid = None \<Longrightarrow> walk all guard (Some mid) = []"
  "by_id all mid = Some m \<Longrightarrow> mid \<in> set guard \<Longrightarrow> walk all guard (Some mid) = []"
  "by_id all mid = Some m \<Longrightarrow> mid \<notin> set guard \<Longrightarrow>
    walk all guard (Some mid) = m # walk all (mid # guard) (parent_of m)"
  by simp_all

declare walk.simps(2) [simp del] walk_step [simp]

lemma walk_ids:
  "m \<in> set (walk all guard cur) \<Longrightarrow> ms_messageId m \<notin> set guard \<and> by_id all (ms_messageId m) = Some m"
proof (induction all guard cur rule: walk.induct)
  case (2 all guard mid)
  show ?case
  proof (cases "by_id all mid")
    case None
    then show ?thesis using 2 by simp
  next
    case (Some x)
    then have "ms_messageId x = mid" by (auto simp: by_id_def dest: find_row_SomeD)
    then show ?thesis using 2 Some by (cases "mid \<in> set guard") auto
  qed
qed simp

lemma walk_distinct: "distinct (map ms_messageId (walk all guard cur))"
proof (induction all guard cur rule: walk.induct)
  case (2 all guard mid)
  show ?case
  proof (cases "by_id all mid")
    case None
    then show ?thesis by simp
  next
    case (Some x)
    then have i: "ms_messageId x = mid" by (auto simp: by_id_def dest: find_row_SomeD)
    show ?thesis using 2 Some walk_ids [of _ all "mid # guard" "parent_of x"]
      by (cases "mid \<in> set guard") (auto simp: i)
  qed
qed simp

lemma walk_hd: "walk all guard cur = m # ms \<Longrightarrow> cur = Some (ms_messageId m)"
  by (cases "(all, guard, cur)" rule: walk.cases)
    (auto simp: walk.simps(2) by_id_def split: option.splits if_splits dest: find_row_SomeD)

lemma walk_linked:
  "Suc i < length (walk all guard cur) \<Longrightarrow>
    parent_of (walk all guard cur ! i) = Some (ms_messageId (walk all guard cur ! Suc i))"
proof (induction all guard cur arbitrary: i rule: walk.induct)
  case (2 all guard mid)
  show ?case
  proof (cases "by_id all mid")
    case None
    then show ?thesis using 2 by simp
  next
    case (Some x)
    show ?thesis
    proof (cases "mid \<in> set guard")
      case True
      then show ?thesis using 2 Some by simp
    next
      case False
      let ?w = "walk all (mid # guard) (parent_of x)"
      have e: "walk all guard (Some mid) = x # ?w" using Some False by simp
      show ?thesis
      proof (cases i)
        case 0
        then obtain m ms where w: "?w = m # ms" using 2(2) e by (cases ?w) auto
        then show ?thesis using walk_hd [OF w] by (simp add: e 0)
      next
        case (Suc j)
        then show ?thesis using 2 Some False e by simp
      qed
    qed
  qed
qed simp

text \<open>Where the walk ends: at a message without a parent, with an unknown parent, or whose parent
  was visited already.\<close>

lemma walk_end:
  "walk all guard cur \<noteq> [] \<Longrightarrow> parent_of (last (walk all guard cur)) = Some p \<Longrightarrow>
    by_id all p = None \<or> p \<in> set guard \<union> ms_messageId ` set (walk all guard cur)"
proof (induction all guard cur rule: walk.induct)
  case (2 all guard mid)
  show ?case
  proof (cases "by_id all mid")
    case None
    then show ?thesis using 2 by simp
  next
    case (Some x)
    then have i: "ms_messageId x = mid" by (auto simp: by_id_def dest: find_row_SomeD)
    show ?thesis
    proof (cases "mid \<in> set guard")
      case True
      then show ?thesis using 2 Some by simp
    next
      case False
      let ?w = "walk all (mid # guard) (parent_of x)"
      have e: "walk all guard (Some mid) = x # ?w" using Some False by simp
      show ?thesis
      proof (cases "?w = []")
        case True
        then have px: "parent_of x = Some p" using 2(3) e by simp
        with True have "by_id all p = None \<or> p \<in> set (mid # guard)"
          by (cases "by_id all p"; cases "p \<in> set (mid # guard)") auto
        then show ?thesis by (auto simp: e i)
      next
        case w: False
        then have "by_id all p = None \<or> p \<in> set (mid # guard) \<union> ms_messageId ` set ?w"
          using 2 Some False e by simp
        then show ?thesis by (auto simp: e i)
      qed
    qed
  qed
qed simp

lemma lineage_path:
  "let l = lineage all mid in
   (by_id all mid = None \<longrightarrow> l = [])
   \<and> (by_id all mid \<noteq> None \<longrightarrow> l \<noteq> [] \<and> Some (last l) = by_id all mid)
   \<and> distinct (map ms_messageId l)
   \<and> (\<forall>m\<in>set l. by_id all (ms_messageId m) = Some m)
   \<and> (\<forall>i. Suc i < length l \<longrightarrow> parent_of (l ! Suc i) = Some (ms_messageId (l ! i)))
   \<and> (\<forall>p. l \<noteq> [] \<and> parent_of (hd l) = Some p \<longrightarrow> by_id all p = None \<or> p \<in> ms_messageId ` set l)"
proof -
  define w where "w = walk all [] (Some mid)"
  have "parent_of (rev w ! Suc i) = Some (ms_messageId (rev w ! i))" if "Suc i < length w" for i
  proof -
    have "Suc (length w - Suc (Suc i)) < length w" using that by simp
    from walk_linked [OF this [unfolded w_def], folded w_def]
    show ?thesis using that by (simp add: rev_nth Suc_diff_Suc)
  qed
  moreover have "by_id all p = None \<or> p \<in> ms_messageId ` set w" if "w \<noteq> []" "parent_of (hd (rev w)) = Some p" for p
    using walk_end [of all "[]" "Some mid" p] that by (simp add: w_def hd_rev)
  moreover have "distinct (map ms_messageId w)" unfolding w_def by (rule walk_distinct)
  moreover have "\<forall>m\<in>set w. by_id all (ms_messageId m) = Some m"
    using walk_ids unfolding w_def by blast
  moreover have "by_id all mid = None \<longrightarrow> w = []" "by_id all mid \<noteq> None \<longrightarrow> w \<noteq> [] \<and> Some (hd w) = by_id all mid"
    by (auto simp: w_def)
  ultimately show ?thesis
    unfolding lineage_def Let_def w_def [symmetric] by (simp add: last_rev rev_map [symmetric])
qed

text \<open>C30. The lineage of a message, which the walk finds on any data, cyclic parent pointers
  included, ends with that message, visits no message twice, follows parent pointers from each
  element to the one before it, and begins at a message without a known, unvisited parent.\<close>

theorem lineage_is_path_to_root:
  "let l = lineage all mid in
   (by_id all mid = None \<longrightarrow> l = [])
   \<and> (by_id all mid \<noteq> None \<longrightarrow> l \<noteq> [] \<and> Some (last l) = by_id all mid)
   \<and> distinct (map ms_messageId l)
   \<and> (\<forall>m\<in>set l. by_id all (ms_messageId m) = Some m)
   \<and> (\<forall>i. Suc i < length l \<longrightarrow> parent_of (l ! Suc i) = Some (ms_messageId (l ! i)))
   \<and> (\<forall>p. l \<noteq> [] \<and> parent_of (hd l) = Some p \<longrightarrow> by_id all p = None \<or> p \<in> ms_messageId ` set l)"
  by (rule lineage_path)

theorem lineage_is_path_to_root_witness:
  "let all = [sample_message (js ''c'') (js ''m'') None, sample_message (js ''c'') (js ''n'') (Some (js ''m''))];
       l = lineage all (js ''n'')
   in l \<noteq> [] \<and> last l = all ! 1"
  using lineage_is_path_to_root [of "[sample_message (js ''c'') (js ''m'') None,
      sample_message (js ''c'') (js ''n'') (Some (js ''m''))]" "js ''n''"]
  by (simp add: Let_def by_id_def sample_message_def)

subsection \<open>Fork\<close>

lemma forEach_map: "forEach (\<lambda>x. f (g x)) xs = forEach f (map g xs)"
  by (induction xs) simp_all

text \<open>A message under a new id is one more row and one more entry of the search index.\<close>

lemma message_upsert_new:
  assumes "ms_conversationId m \<in> cv_conversationId ` set (conversations d)" "ms_messageId m \<notin> mr_messageId ` set (messages d)"
    and "TFts \<in> set (tables d)" "new = message_row_of m (next_rowid (messages d))"
  shows "message_upsert m d = Inr (d\<lparr>messages := messages d @ [new], messages_fts := messages_fts d @ [(mr_rowid new, mr_text new)]\<rparr>)"
proof -
  have n: "mr_messageId new = ms_messageId m" by (simp add: assms(4) message_row_of_def)
  then have "find_row mr_messageId (ms_messageId m) (messages d) = None"
    using assms(2) by (simp add: find_row_None_iff)
  then show ?thesis using assms(1,2,3) n
    by (simp add: message_upsert_def Let_def assms(4) [symmetric] upsert_row_def fts_add_def)
qed

definition add_rows :: "message_row list \<Rightarrow> sdb \<Rightarrow> sdb" where
  "add_rows rows d = d\<lparr>messages := messages d @ rows,
     messages_fts := messages_fts d @ map (\<lambda>r. (mr_rowid r, mr_text r)) rows\<rparr>"

lemma add_rows_fields: "messages (add_rows rows d) = messages d @ rows" "conversations (add_rows rows d) = conversations d"
  "tables (add_rows rows d) = tables d"
  by (simp_all add: add_rows_def)

lemma add_rows_append: "add_rows (r # rows) d = add_rows rows (add_rows [r] d)"
  by (simp add: add_rows_def)

lemma upsert_all_new:
  assumes "opened s d" "\<forall>x\<in>set xs. ms_conversationId x \<in> cv_conversationId ` set (conversations d)"
    "distinct (map ms_messageId xs)" "ms_messageId ` set xs \<inter> mr_messageId ` set (messages d) = {}"
  shows "\<exists>s' rows. forEach upsertMessage xs s = (Inr (), s') \<and> opened s' (add_rows rows d) \<and> map rowToMessage rows = xs"
  using assms
proof (induction xs arbitrary: s d)
  case Nil
  then show ?case by (intro exI [of _ s] exI [of _ "[]"]) (simp add: ret_def add_rows_def)
next
  case (Cons x xs)
  let ?new = "message_row_of x (next_rowid (messages d))"
  have u: "message_upsert x d = Inr (add_rows [?new] d)"
  proof -
    have "ms_conversationId x \<in> cv_conversationId ` set (conversations d)" "ms_messageId x \<notin> mr_messageId ` set (messages d)"
      using Cons.prems(2,4) by auto
    from message_upsert_new [OF this openedD(1) [OF Cons.prems(1)] refl] show ?thesis by (simp add: add_rows_def)
  qed
  have "db_ok (add_rows [?new] d)" using message_upsert_ok [OF openedD(2) [OF Cons.prems(1)] _ u] openedD(1) [OF Cons.prems(1)] by blast
  then have o: "opened (put_db (add_rows [?new] d) s) (add_rows [?new] d)"
    by (rule put_db_open [OF Cons.prems(1)]) (simp add: add_rows_fields)
  have n: "mr_messageId ?new = ms_messageId x" by (simp add: message_row_of_def)
  have "\<forall>y\<in>set xs. ms_conversationId y \<in> cv_conversationId ` set (conversations (add_rows [?new] d))"
    "distinct (map ms_messageId xs)" "ms_messageId ` set xs \<inter> mr_messageId ` set (messages (add_rows [?new] d)) = {}"
    using Cons.prems(2-4) n by (auto simp: add_rows_fields)
  from Cons.IH [OF o this] obtain s' rows where r: "forEach upsertMessage xs (put_db (add_rows [?new] d) s) = (Inr (), s')"
    "opened s' (add_rows rows (add_rows [?new] d))" "map rowToMessage rows = xs" by blast
  have "upsertMessage x s = (Inr (), put_db (add_rows [?new] d) s)"
    by (simp only: upsertMessage_def run_open [OF Cons.prems(1)] u sum.case)
  then have "forEach upsertMessage (x # xs) s = (Inr (), s')" using r(1) by (simp add: monad_simps)
  moreover have "opened s' (add_rows (?new # rows) d)" using r(2) by (subst add_rows_append)
  moreover have "map rowToMessage (?new # rows) = x # xs" using r(3) by simp
  ultimately show ?case by (intro exI [of _ s'] exI [of _ "?new # rows"] conjI)
qed

lemma draw_ids_eq:
  "draw_ids env ms s = (Inr (zip (map ms_messageId ms) (map (e_uuid env) [w_seed s ..< w_seed s + length ms])),
     s\<lparr>w_seed := w_seed s + length ms\<rparr>)"
proof (induction ms arbitrary: s)
  case (Cons m ms)
  have "[w_seed s ..< w_seed s + length (m # ms)] = w_seed s # [Suc (w_seed s) ..< Suc (w_seed s) + length ms]"
    by (subst upt_conv_Cons) (simp_all del: upt_Suc)
  then show ?case
    by (simp add: monad_simps randomId_def draw_def Cons del: upt_Suc)
qed (simp add: ret_def)

lemma opened_seed: "opened (s\<lparr>w_seed := n\<rparr>) d = opened s d"
  by (simp add: opened_def)

lemma put_db_seed: "w_seed (put_db d s) = w_seed s"
  by (simp add: put_db_def split: option.splits location.splits)

text \<open>The ids a fork draws, after the clock and the id of the conversation.\<close>

definition fork_ids :: "store_env \<Rightarrow> wstate \<Rightarrow> StoredMessage list \<Rightarrow> jsstring list" where
  "fork_ids env s l = map (e_uuid env) [Suc (Suc (w_seed s)) ..< Suc (Suc (w_seed s)) + length l]"

lemma fork_ids_fresh:
  assumes "inj (e_uuid env)" "\<forall>k \<ge> w_seed s. e_uuid env k \<notin> X"
  shows "length (fork_ids env s l) = length l" "distinct (fork_ids env s l)" "set (fork_ids env s l) \<inter> X = {}"
proof -
  show "distinct (fork_ids env s l)" using assms(1) by (auto simp: fork_ids_def distinct_map inj_on_def)
  have "x \<notin> X" if x: "x \<in> set (fork_ids env s l)" for x
  proof -
    obtain k where "Suc (Suc (w_seed s)) \<le> k" "x = e_uuid env k" using x unfolding fork_ids_def set_map set_upt by force
    then show ?thesis using assms(2) by simp
  qed
  then show "set (fork_ids env s l) \<inter> X = {}" by blast
qed (simp add: fork_ids_def del: upt_Suc)

lemma forked_ids:
  assumes "distinct (map ms_messageId l)" "length ids = length l"
  shows "map (ms_messageId \<circ> fork_message (zip (map ms_messageId l) ids) newId now) l = ids"
proof (rule nth_equalityI)
  fix i assume "i < length (map (ms_messageId \<circ> fork_message (zip (map ms_messageId l) ids) newId now) l)"
  then show "map (ms_messageId \<circ> fork_message (zip (map ms_messageId l) ids) newId now) l ! i = ids ! i"
    using map_of_zip_nth [of "map ms_messageId l" ids i] assms by (simp add: fork_message_def)
qed (simp add: assms(2))

text \<open>What a fork does: one row for the conversation, one for each message of the lineage.\<close>

lemma fork_run:
  fixes env s mid
  defines "newId \<equiv> e_uuid env (Suc (w_seed s))" and "now \<equiv> e_now env (w_seed s)"
  assumes o: "opened s d" and inj: "inj (e_uuid env)"
    and fresh: "\<And>k. w_seed s \<le> k \<Longrightarrow> e_uuid env k \<notin> cv_conversationId ` set (conversations d) \<union> mr_messageId ` set (messages d)"
    and l: "l = lineage (map rowToMessage (filter (\<lambda>r. mr_conversationId r = cid) (messages d))) mid"
    and f: "f = fork_message (zip (map ms_messageId l) (fork_ids env s l)) newId now"
  shows "\<exists>s' rows. forkConversation env cid mid s = (Inr newId, s')
     \<and> opened s' (add_rows rows (convo_upsert (fork_convo env (abs_convos d cid) newId now) d)) \<and> map rowToMessage rows = map f l"
proof -
  let ?fc = "fork_convo env (abs_convos d cid) newId now" and ?ids = "fork_ids env s l"
  let ?s1 = "s\<lparr>w_seed := Suc (Suc (w_seed s))\<rparr>" and ?d1 = "convo_upsert ?fc d"
  have dl: "distinct (map ms_messageId l)" using lineage_path l by (simp add: Let_def)
  have X: "\<forall>k \<ge> w_seed s. e_uuid env k \<notin> mr_messageId ` set (messages d)" using fresh by blast
  note ids = fork_ids_fresh [OF inj X, of l]
  have fids: "map ms_messageId (map f l) = ?ids" using forked_ids [OF dl ids(1), of newId now] by (simp add: f)
  have c: "upsertConvo ?fc ?s1 = (Inr (), put_db ?d1 ?s1)" "opened (put_db ?d1 ?s1) ?d1"
    using upsertConvo_open [of ?s1 d ?fc] o by (simp_all add: opened_seed)
  let ?s2 = "put_db ?d1 ?s1\<lparr>w_seed := Suc (Suc (w_seed s + length l))\<rparr>"
  have "?fc \<in> set (conversations ?d1)"
    using fresh [of "Suc (w_seed s)"] by (simp add: convo_upsert_def upsert_row_def fork_convo_def newId_def)
  moreover have "cv_conversationId ?fc = newId" by (simp add: fork_convo_def)
  ultimately have "newId \<in> cv_conversationId ` set (conversations ?d1)" by (intro image_eqI [of _ _ ?fc]) simp_all
  then have "\<forall>x\<in>set (map f l). ms_conversationId x \<in> cv_conversationId ` set (conversations ?d1)" by (simp add: f fork_message_def)
  moreover have "set (map ms_messageId (map f l)) \<inter> mr_messageId ` set (messages ?d1) = {}" "distinct (map ms_messageId (map f l))"
    using ids(2,3) unfolding fids by (simp_all add: convo_upsert_fields)
  moreover have "opened ?s2 ?d1" using c(2) by (simp add: opened_seed)
  ultimately obtain s' rows where r: "forEach upsertMessage (map f l) ?s2 = (Inr (), s')" "opened s' (add_rows rows ?d1)"
    "map rowToMessage rows = map f l"
    using upsert_all_new [of ?s2 ?d1 "map f l"] unfolding set_map by blast
  have steps: "dateNow env s = (Inr now, s\<lparr>w_seed := Suc (w_seed s)\<rparr>)" "randomId env (s\<lparr>w_seed := Suc (w_seed s)\<rparr>) = (Inr newId, ?s1)"
    "draw_ids env l (put_db ?d1 ?s1) = (Inr (zip (map ms_messageId l) ?ids), ?s2)" "select_convo cid d = abs_convos d cid"
    by (simp_all add: dateNow_def randomId_def draw_def monad_simps now_def newId_def draw_ids_eq put_db_seed fork_ids_def
        select_convo_def abs_convos_def option.map_id del: upt_Suc)
  have fe: "forEach (\<lambda>m. upsertMessage (fork_message (zip (map ms_messageId l) ?ids) newId now m)) l ?s2 = (Inr (), s')"
    using r(1) forEach_map [of upsertMessage f l] by (simp add: f)
  have "forkConversation env cid mid s = (Inr newId, s')"
    unfolding forkConversation_def
    by (simp add: tx_open [OF o] monad_simps query_open [OF o] steps(1,2,4) Let_def l [symmetric] c(1) steps(3) fe)
  then show ?thesis using r by blast
qed

text \<open>C29. Forking a conversation at a message adds one conversation under a fresh id - the source's endpoint, model
  and JSON under the new id, its title marked as a fork - and one message per element of the lineage, in lineage
  order, under fresh distinct ids: each copy has the text, the content, the author, the model and the creation
  time of its original, and points to the copy of the original's parent, or to none when that is not in the
  lineage. The database is otherwise the same: every row of every table stays, and the search index gains exactly the copies.\<close>

theorem fork_copies_lineage:
  assumes "opened s d" and "inj (e_uuid env)"
    and "\<And>k. w_seed s \<le> k \<Longrightarrow> e_uuid env k \<notin> cv_conversationId ` set (conversations d) \<union> mr_messageId ` set (messages d)"
  shows "let l = lineage (map rowToMessage (filter (\<lambda>r. mr_conversationId r = cid) (messages d))) mid in
    \<exists>newId now fc rows d'.
      answer env (FORK cid mid) s = OK (Some newId) \<and> opened (after env (FORK cid mid) s) d'
      \<and> d' = d\<lparr>conversations := conversations d @ [fc], messages := messages d @ rows,
            messages_fts := messages_fts d @ map (\<lambda>r. (mr_rowid r, mr_text r)) rows\<rparr>
      \<and> newId \<notin> cv_conversationId ` set (conversations d) \<and> now = e_now env (w_seed s)
      \<and> cv_conversationId fc = newId \<and> cv_createdAt fc = now \<and> cv_updatedAt fc = now
      \<and> (\<forall>c. abs_convos d cid = Some c \<longrightarrow>
            cv_title fc = Some (nullish (cv_title c) (js ''Conversation'') @ js '' (fork)'')
          \<and> cv_endpoint fc = cv_endpoint c \<and> cv_model fc = cv_model c \<and> cv_convoJson fc = rekey_json env (cv_convoJson c) newId)
      \<and> length rows = length l \<and> distinct (map mr_messageId rows)
      \<and> mr_messageId ` set rows \<inter> mr_messageId ` set (messages d) = {}
      \<and> (\<forall>i<length l. let copy = rowToMessage (rows ! i) in
            ms_conversationId copy = newId \<and> ms_updatedAt copy = now
          \<and> ms_text copy = ms_text (l ! i) \<and> ms_contentJson copy = ms_contentJson (l ! i)
          \<and> ms_isCreatedByUser copy = ms_isCreatedByUser (l ! i) \<and> ms_model copy = ms_model (l ! i)
          \<and> ms_createdAt copy = ms_createdAt (l ! i)
          \<and> ms_parentMessageId copy = (case parent_of (l ! i) of None \<Rightarrow> None
              | Some p \<Rightarrow> map_of (zip (map ms_messageId l) (map mr_messageId rows)) p))"
proof -
  define l where "l = lineage (map rowToMessage (filter (\<lambda>r. mr_conversationId r = cid) (messages d))) mid"
  define newId where "newId = e_uuid env (Suc (w_seed s))"
  define now where "now = e_now env (w_seed s)"
  define ids where "ids = fork_ids env s l"
  define f where "f = fork_message (zip (map ms_messageId l) ids) newId now"
  define fc where "fc = fork_convo env (abs_convos d cid) newId now"
  have X: "\<forall>k \<ge> w_seed s. e_uuid env k \<notin> mr_messageId ` set (messages d)" using assms(3) by blast
  note ids = fork_ids_fresh [OF assms(2) X, of l, folded ids_def]
  obtain s' rows where r: "forkConversation env cid mid s = (Inr newId, s')" "opened s' (add_rows rows (convo_upsert fc d))"
    "map rowToMessage rows = map f l"
    using fork_run [OF assms l_def, of f] unfolding newId_def now_def f_def fc_def ids_def by blast
  have new: "newId \<notin> cv_conversationId ` set (conversations d)" using assms(3) [of "Suc (w_seed s)"] by (simp add: newId_def)
  have len: "length rows = length l" using r(3) map_eq_imp_length_eq by (metis length_map)
  have row: "rowToMessage (rows ! i) = f (l ! i)" if "i < length l" for i using r(3) that len by (metis nth_map)
  have "distinct (map ms_messageId l)" using lineage_path by (simp add: l_def Let_def)
  then have "map (ms_messageId \<circ> f) l = ids" unfolding f_def using ids(1) by (rule forked_ids)
  moreover have "map mr_messageId rows = map (ms_messageId \<circ> f) l"
    using arg_cong [OF r(3), of "map ms_messageId"] by (simp add: o_def)
  ultimately have mids: "map mr_messageId rows = ids" by simp
  have copy: "let copy = rowToMessage (rows ! i) in
            ms_conversationId copy = newId \<and> ms_updatedAt copy = now
          \<and> ms_text copy = ms_text (l ! i) \<and> ms_contentJson copy = ms_contentJson (l ! i)
          \<and> ms_isCreatedByUser copy = ms_isCreatedByUser (l ! i) \<and> ms_model copy = ms_model (l ! i)
          \<and> ms_createdAt copy = ms_createdAt (l ! i)
          \<and> ms_parentMessageId copy = (case parent_of (l ! i) of None \<Rightarrow> None
              | Some p \<Rightarrow> map_of (zip (map ms_messageId l) (map mr_messageId rows)) p)" if "i < length l" for i
    unfolding Let_def row [OF that] mids by (simp add: f_def fork_message_def)
  have fc: "cv_conversationId fc = newId" "cv_createdAt fc = now \<and> cv_updatedAt fc = now \<and> (\<forall>c. abs_convos d cid = Some c \<longrightarrow>
            cv_title fc = Some (nullish (cv_title c) (js ''Conversation'') @ js '' (fork)'')
          \<and> cv_endpoint fc = cv_endpoint c \<and> cv_model fc = cv_model c \<and> cv_convoJson fc = rekey_json env (cv_convoJson c) newId)"
    by (simp_all add: fc_def fork_convo_def)
  have d': "add_rows rows (convo_upsert fc d) = d\<lparr>conversations := conversations d @ [fc], messages := messages d @ rows,
            messages_fts := messages_fts d @ map (\<lambda>r. (mr_rowid r, mr_text r)) rows\<rparr>"
    using new fc(1) by (simp add: add_rows_def convo_upsert_def upsert_row_def)
  have an: "answer env (FORK cid mid) s = OK (Some newId)" "opened (after env (FORK cid mid) s) (add_rows rows (convo_upsert fc d))"
    using r(1,2) by (simp_all add: answer_eq monad_simps reply_def)
  have fresh: "distinct (map mr_messageId rows)" "mr_messageId ` set rows \<inter> mr_messageId ` set (messages d) = {}"
    using ids(2,3) unfolding mids [symmetric] by simp_all
  show ?thesis
    unfolding Let_def l_def [symmetric]
    by (intro exI [of _ newId] exI [of _ now] exI [of _ fc] exI [of _ rows] exI [of _ "add_rows rows (convo_upsert fc d)"])
      (use an d' new fc len fresh copy in \<open>simp add: now_def Let_def\<close>)
qed

theorem fork_copies_lineage_witness:
  "\<exists>newId. answer sample_env (FORK (js ''c'') (js ''n'')) sample_state = OK (Some newId)"
proof -
  have "inj (e_uuid sample_env)" by (simp add: sample_env_def inj_on_def)
  moreover have "e_uuid sample_env k \<notin> cv_conversationId ` set (conversations sample_db) \<union> mr_messageId ` set (messages sample_db)" for k
    by (cases k) (auto simp: sample_env_def sample_db_def sample_convo_def message_row_of_def sample_message_def js_def)
  ultimately show ?thesis
    using fork_copies_lineage [OF sample_opened, of sample_env "js ''c''" "js ''n''"] by (auto simp: Let_def)
qed

end
