(* ===== verification/StoreOpen.thy ===== *)
theory StoreOpen
  imports StoreProps
begin

text \<open>
  Opening the device store: what a key gives access to, and that the contents survive the end of
  the worker. What every request keeps of the connection is proved once, for any predicate that
  each statement, transaction and draw keeps.
\<close>

subsection \<open>Predicates every statement keeps\<close>

text \<open>A statement of the worker leaves the schema alone.\<close>

definition frame :: "(sdb \<Rightarrow> serror + sdb) \<Rightarrow> bool" where
  "frame f \<longleftrightarrow> (\<forall>d d'. f d = Inr d' \<longrightarrow>
     tables d' = tables d \<and> me_fk d' = me_fk d \<and> user_version d' = user_version d)"

lemma fts_remove_all_schema:
  "me_fk (fts_remove_all rs d) = me_fk d" "user_version (fts_remove_all rs d) = user_version d"
  by (induction rs arbitrary: d) (simp_all add: fts_remove_all_def fts_remove_def)

lemma frames:
  "frame (\<lambda>d. Inr (convo_upsert c d))" "frame (message_upsert m)" "frame (\<lambda>d. Inr (convo_delete cid d))"
  "frame (\<lambda>d. Inr (vectors_delete owner d))" "frame (vector_insert r)"
  "frame (\<lambda>d. Inr (memory_remove k d))" "frame (\<lambda>d. Inr (memory_put mm d))"
  "frame (\<lambda>d. Inr (agent_put a d))" "frame (\<lambda>d. Inr (agent_remove k d))"
  "frame (\<lambda>d. Inr (skill_put sk d))" "frame (\<lambda>d. Inr (skill_remove k d))"
  "frame (\<lambda>d. Inr (d\<lparr>message_embeddings := []\<rparr>))" "frame (\<lambda>d. Inr (d\<lparr>embeddings := []\<rparr>))"
  "frame (\<lambda>d. Inr (d\<lparr>chunks := []\<rparr>))" "frame (\<lambda>d. Inr (d\<lparr>files := []\<rparr>))"
  "frame (\<lambda>d. Inr (fts_remove_all (messages d) (d\<lparr>messages := []\<rparr>)))" "frame (\<lambda>d. Inr (convos_clear d))"
  "frame (\<lambda>d. Inr (d\<lparr>memories := []\<rparr>))" "frame (\<lambda>d. Inr (d\<lparr>agents := []\<rparr>))" "frame (\<lambda>d. Inr (d\<lparr>skills := []\<rparr>))"
  "frame (\<lambda>d. Inr (d\<lparr>messages_fts := map (\<lambda>r. (mr_rowid r, mr_text r)) (messages d)\<rparr>))"
  by (auto simp: frame_def convo_upsert_def message_upsert_def convo_delete_def vectors_delete_def vector_insert_def
      memory_remove_def memory_put_def agent_put_def agent_remove_def skill_put_def skill_remove_def convos_clear_def
      fts_remove_all_fields fts_remove_all_schema fts_add_def fts_remove_def Let_def split: if_splits option.splits)

locale statement_kept =
  fixes P :: "wstate \<Rightarrow> bool"
  assumes draw: "keeps P draw"
    and run: "frame f \<Longrightarrow> keeps P (run ts f)"
    and tx: "keeps P m \<Longrightarrow> keeps P (tx (m :: unit op))" "keeps P n \<Longrightarrow> keeps P (tx (n :: jsstring op))"
    and closed: "P s \<Longrightarrow> w_db s \<noteq> None"
begin

lemma clock: "keeps P (dateNow env)" "keeps P (randomId env)"
  unfolding dateNow_def randomId_def by (intro keeps_andThen draw keeps_ret)+

lemma upserts: "keeps P (upsertConvo c)" "keeps P (upsertMessage m)"
  unfolding upsertConvo_def upsertMessage_def by (intro run frames)+

lemma ids: "keeps P (draw_ids env ms)" "keeps P (id_or_random env v)"
proof -
  show "keeps P (draw_ids env ms)" by (induction ms) (auto intro: clock)
  show "keeps P (id_or_random env v)"
    unfolding id_or_random_def by (auto intro: clock split: option.splits)
qed

lemma import_keeps: "keeps P (importChatExport env v)"
proof -
  have m: "keeps P (import_message env cid now m)" for cid now m
    unfolding import_message_def
    by (intro keeps_if keeps_throw keeps_andThen ids keeps_prepare keeps_from_bind upserts)
  have b: "keeps P (import_body env raw)" for raw
    unfolding import_body_def
    by (intro keeps_andThen ids keeps_prepare keeps_from_bind upserts clock keeps_forEach m)
  have "keeps P (import_convo env raw)" for raw
    unfolding import_convo_def using b by (auto split: json.splits)
  then show ?thesis unfolding importChatExport_def by (intro tx keeps_forEach)
qed

lemma writes:
  "keeps P (persistTurn c u a)" "keeps P (forkConversation env cid mid)" "keeps P (deleteConvo cid)"
  "keeps P (storeVectors owner cs)" "keeps P (upsertMemory env k v p)" "keeps P (deleteMemory k)"
  "keeps P (upsertAgent ag)" "keeps P (deleteAgent k)" "keeps P (upsertSkill sk)" "keeps P (deleteSkill k)"
  "keeps P clearAll"
proof -
  have mem: "keeps P (case p of Some p \<Rightarrow> if p \<noteq> [] \<and> p \<noteq> k then run [TMemories] (\<lambda>d. Inr (memory_remove p d)) else ret ()
       | None \<Rightarrow> ret ())" by (auto intro!: run frames split: option.splits)
  show "keeps P (persistTurn c u a)" "keeps P (storeVectors owner cs)" "keeps P clearAll"
    unfolding persistTurn_def storeVectors_def clearAll_def
    by (intro tx keeps_andThen upserts run frames keeps_forEach keeps_case_prod)+
  show "keeps P (upsertMemory env k v p)"
    unfolding upsertMemory_def by (intro tx keeps_andThen mem clock run frames)
  show "keeps P (forkConversation env cid mid)"
    unfolding forkConversation_def Let_def
    by (intro tx keeps_andThen keeps_query clock upserts ids keeps_forEach keeps_ret)
  show "keeps P (deleteConvo cid)" "keeps P (deleteMemory k)" "keeps P (upsertAgent ag)" "keeps P (deleteAgent k)"
    "keeps P (upsertSkill sk)" "keeps P (deleteSkill k)"
    unfolding deleteConvo_def deleteMemory_def upsertAgent_def deleteAgent_def upsertSkill_def deleteSkill_def
    by (intro run frames)+
qed

lemma again: "keeps P (init env k)"
  using closed by (auto simp: keeps_def init_def ret_def)

lemma body: "keeps P (handle_body env b)"
  by (cases b) (auto intro!: keeps_andThen writes keeps_reads import_keeps again)

lemma queue: "P s \<Longrightarrow> P (snd (run_queue env qs s))"
proof (induction qs arbitrary: s)
  case (Cons q qs)
  have "P (snd (handle env q s))"
    using keepsD [OF body [of env "sq_body q"] Cons.prems] by (simp add: handle_parts answer_eq)
  then show ?case using Cons.IH by (simp add: run_queue_Cons del: run_queue.simps(2))
qed simp

end

subsection \<open>Durability\<close>

definition current_schema :: "sdb \<Rightarrow> bool" where
  "current_schema d \<longleftrightarrow> set schema_tables \<subseteq> set (tables d) \<and> \<not> me_fk d \<and> user_version d = SCHEMA_VERSION"

text \<open>The connection is to the file \<open>f\<close> under the key \<open>k\<close> and the file holds what it shows.\<close>

definition durable :: "jsstring \<Rightarrow> jsstring \<Rightarrow> wstate \<Rightarrow> bool" where
  "durable f k s \<longleftrightarrow> (\<exists>d. w_db s = Some \<lparr>cn_loc = File f, cn_key = k, cn_db = d\<rparr>
     \<and> w_disk s f = Some (Enc k d) \<and> current_schema d)"

lemma durable_put: "durable f k s \<Longrightarrow> current_schema d \<Longrightarrow> durable f k (put_db d s)"
  by (auto simp: durable_def put_db_def)

interpretation durable: statement_kept "durable f k" for f k
proof (unfold_locales, goal_cases)
  case 1
  then show ?case by (auto simp: keeps_def draw_def durable_def)
next
  case (2 g ts)
  have "durable f k (snd (run ts g s))" if s: "durable f k s" for s
  proof (cases "run ts g s = (fst (run ts g s), s)")
    case True
    then show ?thesis using s by (metis snd_conv)
  next
    case False
    then obtain c d where c: "w_db s = Some c" "g (cn_db c) = Inr d" "snd (run ts g s) = put_db d s"
      by (auto simp: run_def prepare_def mustDb_def monad_simps split: option.splits sum.splits if_splits)
    then have "current_schema d" using 2 s by (auto simp: durable_def frame_def current_schema_def)
    then show ?thesis using c durable_put [OF s] by simp
  qed
  then show ?case by (simp add: keeps_def)
next
  case (3 m)
  have "durable f k (snd (tx m s))" if s: "durable f k s" for s
    using keepsD [OF 3 s] s
    by (auto simp: tx_def mustDb_def monad_simps split: option.splits prod.splits sum.splits)
      (auto simp: durable_def [of f k s] intro!: durable_put)
  then show ?case by (simp add: keeps_def)
next
  case (4 m)
  have "durable f k (snd (tx m s))" if s: "durable f k s" for s
    using keepsD [OF 4 s] s
    by (auto simp: tx_def mustDb_def monad_simps split: option.splits prod.splits sum.splits)
      (auto simp: durable_def [of f k s] intro!: durable_put)
  then show ?case by (simp add: keeps_def)
next
  case (5 s)
  then show ?case by (auto simp: durable_def)
qed

text \<open>What a successful INIT leaves on a healthy platform.\<close>

definition opened_db :: "sdb \<Rightarrow> sdb" where
  "opened_db d = (add_tables schema_tables (migrate d))\<lparr>user_version := SCHEMA_VERSION\<rparr>"

definition healthy :: "store_env \<Rightarrow> bool" where
  "healthy env \<longleftrightarrow> e_fts5 env \<and> e_isolated env \<and> e_has_pool env
     \<and> (\<forall>n. e_pool_ok env n \<and> e_open_ok env n \<and> e_module_ok env n)"

lemma opened_db_current: "current_schema (opened_db d)"
  by (auto simp: opened_db_def current_schema_def add_tables_def migrate_def)

lemma opened_db_again: "current_schema d \<Longrightarrow> opened_db d = d"
proof -
  assume c: "current_schema d"
  then have "filter (\<lambda>t. t \<notin> set (tables d)) schema_tables = []"
    by (auto simp: current_schema_def filter_empty_conv)
  then show ?thesis
    using c by (cases d) (simp add: opened_db_def current_schema_def add_tables_def migrate_def)
qed

text \<open>The contents a key reads from a file.\<close>

definition readable :: "jsstring \<Rightarrow> disk_file option \<Rightarrow> sdb option" where
  "readable k file = (case file of None \<Rightarrow> Some empty_db | Some (Enc k' d) \<Rightarrow> if k' = k then Some d else None
     | Some Damaged \<Rightarrow> None)"

definition after_delete :: "store_env \<Rightarrow> jsstring \<Rightarrow> (jsstring \<Rightarrow> disk_file option) \<Rightarrow> jsstring \<Rightarrow> disk_file option" where
  "after_delete env f disk = (case e_pool_delete env of
     UnlinkFile \<Rightarrow> disk(f := None) | WipeFiles \<Rightarrow> (\<lambda>_. None) | DeleteFails \<Rightarrow> disk)"

text \<open>The part of INIT after the file is known to be readable.\<close>

definition finish_init :: "store_env \<Rightarrow> unit op" where
  "finish_init env = andThen mustDb (\<lambda>c.
     andThen (\<lambda>s. ret () (put_db (migrate (cn_db c)) s)) (\<lambda>_.
     andThen (apply_schema env) (\<lambda>_. check_fts)))"

lemma TFts_opened: "TFts \<in> set (tables (opened_db d))"
  by (auto simp: opened_db_def add_tables_def schema_tables_def)

lemma finish_init_ok:
  assumes "e_fts5 env" "w_db s = Some \<lparr>cn_loc = File f, cn_key = k, cn_db = d\<rparr>"
  shows "finish_init env s = (Inr (), s\<lparr>w_db := Some \<lparr>cn_loc = File f, cn_key = k, cn_db = opened_db d\<rparr>,
    w_disk := (w_disk s)(f \<mapsto> Enc k (opened_db d))\<rparr>)"
  using TFts_opened [of d] assms
  by (simp add: finish_init_def mustDb_def monad_simps put_db_def apply_schema_def check_fts_def opened_db_def)

lemma draw_then: "andThen draw g s = g (w_seed s) (s\<lparr>w_seed := Suc (w_seed s)\<rparr>)"
  by (simp add: draw_def monad_simps)

lemma andThen_ok: "m s = (Inr a, t) \<Longrightarrow> andThen m g s = g a t"
  by (simp add: monad_simps)

lemma open_connect:
  assumes "healthy env"
  shows "andThen (openDb env f) (\<lambda>loc. andThen (connect loc k) g) s
    = g () (s\<lparr>w_seed := Suc (w_seed s), w_pool := True, w_persistent := True,
        w_db := Some \<lparr>cn_loc = File f, cn_key = k, cn_db = nullish (readable k (w_disk s f)) empty_db\<rparr>\<rparr>)"
  using assms
  by (auto simp: healthy_def openDb_def draw_def monad_simps connect_def readable_def split: option.splits disk_file.splits)

lemma first_read_eq:
  assumes "w_db s = Some \<lparr>cn_loc = File f, cn_key = k, cn_db = d\<rparr>"
  shows "first_read s = (if readable k (w_disk s f) = None then Inl NotADatabase else Inr (), s)"
  using assms by (auto simp: first_read_def readable_def monad_simps split: option.splits disk_file.splits)

lemma init_readable:
  assumes h: "healthy env" and n: "w_db s = None" and r: "readable k (w_disk s (dbFileFor env k)) = Some d"
  shows "\<exists>s'. init env k s = (Inr (), s')
    \<and> w_db s' = Some \<lparr>cn_loc = File (dbFileFor env k), cn_key = k, cn_db = opened_db d\<rparr>
    \<and> w_disk s' = (w_disk s)(dbFileFor env k \<mapsto> Enc k (opened_db d))"
proof -
  let ?f = "dbFileFor env k" and ?s = "s\<lparr>w_seed := Suc (w_seed s)\<rparr>"
  let ?t = "?s\<lparr>w_seed := Suc (w_seed ?s), w_pool := True, w_persistent := True,
        w_db := Some \<lparr>cn_loc = File ?f, cn_key = k, cn_db = d\<rparr>\<rparr>"
  have m: "\<forall>i. e_module_ok env i" "e_fts5 env" using h by (simp_all add: healthy_def)
  have fr: "first_read ?t = (Inr (), ?t)" using first_read_eq [of ?t ?f k d] r by simp
  have "init env k s = finish_init env ?t"
    unfolding init_def finish_init_def
    by (simp add: n draw_then m(1) open_connect [OF h] r) (rule andThen_ok, use fr in \<open>simp add: catch_apply\<close>)
  then show ?thesis using finish_init_ok [OF m(2), of ?t ?f k d] by simp
qed

lemma catch_fails: "m s = (Inl e, t) \<Longrightarrow> catch m h s = h e t"
  by (simp add: monad_simps)

text \<open>An unreadable file is deleted and opened again; when it is still there the second read fails
  and the connection stays open.\<close>

lemma init_unreadable:
  assumes h: "healthy env" and n: "w_db s = None" and r: "readable k (w_disk s (dbFileFor env k)) = None"
  shows "\<exists>s'. init env k s = (if e_pool_delete env = DeleteFails then Inl NotADatabase else Inr (), s')
    \<and> w_db s' \<noteq> None
    \<and> (e_pool_delete env \<noteq> DeleteFails \<longrightarrow>
        w_db s' = Some \<lparr>cn_loc = File (dbFileFor env k), cn_key = k, cn_db = opened_db empty_db\<rparr>
        \<and> w_disk s' = (after_delete env (dbFileFor env k) (w_disk s))
            (dbFileFor env k \<mapsto> Enc k (opened_db empty_db)))"
proof -
  let ?f = "dbFileFor env k" and ?s = "s\<lparr>w_seed := Suc (w_seed s)\<rparr>"
  let ?t = "?s\<lparr>w_seed := Suc (w_seed ?s), w_pool := True, w_persistent := True,
        w_db := Some \<lparr>cn_loc = File ?f, cn_key = k, cn_db = empty_db\<rparr>\<rparr>"
  let ?u = "?t\<lparr>w_db := None, w_disk := after_delete env ?f (w_disk s)\<rparr>"
  let ?v = "?u\<lparr>w_seed := Suc (w_seed ?u), w_pool := True, w_persistent := True,
        w_db := Some \<lparr>cn_loc = File ?f, cn_key = k, cn_db = nullish (readable k (after_delete env ?f (w_disk s) ?f)) empty_db\<rparr>\<rparr>"
  have m: "\<forall>i. e_module_ok env i" "e_fts5 env" using h by (simp_all add: healthy_def)
  have fr: "first_read ?t = (Inl NotADatabase, ?t)" using first_read_eq [of ?t ?f k empty_db] r by simp
  have rc: "recreate env ?f k ?t = first_read ?v"
    unfolding recreate_def
    by (subst andThen_ok, simp add: ret_def, subst open_connect [OF h])
      (cases "e_pool_delete env"; simp add: after_delete_def)
  have i: "init env k s = andThen (\<lambda>s. if w_persistent s then catch first_read (\<lambda>_. recreate env ?f k) s else ret () s)
      (\<lambda>_. finish_init env) ?t"
    unfolding init_def finish_init_def by (simp add: n draw_then m(1) open_connect [OF h] r)
  have c: "catch first_read (\<lambda>_. recreate env ?f k) ?t = first_read ?v"
    using catch_fails [of first_read, OF fr] rc by simp
  show ?thesis
  proof (cases "e_pool_delete env = DeleteFails")
    case True
    then have "readable k (after_delete env ?f (w_disk s) ?f) = None" using r by (simp add: after_delete_def)
    then have "first_read ?v = (Inl NotADatabase, ?v)"
      using first_read_eq [of ?v ?f k empty_db] by simp
    then show ?thesis using i c True by (simp add: andThen_apply)
  next
    case False
    then have a: "readable k (after_delete env ?f (w_disk s) ?f) = Some empty_db"
      by (cases "e_pool_delete env") (simp_all add: after_delete_def readable_def)
    then have "first_read ?v = (Inr (), ?v)"
      using first_read_eq [of ?v ?f k empty_db] by simp
    then have "init env k s = finish_init env ?v" using i c by (simp add: andThen_apply)
    then show ?thesis using finish_init_ok [OF m(2), of ?v ?f k empty_db] False a by simp
  qed
qed

lemma answer_INIT: "answer env (INIT k) s = (case fst (init env k s) of Inl e \<Rightarrow> ERROR e | Inr _ \<Rightarrow> OK None)"
  "after env (INIT k) s = snd (init env k s)"
  by (simp_all add: answer_eq monad_simps reply_def split: prod.splits sum.splits)

lemma init_ok_cases:
  assumes "healthy env" "answer env (INIT k) (new_worker disk) = OK None"
  shows "\<exists>d. (d = empty_db \<or> disk (dbFileFor env k) = Some (Enc k d))
    \<and> w_db (after env (INIT k) (new_worker disk)) = Some \<lparr>cn_loc = File (dbFileFor env k), cn_key = k, cn_db = opened_db d\<rparr>
    \<and> w_disk (after env (INIT k) (new_worker disk)) (dbFileFor env k) = Some (Enc k (opened_db d))
    \<and> (e_pool_delete env = UnlinkFile \<longrightarrow>
        (\<forall>f. f \<noteq> dbFileFor env k \<longrightarrow> w_disk (after env (INIT k) (new_worker disk)) f = disk f))"
proof (cases "readable k (disk (dbFileFor env k))")
  case (Some d)
  then show ?thesis
    using init_readable [OF assms(1), of "new_worker disk" k d]
    by (auto simp: answer_INIT new_worker_def readable_def split: option.splits disk_file.splits if_splits)
next
  case None
  then show ?thesis
    using init_unreadable [OF assms(1), of "new_worker disk" k] assms(2)
    by (auto simp: answer_INIT new_worker_def after_delete_def split: if_splits)
qed

text \<open>A store opened with a key on a persistent platform shows that key's own file or an empty
  database, never contents written under another key; with a pool that unlinks single files, the
  files of other keys stay as they were.\<close>

theorem init_reads_own_key_only:
  assumes "healthy env" and "answer env (INIT k) (new_worker disk) = OK None"
  shows "\<exists>d. w_db (after env (INIT k) (new_worker disk))
        = Some \<lparr>cn_loc = File (dbFileFor env k), cn_key = k, cn_db = opened_db d\<rparr>
    \<and> (d = empty_db \<or> disk (dbFileFor env k) = Some (Enc k d))
    \<and> (e_pool_delete env = UnlinkFile \<longrightarrow>
        (\<forall>f. f \<noteq> dbFileFor env k \<longrightarrow> w_disk (after env (INIT k) (new_worker disk)) f = disk f))"
  using init_ok_cases [OF assms] by blast

lemma sample_healthy: "healthy sample_env"
  by (simp add: healthy_def sample_env_def)

theorem init_reads_own_key_only_witness:
  "\<exists>d. w_db (after sample_env (INIT (js ''k'')) (new_worker (\<lambda>_. Some Damaged)))
        = Some \<lparr>cn_loc = File (dbFileFor sample_env (js ''k'')), cn_key = js ''k'', cn_db = opened_db d\<rparr>
    \<and> d = empty_db"
proof -
  have "answer sample_env (INIT (js ''k'')) (new_worker (\<lambda>_. Some Damaged)) = OK None"
    using init_unreadable [OF sample_healthy, of "new_worker (\<lambda>_. Some Damaged)" "js ''k''"]
    by (auto simp: answer_INIT new_worker_def readable_def sample_env_def)
  from init_reads_own_key_only [OF sample_healthy this] show ?thesis by auto
qed

text \<open>C31. Whatever requests follow a successful INIT on a persistent platform, closing the worker and
  opening the store again with the same key gives the database as it was left.\<close>

theorem reload_restores:
  assumes "healthy env" and "answer env (INIT k) (new_worker disk) = OK None"
  shows "let s = snd (run_queue env reqs (after env (INIT k) (new_worker disk)));
             s' = after env (INIT k) (new_worker (w_disk s))
         in answer env (INIT k) (new_worker (w_disk s)) = OK None \<and> w_db s' = w_db s"
proof -
  define f where "f = dbFileFor env k"
  define s where "s = snd (run_queue env reqs (after env (INIT k) (new_worker disk)))"
  have "durable f k (after env (INIT k) (new_worker disk))"
    using init_ok_cases [OF assms] by (auto simp: durable_def f_def opened_db_current)
  then have "durable f k s" unfolding s_def by (rule durable.queue)
  then obtain d where d: "w_db s = Some \<lparr>cn_loc = File f, cn_key = k, cn_db = d\<rparr>"
    "w_disk s f = Some (Enc k d)" "current_schema d" by (auto simp: durable_def)
  have "readable k (w_disk (new_worker (w_disk s)) (dbFileFor env k)) = Some d"
    using d(2) by (simp add: readable_def new_worker_def f_def)
  from init_readable [OF assms(1) _ this] obtain s' where
    i: "init env k (new_worker (w_disk s)) = (Inr (), s')" "w_db s' = w_db s"
    using d by (auto simp: new_worker_def opened_db_again f_def)
  show ?thesis unfolding Let_def s_def [symmetric] using i by (simp add: answer_INIT)
qed

theorem reload_restores_witness:
  "let s = snd (run_queue sample_env [\<lparr>sq_requestId = js ''r'', sq_body = UPSERT_AGENT (sample_agent (js ''a''))\<rparr>]
         (after sample_env (INIT (js ''k'')) (new_worker (\<lambda>_. None))))
   in w_db (after sample_env (INIT (js ''k'')) (new_worker (w_disk s))) = w_db s"
proof -
  have "answer sample_env (INIT (js ''k'')) (new_worker (\<lambda>_. None)) = OK None"
    using init_readable [OF sample_healthy, of "new_worker (\<lambda>_. None)" "js ''k''" empty_db]
    by (auto simp: answer_INIT new_worker_def readable_def)
  from reload_restores [OF sample_healthy this] show ?thesis unfolding Let_def by blast
qed

text \<open>An INIT that fails after the connection was made leaves it in place, so that the next INIT is
  answered with OK on a database that was never read.\<close>

theorem failed_init_then_ok:
  assumes "healthy env" and "e_pool_delete env = DeleteFails" and "disk (dbFileFor env k) = Some Damaged"
  shows "answer env (INIT k) (new_worker disk) = ERROR NotADatabase
    \<and> answer env (INIT k) (after env (INIT k) (new_worker disk)) = OK None"
proof -
  have "readable k (w_disk (new_worker disk) (dbFileFor env k)) = None"
    using assms(3) by (simp add: new_worker_def readable_def)
  from init_unreadable [OF assms(1) _ this] obtain s' where
    "init env k (new_worker disk) = (Inl NotADatabase, s')" "w_db s' \<noteq> None"
    using assms(2) by (auto simp: new_worker_def)
  moreover from this(2) have "init env k s' = (Inr (), s')" by (simp add: init_def ret_def)
  ultimately show ?thesis by (simp add: answer_INIT)
qed

end
