(* ===== verification/Envelope.thy ===== *)
theory Envelope
  imports Bytes
begin

text \<open>
  The wire format of a sealed message, \<open>web-client/caladon/src/{constants,types,envelope}.ts\<close>:
  the protocol constants, the errors the SDK throws, the platform functions it relies on, the
  derivation of the additional data from account, purpose and version, and the translation
  between the \<open>nonce, ciphertext\<close> buffer of the WASM module and the JSON envelope. The main
  results are the round trip, the failure on a buffer shorter than a nonce, and that the
  additional data separates accounts, purposes and versions.
\<close>

subsection \<open>Constants\<close>

definition ALG :: jsstring where "ALG = js ''xchacha20poly1305''"

definition NONCE_LEN :: nat where "NONCE_LEN = 24"

definition ENVELOPE_V :: int where "ENVELOPE_V = 1"

definition CHAT_PURPOSE :: jsstring where "CHAT_PURPOSE = js ''chat''"

definition WMK_PURPOSE :: jsstring where "WMK_PURPOSE = js ''wmk-delivery''"

definition DEFAULT_SALT :: jsstring where "DEFAULT_SALT = js ''swifty/v1''"

definition ARGON2ID_OPSLIMIT_REFERENCE :: nat where "ARGON2ID_OPSLIMIT_REFERENCE = 3"

definition ARGON2ID_MEMLIMIT_REFERENCE :: nat where
  "ARGON2ID_MEMLIMIT_REFERENCE = 64 * 1024 * 1024"

definition DEFAULT_SHIM_BASE :: jsstring where "DEFAULT_SHIM_BASE = js ''/api/caladon''"

definition DEFAULT_PCS_COLLATERAL_BASE :: jsstring where
  "DEFAULT_PCS_COLLATERAL_BASE = js ''/pcs-collateral''"

subsection \<open>Errors and the platform\<close>

text \<open>The verdict of the WASM quote verification.\<close>

record verdict =
  ok :: bool
  reason :: jsstring
  measurement_matched :: bool

text \<open>Everything the SDK can throw: its own \<open>CaladonError\<close>s by their cause,
  \<open>AttestationFailedError\<close>, the plain \<open>Error\<close>s of envelope, quote and collateral, and what the
  runtime, the network and the WASM module raise.\<close>

datatype cerror =
    NoFetch
  | NoRandomValues
  | NoIdentity
  | NoEd25519Pub
  | NoSessionKey
  | HttpError jsstring int jsstring
  | ChallengeNotBound
  | NoQuote
  | NoPinned
  | NoSessionPub
  | Leak
  | InsecurePolicy
  | AttestationFailed verdict
  | SealedTooShort
  | QuoteTooShort
  | NoPckChain
  | EmptyPem
  | NoSgxExtension
  | NoFmspc
  | PcsFailed int jsstring
  | RootCrlFailed int
  | MissingIssuerChain
  | WebAuthnUnavailable
  | CeremonyRejected
  | NoCredential
  | PrfMissing
  | PrfWrongLength nat
  | BadBase64
  | BadUri
  | SyntaxErr
  | RangeErr
  | TypeErr
  | NetworkError
  | WasmThrow

text \<open>What the JavaScript platform supplies: base64 functions (when present), SHA-256, the JSON
  codec, the string conversion of a value and of a string to a BigInt, URI decoding, and Node's lenient
  \<open>Buffer.from(s, 'base64')\<close>. A function that throws gives \<open>None\<close>.\<close>

record platform =
  p_base64 :: b64_platform
  p_sha256 :: "bytes \<Rightarrow> bytes"
  p_parse :: "jsstring \<Rightarrow> json option"
  p_stringify :: "json \<Rightarrow> jsstring"
  p_toString :: "json \<Rightarrow> jsstring"
  p_toBigInt :: "jsstring \<Rightarrow> int option"
  p_decodeURI :: "jsstring \<Rightarrow> jsstring option"
  p_bufferBase64 :: "jsstring \<Rightarrow> bytes"

text \<open>Property access on a value that may be null: \<open>null.p\<close> throws.\<close>

fun get_prop :: "json \<Rightarrow> string \<Rightarrow> cerror + json option" where
  "get_prop JNull k = Inl TypeErr"
| "get_prop v k = Inr (getProp v (js k))"

text \<open>\<open>fromBase64(v)\<close> on a value taken from JSON without a check: \<open>atob\<close> converts its argument
  to a string, the manual decoder calls \<open>.replace\<close> on it, which only a string has.\<close>

definition fromBase64_value :: "platform \<Rightarrow> json option \<Rightarrow> cerror + bytes" where
  "fromBase64_value p v =
     (case v of
        Some (JStr s) \<Rightarrow> (case fromBase64 (p_base64 p) s of Some b \<Rightarrow> Inr b | None \<Rightarrow> Inl BadBase64)
      | Some w \<Rightarrow> (if atob (p_base64 p) = None then Inl TypeErr
                  else case fromBase64 (p_base64 p) (p_toString p w) of Some b \<Rightarrow> Inr b | None \<Rightarrow> Inl BadBase64)
      | None \<Rightarrow> (if atob (p_base64 p) = None then Inl TypeErr
                else case fromBase64 (p_base64 p) (js ''undefined'') of Some b \<Rightarrow> Inr b | None \<Rightarrow> Inl BadBase64))"

subsection \<open>Additional data and the envelope\<close>

text \<open>A number in a template string; the versions used are integers.\<close>

fun digits :: "nat \<Rightarrow> jsstring" where
  "digits n = (if n < 10 then [of_nat (48 + n)] else digits (n div 10) @ [of_nat (48 + n mod 10)])"

declare digits.simps [simp del]

definition show_int :: "int \<Rightarrow> jsstring" where
  "show_int n = (if n < 0 then js ''-'' @ digits (nat (- n)) else digits (nat n))"

definition newline :: jschar where "newline = 10"

definition aad_input :: "jsstring \<Rightarrow> jsstring \<Rightarrow> int \<Rightarrow> jsstring" where
  "aad_input accountId purpose v = accountId @ [newline] @ purpose @ [newline] @ show_int v"

definition aad :: "platform \<Rightarrow> jsstring \<Rightarrow> jsstring \<Rightarrow> int \<Rightarrow> bytes" where
  "aad p accountId purpose v = p_sha256 p (utf8 (aad_input accountId purpose v))"

definition toWireEnvelope ::
    "platform \<Rightarrow> bytes \<Rightarrow> jsstring \<Rightarrow> jsstring \<Rightarrow> int \<Rightarrow> jsstring \<Rightarrow> cerror + json" where
  "toWireEnvelope p nonceCt accountId purpose v kid =
     (if length nonceCt < NONCE_LEN then Inl SealedTooShort
      else let nonce = take NONCE_LEN nonceCt; ct = drop NONCE_LEN nonceCt
        in Inr (JObj
          [(js ''v'', JNum (of_int v)),
           (js ''alg'', JStr ALG),
           (js ''kid'', JStr kid),
           (js ''nonce'', JStr (toBase64 (p_base64 p) nonce)),
           (js ''aad'', JStr (toBase64 (p_base64 p) (aad p accountId purpose v))),
           (js ''ct'', JStr (toBase64 (p_base64 p) ct))]))"

text \<open>\<open>env\<close> comes out of JSON: it may be \<open>undefined\<close> (\<open>None\<close>), null or anything else.\<close>

definition fromWireEnvelope :: "platform \<Rightarrow> json option \<Rightarrow> cerror + bytes" where
  "fromWireEnvelope p env =
     (case env of
        None \<Rightarrow> Inl TypeErr
      | Some e \<Rightarrow>
          (case get_prop e ''nonce'' of
             Inl x \<Rightarrow> Inl x
           | Inr nv \<Rightarrow>
               (case fromBase64_value p nv of
                  Inl x \<Rightarrow> Inl x
                | Inr nonce \<Rightarrow>
                    (case fromBase64_value p (getProp e (js ''ct'')) of
                       Inl x \<Rightarrow> Inl x
                     | Inr ct \<Rightarrow> Inr (concatBytes [nonce, ct])))))"

subsection \<open>Properties\<close>

text \<open>A base64 pair that inverts itself: the manual code does, and so does a platform whose
  \<open>atob\<close> inverts its \<open>btoa\<close> on strings of bytes.\<close>

definition b64_inverse :: "b64_platform \<Rightarrow> bool" where
  "b64_inverse b = (\<forall>bs. fromBase64 b (toBase64 b bs) = Some bs)"

lemma b64_inverse_manual: "btoa b = None \<Longrightarrow> atob b = None \<Longrightarrow> b64_inverse b"
  by (simp add: b64_inverse_def toBase64_def fromBase64_def b64_manual_roundtrip)

lemma envelope_getProp:
  assumes "toWireEnvelope p nc a pu v kid = Inr e"
  shows "getProp e (js ''v'') = Some (JNum (of_int v))"
    and "getProp e (js ''nonce'') = Some (JStr (toBase64 (p_base64 p) (take 24 nc)))"
    and "getProp e (js ''aad'') = Some (JStr (toBase64 (p_base64 p) (aad p a pu v)))"
    and "getProp e (js ''ct'') = Some (JStr (toBase64 (p_base64 p) (drop 24 nc)))"
    and "getProp e (js ''kid'') = Some (JStr kid)"
    and "getProp e (js ''alg'') = Some (JStr ALG)"
    and "e \<noteq> JNull"
  using assms by (auto simp: toWireEnvelope_def Let_def NONCE_LEN_def split: if_splits)

lemma fromWire_toWire:
  assumes "toWireEnvelope p nc a pu v kid = Inr e" "b64_inverse (p_base64 p)"
  shows "fromWireEnvelope p (Some e) = Inr nc"
proof -
  have n: "get_prop e ''nonce'' = Inr (getProp e (js ''nonce''))"
    using envelope_getProp(7) [OF assms(1)] by (cases e) auto
  show ?thesis
    using assms(2)
    by (simp add: fromWireEnvelope_def n envelope_getProp [OF assms(1)] fromBase64_value_def
        b64_inverse_def concatBytes_def)
qed

lemma toWireEnvelope_short: "toWireEnvelope p nc a pu v kid = Inl e \<longleftrightarrow> length nc < 24 \<and> e = SealedTooShort"
  by (auto simp: toWireEnvelope_def NONCE_LEN_def Let_def)

text \<open>Digits never contain a newline, so the two newlines of the additional data delimit it.\<close>

lemma digits_no_newline: "newline \<notin> set (digits n)"
proof (induction n rule: digits.induct)
  case (1 n)
  have d: "of_nat (48 + k) \<noteq> newline" if "k < 10" for k
  proof
    assume "of_nat (48 + k) = newline"
    then have "unat (of_nat (48 + k) :: jschar) = unat (10 :: jschar)" by (simp only: newline_def)
    moreover have "unat (of_nat (48 + k) :: jschar) = 48 + k"
      using that by (simp only: unsigned_of_nat) (auto intro!: take_bit_nat_eq_self)
    ultimately show False by simp
  qed
  have "n mod 10 < 10" by simp
  then show ?case
    using 1 d [of n] d [of "n mod 10"] by (auto simp: digits.simps [of n])
qed

lemma split_at_unique:
  "x \<notin> set a \<Longrightarrow> x \<notin> set b \<Longrightarrow> a @ x # c = b @ x # d \<longleftrightarrow> a = b \<and> c = d"
proof (induction a arbitrary: b)
  case Nil
  then show ?case by (cases b) auto
next
  case (Cons y a)
  then show ?case by (cases b) auto
qed

lemma digits_Nil: "digits n \<noteq> []"
  by (simp add: digits.simps [of n])

lemma digit_eq: "(of_nat (48 + a) :: jschar) = of_nat (48 + b) \<longleftrightarrow> a = b" if "a < 10" "b < 10"
proof -
  have "unat (of_nat (48 + k) :: jschar) = 48 + k" if "k < 10" for k
    using that by (simp only: unsigned_of_nat) (auto intro!: take_bit_nat_eq_self)
  then show ?thesis using that by (metis add_left_cancel)
qed

lemma digits_inj: "digits m = digits n \<longleftrightarrow> m = n"
proof (induction m arbitrary: n rule: digits.induct)
  case (1 m)
  have "m mod 10 < 10" "n mod 10 < 10" by simp_all
  note d = digit_eq [OF this]
  show ?case
  proof (cases "m < 10 \<or> n < 10")
    case True
    then show ?thesis
      using digit_eq [of m n] digits_Nil [of "n div 10"] digits_Nil [of "m div 10"]
      by (auto simp: digits.simps [of m] digits.simps [of n] simp del: of_nat_add split: if_splits)
  next
    case False
    then show ?thesis
      using 1 [of "n div 10"] d
      by (simp add: digits.simps [of m] digits.simps [of n] del: of_nat_add) (metis div_mult_mod_eq)
  qed
qed

lemma digits_head: "\<exists>k r. k < 10 \<and> digits n = of_nat (48 + k) # r"
proof (induction n rule: digits.induct)
  case (1 n)
  show ?case
  proof (cases "n < 10")
    case True
    then show ?thesis by (auto simp: digits.simps [of n] simp del: of_nat_add)
  next
    case False
    then obtain k r where "k < 10" "digits (n div 10) = of_nat (48 + k) # r"
      using 1 by blast
    then show ?thesis using False by (simp add: digits.simps [of n] del: of_nat_add) blast
  qed
qed

lemma digits_no_minus: "digits n \<noteq> js ''-'' @ r"
proof
  assume a: "digits n = js ''-'' @ r"
  obtain k q where k: "k < 10" "digits n = of_nat (48 + k) # q" using digits_head by blast
  have "unat (of_nat (48 + k) :: jschar) = 48 + k"
    using k(1) by (simp only: unsigned_of_nat) (auto intro!: take_bit_nat_eq_self)
  moreover have "of_nat (48 + k) = (of_char (CHR ''-'') :: jschar)" using a k(2) by (simp add: js_def)
  ultimately have "48 + k = of_char (CHR ''-'')" by (simp only: unat_of_char16)
  then show False by simp
qed

lemma show_int_inj: "show_int a = show_int b \<longleftrightarrow> a = b"
  using digits_no_minus [of "nat a" "digits (nat (- b))"] digits_no_minus [of "nat b" "digits (nat (- a))"]
  by (auto simp: show_int_def digits_inj)

lemma show_int_no_newline: "newline \<notin> set (show_int v)"
proof -
  have "(of_char (CHR ''-'') :: jschar) \<noteq> newline" by (simp add: newline_def)
  then show ?thesis using digits_no_newline by (simp add: show_int_def js_def)
qed

lemma aad_input_inj:
  assumes "newline \<notin> set a" "newline \<notin> set a'" "newline \<notin> set p" "newline \<notin> set p'"
  shows "aad_input a p v = aad_input a' p' v' \<longleftrightarrow> a = a' \<and> p = p' \<and> v = v'"
  using assms
  by (simp add: aad_input_def split_at_unique show_int_inj)

text \<open>Opening inverts sealing on the wire: what \<open>toWireEnvelope\<close> builds from a \<open>nonce, ciphertext\<close>
  buffer, \<open>fromWireEnvelope\<close> turns back into that buffer, on the manual base64 code and on any
  platform whose \<open>atob\<close> inverts its \<open>btoa\<close>.\<close>

theorem envelope_roundtrip:
  assumes "toWireEnvelope p nc acct purpose v kid = Inr env" "b64_inverse (p_base64 p)"
  shows "fromWireEnvelope p (Some env) = Inr nc"
  using assms by (rule fromWire_toWire)

definition manual_platform :: platform where
  "manual_platform = \<lparr>p_base64 = \<lparr>btoa = None, atob = None\<rparr>, p_sha256 = (\<lambda>_. []), p_parse = (\<lambda>_. None),
     p_stringify = (\<lambda>_. []), p_toString = (\<lambda>_. []), p_toBigInt = (\<lambda>_. None), p_decodeURI = Some,
     p_bufferBase64 = (\<lambda>_. [])\<rparr>"

lemma envelope_roundtrip_witness:
  "\<exists>env. toWireEnvelope manual_platform (replicate 24 7 @ [1, 2, 3]) (js ''acct'') CHAT_PURPOSE 1 CHAT_PURPOSE = Inr env
    \<and> fromWireEnvelope manual_platform (Some env) = Inr (replicate 24 7 @ [1, 2, 3])"
proof -
  have e: "\<exists>env. toWireEnvelope manual_platform (replicate 24 7 @ [1, 2, 3]) (js ''acct'') CHAT_PURPOSE 1 CHAT_PURPOSE = Inr env"
    by (simp add: toWireEnvelope_def NONCE_LEN_def Let_def)
  have b: "b64_inverse (p_base64 manual_platform)"
    by (rule b64_inverse_manual) (simp_all add: manual_platform_def)
  from e envelope_roundtrip [OF _ b] show ?thesis by blast
qed

text \<open>The additional data separates its three fields: for accounts and purposes without a
  newline, two inputs of the hash agree only if account, purpose and version do.\<close>

theorem aad_separates:
  assumes "newline \<notin> set a" "newline \<notin> set a'" "newline \<notin> set p" "newline \<notin> set p'"
  shows "aad_input a p v = aad_input a' p' v' \<longleftrightarrow> a = a' \<and> p = p' \<and> v = v'"
  using assms by (rule aad_input_inj)

lemma aad_separates_witness:
  "aad_input (js ''acct'') CHAT_PURPOSE 1 \<noteq> aad_input (js ''acct'') WMK_PURPOSE 1"
  by (subst aad_separates) (simp_all add: CHAT_PURPOSE_def WMK_PURPOSE_def js_def newline_def)

end
