(* ===== verification/Quote.thy ===== *)
theory Quote
  imports Envelope
begin

text \<open>
  The field extraction of \<open>web-client/caladon/src/quote.ts\<close>: fixed offsets into a TDX v4 quote.
  The lemmas show that the guard makes every read fall inside the quote, so each register comes
  out at its full width, and that the pinned aggregate is the hex of the four registers and
  determines them.
\<close>

definition HEADER :: nat where "HEADER = 48"

definition MR_TD_OFF :: nat where "MR_TD_OFF = HEADER + 16 + 48 + 48 + 8 + 8 + 8"

definition RTMR0_OFF :: nat where "RTMR0_OFF = MR_TD_OFF + 48 + 48 + 48 + 48"

definition REG :: nat where "REG = 48"

record TdxMeasurements =
  mrTd :: jsstring
  rtmr0 :: jsstring
  rtmr1 :: jsstring
  rtmr2 :: jsstring
  rtmr3 :: jsstring
  aggregate :: jsstring
  reportDataChallenge :: jsstring

definition quote_at :: "bytes \<Rightarrow> nat \<Rightarrow> bytes" where
  "quote_at quote off = slice off (off + REG) quote"

definition tdxMeasurements :: "bytes \<Rightarrow> cerror + TdxMeasurements" where
  "tdxMeasurements quote =
     (if length quote < RTMR0_OFF + 4 * REG + 64 then Inl QuoteTooShort
      else
        let m = toHex (quote_at quote MR_TD_OFF);
            r0 = toHex (quote_at quote RTMR0_OFF);
            r1 = toHex (quote_at quote (RTMR0_OFF + REG));
            r2 = toHex (quote_at quote (RTMR0_OFF + 2 * REG));
            r3 = toHex (quote_at quote (RTMR0_OFF + 3 * REG));
            reportData = slice (RTMR0_OFF + 4 * REG) (RTMR0_OFF + 4 * REG + 64) quote
        in Inr \<lparr>mrTd = m, rtmr0 = r0, rtmr1 = r1, rtmr2 = r2, rtmr3 = r3,
                aggregate = m @ r0 @ r1 @ r2,
                reportDataChallenge = toHex (slice 0 32 reportData)\<rparr>)"

lemma length_quote_at: "off + 48 \<le> length q \<Longrightarrow> length (quote_at q off) = 48"
  by (simp add: quote_at_def slice_def REG_def)

lemma quote_offsets: "MR_TD_OFF = 184" "RTMR0_OFF = 376" "REG = 48"
  by (simp_all add: MR_TD_OFF_def RTMR0_OFF_def HEADER_def REG_def)

text \<open>The layout read backwards: a quote put together from its fields gives them back.\<close>

lemma tdxMeasurements_layout:
  assumes q: "q = hdr @ td @ gap @ a0 @ a1 @ a2 @ a3 @ ch @ rest"
    and len: "length hdr = 184" "length td = 48" "length gap = 144"
      "length a0 = 48" "length a1 = 48" "length a2 = 48" "length a3 = 48"
      "length ch = 32" "32 \<le> length rest"
  shows "tdxMeasurements q = Inr \<lparr>mrTd = toHex td, rtmr0 = toHex a0, rtmr1 = toHex a1,
    rtmr2 = toHex a2, rtmr3 = toHex a3, aggregate = toHex (td @ a0 @ a1 @ a2),
    reportDataChallenge = toHex ch\<rparr>"
  using len
  by (simp add: q tdxMeasurements_def quote_offsets quote_at_def slice_def Let_def toHex_append
      min_def)

lemma tdxMeasurements_short: "tdxMeasurements q = Inl e \<longleftrightarrow> length q < 632 \<and> e = QuoteTooShort"
  by (auto simp: tdxMeasurements_def quote_offsets Let_def)

lemma tdxMeasurements_lengths:
  assumes "tdxMeasurements q = Inr m"
  shows "length (mrTd m) = 96" "length (rtmr0 m) = 96" "length (rtmr1 m) = 96"
    "length (rtmr2 m) = 96" "length (rtmr3 m) = 96" "length (aggregate m) = 384"
    "length (reportDataChallenge m) = 64"
    "aggregate m = mrTd m @ rtmr0 m @ rtmr1 m @ rtmr2 m"
  using assms
  by (auto simp: tdxMeasurements_def quote_offsets Let_def length_toHex length_quote_at slice_def
      split: if_splits)

text \<open>Pinning the aggregate pins each of its registers.\<close>

lemma aggregate_determines:
  assumes "tdxMeasurements q = Inr m" "tdxMeasurements q' = Inr m'" "aggregate m = aggregate m'"
  shows "mrTd m = mrTd m' \<and> rtmr0 m = rtmr0 m' \<and> rtmr1 m = rtmr1 m' \<and> rtmr2 m = rtmr2 m'"
  using assms(3) tdxMeasurements_lengths [OF assms(1)] tdxMeasurements_lengths [OF assms(2)]
  by (simp add: append_eq_append_conv)

text \<open>The field extraction reads the layout it documents: in a quote put together from a
  184-byte prefix, the 48-byte registers at their places and the challenge, every field comes
  out as the hex of its register, and the pinned aggregate is the hex of the four registers
  joined.\<close>

theorem quote_measurements_layout:
  assumes "q = hdr @ td @ gap @ a0 @ a1 @ a2 @ a3 @ ch @ rest"
    and "length hdr = 184" "length td = 48" "length gap = 144"
      "length a0 = 48" "length a1 = 48" "length a2 = 48" "length a3 = 48"
      "length ch = 32" "32 \<le> length rest"
  shows "tdxMeasurements q = Inr \<lparr>mrTd = toHex td, rtmr0 = toHex a0, rtmr1 = toHex a1,
    rtmr2 = toHex a2, rtmr3 = toHex a3, aggregate = toHex (td @ a0 @ a1 @ a2),
    reportDataChallenge = toHex ch\<rparr>"
  using assms by (rule tdxMeasurements_layout)

lemma quote_measurements_layout_witness:
  "tdxMeasurements (replicate 184 0 @ replicate 48 1 @ replicate 144 0 @ replicate 48 2 @ replicate 48 3
      @ replicate 48 4 @ replicate 48 5 @ replicate 32 6 @ replicate 32 0)
    = Inr \<lparr>mrTd = toHex (replicate 48 1), rtmr0 = toHex (replicate 48 2), rtmr1 = toHex (replicate 48 3),
      rtmr2 = toHex (replicate 48 4), rtmr3 = toHex (replicate 48 5),
      aggregate = toHex (replicate 48 1 @ replicate 48 2 @ replicate 48 3 @ replicate 48 4),
      reportDataChallenge = toHex (replicate 32 6)\<rparr>"
  by (rule quote_measurements_layout [OF refl]) (simp_all only: length_replicate order_refl)

end
