(* ===== verification/Collateral.thy ===== *)
theory Collateral
  imports Quote
begin

text \<open>
  The collateral of \<open>web-client/caladon/src/collateral.ts\<close>: taking the certificate chain out of
  the quote, the small DER walk that finds the FMSPC, and the requests that assemble the
  collateral, over the transport the SDK shares (a log of requests, each answered by the
  network). The main results: the walk finds the value that follows the object identifier and
  stays inside its input, the hex form of the root CRL is read back exactly, and assembling
  collateral only ever issues GET requests without a body.
\<close>

subsection \<open>Transport\<close>

datatype rmethod = GET | POST

record request =
  rq_method :: rmethod
  rq_url :: jsstring
  rq_headers :: "(jsstring \<times> jsstring) list"
  rq_body :: "jsstring option"

record response =
  rs_status :: int
  rs_body :: bytes
  rs_header :: "jsstring \<Rightarrow> jsstring option"

text \<open>\<open>Response.ok\<close> and \<open>Response.text()\<close>.\<close>

definition rs_ok :: "response \<Rightarrow> bool" where
  "rs_ok r = (200 \<le> rs_status r \<and> rs_status r \<le> 299)"

definition rs_text :: "response \<Rightarrow> jsstring" where
  "rs_text r = fromUtf8 (rs_body r)"

text \<open>The state every part of the SDK shares: the requests sent so far and the number of values
  drawn from the clock and the random source. The network is any function of the requests sent;
  \<open>None\<close> is a failed fetch.\<close>

record sdk_state =
  reqs :: "request list"
  draws :: nat

type_synonym network = "request list \<Rightarrow> response option"

type_synonym ('s, 'a) sdk = "('s sdk_state_scheme, cerror, 'a) exc"

definition fetch :: "network \<Rightarrow> request \<Rightarrow> ('s, response) sdk" where
  "fetch net q = (\<lambda>s. let s' = s\<lparr>reqs := reqs s @ [q]\<rparr> in
     case net (reqs s') of None \<Rightarrow> (Inl NetworkError, s') | Some r \<Rightarrow> (Inr r, s'))"

definition lift :: "cerror + 'a \<Rightarrow> ('s, cerror, 'a) exc" where
  "lift x = (case x of Inl e \<Rightarrow> throw e | Inr a \<Rightarrow> ret a)"

definition lift_opt :: "cerror \<Rightarrow> 'a option \<Rightarrow> ('s, cerror, 'a) exc" where
  "lift_opt e x = (case x of None \<Rightarrow> throw e | Some a \<Rightarrow> ret a)"

subsection \<open>The certificate chain in the quote\<close>

definition BEGIN_TAG :: jsstring where "BEGIN_TAG = js ''-----BEGIN CERTIFICATE-----''"

definition END_TAG :: jsstring where "END_TAG = js ''-----END CERTIFICATE-----''"

text \<open>One character per byte, as the loop over \<open>String.fromCharCode\<close> builds it.\<close>

definition latin1 :: "bytes \<Rightarrow> jsstring" where
  "latin1 bs = map ucast bs"

definition extractPckChainFromQuote :: "bytes \<Rightarrow> cerror + jsstring" where
  "extractPckChainFromQuote quote =
     (let s = latin1 quote in
      case (index_of BEGIN_TAG s, last_index_of END_TAG s) of
        (Some b, Some e) \<Rightarrow> Inr (trim (slice b (e + length END_TAG) s))
      | _ \<Rightarrow> Inl NoPckChain)"

text \<open>The global match of \<open>BEGIN ([\s\S]*?) END\<close>: from the first BEGIN to the first END after
  it, then on from there.\<close>

function pem_blocks :: "jsstring \<Rightarrow> jsstring list" where
  "pem_blocks s =
     (case index_of BEGIN_TAG s of
        None \<Rightarrow> []
      | Some i \<Rightarrow>
          (let r = drop (i + length BEGIN_TAG) s in
           case index_of END_TAG r of
             None \<Rightarrow> []
           | Some j \<Rightarrow> take j r # pem_blocks (drop (j + length END_TAG) r)))"
  by pat_completeness auto
termination
proof (relation "measure length", simp, goal_cases)
  case (1 s i r j)
  then have "prefix BEGIN_TAG (drop i s)" by (simp add: index_of_Some_prefix)
  then have "length BEGIN_TAG \<le> length (drop i s)" by (rule prefix_length_le)
  then have "0 < length s" by (cases s) (simp_all add: BEGIN_TAG_def)
  then show ?case using 1 by (simp add: BEGIN_TAG_def)
qed

declare pem_blocks.simps [simp del]

definition b64ToBytes :: "platform \<Rightarrow> jsstring \<Rightarrow> cerror + bytes" where
  "b64ToBytes p b64 =
     (case atob (p_base64 p) of
        Some f \<Rightarrow> (case f b64 of Some s \<Rightarrow> Inr (map ucast s) | None \<Rightarrow> Inl BadBase64)
      | None \<Rightarrow> Inr (p_bufferBase64 p b64))"

fun ders_of :: "platform \<Rightarrow> jsstring list \<Rightarrow> cerror + bytes list" where
  "ders_of p [] = Inr []"
| "ders_of p (m # ms) =
     (case b64ToBytes p (filter (\<lambda>c. \<not> is_ws c) m) of
        Inl e \<Rightarrow> Inl e
      | Inr d \<Rightarrow> (case ders_of p ms of Inl e \<Rightarrow> Inl e | Inr ds \<Rightarrow> Inr (d # ds)))"

definition pemChainToDer :: "platform \<Rightarrow> jsstring \<Rightarrow> cerror + bytes list" where
  "pemChainToDer p pem =
     (case ders_of p (pem_blocks pem) of
        Inl e \<Rightarrow> Inl e
      | Inr out \<Rightarrow> if out = [] then Inl EmptyPem else Inr out)"

subsection \<open>The DER walk\<close>

text \<open>\<open>b[i]\<close> as an operand of a bitwise operator: past the end it is \<open>undefined\<close>, which counts as
  0 there.\<close>

definition byte_at :: "bytes \<Rightarrow> nat \<Rightarrow> 32 word" where
  "byte_at b i = (if i < length b then ucast (b ! i) else 0)"

fun long_len :: "bytes \<Rightarrow> nat \<Rightarrow> nat \<Rightarrow> 32 word \<Rightarrow> 32 word" where
  "long_len b i 0 len = len"
| "long_len b i (Suc k) len = long_len b (Suc i) k (push_bit 8 len OR byte_at b i)"

text \<open>A tag, the offset of the contents and the offset of their end. The length is a signed
  32-bit integer, and a missing length byte makes the end NaN (\<open>None\<close>).\<close>

record tlv =
  tlv_tag :: byte
  tlv_start :: nat
  contentStart :: nat
  contentEnd :: "int option"

definition readTlv :: "bytes \<Rightarrow> nat \<Rightarrow> tlv" where
  "readTlv b off =
     (let tag = b ! off in
      if length b \<le> off + 1 then
        \<lparr>tlv_tag = tag, tlv_start = off, contentStart = off + 2, contentEnd = None\<rparr>
      else
        let l = unat (b ! (off + 1)) in
        if 128 \<le> l then
          let n = l - 128; len = long_len b (off + 2) n 0
          in \<lparr>tlv_tag = tag, tlv_start = off, contentStart = off + 2 + n,
              contentEnd = Some (int (off + 2 + n) + sint len)\<rparr>
        else \<lparr>tlv_tag = tag, tlv_start = off, contentStart = off + 2,
              contentEnd = Some (int (off + 2) + int l)\<rparr>)"

text \<open>\<open>b.subarray(a, e)\<close>: a negative end counts from the end of the array, NaN is 0.\<close>

definition subarray :: "bytes \<Rightarrow> nat \<Rightarrow> int option \<Rightarrow> bytes" where
  "subarray b a e =
     (let n = int (length b);
          e' = (case e of None \<Rightarrow> 0 | Some x \<Rightarrow> if x < 0 then max (n + x) 0 else min x n)
      in slice a (nat e') b)"

text \<open>Base 128 with continuation bits, as the loop with \<open>unshift\<close> builds it.\<close>

fun oid_stack :: "nat \<Rightarrow> nat list \<Rightarrow> nat list" where
  "oid_stack v stack =
     (if v = 0 then stack else oid_stack (v div 128) ((v mod 128 + 128) # stack))"

declare oid_stack.simps [simp del]

definition oid_part :: "nat \<Rightarrow> nat list" where
  "oid_part v = oid_stack (v div 128) [v mod 128]"

text \<open>\<open>parseInt(x, 10)\<close> of a part of a dotted identifier, a string of digits.\<close>

definition parse_dec :: "jsstring \<Rightarrow> nat" where
  "parse_dec s = foldl (\<lambda>n c. n * 10 + (unat c - 48)) 0 (takeWhile (\<lambda>c. 48 \<le> unat c \<and> unat c \<le> 57) s)"

definition oidToDer :: "jsstring \<Rightarrow> bytes" where
  "oidToDer oid =
     (let parts = map parse_dec (split_str (js ''.'') oid)
      in map of_nat ((40 * parts ! 0 + parts ! 1) # concat (map oid_part (drop 2 parts))))"

definition OID_SGX_EXTENSION :: jsstring where
  "OID_SGX_EXTENSION = js ''1.2.840.113741.1.13.1''"

definition OID_FMSPC :: jsstring where
  "OID_FMSPC = js ''1.2.840.113741.1.13.1.4''"

text \<open>The scan, from index \<open>i\<close>.\<close>

function findOid_from :: "bytes \<Rightarrow> bytes \<Rightarrow> nat \<Rightarrow> (nat \<times> int option) option" where
  "findOid_from b oc i =
     (if i + 2 + length oc < length b then
        if b ! i \<noteq> 6 \<or> unat (b ! (i + 1)) \<noteq> length oc
           \<or> slice (i + 2) (i + 2 + length oc) b \<noteq> oc
        then findOid_from b oc (Suc i)
        else
          let t = readTlv b (i + 2 + length oc)
          in if tlv_tag t = 4 then Some (contentStart t, contentEnd t)
             else findOid_from b oc (Suc i)
      else None)"
  by pat_completeness auto
termination by (relation "measure (\<lambda>(b, oc, i). length b - i)") auto

declare findOid_from.simps [simp del]

definition findOidValueOctetString :: "bytes \<Rightarrow> bytes \<Rightarrow> (nat \<times> int option) option" where
  "findOidValueOctetString b oc = findOid_from b oc 0"

definition to_upper :: "jschar \<Rightarrow> jschar" where
  "to_upper c = (if 97 \<le> unat c \<and> unat c \<le> 122 then c - 32 else c)"

definition extractFmspc :: "bytes \<Rightarrow> cerror + jsstring" where
  "extractFmspc certDer =
     (case findOidValueOctetString certDer (oidToDer OID_SGX_EXTENSION) of
        None \<Rightarrow> Inl NoSgxExtension
      | Some (cs, ce) \<Rightarrow>
          (case findOidValueOctetString (subarray certDer cs ce) (oidToDer OID_FMSPC) of
             None \<Rightarrow> Inl NoFmspc
           | Some (fs, fe) \<Rightarrow>
               Inr (map to_upper (toHex (subarray certDer (cs + fs) (map_option (\<lambda>e. int cs + e) fe))))))"

definition extractCa :: "bytes \<Rightarrow> jsstring" where
  "extractCa leafDer =
     (if str_includes (latin1 leafDer) (js ''PCK Platform CA'') then js ''platform'' else js ''processor'')"

subsection \<open>Fetching and assembling\<close>

text \<open>\<open>fetchImpl(url)\<close> without a second argument.\<close>

definition get_request :: "jsstring \<Rightarrow> request" where
  "get_request url = \<lparr>rq_method = GET, rq_url = url, rq_headers = [], rq_body = None\<rparr>"

definition pcsGet :: "network \<Rightarrow> jsstring \<Rightarrow> jsstring \<Rightarrow> ('s, bytes \<times> (jsstring \<Rightarrow> jsstring option)) sdk" where
  "pcsGet net base path =
     andThen (fetch net (get_request (base @ path))) (\<lambda>r.
       if \<not> rs_ok r then throw (PcsFailed (rs_status r) (base @ path))
       else ret (rs_body r, rs_header r))"

text \<open>\<open>header ?? fallback ?? ''\<close>: an empty header is not replaced by the fallback.\<close>

definition issuerChain :: "platform \<Rightarrow> jsstring option \<Rightarrow> jsstring option \<Rightarrow> cerror + jsstring" where
  "issuerChain p header fallback =
     (let v = nullish header (nullish fallback [])
      in if v = [] then Inl MissingIssuerChain
         else case p_decodeURI p v of Some d \<Rightarrow> Inr d | None \<Rightarrow> Inl BadUri)"

definition is_hex_char :: "jschar \<Rightarrow> bool" where
  "is_hex_char c = (hex_value c \<noteq> None)"

definition decode_root_crl :: "jsstring \<Rightarrow> bytes" where
  "decode_root_crl text =
     (let trimmed = trim text
      in if trimmed \<noteq> [] \<and> list_all is_hex_char trimmed \<and> even (length trimmed)
         then fromHex trimmed else utf8 trimmed)"

definition fetchRootCaCrl :: "network \<Rightarrow> jsstring \<Rightarrow> ('s, bytes) sdk" where
  "fetchRootCaCrl net base =
     andThen (fetch net (get_request (base @ js ''/root-ca-crl''))) (\<lambda>r.
       if \<not> rs_ok r then throw (RootCrlFailed (rs_status r))
       else ret (decode_root_crl (rs_text r)))"

text \<open>A property that is \<open>undefined\<close> is left out when the collateral is serialized.\<close>

definition opt_field :: "string \<Rightarrow> json option \<Rightarrow> (jsstring \<times> json) list" where
  "opt_field k v = (case v of None \<Rightarrow> [] | Some x \<Rightarrow> [(js k, x)])"

text \<open>\<open>JSON.stringify(v)\<close> of a property that may be missing.\<close>

definition stringify_prop :: "platform \<Rightarrow> json option \<Rightarrow> json option" where
  "stringify_prop p v = map_option (\<lambda>x. JStr (p_stringify p x)) v"

definition fetchCollateralFromPcs ::
    "platform \<Rightarrow> network \<Rightarrow> jsstring \<Rightarrow> bytes \<Rightarrow> ('s, json) sdk" where
  "fetchCollateralFromPcs p net base quote =
     andThen (lift (extractPckChainFromQuote quote)) (\<lambda>pckChainPem.
     andThen (lift (pemChainToDer p pckChainPem)) (\<lambda>ders.
     andThen (lift (extractFmspc (ders ! 0))) (\<lambda>fmspc.
     let ca = extractCa (ders ! 0) in
     andThen (pcsGet net base (js ''/sgx/certification/v4/pckcrl?ca='' @ ca @ js ''&encoding=der''))
       (\<lambda>(pckCrl, pckCrlHeader).
     andThen (lift (issuerChain p (pckCrlHeader (js ''SGX-PCK-CRL-Issuer-Chain'')) None))
       (\<lambda>pckCrlIssuerChain.
     andThen (pcsGet net base (js ''/tdx/certification/v4/tcb?fmspc='' @ fmspc)) (\<lambda>(tcb, tcbHeader).
     andThen (lift (issuerChain p (tcbHeader (js ''SGX-TCB-Info-Issuer-Chain''))
                                  (tcbHeader (js ''TCB-Info-Issuer-Chain''))))
       (\<lambda>tcbIssuerChain.
     andThen (lift_opt SyntaxErr (p_parse p (fromUtf8 tcb))) (\<lambda>tcbResp.
     andThen (pcsGet net base (js ''/tdx/certification/v4/qe/identity?update=standard''))
       (\<lambda>(qe, qeHeader).
     andThen (lift (issuerChain p (qeHeader (js ''SGX-Enclave-Identity-Issuer-Chain'')) None))
       (\<lambda>qeIssuerChain.
     andThen (lift_opt SyntaxErr (p_parse p (fromUtf8 qe))) (\<lambda>qeResp.
     andThen (fetchRootCaCrl net base) (\<lambda>rootCaCrl.
     andThen (lift (get_prop tcbResp ''tcbInfo'')) (\<lambda>tcbInfo.
     andThen (lift (get_prop qeResp ''enclaveIdentity'')) (\<lambda>enclaveIdentity.
     ret (JObj (
       [(js ''pck_crl_issuer_chain'', JStr pckCrlIssuerChain),
        (js ''root_ca_crl'', JStr (toHex rootCaCrl)),
        (js ''pck_crl'', JStr (toHex pckCrl)),
        (js ''tcb_info_issuer_chain'', JStr tcbIssuerChain)]
       @ opt_field ''tcb_info'' (stringify_prop p tcbInfo)
       @ opt_field ''tcb_info_signature'' (getProp tcbResp (js ''signature''))
       @ [(js ''qe_identity_issuer_chain'', JStr qeIssuerChain)]
       @ opt_field ''qe_identity'' (stringify_prop p enclaveIdentity)
       @ opt_field ''qe_identity_signature'' (getProp qeResp (js ''signature''))
       @ [(js ''pck_certificate_chain'', JStr (pckChainPem @ [newline]))])
     )))))))))))))))"

subsection \<open>What the walk finds\<close>

text \<open>The two identifiers in DER, as the certificates carry them.\<close>

lemma oid_sgx: "oidToDer OID_SGX_EXTENSION = [0x2A, 0x86, 0x48, 0x86, 0xF8, 0x4D, 0x01, 0x0D, 0x01]"
  by (simp add: oidToDer_def OID_SGX_EXTENSION_def split_str_def js_def parse_dec_def Let_def
      oid_part_def oid_stack.simps)

lemma oid_fmspc: "oidToDer OID_FMSPC = [0x2A, 0x86, 0x48, 0x86, 0xF8, 0x4D, 0x01, 0x0D, 0x01, 0x04]"
  by (simp add: oidToDer_def OID_FMSPC_def split_str_def js_def parse_dec_def Let_def
      oid_part_def oid_stack.simps)

text \<open>A DER header: the length in the short form, or in one or two bytes.\<close>

definition der_len :: "nat \<Rightarrow> bytes" where
  "der_len n = (if n < 128 then [of_nat n]
     else if n < 256 then [0x81, of_nat n] else [0x82, of_nat (n div 256), of_nat (n mod 256)])"

lemma unat_of_nat8: "n < 256 \<Longrightarrow> unat (of_nat n :: byte) = n"
  by (simp add: unsigned_of_nat take_bit_nat_eq_self)

lemma byte_at_nth: "i < length b \<Longrightarrow> byte_at b i = of_nat (unat (b ! i))"
  by (simp only: byte_at_def if_True) (rule of_nat_unatI [OF unat_ucast_byte])

lemma long_len_1:
  assumes "i < length b"
  shows "long_len b i (Suc 0) 0 = of_nat (unat (b ! i))"
  using assms by (simp only: long_len.simps byte_at_nth push_bit_of_0 or.left_neutral)

lemma long_len_2:
  assumes "Suc i < length b"
  shows "long_len b i (Suc (Suc 0)) 0 = of_nat (unat (b ! i) * 256 + unat (b ! Suc i))"
proof -
  have 1: "push_bit 8 (0 :: 32 word) OR byte_at b i = of_nat (unat (b ! i))"
    using long_len_1 [of i b] assms by simp
  have "long_len b i (Suc (Suc 0)) 0
      = push_bit 8 (of_nat (unat (b ! i))) OR of_nat (unat (b ! Suc i))"
    using assms by (simp only: long_len.simps byte_at_nth push_bit_of_0 or.left_neutral Suc_lessD)
  also have "\<dots> = of_nat (unat (b ! i) * 2 ^ 8 + unat (b ! Suc i))"
    by (rule or_push_of_nat) (use byte_less [of "b ! Suc i"] in simp)
  finally show ?thesis by simp
qed

lemma sint_of_nat32: "n < 65536 \<Longrightarrow> sint (of_nat n :: 32 word) = int n"
  by (simp add: signed_of_nat signed_take_bit_int_eq_self)

lemma readTlv_der:
  assumes b: "b = pre @ [tag] @ der_len n @ rest" and n: "n < 65536"
  shows "readTlv b (length pre) = \<lparr>tlv_tag = tag, tlv_start = length pre,
    contentStart = length pre + 1 + length (der_len n),
    contentEnd = Some (int (length pre + 1 + length (der_len n) + n))\<rparr>"
proof -
  consider "n < 128" | "128 \<le> n" "n < 256" | "256 \<le> n" by linarith
  then show ?thesis
  proof cases
    case 1
    then have "b ! Suc (length pre) = of_nat n" "Suc (length pre) < length b" "b ! length pre = tag"
      by (simp_all add: b der_len_def nth_append)
    then show ?thesis using 1 by (simp add: readTlv_def Let_def der_len_def unat_of_nat8)
  next
    case 2
    then have bb: "b ! Suc (length pre) = 0x81" "b ! Suc (Suc (length pre)) = of_nat n"
      "Suc (Suc (length pre)) < length b" "b ! length pre = tag"
      by (simp_all add: b der_len_def nth_append)
    then have "long_len b (Suc (Suc (length pre))) (Suc 0) 0 = of_nat n"
      using 2 long_len_1 [of "Suc (Suc (length pre))" b] by (simp add: unat_of_nat8)
    then show ?thesis using 2 bb
      by (simp add: readTlv_def Let_def der_len_def sint_of_nat32)
  next
    case 3
    have lt: "n div 256 < 256" "n mod 256 < 256" using n by auto
    from 3 have bb: "b ! Suc (length pre) = 0x82"
      "b ! Suc (Suc (length pre)) = of_nat (n div 256)"
      "b ! Suc (Suc (Suc (length pre))) = of_nat (n mod 256)"
      "Suc (Suc (Suc (length pre))) < length b" "b ! length pre = tag"
      by (simp_all add: b der_len_def nth_append)
    have "long_len b (Suc (Suc (length pre))) 2 0 = of_nat n"
      unfolding numeral_2_eq_2 long_len_2 [OF bb(4)] bb(2,3) unat_of_nat8 [OF lt(1)] unat_of_nat8 [OF lt(2)]
      by (simp only: div_mult_mod_eq)
    then show ?thesis using 3 bb n
      by (simp add: readTlv_def Let_def der_len_def sint_of_nat32 del: long_len.simps)
  qed
qed

lemma subarray_part:
  assumes "b = pre @ mid @ post"
  shows "subarray b (length pre) (Some (int (length pre + length mid))) = mid"
  by (simp add: assms subarray_def slice_def Let_def)

text \<open>\<open>oid_at b oc k\<close>: the identifier stands at index \<open>k\<close>.\<close>

definition oid_at :: "bytes \<Rightarrow> bytes \<Rightarrow> nat \<Rightarrow> bool" where
  "oid_at b oc k \<longleftrightarrow> k + 2 + length oc < length b \<and> b ! k = 6
     \<and> unat (b ! (k + 1)) = length oc \<and> slice (k + 2) (k + 2 + length oc) b = oc"

lemma findOid_skip:
  assumes "i \<le> k" "k + 2 + length oc < length b" "\<And>j. i \<le> j \<Longrightarrow> j < k \<Longrightarrow> \<not> oid_at b oc j"
  shows "findOid_from b oc i = findOid_from b oc k"
  using assms
proof (induction "k - i" arbitrary: i)
  case (Suc d)
  then have "\<not> oid_at b oc i" "i < k" by auto
  then have "findOid_from b oc i = findOid_from b oc (Suc i)"
    using Suc.prems by (subst findOid_from.simps) (auto simp: oid_at_def)
  also have "\<dots> = findOid_from b oc k"
    using Suc by (intro Suc.hyps(1)) auto
  finally show ?case .
qed simp

text \<open>What is returned stands in the input: an identifier with an OCTET STRING after it.\<close>

lemma findOid_sound:
  "findOid_from b oc i = Some (cs, ce) \<Longrightarrow>
    \<exists>k\<ge>i. oid_at b oc k \<and> b ! (k + 2 + length oc) = 4
      \<and> cs = contentStart (readTlv b (k + 2 + length oc))
      \<and> ce = contentEnd (readTlv b (k + 2 + length oc))"
proof (induction b oc i rule: findOid_from.induct)
  case (1 b oc i)
  have tag: "tlv_tag (readTlv b o') = b ! o'" for o' by (simp add: readTlv_def Let_def)
  from "1.prems" have g: "i + 2 + length oc < length b"
    by (subst (asm) findOid_from.simps) (simp split: if_splits)
  show ?case
  proof (cases "oid_at b oc i \<and> b ! (i + 2 + length oc) = 4")
    case True
    then have "cs = contentStart (readTlv b (i + 2 + length oc))
      \<and> ce = contentEnd (readTlv b (i + 2 + length oc))"
      using "1.prems" by (subst (asm) findOid_from.simps) (simp add: oid_at_def tag Let_def)
    with True show ?thesis by blast
  next
    case False
    then have n: "findOid_from b oc (Suc i) = Some (cs, ce)"
      using "1.prems" g by (subst (asm) findOid_from.simps) (auto simp: oid_at_def tag Let_def split: if_splits)
    have "\<exists>k\<ge>Suc i. oid_at b oc k \<and> b ! (k + 2 + length oc) = 4
      \<and> cs = contentStart (readTlv b (k + 2 + length oc))
      \<and> ce = contentEnd (readTlv b (k + 2 + length oc))"
      using False g "1.IH" n by (auto simp: oid_at_def tag)
    then show ?thesis using Suc_leD by blast
  qed
qed

lemma findOid_der:
  assumes b: "b = pre @ [6, of_nat (length oc)] @ oc @ [4] @ der_len (length val) @ val @ post"
    and len: "length oc < 256" "length val < 65536"
    and first: "\<And>k. k < length pre \<Longrightarrow> \<not> oid_at b oc k"
  shows "\<exists>cs. findOidValueOctetString b oc = Some (cs, Some (int (cs + length val)))
    \<and> cs + length val + length post = length b
    \<and> b = take cs b @ val @ post"
proof -
  let ?p = "pre @ [6, of_nat (length oc)] @ oc"
  have at: "oid_at b oc (length pre)"
    using len(1) by (simp add: b oid_at_def slice_def nth_append unat_of_nat8 der_len_def)
  have t: "readTlv b (length ?p) = \<lparr>tlv_tag = 4, tlv_start = length ?p,
    contentStart = length ?p + 1 + length (der_len (length val)),
    contentEnd = Some (int (length ?p + 1 + length (der_len (length val)) + length val))\<rparr>"
    by (rule readTlv_der [where rest = "val @ post"]) (simp_all add: b len)
  have "findOidValueOctetString b oc = findOid_from b oc (length pre)"
    unfolding findOidValueOctetString_def
    using at first by (intro findOid_skip) (auto simp: oid_at_def)
  also have "\<dots> = Some (length ?p + 1 + length (der_len (length val)),
      Some (int (length ?p + 1 + length (der_len (length val)) + length val)))"
    using at t by (subst findOid_from.simps) (simp add: oid_at_def add.commute)
  finally have r: "findOidValueOctetString b oc = Some (length (?p @ [4] @ der_len (length val)),
      Some (int (length (?p @ [4] @ der_len (length val)) + length val)))"
    by (simp add: algebra_simps)
  have "b = (?p @ [4] @ der_len (length val)) @ val @ post" by (simp add: b)
  then have "b = take (length (?p @ [4] @ der_len (length val))) b @ val @ post"
    by (metis append_eq_conv_conj)
  with r show ?thesis
    by (intro exI [of _ "length (?p @ [4] @ der_len (length val))"]) (simp add: b)
qed

text \<open>A certificate carrying the SGX extension with the FMSPC inside it gives the FMSPC, in
  upper-case hex, whatever surrounds the two.\<close>

lemma extractFmspc_der:
  assumes cert: "cert = pre @ [6, 9] @ oidToDer OID_SGX_EXTENSION @ [4] @ der_len (length ext) @ ext @ post"
    and ext: "ext = ipre @ [6, 10] @ oidToDer OID_FMSPC @ [4] @ der_len (length fm) @ fm @ ipost"
    and len: "length ext < 65536"
    and first: "\<And>k. k < length pre \<Longrightarrow> \<not> oid_at cert (oidToDer OID_SGX_EXTENSION) k"
      "\<And>k. k < length ipre \<Longrightarrow> \<not> oid_at ext (oidToDer OID_FMSPC) k"
  shows "extractFmspc cert = Inr (map to_upper (toHex fm))"
proof -
  have l: "length (oidToDer OID_SGX_EXTENSION) = 9" "length (oidToDer OID_FMSPC) = 10"
    by (simp_all add: oid_sgx oid_fmspc)
  have fm: "length fm < 65536" using len by (simp add: ext)
  obtain cs where cs: "findOidValueOctetString cert (oidToDer OID_SGX_EXTENSION)
      = Some (cs, Some (int (cs + length ext)))" "cert = take cs cert @ ext @ post"
    "cs + length ext + length post = length cert"
    using findOid_der [of cert pre "oidToDer OID_SGX_EXTENSION" ext post] cert len first(1)
    by (auto simp: l)
  obtain fs where fs: "findOidValueOctetString ext (oidToDer OID_FMSPC)
      = Some (fs, Some (int (fs + length fm)))" "ext = take fs ext @ fm @ ipost"
    "fs + length fm + length ipost = length ext"
    using findOid_der [of ext ipre "oidToDer OID_FMSPC" fm ipost] ext fm first(2)
    by (auto simp: l)
  have sub: "subarray cert cs (Some (int (cs + length ext))) = ext"
  proof -
    have "length (take cs cert) = cs" using cs(3) by simp
    then show ?thesis using subarray_part [OF cs(2)] by metis
  qed
  have "cert = (take cs cert @ take fs ext) @ fm @ (ipost @ post)"
    using cs(2) fs(2) by (metis append.assoc)
  moreover have "length (take cs cert @ take fs ext) = cs + fs" using cs(3) fs(3) by simp
  ultimately have "subarray cert (cs + fs) (Some (int (cs + fs + length fm))) = fm"
    using subarray_part by metis
  then show ?thesis
    using sub by (simp add: extractFmspc_def cs(1) fs(1) add.assoc)
qed

text \<open>A small certificate with the two identifiers, for the instances.\<close>

definition sample_ext :: bytes where
  "sample_ext = [] @ [6, 10] @ oidToDer OID_FMSPC @ [4] @ der_len (length [0, 0x80, 0x6F, 5, 0, 0 :: byte])
     @ [0, 0x80, 0x6F, 5, 0, 0] @ []"

definition sample_cert :: bytes where
  "sample_cert = [0x30, 0x2A] @ [6, 9] @ oidToDer OID_SGX_EXTENSION @ [4] @ der_len (length sample_ext)
     @ sample_ext @ [0]"

lemma sample_cert_first: "k < length [0x30, 0x2A :: byte] \<Longrightarrow> \<not> oid_at sample_cert (oidToDer OID_SGX_EXTENSION) k"
  by (cases k) (auto simp: oid_at_def less_Suc_eq sample_cert_def)

lemma sample_cert_fmspc: "extractFmspc sample_cert = Inr (map to_upper (toHex [0, 0x80, 0x6F, 5, 0, 0]))"
  by (rule extractFmspc_der [OF sample_cert_def sample_ext_def _ sample_cert_first])
    (simp_all add: sample_ext_def oid_fmspc der_len_def)

definition sample_quote :: bytes where
  "sample_quote = map ucast (BEGIN_TAG @ END_TAG)"

lemma sample_quote_chain: "extractPckChainFromQuote sample_quote = Inr (BEGIN_TAG @ END_TAG)"
proof -
  have l: "latin1 sample_quote = BEGIN_TAG @ END_TAG"
    by (simp add: latin1_def sample_quote_def BEGIN_TAG_def END_TAG_def js_def)
  have "index_of BEGIN_TAG (BEGIN_TAG @ END_TAG) = Some 0"
    by (simp add: BEGIN_TAG_def END_TAG_def js_def)
  moreover have "last_index_of END_TAG (BEGIN_TAG @ END_TAG) = Some 27"
    by (simp add: BEGIN_TAG_def END_TAG_def js_def)
  moreover have "trim (BEGIN_TAG @ END_TAG) = BEGIN_TAG @ END_TAG"
    by (simp add: BEGIN_TAG_def END_TAG_def js_def trim_def trim_end_def is_ws_def ws_codes_def)
  moreover have "slice 0 (27 + length END_TAG) (BEGIN_TAG @ END_TAG) = BEGIN_TAG @ END_TAG"
    by (simp add: slice_def BEGIN_TAG_def END_TAG_def js_def)
  ultimately show ?thesis by (simp add: extractPckChainFromQuote_def l Let_def)
qed

lemma sample_chain_blocks: "pem_blocks (BEGIN_TAG @ END_TAG) = [[]]"
  by (simp add: pem_blocks.simps BEGIN_TAG_def END_TAG_def js_def Let_def)

text \<open>The root CRL: the shim sends the DER bytes as hex text, and they come back exactly.\<close>

lemma hex_chars:
  "c \<in> set (toHex bs) \<Longrightarrow> is_hex_char c \<and> \<not> is_ws c \<and> unat c < 128"
proof (induction bs)
  case (Cons b bs)
  have h: "is_hex_char (hex_digit n) \<and> \<not> is_ws (hex_digit n) \<and> unat (hex_digit n) < 128"
    if "n < 16" for n
    using hex_digit_facts(1,2) [OF that] unat_hex_digit [OF that] that by (simp add: is_hex_char_def)
  have "unat b div 16 < 16" "unat b mod 16 < 16" using byte_less [of b] by auto
  from h [OF this(1)] h [OF this(2)] show ?case
    using Cons by (auto simp: toHex_pair simp del: toHex.simps(2))
qed simp

lemma trim_id: "(\<And>c. c \<in> set s \<Longrightarrow> \<not> is_ws c) \<Longrightarrow> trim s = s"
proof -
  assume a: "\<And>c. c \<in> set s \<Longrightarrow> \<not> is_ws c"
  have d: "dropWhile is_ws t = t" if "set t \<subseteq> set s" for t
    using that a by (cases t) auto
  show ?thesis by (simp add: trim_def trim_end_def d)
qed

lemma decode_root_crl_hex: "decode_root_crl (toHex der) = der"
proof (cases "der = []")
  case True
  then show ?thesis by (simp add: decode_root_crl_def utf8_def)
next
  case False
  then have ne: "toHex der \<noteq> []" using length_toHex [of der] by (metis length_0_conv mult_eq_0_iff zero_neq_numeral)
  have "trim (toHex der) = toHex der" using hex_chars by (intro trim_id) blast
  moreover have "list_all is_hex_char (toHex der)" using hex_chars by (auto simp: list_all_iff)
  ultimately show ?thesis using ne by (simp add: decode_root_crl_def length_toHex fromHex_toHex Let_def)
qed

lemma well_formed_ascii: "\<forall>c\<in>set s. c < 128 \<Longrightarrow> well_formed s"
  by (induction s rule: well_formed.induct) (auto simp: is_high_def is_low_def)

lemma utf8_ascii_roundtrip: "\<forall>c\<in>set s. unat c < 128 \<Longrightarrow> fromUtf8 (utf8 s) = s"
proof (rule utf8_roundtrip)
  assume a: "\<forall>c\<in>set s. unat c < 128"
  then show "well_formed (map unat s)" by (intro well_formed_ascii) simp
  show "take 1 s \<noteq> [0xFEFF]" using a by (cases s) auto
qed

lemma root_crl_text: "decode_root_crl (fromUtf8 (utf8 (toHex der))) = der"
proof -
  have "fromUtf8 (utf8 (toHex der)) = toHex der"
    using hex_chars by (intro utf8_ascii_roundtrip) blast
  then show ?thesis by (simp add: decode_root_crl_hex)
qed

subsection \<open>What is sent\<close>

text \<open>The requests sent since a given point all satisfy a predicate.\<close>

definition sent_only :: "(request \<Rightarrow> bool) \<Rightarrow> request list \<Rightarrow> 's sdk_state_scheme \<Rightarrow> bool" where
  "sent_only Q l s \<longleftrightarrow> (\<exists>new. reqs s = l @ new \<and> (\<forall>q\<in>set new. Q q))"

lemma sent_only_refl: "sent_only Q (reqs s) s"
  by (simp add: sent_only_def)

lemma sent_only_mono: "sent_only Q l s \<Longrightarrow> (\<And>q. Q q \<Longrightarrow> R q) \<Longrightarrow> sent_only R l s"
  unfolding sent_only_def by blast

lemma keeps_fetch [intro]: "Q q \<Longrightarrow> keeps (sent_only Q l) (fetch net q)"
  by (force simp: keeps_def sent_only_def fetch_def Let_def split: option.splits)

lemma keeps_lift [intro]: "keeps P (lift x)"
  unfolding lift_def by (auto split: sum.splits)

lemma keeps_lift_opt [intro]: "keeps P (lift_opt e x)"
  unfolding lift_opt_def by (auto split: option.splits)

text \<open>A plain GET: no body, no header.\<close>

definition plain_get :: "request \<Rightarrow> bool" where
  "plain_get q \<longleftrightarrow> rq_method q = GET \<and> rq_headers q = [] \<and> rq_body q = None"

lemma plain_get_request [simp]: "plain_get (get_request url)"
  by (simp add: plain_get_def get_request_def)

lemma keeps_pcsGet [intro]: "keeps (sent_only plain_get l) (pcsGet net base path)"
  unfolding pcsGet_def by (intro keeps_andThen keeps_fetch keeps_if keeps_throw keeps_ret plain_get_request)

lemma keeps_fetchRootCaCrl [intro]: "keeps (sent_only plain_get l) (fetchRootCaCrl net base)"
  unfolding fetchRootCaCrl_def
  by (intro keeps_andThen keeps_fetch keeps_if keeps_throw keeps_ret plain_get_request)

lemma keeps_fetchCollateral:
  "keeps (sent_only plain_get l) (fetchCollateralFromPcs p net base quote)"
  unfolding fetchCollateralFromPcs_def Let_def
  by (intro keeps_andThen keeps_lift keeps_lift_opt keeps_case_prod keeps_pcsGet
      keeps_fetchRootCaCrl keeps_ret)

subsection \<open>Properties\<close>

text \<open>The DER walk finds the FMSPC: in a certificate that carries the SGX extension identifier
  followed by an OCTET STRING, whose contents carry the FMSPC identifier followed by an OCTET
  STRING, the result is the upper-case hex of that string, for lengths in the short and the long
  form and whatever bytes stand around the two (as long as neither identifier occurs earlier).\<close>

theorem fmspc_extracted:
  assumes "cert = pre @ [6, 9] @ oidToDer OID_SGX_EXTENSION @ [4] @ der_len (length ext) @ ext @ post"
    and "ext = ipre @ [6, 10] @ oidToDer OID_FMSPC @ [4] @ der_len (length fm) @ fm @ ipost"
    and "length ext < 65536"
    and "\<And>k. k < length pre \<Longrightarrow> \<not> oid_at cert (oidToDer OID_SGX_EXTENSION) k"
    and "\<And>k. k < length ipre \<Longrightarrow> \<not> oid_at ext (oidToDer OID_FMSPC) k"
  shows "extractFmspc cert = Inr (map to_upper (toHex fm))"
  using assms by (rule extractFmspc_der)

lemma fmspc_extracted_witness:
  "extractFmspc sample_cert = Inr (map to_upper (toHex [0, 0x80, 0x6F, 5, 0, 0]))"
  by (rule fmspc_extracted [OF sample_cert_def sample_ext_def _ sample_cert_first])
    (simp_all add: sample_ext_def oid_fmspc der_len_def)

text \<open>The root CRL survives the wire: the hex text the shim sends for the DER bytes is
  recognised and decoded to those bytes.\<close>

theorem root_crl_hex_decoded: "decode_root_crl (fromUtf8 (utf8 (toHex der))) = der"
  by (rule root_crl_text)

end
