(* ===== verification/Shim.thy ===== *)
theory Shim
  imports Collateral
begin

text \<open>
  The web shim, \<open>shim/src/{config,proxy,server}.ts\<close>: the environment configuration, the relay and
  its header filters, every route with its handler, and the front door. The router, the CORS and
  cookie helpers and the static file server of Hono are parameters, as are the network, the clock
  and the random source.
\<close>

subsection \<open>Configuration\<close>

definition env_or :: "(jsstring \<Rightarrow> jsstring option) \<Rightarrow> string \<Rightarrow> jsstring \<Rightarrow> jsstring" where
  "env_or env key fallback = (case env (js key) of None \<Rightarrow> fallback | Some v \<Rightarrow> if v = [] then fallback else v)"

text \<open>\<open>Number.parseInt(s, 10)\<close>: white space and a sign are skipped, the longest run of digits is
  read; no digit is NaN (\<open>None\<close>).\<close>

definition is_digit :: "jschar \<Rightarrow> bool" where
  "is_digit c = (48 \<le> unat c \<and> unat c \<le> 57)"

definition dec_value :: "jsstring \<Rightarrow> int" where
  "dec_value s = foldl (\<lambda>n c. 10 * n + int (unat c - 48)) 0 s"

definition parseInt10 :: "jsstring \<Rightarrow> int option" where
  "parseInt10 s =
     (let t = dropWhile is_ws s;
          neg = (take 1 t = js ''-'');
          u = (if take 1 t = js ''-'' \<or> take 1 t = js ''+'' then drop 1 t else t);
          ds = takeWhile is_digit u
      in if ds = [] then None else Some (if neg then - dec_value ds else dec_value ds))"

record shim_config =
  gatewayBase :: jsstring
  pcsBase :: jsstring
  rootCaCrlUrl :: jsstring
  port :: "int option"
  allowedOrigins :: "jsstring list"
  upstreamTimeoutMs :: "int option"
  sessionCookieName :: jsstring
  sessionMaxAgeS :: "int option"
  cookieSecure :: bool
  staticDir :: jsstring

definition read_config :: "(jsstring \<Rightarrow> jsstring option) \<Rightarrow> shim_config" where
  "read_config env = \<lparr>
     gatewayBase = env_or env ''CALADON_GATEWAY_BASE'' (js ''https://gw.caladon.ai''),
     pcsBase = env_or env ''CALADON_PCS_BASE'' (js ''https://api.trustedservices.intel.com''),
     rootCaCrlUrl = env_or env ''CALADON_ROOT_CA_CRL_URL''
       (js ''https://certificates.trustedservices.intel.com/IntelSGXRootCA.der''),
     port = parseInt10 (env_or env ''PORT'' (js ''8787'')),
     allowedOrigins = filter (\<lambda>s. s \<noteq> []) (map trim (split_str (js '','')
       (env_or env ''CALADON_ALLOWED_ORIGINS'' (js ''http://localhost:3090,http://localhost:8787'')))),
     upstreamTimeoutMs = parseInt10 (env_or env ''CALADON_UPSTREAM_TIMEOUT_MS'' (js ''30000'')),
     sessionCookieName = env_or env ''CALADON_SESSION_COOKIE'' (js ''caladon_sid''),
     sessionMaxAgeS = parseInt10 (env_or env ''CALADON_SESSION_MAX_AGE_S'' (js ''86400'')),
     cookieSecure = (env_or env ''CALADON_COOKIE_SECURE'' (js ''false'') = js ''true''),
     staticDir = env_or env ''CALADON_STATIC_DIR'' []\<rparr>"

definition ROUTE_MAP :: "(jsstring \<times> jsstring) list" where
  "ROUTE_MAP = [(js ''accounts'', js ''/v1/accounts''), (js ''chat'', js ''/v1/chat''),
     (js ''messages'', js ''/v1/messages''), (js ''attestation'', js ''/v1/attestation''),
     (js ''session'', js ''/v1/session''), (js ''models'', js ''/v1/models''), (js ''whoami'', js ''/v1/whoami'')]"

subsection \<open>Requests, responses and the platform\<close>

type_synonym headers = "(jsstring \<times> jsstring) list"

record http_request =
  q_method :: jsstring
  q_path :: jsstring
  q_search :: jsstring
  q_headers :: headers
  q_body :: bytes

record up_request =
  u_url :: jsstring
  u_method :: jsstring
  u_headers :: headers
  u_body :: "bytes option"
  u_timeout :: "int option option"

record up_response =
  p_status :: int
  p_statusText :: jsstring
  p_headers :: headers
  p_body :: bytes

text \<open>What \<open>fetch\<close> does: a response, an abort by the timeout, or another failure.\<close>

datatype fetch_result = Fetched up_response | FetchAborted | FetchFailed

datatype shim_body = JsonBody json | TextBody jsstring | RawBody bytes | NoBody

record set_cookie =
  sc_name :: jsstring
  sc_value :: jsstring
  sc_httpOnly :: bool
  sc_sameSite :: jsstring
  sc_secure :: bool
  sc_path :: jsstring
  sc_maxAge :: "int option"

record shim_response =
  r_status :: int
  r_headers :: headers
  r_cookies :: "set_cookie list"
  r_body :: shim_body

record cors_options =
  co_origin :: "jsstring \<Rightarrow> jsstring option"
  co_credentials :: bool
  co_methods :: "jsstring list"
  co_headers :: "jsstring list"
  co_maxAge :: int

text \<open>The upstream requests sent, the models cache, and the number of draws.\<close>

record shim_state =
  sent :: "up_request list"
  modelsCache :: "(int \<times> jsstring list) option"
  drawn :: nat

type_synonym 'a shim = "(shim_state, unit, 'a) exc"

text \<open>\<open>h_match\<close> is Hono's matching of a registration (\<open>None\<close> for \<open>use\<close>) and its pattern against the
  method and path of a request, with the parameters of the path; \<open>h_inherited\<close> the text of a property an object literal inherits from \<open>Object.prototype\<close>.\<close>

record shim_env =
  h_match :: "jsstring option \<Rightarrow> jsstring \<Rightarrow> jsstring \<Rightarrow> jsstring \<Rightarrow> (jsstring \<times> jsstring) list option"
  h_cors :: "cors_options \<Rightarrow> http_request \<Rightarrow> shim_response shim \<Rightarrow> shim_response shim"
  h_getCookie :: "headers \<Rightarrow> jsstring \<Rightarrow> jsstring option"
  h_static :: "jsstring \<Rightarrow> jsstring option \<Rightarrow> http_request \<Rightarrow> shim_response option"
  h_inherited :: "jsstring \<Rightarrow> jsstring option"
  h_fetch :: "up_request list \<Rightarrow> fetch_result"
  h_now :: "nat \<Rightarrow> int"
  h_random :: "nat \<Rightarrow> bytes"
  h_base64url :: "bytes \<Rightarrow> jsstring"
  h_parse :: "jsstring \<Rightarrow> json option"

definition send_upstream :: "shim_env \<Rightarrow> up_request \<Rightarrow> fetch_result shim" where
  "send_upstream env u = (\<lambda>s. (Inr (h_fetch env (sent s @ [u])), s\<lparr>sent := sent s @ [u]\<rparr>))"

definition draw_shim :: "nat shim" where
  "draw_shim = (\<lambda>s. (Inr (drawn s), s\<lparr>drawn := Suc (drawn s)\<rparr>))"

definition json_response :: "json \<Rightarrow> int \<Rightarrow> shim_response" where
  "json_response v st = \<lparr>r_status = st, r_headers = [(js ''content-type'', js ''application/json'')],
     r_cookies = [], r_body = JsonBody v\<rparr>"

subsection \<open>The relay\<close>

definition to_lower :: "jsstring \<Rightarrow> jsstring" where
  "to_lower s = map (\<lambda>c. if 65 \<le> unat c \<and> unat c \<le> 90 then c + 32 else c) s"

text \<open>\<open>Headers.set\<close>: names compare case-insensitively, an existing value is replaced.\<close>

fun header_set :: "jsstring \<Rightarrow> jsstring \<Rightarrow> headers \<Rightarrow> headers" where
  "header_set k v [] = [(to_lower k, v)]"
| "header_set k v ((k', v') # hs) =
     (if to_lower k' = to_lower k then (k', v) # hs else (k', v') # header_set k v hs)"

definition STRIP_TO_UPSTREAM :: "jsstring list" where
  "STRIP_TO_UPSTREAM = map js [''host'', ''connection'', ''keep-alive'', ''proxy-authorization'',
     ''proxy-connection'', ''transfer-encoding'', ''upgrade'', ''te'', ''trailer'', ''cookie'',
     ''content-length'']"

definition STRIP_FROM_UPSTREAM :: "jsstring list" where
  "STRIP_FROM_UPSTREAM = map js [''connection'', ''keep-alive'', ''transfer-encoding'', ''upgrade'',
     ''trailer'', ''set-cookie'', ''access-control-allow-origin'', ''access-control-allow-credentials'',
     ''access-control-allow-headers'', ''access-control-allow-methods'', ''content-encoding'',
     ''content-length'']"

definition copy_headers :: "jsstring list \<Rightarrow> headers \<Rightarrow> headers" where
  "copy_headers strip hs =
     foldl (\<lambda>out (k, v). if to_lower k \<in> set strip then out else header_set k v out) [] hs"

definition buildUpstreamHeaders :: "http_request \<Rightarrow> headers" where
  "buildUpstreamHeaders c = copy_headers STRIP_TO_UPSTREAM (q_headers c)"

definition buildClientHeaders :: "up_response \<Rightarrow> headers" where
  "buildClientHeaders up = copy_headers STRIP_FROM_UPSTREAM (p_headers up)"

definition relay_request :: "shim_config \<Rightarrow> http_request \<Rightarrow> jsstring \<Rightarrow> bool \<Rightarrow> up_request" where
  "relay_request cfg c upstreamUrl isStream =
     \<lparr>u_url = upstreamUrl, u_method = q_method c, u_headers = buildUpstreamHeaders c,
      u_body = (if q_method c \<noteq> js ''GET'' \<and> q_method c \<noteq> js ''HEAD'' then Some (q_body c) else None),
      u_timeout = (if isStream then None else Some (upstreamTimeoutMs cfg))\<rparr>"

definition bad_gateway :: "string \<Rightarrow> shim_response" where
  "bad_gateway why = json_response
     (JObj [(js ''error'', JStr (js ''bad_gateway'')), (js ''reason'', JStr (js why))]) 502"

definition relay :: "shim_env \<Rightarrow> shim_config \<Rightarrow> http_request \<Rightarrow> jsstring \<Rightarrow> bool \<Rightarrow> shim_response shim" where
  "relay env cfg c upstreamUrl isStream =
     andThen (send_upstream env (relay_request cfg c upstreamUrl isStream)) (\<lambda>res. ret (case res of
       FetchAborted \<Rightarrow> bad_gateway ''gateway_timeout''
     | FetchFailed \<Rightarrow> bad_gateway ''gateway_unreachable''
     | Fetched up \<Rightarrow> \<lparr>r_status = p_status up, r_headers = buildClientHeaders up, r_cookies = [],
                     r_body = RawBody (p_body up)\<rparr>))"

subsection \<open>Handlers\<close>

definition cors_config :: "shim_config \<Rightarrow> cors_options" where
  "cors_config cfg = \<lparr>co_origin = (\<lambda>origin. if origin \<in> set (allowedOrigins cfg) then Some origin else None),
     co_credentials = True, co_methods = map js [''GET'', ''POST'', ''OPTIONS''],
     co_headers = map js [''Content-Type'', ''Authorization'', ''Accept'', ''Last-Event-ID''], co_maxAge = 600\<rparr>"

definition session_cookie :: "shim_env \<Rightarrow> shim_config \<Rightarrow> nat \<Rightarrow> set_cookie" where
  "session_cookie env cfg n = \<lparr>sc_name = sessionCookieName cfg, sc_value = h_base64url env (h_random env n),
     sc_httpOnly = True, sc_sameSite = js ''Lax'', sc_secure = cookieSecure cfg, sc_path = js ''/'',
     sc_maxAge = sessionMaxAgeS cfg\<rparr>"

definition issue_cookie :: "shim_env \<Rightarrow> shim_config \<Rightarrow> http_request \<Rightarrow> shim_response shim \<Rightarrow> shim_response shim" where
  "issue_cookie env cfg c next =
     (if nullish (h_getCookie env (q_headers c) (sessionCookieName cfg)) [] \<noteq> [] then next
      else andThen draw_shim (\<lambda>n. andThen next (\<lambda>r.
        ret (r\<lparr>r_cookies := session_cookie env cfg n # r_cookies r\<rparr>))))"

text \<open>A request of the shim's own under \<open>AbortSignal.timeout\<close>, which throws for NaN and for a
  negative time before anything is sent.\<close>

definition own_get :: "jsstring \<Rightarrow> int \<Rightarrow> up_request" where
  "own_get url t = \<lparr>u_url = url, u_method = js ''GET'', u_headers = [], u_body = None, u_timeout = Some (Some t)\<rparr>"

definition own_fetch :: "shim_env \<Rightarrow> jsstring \<Rightarrow> int option \<Rightarrow> fetch_result shim" where
  "own_fetch env url t = (case t of
     None \<Rightarrow> ret FetchFailed
   | Some n \<Rightarrow> if n < 0 then ret FetchFailed else send_upstream env (own_get url n))"

definition up_ok :: "up_response \<Rightarrow> bool" where
  "up_ok r = (200 \<le> p_status r \<and> p_status r \<le> 299)"

definition health :: "shim_env \<Rightarrow> shim_config \<Rightarrow> shim_response shim" where
  "health env cfg =
     andThen (own_fetch env (gatewayBase cfg @ js ''/health'') (upstreamTimeoutMs cfg)) (\<lambda>res.
     ret (json_response (JObj [(js ''shim'', JStr (js ''ok'')), (js ''gatewayBase'', JStr (gatewayBase cfg)),
       (js ''gateway'', JObj (case res of
          Fetched r \<Rightarrow> [(js ''reachable'', JBool (up_ok r)), (js ''status'', JNum (of_int (p_status r))),
                         (js ''body'', nullish (h_parse env (fromUtf8 (p_body r))) JNull)]
        | _ \<Rightarrow> [(js ''reachable'', JBool False)]))]) 200))"

text \<open>\<open>ROUTE_MAP[name]\<close>: an own property, or one inherited by the object literal.\<close>

definition route_of :: "shim_env \<Rightarrow> jsstring \<Rightarrow> jsstring option" where
  "route_of env name = (case map_of ROUTE_MAP name of Some p \<Rightarrow> Some p | None \<Rightarrow> h_inherited env name)"

definition handleCaladon :: "shim_env \<Rightarrow> shim_config \<Rightarrow> http_request \<Rightarrow> (jsstring \<times> jsstring) list \<Rightarrow> shim_response shim" where
  "handleCaladon env cfg c params =
     (let name = nullish (map_of params (js ''name'')) [] in
      case route_of env name of
        None \<Rightarrow> ret (json_response (JObj [(js ''error'', JStr (js ''not_found'')),
                   (js ''reason'', JStr (js ''unknown caladon route''))]) 404)
      | Some upstreamPath \<Rightarrow>
          relay env cfg c (gatewayBase cfg @ upstreamPath @ q_search c) (name = js ''chat''))"

definition rootCaCrl :: "shim_env \<Rightarrow> shim_config \<Rightarrow> shim_response shim" where
  "rootCaCrl env cfg =
     andThen (own_fetch env (rootCaCrlUrl cfg) (upstreamTimeoutMs cfg)) (\<lambda>res.
     ret (case res of
       Fetched r \<Rightarrow>
         if \<not> up_ok r then json_response (JObj [(js ''error'', JStr (js ''root_ca_crl_upstream'')),
                             (js ''status'', JNum (of_int (p_status r)))]) 502
         else \<lparr>r_status = 200, r_headers = [(js ''content-type'', js ''text/plain; charset=UTF-8'')],
               r_cookies = [], r_body = TextBody (toHex (p_body r))\<rparr>
     | _ \<Rightarrow> json_response (JObj [(js ''error'', JStr (js ''root_ca_crl_fetch_failed''))]) 502))"

text \<open>\<open>path.replace(/^prefix/, '')\<close>\<close>

definition strip_prefix :: "jsstring \<Rightarrow> jsstring \<Rightarrow> jsstring" where
  "strip_prefix p s = (if prefix p s then drop (length p) s else s)"

definition pcsCollateral :: "shim_env \<Rightarrow> shim_config \<Rightarrow> http_request \<Rightarrow> shim_response shim" where
  "pcsCollateral env cfg c =
     relay env cfg c (pcsBase cfg @ strip_prefix (js ''/pcs-collateral'') (q_path c) @ q_search c) False"

subsection \<open>Boot responses\<close>

definition startup_config :: json where
  "startup_config = JObj [
     (js ''appTitle'', JStr (js ''Caladon'')),
     (js ''registrationEnabled'', JBool False),
     (js ''emailLoginEnabled'', JBool False),
     (js ''socialLoginEnabled'', JBool False),
     (js ''socialLogins'', JArr []),
     (js ''passwordResetEnabled'', JBool False),
     (js ''emailEnabled'', JBool False),
     (js ''discordLoginEnabled'', JBool False),
     (js ''facebookLoginEnabled'', JBool False),
     (js ''githubLoginEnabled'', JBool False),
     (js ''googleLoginEnabled'', JBool False),
     (js ''openidLoginEnabled'', JBool False),
     (js ''appleLoginEnabled'', JBool False),
     (js ''samlLoginEnabled'', JBool False),
     (js ''openidLabel'', JStr (js '''')),
     (js ''openidImageUrl'', JStr (js '''')),
     (js ''openidAutoRedirect'', JBool False),
     (js ''samlLabel'', JStr (js '''')),
     (js ''samlImageUrl'', JStr (js '''')),
     (js ''serverDomain'', JStr (js '''')),
     (js ''showBirthdayIcon'', JBool False),
     (js ''helpAndFaqURL'', JStr (js '''')),
     (js ''balance'', JObj [(js ''enabled'', JBool False)]),
     (js ''sharedLinksEnabled'', JBool False),
     (js ''publicSharedLinksEnabled'', JBool False),
     (js ''allowAccountDeletion'', JBool False),
     (js ''interface'', JObj [(js ''temporaryChat'', JBool True), (js ''autoSubmitFromUrl'', JBool True), (js ''modelSelect'', JBool True)])]"

definition role_permissions :: json where
  "role_permissions = JObj [
     (js ''PROMPTS'', JObj [(js ''USE'', JBool False), (js ''CREATE'', JBool False), (js ''SHARE'', JBool False), (js ''SHARE_PUBLIC'', JBool False)]),
     (js ''BOOKMARKS'', JObj [(js ''USE'', JBool False)]),
     (js ''MEMORIES'', JObj [(js ''USE'', JBool True), (js ''CREATE'', JBool True), (js ''UPDATE'', JBool True), (js ''READ'', JBool True), (js ''OPT_OUT'', JBool True)]),
     (js ''AGENTS'', JObj [(js ''USE'', JBool True), (js ''CREATE'', JBool True), (js ''SHARE'', JBool False), (js ''SHARE_PUBLIC'', JBool False)]),
     (js ''MULTI_CONVO'', JObj [(js ''USE'', JBool False)]),
     (js ''TEMPORARY_CHAT'', JObj [(js ''USE'', JBool True)]),
     (js ''RUN_CODE'', JObj [(js ''USE'', JBool False)]),
     (js ''WEB_SEARCH'', JObj [(js ''USE'', JBool False)]),
     (js ''PEOPLE_PICKER'', JObj [(js ''VIEW_USERS'', JBool False), (js ''VIEW_GROUPS'', JBool False), (js ''VIEW_ROLES'', JBool False)]),
     (js ''MARKETPLACE'', JObj [(js ''USE'', JBool False)]),
     (js ''FILE_SEARCH'', JObj [(js ''USE'', JBool False)]),
     (js ''FILE_CITATIONS'', JObj [(js ''USE'', JBool False)]),
     (js ''MCP_SERVERS'', JObj [(js ''USE'', JBool False), (js ''CREATE'', JBool False), (js ''SHARE'', JBool False), (js ''SHARE_PUBLIC'', JBool False), (js ''CONFIGURE_OBO'', JBool False)]),
     (js ''REMOTE_AGENTS'', JObj [(js ''USE'', JBool False), (js ''CREATE'', JBool False), (js ''SHARE'', JBool False), (js ''SHARE_PUBLIC'', JBool False)]),
     (js ''SKILLS'', JObj [(js ''USE'', JBool False), (js ''CREATE'', JBool False), (js ''SHARE'', JBool False), (js ''SHARE_PUBLIC'', JBool False)]),
     (js ''SHARED_LINKS'', JObj [(js ''USE'', JBool False), (js ''CREATE'', JBool False), (js ''SHARE'', JBool False), (js ''SHARE_PUBLIC'', JBool False)])]"

definition CALADON_ENDPOINT :: jsstring where "CALADON_ENDPOINT = js ''caladon''"
definition CALADON_MODELS :: "jsstring list" where "CALADON_MODELS = [js ''caladon'']"

definition endpoints_config :: json where
  "endpoints_config = JObj [
     (CALADON_ENDPOINT, JObj [(js ''type'', JStr (js ''custom'')), (js ''order'', JNum 0),
        (js ''modelDisplayLabel'', JStr (js ''Caladon'')), (js ''userProvide'', JBool False)]),
     (js ''agents'', JObj [(js ''order'', JNum 1), (js ''modelDisplayLabel'', JStr (js ''Caladon Agent''))])]"

definition MODELS_TTL_MS :: int where "MODELS_TTL_MS = 60000"

text \<open>The ids of the gateway's model list; \<open>None\<close> where reading the body throws.\<close>

definition model_id :: "json \<Rightarrow> jsstring list" where
  "model_id m = (case getProp m (js ''id'') of Some (JStr s) \<Rightarrow> if s = [] then [] else [s] | _ \<Rightarrow> [])"

definition model_ids :: "json \<Rightarrow> jsstring list option" where
  "model_ids body =
     (if body = JNull then None
      else case defined (getProp body (js ''models'')) of
        None \<Rightarrow> Some []
      | Some (JArr ms) \<Rightarrow> if JNull \<in> set ms then None else Some (concat (map model_id ms))
      | Some _ \<Rightarrow> None)"

definition strip_slash :: "jsstring \<Rightarrow> jsstring" where
  "strip_slash s = (if s \<noteq> [] \<and> last s = of_char (CHR ''/'') then butlast s else s)"

definition refresh_models :: "shim_env \<Rightarrow> shim_config \<Rightarrow> int \<Rightarrow> unit shim" where
  "refresh_models env cfg now =
     andThen (own_fetch env (strip_slash (gatewayBase cfg) @ js ''/v1/models'') (Some 10000)) (\<lambda>res.
     case res of
       Fetched r \<Rightarrow>
         (if up_ok r then
            (case Option.bind (h_parse env (fromUtf8 (p_body r))) model_ids of
               Some ids \<Rightarrow> (\<lambda>s. ret () (s\<lparr>modelsCache := Some (now, ids)\<rparr>))
             | None \<Rightarrow> ret ())
          else ret ())
     | _ \<Rightarrow> ret ())"

definition cache_stale :: "int \<Rightarrow> shim_state \<Rightarrow> bool" where
  "cache_stale now s = (case modelsCache s of None \<Rightarrow> True | Some (t, _) \<Rightarrow> MODELS_TTL_MS < now - t)"

definition models_of :: "shim_state \<Rightarrow> jsstring list" where
  "models_of s = (case modelsCache s of Some (_, i # is) \<Rightarrow> i # is | _ \<Rightarrow> CALADON_MODELS)"

definition models :: "shim_env \<Rightarrow> shim_config \<Rightarrow> shim_response shim" where
  "models env cfg =
     andThen draw_shim (\<lambda>n. let now = h_now env n in
     andThen (\<lambda>s. if cache_stale now s then refresh_models env cfg now s else ret () s) (\<lambda>_.
     (\<lambda>s. ret (json_response (JObj [(CALADON_ENDPOINT, JArr (map JStr (models_of s)))]) 200) s)))"

subsection \<open>The front door\<close>

definition CSP_INLINE_SCRIPT_SHA256 :: jsstring where
  "CSP_INLINE_SCRIPT_SHA256 = [39] @ js ''sha256-ApRfxd0rLedfnw6ZDBJ3VtMvEqlMCVS8OkY8rahs7+Q='' @ [39]"

text \<open>A source expression in single quotes (code unit 39).\<close>

definition quoted :: "string \<Rightarrow> jsstring" where
  "quoted s = [39] @ js s @ [39]"

definition CONTENT_SECURITY_POLICY :: jsstring where
  "CONTENT_SECURITY_POLICY = join (js ''; '') [
     js ''default-src '' @ quoted ''self'',
     js ''script-src '' @ quoted ''self'' @ js '' '' @ quoted ''wasm-unsafe-eval'' @ js '' '' @ CSP_INLINE_SCRIPT_SHA256,
     js ''style-src '' @ quoted ''self'' @ js '' '' @ quoted ''unsafe-inline'',
     js ''connect-src '' @ quoted ''self'',
     js ''img-src '' @ quoted ''self'' @ js '' data:'',
     js ''font-src '' @ quoted ''self'' @ js '' data:'',
     js ''worker-src '' @ quoted ''self'' @ js '' blob:'',
     js ''object-src '' @ quoted ''none'',
     js ''base-uri '' @ quoted ''self'',
     js ''frame-ancestors '' @ quoted ''none'',
     js ''form-action '' @ quoted ''self'',
     js ''manifest-src '' @ quoted ''self'',
     js ''media-src '' @ quoted ''self'']"

definition security_headers :: headers where
  "security_headers = [
     (js ''Content-Security-Policy'', CONTENT_SECURITY_POLICY),
     (js ''X-Content-Type-Options'', js ''nosniff''),
     (js ''Referrer-Policy'', js ''no-referrer''),
     (js ''X-Frame-Options'', js ''DENY''),
     (js ''Cross-Origin-Opener-Policy'', js ''same-origin''),
     (js ''Cross-Origin-Embedder-Policy'', js ''require-corp''),
     (js ''Permissions-Policy'', js ''accelerometer=(), camera=(), geolocation=(), gyroscope=(), magnetometer=(), microphone=(), payment=(), usb=()''),
     (js ''Strict-Transport-Security'', js ''max-age=15552000; includeSubDomains'')]"

definition setSecurityHeaders :: "shim_response \<Rightarrow> shim_response" where
  "setSecurityHeaders r = r\<lparr>r_headers := foldl (\<lambda>hs (k, v). header_set k v hs) (r_headers r) security_headers\<rparr>"

definition is_api :: "jsstring \<Rightarrow> bool" where
  "is_api p = (prefix (js ''/api/'') p \<or> prefix (js ''/pcs-collateral/'') p)"

definition stamp_headers :: "http_request \<Rightarrow> shim_response shim \<Rightarrow> shim_response shim" where
  "stamp_headers c next = (if is_api (q_path c) then next else andThen next (\<lambda>r. ret (setSecurityHeaders r)))"

definition serve_static :: "shim_env \<Rightarrow> shim_config \<Rightarrow> jsstring option \<Rightarrow> http_request \<Rightarrow> shim_response shim \<Rightarrow> shim_response shim" where
  "serve_static env cfg path c next = (case h_static env (staticDir cfg) path c of Some r \<Rightarrow> ret r | None \<Rightarrow> next)"

definition spa_fallback :: "shim_env \<Rightarrow> shim_config \<Rightarrow> http_request \<Rightarrow> shim_response shim \<Rightarrow> shim_response shim" where
  "spa_fallback env cfg c next =
     (if is_api (q_path c) \<or> prefix (js ''/models/'') (q_path c) \<or> prefix (js ''/ort/'') (q_path c) then next
      else serve_static env cfg (Some (js ''index.html'')) c next)"

subsection \<open>The application\<close>

datatype handler =
    Cors | IssueCookie | Health | Caladon | RootCaCrl | PcsCollateral | Static json int | Banner | Role | Models
  | StampHeaders | ServeStatic | SpaFallback

record registration =
  g_method :: "jsstring option"
  g_pattern :: jsstring
  g_handler :: handler

definition app_use :: "string \<Rightarrow> handler \<Rightarrow> registration" where
  "app_use p h = \<lparr>g_method = None, g_pattern = js p, g_handler = h\<rparr>"

definition app_get :: "string \<Rightarrow> handler \<Rightarrow> registration" where
  "app_get p h = \<lparr>g_method = Some (js ''GET''), g_pattern = js p, g_handler = h\<rparr>"

definition app_post :: "string \<Rightarrow> handler \<Rightarrow> registration" where
  "app_post p h = \<lparr>g_method = Some (js ''POST''), g_pattern = js p, g_handler = h\<rparr>"

definition api_routes :: "registration list" where
  "api_routes = [
     app_use ''*'' Cors,
     app_use ''/api/caladon/*'' IssueCookie,
     app_get ''/health'' Health,
     app_get ''/api/caladon/:name'' Caladon,
     app_post ''/api/caladon/:name'' Caladon,
     app_get ''/pcs-collateral/root-ca-crl'' RootCaCrl,
     app_get ''/pcs-collateral/*'' PcsCollateral,
     app_get ''/api/config'' (Static startup_config 200),
     app_get ''/api/banner'' Banner,
     app_get ''/api/user'' (Static (JObj [(js ''message'', JStr (js ''unauthenticated''))]) 401),
     app_get ''/api/roles/:role'' Role,
     app_get ''/api/endpoints'' (Static endpoints_config 200),
     app_get ''/api/models'' Models,
     app_get ''/api/convos'' (Static (JObj [(js ''conversations'', JArr []), (js ''nextCursor'', JNull)]) 200),
     app_get ''/api/projects'' (Static (JObj [(js ''projects'', JArr []), (js ''nextCursor'', JNull)]) 200),
     app_get ''/api/user/settings/favorites'' (Static (JArr []) 200),
     app_get ''/api/agents/chat/active'' (Static (JObj [(js ''activeJobIds'', JArr [])]) 200),
     app_get ''/api/agents/tools'' (Static (JArr []) 200),
     app_get ''/api/agents/categories'' (Static (JArr []) 200),
     app_get ''/api/agents/marketplace'' (Static (JObj [(js ''object'', JStr (js ''list'')), (js ''data'', JArr []),
       (js ''has_more'', JBool False), (js ''first_id'', JNull), (js ''last_id'', JNull)]) 200),
     app_get ''/api/files'' (Static (JArr []) 200),
     app_get ''/api/search/enable'' (Static (JBool True) 200)]"

definition front_door :: "shim_config \<Rightarrow> registration list" where
  "front_door cfg = (if staticDir cfg \<noteq> [] then
     [app_use ''/*'' StampHeaders, app_use ''/*'' ServeStatic, app_get ''*'' SpaFallback] else [])"

definition app :: "shim_config \<Rightarrow> registration list" where
  "app cfg = api_routes @ front_door cfg"

fun run_handler :: "shim_env \<Rightarrow> shim_config \<Rightarrow> handler \<Rightarrow> (jsstring \<times> jsstring) list \<Rightarrow> http_request
    \<Rightarrow> shim_response shim \<Rightarrow> shim_response shim" where
  "run_handler env cfg Cors ps c next = h_cors env (cors_config cfg) c next"
| "run_handler env cfg IssueCookie ps c next = issue_cookie env cfg c next"
| "run_handler env cfg Health ps c next = health env cfg"
| "run_handler env cfg Caladon ps c next = handleCaladon env cfg c ps"
| "run_handler env cfg RootCaCrl ps c next = rootCaCrl env cfg"
| "run_handler env cfg PcsCollateral ps c next = pcsCollateral env cfg c"
| "run_handler env cfg (Static v st) ps c next = ret (json_response v st)"
| "run_handler env cfg Banner ps c next = ret \<lparr>r_status = 200,
     r_headers = [(js ''content-type'', js ''application/json'')], r_cookies = [], r_body = NoBody\<rparr>"
| "run_handler env cfg Role ps c next = ret (json_response (JObj [
     (js ''name'', JStr (nullish (map_of ps (js ''role'')) [])), (js ''permissions'', role_permissions)]) 200)"
| "run_handler env cfg Models ps c next = models env cfg"
| "run_handler env cfg StampHeaders ps c next = stamp_headers c next"
| "run_handler env cfg ServeStatic ps c next = serve_static env cfg None c next"
| "run_handler env cfg SpaFallback ps c next = spa_fallback env cfg c next"

text \<open>Matching registrations run in the order of registration, each with the rest as \<open>next\<close>; when
  none answers the response is a 404.\<close>

fun run_app :: "shim_env \<Rightarrow> shim_config \<Rightarrow> registration list \<Rightarrow> http_request \<Rightarrow> shim_response shim" where
  "run_app env cfg [] c = ret \<lparr>r_status = 404, r_headers = [(js ''content-type'', js ''text/plain; charset=UTF-8'')],
     r_cookies = [], r_body = TextBody (js ''404 Not Found'')\<rparr>"
| "run_app env cfg (g # gs) c =
     (case h_match env (g_method g) (g_pattern g) (q_method c) (q_path c) of
        None \<Rightarrow> run_app env cfg gs c
      | Some ps \<Rightarrow> run_handler env cfg (g_handler g) ps c (run_app env cfg gs c))"

definition shim_fetch :: "shim_env \<Rightarrow> shim_config \<Rightarrow> http_request \<Rightarrow> shim_response shim" where
  "shim_fetch env cfg c = run_app env cfg (app cfg) c"

end
