(* ===== verification/Passkey.thy ===== *)
theory Passkey
  imports Collateral
begin

text \<open>
  The boundary to the WASM module, \<open>web-client/caladon/src/wasm.ts\<close> (its exports are a record of
  functions, parameters of the model), and the passkey custody of \<open>passkey.ts\<close>: the options of
  the two WebAuthn ceremonies and the checks on their result. The lemmas show that a result is
  handed out only with a 32-byte secret, that both ceremonies demand user verification, and
  that they evaluate the same salt.
\<close>

subsection \<open>The WASM exports\<close>

text \<open>A function that throws gives \<open>None\<close>. The functions that draw a nonce take the number of
  the draw.\<close>

record caladon_wasm =
  argon2id :: "bytes \<Rightarrow> bytes \<Rightarrow> nat \<Rightarrow> nat \<Rightarrow> bytes option"
  account_id :: "bytes \<Rightarrow> jsstring option"
  ed25519_public :: "bytes \<Rightarrow> bytes option"
  wmk_of :: "bytes \<Rightarrow> bytes option"
  authorization_header :: "bytes \<Rightarrow> jsstring \<Rightarrow> int \<Rightarrow> jsstring \<Rightarrow> jsstring \<Rightarrow> jsstring option"
  challenge_hex :: "bytes \<Rightarrow> jsstring option"
  x25519_public :: "bytes \<Rightarrow> bytes option"
  derive_session_key :: "bytes \<Rightarrow> bytes \<Rightarrow> bytes \<Rightarrow> bytes \<Rightarrow> bytes option"
  seal_wmk :: "nat \<Rightarrow> bytes \<Rightarrow> bytes \<Rightarrow> jsstring \<Rightarrow> int \<Rightarrow> bytes option"
  seal_chat :: "nat \<Rightarrow> bytes \<Rightarrow> bytes \<Rightarrow> jsstring \<Rightarrow> int \<Rightarrow> bytes option"
  open_chat :: "bytes \<Rightarrow> bytes \<Rightarrow> jsstring \<Rightarrow> int \<Rightarrow> bytes option"
  verify_quote_sync :: "bytes \<Rightarrow> jsstring \<Rightarrow> jsstring \<Rightarrow> int \<Rightarrow> jsstring \<Rightarrow> bytes \<Rightarrow> jsstring \<Rightarrow> verdict option"
  passkey_derive_wrapping_key :: "bytes \<Rightarrow> bytes option"
  passkey_wrap_seed :: "nat \<Rightarrow> bytes \<Rightarrow> bytes \<Rightarrow> bytes option"
  passkey_unwrap_seed :: "bytes \<Rightarrow> bytes \<Rightarrow> bytes option"

definition deriveWrappingKey :: "caladon_wasm \<Rightarrow> bytes \<Rightarrow> bytes option" where
  "deriveWrappingKey wasm prf32 = passkey_derive_wrapping_key wasm prf32"

definition wrapSeed :: "caladon_wasm \<Rightarrow> nat \<Rightarrow> bytes \<Rightarrow> bytes \<Rightarrow> bytes option" where
  "wrapSeed wasm entropy prf32 seed = passkey_wrap_seed wasm entropy prf32 seed"

definition unwrapSeed :: "caladon_wasm \<Rightarrow> bytes \<Rightarrow> bytes \<Rightarrow> bytes option" where
  "unwrapSeed wasm prf32 wrapped = passkey_unwrap_seed wasm prf32 wrapped"

subsection \<open>The WebAuthn ceremonies\<close>

definition DEFAULT_PRF_SALT :: bytes where
  "DEFAULT_PRF_SALT = utf8 (js ''caladon/passkey-prf/v1'')"

record PasskeyResult =
  prf32 :: bytes
  credentialId :: bytes

record PasskeyRegisterOptions =
  ro_rpId :: jsstring
  ro_rpName :: jsstring
  ro_userId :: bytes
  ro_userName :: jsstring
  ro_userDisplayName :: "jsstring option"
  ro_salt :: "bytes option"
  ro_challenge :: bytes

record PasskeyGetOptions =
  go_rpId :: jsstring
  go_allowCredentialIds :: "bytes list"
  go_salt :: "bytes option"
  go_challenge :: bytes

record PublicKeyCreate =
  pc_challenge :: bytes
  pc_rpId :: jsstring
  pc_rpName :: jsstring
  pc_userId :: bytes
  pc_userName :: jsstring
  pc_displayName :: jsstring
  pc_algs :: "int list"
  pc_residentKey :: jsstring
  pc_userVerification :: jsstring
  pc_prf_first :: bytes

record PublicKeyRequest =
  pg_challenge :: bytes
  pg_rpId :: jsstring
  pg_allowCredentials :: "bytes list"
  pg_userVerification :: jsstring
  pg_prf_first :: bytes

text \<open>A credential: its raw id and, when the authenticator evaluated the extension, the first
  PRF result.\<close>

record PublicKeyCredential =
  rawId :: bytes
  prf_first :: "bytes option"

text \<open>\<open>navigator.credentials\<close>: a ceremony is rejected (\<open>None\<close>), gives null or a credential.\<close>

record CredentialsContainer =
  cc_create :: "PublicKeyCreate \<Rightarrow> PublicKeyCredential option option"
  cc_get :: "PublicKeyRequest \<Rightarrow> PublicKeyCredential option option"

definition toResult :: "PublicKeyCredential option \<Rightarrow> cerror + PasskeyResult" where
  "toResult cred =
     (case cred of
        None \<Rightarrow> Inl NoCredential
      | Some c \<Rightarrow>
          (case prf_first c of
             None \<Rightarrow> Inl PrfMissing
           | Some first \<Rightarrow>
               if length first \<noteq> 32 then Inl (PrfWrongLength (length first))
               else Inr \<lparr>prf32 = first, credentialId = rawId c\<rparr>))"

text \<open>The constructor takes the container given, else the one of the navigator.\<close>

definition newPasskeyCustody ::
    "CredentialsContainer option \<Rightarrow> CredentialsContainer option \<Rightarrow> cerror + CredentialsContainer" where
  "newPasskeyCustody creds navigator_creds =
     (case creds of
        Some c \<Rightarrow> Inr c
      | None \<Rightarrow> (case navigator_creds of Some c \<Rightarrow> Inr c | None \<Rightarrow> Inl WebAuthnUnavailable))"

definition create_options :: "PasskeyRegisterOptions \<Rightarrow> PublicKeyCreate" where
  "create_options opts =
     \<lparr>pc_challenge = ro_challenge opts, pc_rpId = ro_rpId opts, pc_rpName = ro_rpName opts,
      pc_userId = ro_userId opts, pc_userName = ro_userName opts,
      pc_displayName = nullish (ro_userDisplayName opts) (ro_userName opts),
      pc_algs = [-7, -257], pc_residentKey = js ''required'', pc_userVerification = js ''required'',
      pc_prf_first = nullish (ro_salt opts) DEFAULT_PRF_SALT\<rparr>"

definition get_options :: "PasskeyGetOptions \<Rightarrow> PublicKeyRequest" where
  "get_options opts =
     \<lparr>pg_challenge = go_challenge opts, pg_rpId = go_rpId opts,
      pg_allowCredentials = go_allowCredentialIds opts, pg_userVerification = js ''required'',
      pg_prf_first = nullish (go_salt opts) DEFAULT_PRF_SALT\<rparr>"

definition passkey_register :: "CredentialsContainer \<Rightarrow> PasskeyRegisterOptions \<Rightarrow> cerror + PasskeyResult" where
  "passkey_register creds opts =
     (case cc_create creds (create_options opts) of
        None \<Rightarrow> Inl CeremonyRejected
      | Some cred \<Rightarrow> toResult cred)"

definition passkey_get :: "CredentialsContainer \<Rightarrow> PasskeyGetOptions \<Rightarrow> cerror + PasskeyResult" where
  "passkey_get creds opts =
     (case cc_get creds (get_options opts) of
        None \<Rightarrow> Inl CeremonyRejected
      | Some cred \<Rightarrow> toResult cred)"

subsection \<open>Properties\<close>

lemma toResult_prf32: "toResult cred = Inr r \<Longrightarrow> length (prf32 r) = 32"
  by (auto simp: toResult_def split: option.splits if_splits)

lemma passkey_result_length:
  "passkey_register cc ro = Inr r \<Longrightarrow> length (prf32 r) = 32"
  "passkey_get cc go = Inr r \<Longrightarrow> length (prf32 r) = 32"
  by (auto simp: passkey_register_def passkey_get_def dest: toResult_prf32 split: option.splits)

lemma ceremonies_agree:
  assumes "ro_salt ro = go_salt go"
  shows "pc_prf_first (create_options ro) = pg_prf_first (get_options go)"
    and "pc_userVerification (create_options ro) = js ''required''"
    and "pg_userVerification (get_options go) = js ''required''"
  using assms by (simp_all add: create_options_def get_options_def)

end
