(* ===== verification/Client.thy ===== *)
theory Client
  imports Passkey
begin

text \<open>
  The SDK client, \<open>web-client/caladon/src/client.ts\<close>: its configuration, its in-memory session
  state, and its operations in the order of the protocol - unlock, onboard, attestation,
  verification, session, chat. Every operation is a computation over the client state that may
  throw; the requests sent stay in the state when it does. The main results: under the strict
  policy nothing is posted to \<open>/session\<close> before the quote verified for the very session key the
  WMK is sealed to; each missing piece of evidence is an error; a chat turn sends the sealed
  prompt only, and returns what the gateway sealed.
\<close>

subsection \<open>Configuration and state\<close>

datatype policy = Strict | Observe | Skip

text \<open>The options given to the constructor, and the configuration it resolves them to.\<close>

record client_options =
  o_shimBase :: "jsstring option"
  o_pcsCollateralBase :: "jsstring option"
  o_fetchImpl :: "network option"
  o_argon2idOpslimit :: "nat option"
  o_argon2idMemlimitBytes :: "nat option"
  o_salt :: "jsstring option"
  o_pinned :: "json option"
  o_attestationPolicy :: "policy option"
  o_collateralProvider :: "(bytes \<Rightarrow> json option) option"
  o_nowSecs :: "(nat \<Rightarrow> int) option"

record client_cfg =
  shimBase :: jsstring
  pcsCollateralBase :: jsstring
  fetchImpl :: network
  argon2idOpslimit :: nat
  argon2idMemlimitBytes :: nat
  salt :: jsstring
  pinned :: "json option"
  attestationPolicy :: policy
  collateralProvider :: "(bytes \<Rightarrow> json option) option"
  nowSecs :: "nat \<Rightarrow> int"

text \<open>The globals of the runtime: its fetch and clock (the \<open>n\<close>-th reading), the random source, which
  gives nothing where \<open>crypto.getRandomValues\<close> is missing, the platform functions, and the WASM module with whether it loads.\<close>

record runtime =
  global_fetch :: "network option"
  date_now :: "nat \<Rightarrow> int"
  rng :: "nat \<Rightarrow> nat \<Rightarrow> bytes option"
  plat :: platform
  wasm :: caladon_wasm
  wasm_loads :: bool

definition new_CaladonClient :: "runtime \<Rightarrow> client_options \<Rightarrow> cerror + client_cfg" where
  "new_CaladonClient rt config =
     (case (case o_fetchImpl config of Some f \<Rightarrow> Some f | None \<Rightarrow> global_fetch rt) of
        None \<Rightarrow> Inl NoFetch
      | Some f \<Rightarrow> Inr
          \<lparr>shimBase = nullish (o_shimBase config) DEFAULT_SHIM_BASE,
           pcsCollateralBase = nullish (o_pcsCollateralBase config) DEFAULT_PCS_COLLATERAL_BASE,
           fetchImpl = f,
           argon2idOpslimit = nullish (o_argon2idOpslimit config) ARGON2ID_OPSLIMIT_REFERENCE,
           argon2idMemlimitBytes = nullish (o_argon2idMemlimitBytes config) ARGON2ID_MEMLIMIT_REFERENCE,
           salt = nullish (o_salt config) DEFAULT_SALT,
           pinned = o_pinned config,
           attestationPolicy = nullish (o_attestationPolicy config) Strict,
           collateralProvider = o_collateralProvider config,
           nowSecs = nullish (o_nowSecs config) (\<lambda>n. date_now rt n div 1000)\<rparr>)"

record Identity =
  root :: bytes
  accountId :: jsstring
  ed25519PubB64 :: jsstring

text \<open>\<open>wasm_ready\<close> is whether \<open>this.wasm\<close> has been set.\<close>

record client_state = sdk_state +
  wasm_ready :: bool
  c_identity :: "Identity option"
  c_sessionKey :: "bytes option"

type_synonym 'a client = "(client_state, cerror, 'a) exc"

definition new_client_state :: client_state where
  "new_client_state = \<lparr>reqs = [], draws = 0, wasm_ready = False, c_identity = None, c_sessionKey = None\<rparr>"

text \<open>What a client is fixed to: its configuration and the runtime.\<close>

record client_env =
  cfg :: client_cfg
  rt :: runtime

abbreviation env_plat :: "client_env \<Rightarrow> platform" where
  "env_plat env \<equiv> plat (rt env)"

abbreviation env_wasm :: "client_env \<Rightarrow> caladon_wasm" where
  "env_wasm env \<equiv> wasm (rt env)"

subsection \<open>Building blocks\<close>

text \<open>The number of the next draw.\<close>

definition draw :: "nat client" where
  "draw = (\<lambda>s. (Inr (draws s), s\<lparr>draws := Suc (draws s)\<rparr>))"

definition randomBytes :: "client_env \<Rightarrow> nat \<Rightarrow> bytes client" where
  "randomBytes env n = andThen draw (\<lambda>k. lift_opt NoRandomValues (rng (rt env) k n))"

definition readClock :: "client_env \<Rightarrow> int client" where
  "readClock env = andThen draw (\<lambda>k. ret (nowSecs (cfg env) k))"

text \<open>A call of a WASM export: before \<open>init\<close> the module is \<open>undefined\<close>.\<close>

definition call_wasm :: "'a option \<Rightarrow> 'a client" where
  "call_wasm r = (\<lambda>s. if wasm_ready s then lift_opt WasmThrow r s else throw TypeErr s)"

definition init :: "client_env \<Rightarrow> unit client" where
  "init env = (\<lambda>s. if wasm_ready s then ret () s
     else if wasm_loads (rt env) then ret () (s\<lparr>wasm_ready := True\<rparr>)
     else throw WasmThrow s)"

text \<open>A value used as a condition.\<close>

fun truthy :: "json option \<Rightarrow> bool" where
  "truthy None = False"
| "truthy (Some JNull) = False"
| "truthy (Some (JBool b)) = b"
| "truthy (Some (JNum n)) = (n \<noteq> 0)"
| "truthy (Some (JStr s)) = (s \<noteq> [])"
| "truthy (Some _) = True"

text \<open>\<open>fromHex\<close> of an unchecked value calls \<open>.startsWith\<close>, which only a string has.\<close>

definition fromHex_value :: "json option \<Rightarrow> cerror + bytes" where
  "fromHex_value v = (case v of Some (JStr s) \<Rightarrow> Inr (fromHex s) | _ \<Rightarrow> Inl TypeErr)"

text \<open>\<open>BigInt(v)\<close>.\<close>

definition toBigInt :: "platform \<Rightarrow> json option \<Rightarrow> cerror + int" where
  "toBigInt p v =
     (case v of
        Some (JNum n) \<Rightarrow> if of_int \<lfloor>n\<rfloor> = n then Inr \<lfloor>n\<rfloor> else Inl RangeErr
      | Some (JBool b) \<Rightarrow> Inr (if b then 1 else 0)
      | Some (JStr s) \<Rightarrow> (case p_toBigInt p s of Some n \<Rightarrow> Inr n | None \<Rightarrow> Inl SyntaxErr)
      | Some (JArr a) \<Rightarrow> (case p_toBigInt p (p_toString p (JArr a)) of Some n \<Rightarrow> Inr n | None \<Rightarrow> Inl SyntaxErr)
      | Some (JObj b) \<Rightarrow> (case p_toBigInt p (p_toString p (JObj b)) of Some n \<Rightarrow> Inr n | None \<Rightarrow> Inl SyntaxErr)
      | _ \<Rightarrow> Inl TypeErr)"

subsection \<open>Identity\<close>

definition unlockSeed :: "client_env \<Rightarrow> bytes \<Rightarrow> Identity client" where
  "unlockSeed env seed =
     andThen (call_wasm (argon2id (env_wasm env) seed (utf8 (salt (cfg env)))
         (argon2idOpslimit (cfg env)) (argon2idMemlimitBytes (cfg env)))) (\<lambda>r.
     andThen (call_wasm (account_id (env_wasm env) r)) (\<lambda>acct.
     andThen (call_wasm (ed25519_public (env_wasm env) r)) (\<lambda>pub s.
       let i = \<lparr>root = r, accountId = acct, ed25519PubB64 = toBase64 (p_base64 (env_plat env)) pub\<rparr>
       in ret i (s\<lparr>c_identity := Some i\<rparr>))))"

definition unlockViaPasskey :: "client_env \<Rightarrow> bytes \<Rightarrow> bytes \<Rightarrow> Identity client" where
  "unlockViaPasskey env prf wrappedSeed =
     andThen (call_wasm (passkey_unwrap_seed (env_wasm env) prf wrappedSeed)) (\<lambda>seed.
       unlockSeed env seed)"

definition requireIdentity :: "Identity client" where
  "requireIdentity = (\<lambda>s. lift_opt NoIdentity (c_identity s) s)"

subsection \<open>Signed transport\<close>

text \<open>\<open>fullPath.split('?', 1)[0]\<close>\<close>

definition sign_path :: "jsstring \<Rightarrow> jsstring" where
  "sign_path fullPath = takeWhile (\<lambda>c. c \<noteq> of_char (CHR ''?'')) fullPath"

definition method_name :: "rmethod \<Rightarrow> jsstring" where
  "method_name m = (case m of GET \<Rightarrow> js ''GET'' | POST \<Rightarrow> js ''POST'')"

definition authHeader :: "client_env \<Rightarrow> rmethod \<Rightarrow> jsstring \<Rightarrow> jsstring client" where
  "authHeader env m fullPath =
     andThen requireIdentity (\<lambda>ident.
     andThen (readClock env) (\<lambda>ts.
       call_wasm (authorization_header (env_wasm env) (root ident) (accountId ident) ts
         (method_name m) (sign_path fullPath))))"

definition signedFetch ::
    "client_env \<Rightarrow> rmethod \<Rightarrow> jsstring \<Rightarrow> jsstring \<Rightarrow> json option \<Rightarrow> bool \<Rightarrow> response client" where
  "signedFetch env m relayName query body isStream =
     (let gatewayPath = js ''/v1/'' @ relayName;
          url = shimBase (cfg env) @ js ''/'' @ relayName @ query
      in andThen (authHeader env m (gatewayPath @ query)) (\<lambda>auth.
         fetch (fetchImpl (cfg env))
           \<lparr>rq_method = m, rq_url = url,
            rq_headers = [(js ''Authorization'', auth)]
              @ (if body = None then [] else [(js ''Content-Type'', js ''application/json'')])
              @ (if isStream then [(js ''Accept'', js ''text/event-stream'')] else []),
            rq_body = map_option (p_stringify (env_plat env)) body\<rparr>))"

subsection \<open>Onboarding and attestation\<close>

definition onboard :: "client_env \<Rightarrow> int client" where
  "onboard env =
     andThen requireIdentity (\<lambda>ident.
     if ed25519PubB64 ident = [] then throw NoEd25519Pub
     else
     andThen (randomBytes env 32) (\<lambda>kemPriv.
     andThen (call_wasm (x25519_public (env_wasm env) kemPriv)) (\<lambda>kemPub.
     andThen (signedFetch env POST (js ''accounts'') []
        (Some (JObj [(js ''account_id'', JStr (accountId ident)),
                     (js ''ed25519_pub'', JStr (ed25519PubB64 ident)),
                     (js ''kem_pub'', JStr (toBase64 (p_base64 (env_plat env)) kemPub))])) False) (\<lambda>r.
     ret (rs_status r)))))"

definition getAttestation :: "client_env \<Rightarrow> bytes \<Rightarrow> json client" where
  "getAttestation env ephPub =
     andThen (call_wasm (challenge_hex (env_wasm env) ephPub)) (\<lambda>challenge.
     andThen (signedFetch env GET (js ''attestation'') (js ''?challenge='' @ challenge) None False) (\<lambda>r.
     let txt = rs_text r in
     if rs_status r \<noteq> 200 then throw (HttpError (js ''GET /v1/attestation'') (rs_status r) (take 200 txt))
     else
     andThen (lift_opt SyntaxErr (p_parse (env_plat env) txt)) (\<lambda>ev.
     andThen (lift (get_prop ev ''challenge'')) (\<lambda>c.
     if c \<noteq> Some (JStr challenge) then throw ChallengeNotBound
     else ret ev))))"

text \<open>\<open>ev.intel_quote ?? ev.quote\<close>\<close>

definition quoteHex_of :: "json \<Rightarrow> json option" where
  "quoteHex_of ev = (case defined (getProp ev (js ''intel_quote'')) of
     Some v \<Rightarrow> Some v | None \<Rightarrow> getProp ev (js ''quote''))"

definition getCollateral :: "client_env \<Rightarrow> bytes \<Rightarrow> json client" where
  "getCollateral env quote =
     (case collateralProvider (cfg env) of
        Some f \<Rightarrow> lift_opt NetworkError (f quote)
      | None \<Rightarrow> fetchCollateralFromPcs (env_plat env) (fetchImpl (cfg env)) (pcsCollateralBase (cfg env)) quote)"

definition verifyAttestation :: "client_env \<Rightarrow> json \<Rightarrow> bytes \<Rightarrow> verdict option client" where
  "verifyAttestation env ev ephPub =
     (if attestationPolicy (cfg env) = Skip then ret None
      else
      andThen (lift (get_prop ev ''intel_quote'')) (\<lambda>_.
      let quoteHex = quoteHex_of ev in
      if \<not> truthy quoteHex then throw NoQuote
      else
      andThen (lift (fromHex_value quoteHex)) (\<lambda>quote.
      andThen (getCollateral env quote) (\<lambda>collateral.
      if \<not> truthy (pinned (cfg env)) then throw NoPinned
      else if \<not> truthy (getProp ev (js ''session_pub'')) then throw NoSessionPub
      else
      andThen (lift (fromBase64_value (env_plat env) (getProp ev (js ''session_pub'')))) (\<lambda>sessionPub.
      andThen (call_wasm (challenge_hex (env_wasm env) ephPub)) (\<lambda>challengeHex.
      let infoJson = p_stringify (env_plat env) (nullish (defined (getProp ev (js ''info''))) (JObj [])) in
      andThen (readClock env) (\<lambda>now.
      andThen (call_wasm (verify_quote_sync (env_wasm env) quote
          (p_stringify (env_plat env) collateral) infoJson now challengeHex sessionPub
          (p_stringify (env_plat env) (the (pinned (cfg env)))))) (\<lambda>verdict.
      if attestationPolicy (cfg env) = Strict \<and> \<not> ok verdict then throw (AttestationFailed verdict)
      else ret (Some verdict)))))))))"

subsection \<open>Session\<close>

definition session_body :: "client_env \<Rightarrow> bytes \<Rightarrow> json \<Rightarrow> json" where
  "session_body env ephPub sealed_wmk =
     JObj [(js ''client_eph_pub'', JStr (toBase64 (p_base64 (env_plat env)) ephPub)),
           (js ''sealed_wmk'', sealed_wmk)]"

definition establishSession :: "client_env \<Rightarrow> json \<Rightarrow> bytes \<Rightarrow> bytes \<Rightarrow> bytes client" where
  "establishSession env ev ephPriv ephPub =
     andThen requireIdentity (\<lambda>ident.
     andThen (lift (get_prop ev ''session_pub'')) (\<lambda>sp.
     if \<not> truthy sp then throw NoSessionPub
     else
     andThen (lift (fromBase64_value (env_plat env) sp)) (\<lambda>cvmPub.
     andThen (call_wasm (derive_session_key (env_wasm env) ephPriv cvmPub ephPub cvmPub)) (\<lambda>sk.
     andThen (call_wasm (wmk_of (env_wasm env) (root ident))) (\<lambda>wmk.
     andThen draw (\<lambda>k.
     andThen (call_wasm (seal_wmk (env_wasm env) k sk wmk (accountId ident) ENVELOPE_V)) (\<lambda>sealedWmk.
     andThen (lift (toWireEnvelope (env_plat env) sealedWmk (accountId ident) WMK_PURPOSE ENVELOPE_V WMK_PURPOSE))
       (\<lambda>sealed_wmk.
     andThen (signedFetch env POST (js ''session'') [] (Some (session_body env ephPub sealed_wmk)) False) (\<lambda>r.
     let txt = rs_text r in
     if rs_status r \<noteq> 200 then throw (HttpError (js ''POST /v1/session'') (rs_status r) (take 200 txt))
     else (\<lambda>s. ret sk (s\<lparr>c_sessionKey := Some sk\<rparr>)))))))))))"

subsection \<open>Chat\<close>

datatype delta_event = Token | Reasoning

record ChatDelta =
  d_event :: delta_event
  d_text :: jsstring

record ChatResult =
  reply :: jsstring
  reasoning :: jsstring
  deltas :: "ChatDelta list"
  rawBytes :: nat

text \<open>\<open>sseText.split(/\r?\n/)\<close>\<close>

fun split_lines :: "jsstring \<Rightarrow> jsstring \<Rightarrow> jsstring list" where
  "split_lines acc [] = [rev acc]"
| "split_lines acc (c # cs) =
     (if c = 10
      then rev (case acc of d # r \<Rightarrow> if d = 13 then r else acc | [] \<Rightarrow> []) # split_lines [] cs
      else split_lines (c # acc) cs)"

definition sse_lines :: "jsstring \<Rightarrow> jsstring list" where
  "sse_lines text = split_lines [] text"

definition event_of :: "jsstring \<Rightarrow> delta_event option" where
  "event_of e = (if e = js ''token'' then Some Token else if e = js ''reasoning'' then Some Reasoning else None)"

text \<open>One \<open>data:\<close> line under a token or reasoning event.\<close>

definition open_line :: "client_env \<Rightarrow> bytes \<Rightarrow> jsstring \<Rightarrow> jsstring \<Rightarrow> cerror + jsstring" where
  "open_line env sk acct payload =
     (case p_parse (env_plat env) (trim payload) of
        None \<Rightarrow> Inl SyntaxErr
      | Some obj \<Rightarrow>
          (case get_prop obj ''envelope'' of
             Inl e \<Rightarrow> Inl e
           | Inr en \<Rightarrow>
               (case fromWireEnvelope (env_plat env) en of
                  Inl e \<Rightarrow> Inl e
                | Inr nonceCt \<Rightarrow>
                    (case toBigInt (env_plat env) (getProp (the en) (js ''v'')) of
                       Inl e \<Rightarrow> Inl e
                     | Inr v \<Rightarrow>
                         (case open_chat (env_wasm env) sk nonceCt acct v of
                            None \<Rightarrow> Inl WasmThrow
                          | Some pt \<Rightarrow> Inr (fromUtf8 pt))))))"

text \<open>The loop over the lines, with \<open>lastEvent\<close> so far; a failing line throws.\<close>

fun open_lines :: "client_env \<Rightarrow> bytes \<Rightarrow> jsstring \<Rightarrow> jsstring \<Rightarrow> jsstring list \<Rightarrow> cerror + ChatDelta list" where
  "open_lines env sk acct lastEvent [] = Inr []"
| "open_lines env sk acct lastEvent (line # ls) =
     (if prefix (js ''event:'') line
      then open_lines env sk acct (trim (drop 6 line)) ls
      else if prefix (js ''data:'') line
      then (case event_of lastEvent of
              None \<Rightarrow> open_lines env sk acct lastEvent ls
            | Some e \<Rightarrow>
                (case open_line env sk acct (drop 5 line) of
                   Inl x \<Rightarrow> Inl x
                 | Inr t \<Rightarrow>
                     (case open_lines env sk acct lastEvent ls of
                        Inl x \<Rightarrow> Inl x
                      | Inr ds \<Rightarrow> Inr (\<lparr>d_event = e, d_text = t\<rparr> # ds))))
      else open_lines env sk acct lastEvent ls)"

definition openDeltas :: "client_env \<Rightarrow> jsstring \<Rightarrow> bytes \<Rightarrow> jsstring \<Rightarrow> cerror + ChatDelta list" where
  "openDeltas env sseText sk acct = open_lines env sk acct [] (sse_lines sseText)"

definition texts_of :: "delta_event \<Rightarrow> ChatDelta list \<Rightarrow> jsstring" where
  "texts_of e ds = concat (map d_text (filter (\<lambda>d. d_event d = e) ds))"

definition chat_body :: "json \<Rightarrow> jsstring option \<Rightarrow> json" where
  "chat_body envelope model =
     JObj ((js ''envelope'', envelope) #
       (case model of Some m \<Rightarrow> if m \<noteq> [] then [(js ''model'', JStr m)] else [] | None \<Rightarrow> []))"

definition requireSessionKey :: "bytes client" where
  "requireSessionKey = (\<lambda>s. lift_opt NoSessionKey (c_sessionKey s) s)"

definition chat :: "client_env \<Rightarrow> jsstring \<Rightarrow> jsstring option \<Rightarrow> ChatResult client" where
  "chat env prompt model =
     andThen requireIdentity (\<lambda>ident.
     andThen requireSessionKey (\<lambda>sk.
     andThen draw (\<lambda>k.
     andThen (call_wasm (seal_chat (env_wasm env) k sk (utf8 prompt) (accountId ident) ENVELOPE_V)) (\<lambda>sealed.
     andThen (lift (toWireEnvelope (env_plat env) sealed (accountId ident) CHAT_PURPOSE ENVELOPE_V CHAT_PURPOSE))
       (\<lambda>envelope.
     andThen (signedFetch env POST (js ''chat'') [] (Some (chat_body envelope model)) True) (\<lambda>r.
     let sseText = rs_text r in
     if rs_status r \<noteq> 200 then throw (HttpError (js ''POST /v1/chat'') (rs_status r) (take 300 sseText))
     else if str_includes sseText prompt then throw Leak
     else
     andThen (lift (openDeltas env sseText sk (accountId ident))) (\<lambda>ds.
     ret \<lparr>reply = texts_of Token ds, reasoning = texts_of Reasoning ds, deltas = ds,
          rawBytes = length (utf8 sseText)\<rparr>)))))))"

subsection \<open>The whole round trip\<close>

record HandshakeResult =
  hs_identity :: Identity
  hs_evidence :: json
  hs_verdict :: "verdict option"
  hs_sessionKey :: bytes

definition handshake :: "client_env \<Rightarrow> bytes \<Rightarrow> HandshakeResult client" where
  "handshake env seed =
     andThen (init env) (\<lambda>_.
     andThen (unlockSeed env seed) (\<lambda>identity.
     andThen (onboard env) (\<lambda>_.
     andThen (randomBytes env 32) (\<lambda>ephPriv.
     andThen (call_wasm (x25519_public (env_wasm env) ephPriv)) (\<lambda>ephPub.
     andThen (getAttestation env ephPub) (\<lambda>evidence.
     andThen (verifyAttestation env evidence ephPub) (\<lambda>verdict.
     andThen (establishSession env evidence ephPriv ephPub) (\<lambda>sessionKey.
     ret \<lparr>hs_identity = identity, hs_evidence = evidence, hs_verdict = verdict,
          hs_sessionKey = sessionKey\<rparr>))))))))"

definition roundtrip :: "client_env \<Rightarrow> bytes \<Rightarrow> jsstring \<Rightarrow> jsstring option \<Rightarrow> (HandshakeResult \<times> ChatResult) client" where
  "roundtrip env seed prompt model =
     andThen (handshake env seed) (\<lambda>h.
     andThen (chat env prompt model) (\<lambda>c.
     ret (h, c)))"


subsection \<open>Rules for the transport log\<close>

lemma returns_lift [simp]: "returns (lift x) a \<longleftrightarrow> x = Inr a"
  by (cases x) (auto simp: returns_def lift_def throw_def ret_def)

lemma returns_lift_opt [simp]: "returns (lift_opt e x) a \<longleftrightarrow> x = Some a"
  by (cases x) (auto simp: returns_def lift_opt_def throw_def ret_def)

lemma returns_call_wasm [simp]: "returns (call_wasm r) a \<longleftrightarrow> r = Some a"
proof
  assume "r = Some a"
  then have "call_wasm r (new_client_state\<lparr>wasm_ready := True\<rparr>) = (Inr a, new_client_state\<lparr>wasm_ready := True\<rparr>)"
    by (simp add: call_wasm_def lift_opt_def ret_def)
  then show "returns (call_wasm r) a" unfolding returns_def by blast
qed (cases r, auto simp: returns_def call_wasm_def lift_opt_def throw_def ret_def split: if_splits)

text \<open>A computation that sends nothing.\<close>

definition silent :: "('s sdk_state_scheme, 'e, 'a) exc \<Rightarrow> bool" where
  "silent m \<longleftrightarrow> (\<forall>s. reqs (snd (m s)) = reqs s)"

lemma silent_keeps: "silent m \<Longrightarrow> keeps (sent_only Q l) m"
  by (simp add: silent_def keeps_def sent_only_def)

lemma silent_basic:
  "silent draw" "silent requireSessionKey" "silent (call_wasm r)" "silent (init env)" "silent requireIdentity"
  "silent (lift x)" "silent (lift_opt e y)"
  by (auto simp: silent_def draw_def call_wasm_def init_def requireIdentity_def requireSessionKey_def lift_def lift_opt_def
      throw_def ret_def split: sum.splits option.splits)

lemma silent_andThen: "silent m \<Longrightarrow> (\<And>a. silent (f a)) \<Longrightarrow> silent (andThen m f)"
  by (auto simp: silent_def andThen_def split: prod.splits sum.splits) (metis snd_conv)+

lemma silent_ret: "silent (ret a)"
  by (simp add: silent_def ret_def)

lemma silent_clock: "silent (randomBytes env n)" "silent (readClock env)"
  unfolding randomBytes_def readClock_def by (intro silent_andThen silent_basic silent_ret)+

lemma silent_unlockSeed: "silent (unlockSeed env seed)"
  unfolding unlockSeed_def
  by (intro silent_andThen silent_basic) (simp add: silent_def ret_def Let_def)

lemma silent_authHeader: "silent (authHeader env m p)"
  unfolding authHeader_def by (intro silent_andThen silent_basic silent_clock)

lemmas silent_keeps_rules [intro] =
  silent_basic [THEN silent_keeps] silent_clock [THEN silent_keeps]
  silent_unlockSeed [THEN silent_keeps] silent_authHeader [THEN silent_keeps]

lemma keeps_signedFetch:
  assumes "\<And>q. rq_method q = m \<Longrightarrow> rq_url q = shimBase (cfg env) @ js ''/'' @ name @ query
    \<Longrightarrow> rq_body q = map_option (p_stringify (env_plat env)) body \<Longrightarrow> Q q"
  shows "keeps (sent_only Q l) (signedFetch env m name query body isStream)"
  unfolding signedFetch_def Let_def
  by (intro keeps_andThen silent_keeps_rules keeps_fetch assms) simp_all

subsection \<open>The gate before the session\<close>

definition session_post :: "client_env \<Rightarrow> request \<Rightarrow> bool" where
  "session_post env q \<longleftrightarrow> rq_method q = POST \<and> rq_url q = shimBase (cfg env) @ js ''/session''"

text \<open>The evidence \<open>ev\<close> was verified for the ephemeral key \<open>ephPub\<close>: its challenge is the one
  sent, and the WASM verdict on its quote, that challenge, its own session key and the pinned
  set was ok.\<close>

definition attested :: "client_env \<Rightarrow> json \<Rightarrow> bytes \<Rightarrow> verdict \<Rightarrow> bool" where
  "attested env ev ephPub v \<longleftrightarrow>
     (\<exists>quote col info now ch sp.
        fromHex_value (quoteHex_of ev) = Inr quote
      \<and> challenge_hex (env_wasm env) ephPub = Some ch
      \<and> getProp ev (js ''challenge'') = Some (JStr ch)
      \<and> fromBase64_value (env_plat env) (getProp ev (js ''session_pub'')) = Inr sp
      \<and> truthy (pinned (cfg env))
      \<and> verify_quote_sync (env_wasm env) quote col info now ch sp
          (p_stringify (env_plat env) (the (pinned (cfg env)))) = Some v
      \<and> ok v)"

text \<open>A session request that delivers the WMK sealed to the attested session key.\<close>

definition session_request_ok :: "client_env \<Rightarrow> request \<Rightarrow> bool" where
  "session_request_ok env q \<longleftrightarrow>
     (\<exists>ev ephPriv ephPub v (ident :: Identity) sp sk w k nc en.
        attested env ev ephPub v
      \<and> x25519_public (env_wasm env) ephPriv = Some ephPub
      \<and> fromBase64_value (env_plat env) (getProp ev (js ''session_pub'')) = Inr sp
      \<and> derive_session_key (env_wasm env) ephPriv sp ephPub sp = Some sk
      \<and> wmk_of (env_wasm env) (root ident) = Some w
      \<and> seal_wmk (env_wasm env) k sk w (accountId ident) ENVELOPE_V = Some nc
      \<and> toWireEnvelope (env_plat env) nc (accountId ident) WMK_PURPOSE ENVELOPE_V WMK_PURPOSE = Inr en
      \<and> rq_body q = Some (p_stringify (env_plat env) (session_body env ephPub en)))"

lemma get_prop_getProp: "get_prop j k = Inr x \<Longrightarrow> getProp j (js k) = x"
  by (cases j) auto

lemma returns_getAttestation:
  assumes "returns (getAttestation env ephPub) ev"
  shows "\<exists>ch. challenge_hex (env_wasm env) ephPub = Some ch \<and> getProp ev (js ''challenge'') = Some (JStr ch)"
  using assms unfolding getAttestation_def Let_def
  by (auto dest!: returns_andThen get_prop_getProp split: if_splits)

lemma attestedI:
  assumes "fromHex_value (quoteHex_of ev) = Inr quote" "challenge_hex (env_wasm env) ephPub = Some ch"
    "getProp ev (js ''challenge'') = Some (JStr ch)"
    "fromBase64_value (env_plat env) (getProp ev (js ''session_pub'')) = Inr sp"
    "truthy (pinned (cfg env))"
    "verify_quote_sync (env_wasm env) quote col info now ch sp
        (p_stringify (env_plat env) (the (pinned (cfg env)))) = Some v" "ok v"
  shows "attested env ev ephPub v"
  unfolding attested_def using assms by blast

lemma returns_verifyAttestation:
  assumes "returns (verifyAttestation env ev ephPub) r" "attestationPolicy (cfg env) = Strict"
    and "challenge_hex (env_wasm env) ephPub = Some ch" "getProp ev (js ''challenge'') = Some (JStr ch)"
  shows "\<exists>v. r = Some v \<and> attested env ev ephPub v"
  using assms
  unfolding verifyAttestation_def Let_def
  by (auto dest!: returns_andThen split: if_splits)
    (metis attestedI)

lemma session_request_okI:
  fixes ident :: Identity
  assumes "attested env ev ephPub v" "x25519_public (env_wasm env) ephPriv = Some ephPub"
    "fromBase64_value (env_plat env) (getProp ev (js ''session_pub'')) = Inr sp"
    "derive_session_key (env_wasm env) ephPriv sp ephPub sp = Some sk"
    "wmk_of (env_wasm env) (root ident) = Some w"
    "seal_wmk (env_wasm env) k sk w (accountId ident) ENVELOPE_V = Some nc"
    "toWireEnvelope (env_plat env) nc (accountId ident) WMK_PURPOSE ENVELOPE_V WMK_PURPOSE = Inr en"
    "rq_body q = Some (p_stringify (env_plat env) (session_body env ephPub en))"
  shows "session_request_ok env q"
  using assms unfolding session_request_ok_def by blast

definition gated :: "client_env \<Rightarrow> request \<Rightarrow> bool" where
  "gated env q \<longleftrightarrow> (session_post env q \<longrightarrow> session_request_ok env q)"

lemma keeps_state_step: "silent m \<Longrightarrow> keeps (sent_only Q l) m"
  by (rule silent_keeps)

lemma keeps_establish:
  assumes "attested env ev ephPub v" "x25519_public (env_wasm env) ephPriv = Some ephPub"
  shows "keeps (sent_only (gated env) l) (establishSession env ev ephPriv ephPub)"
  unfolding establishSession_def Let_def
proof (intro keeps_bind keeps_if keeps_throw silent_keeps_rules keeps_signedFetch, goal_cases)
  case (1 ident sp cvmPub sk w k nc en q)
  then show ?case
    using assms by (auto simp: gated_def intro: session_request_okI dest!: get_prop_getProp)
next
  case (2 ident sp cvmPub sk w k nc en r)
  show ?case by (rule silent_keeps) (simp add: silent_def ret_def)
qed

lemma gated_GET: "rq_method q = GET \<Longrightarrow> gated env q"
  by (simp add: gated_def session_post_def)

lemma gated_path: "rq_url q = shimBase (cfg env) @ js ''/'' @ name @ [] \<Longrightarrow> name \<noteq> js ''session'' \<Longrightarrow> gated env q"
  by (simp add: gated_def session_post_def js_def)

lemma keeps_onboard: "keeps (sent_only (gated env) l) (onboard env)"
  unfolding onboard_def
  by (intro keeps_bind keeps_if keeps_throw keeps_ret silent_keeps_rules keeps_signedFetch gated_path)
    (assumption, simp)

lemma keeps_getAttestation: "keeps (sent_only (gated env) l) (getAttestation env ephPub)"
  unfolding getAttestation_def Let_def
  by (intro keeps_bind keeps_if keeps_throw keeps_ret silent_keeps_rules keeps_signedFetch gated_GET)

lemma keeps_mono:
  fixes m :: "('s, 'a) sdk"
  assumes "\<And>l. keeps (sent_only Q l) m" "\<And>q. Q q \<Longrightarrow> R q"
  shows "keeps (sent_only R l) m"
  unfolding keeps_def
proof (intro allI impI)
  fix s :: "'s sdk_state_scheme" assume s: "sent_only R l s"
  have "sent_only Q (reqs s) (snd (m s))"
    using assms(1) [of "reqs s"] sent_only_refl [of Q s] by (auto simp: keeps_def)
  then show "sent_only R l (snd (m s))"
    using s assms(2) unfolding sent_only_def by fastforce
qed

lemma keeps_getCollateral: "keeps (sent_only (gated env) l) (getCollateral env quote)"
  unfolding getCollateral_def
  by (auto split: option.splits intro!: keeps_mono [OF keeps_fetchCollateral] gated_GET
      simp: plain_get_def)

lemma keeps_verify: "keeps (sent_only (gated env) l) (verifyAttestation env ev ephPub)"
  unfolding verifyAttestation_def Let_def
  by (intro keeps_bind keeps_if keeps_throw keeps_ret silent_keeps_rules keeps_getCollateral)

lemma keeps_chat: "keeps (sent_only (gated env) l) (chat env prompt model)"
  unfolding chat_def Let_def
  by (intro keeps_bind keeps_if keeps_throw keeps_ret silent_keeps_rules keeps_signedFetch gated_path)
    (assumption, simp)

lemma keeps_handshake:
  assumes "attestationPolicy (cfg env) = Strict"
  shows "keeps (sent_only (gated env) l) (handshake env seed)"
  unfolding handshake_def
proof (intro keeps_bind keeps_ret silent_keeps_rules keeps_onboard keeps_getAttestation keeps_verify,
    goal_cases)
  case (1 u ident st ephPriv ephPub ev verdict)
  obtain ch where "challenge_hex (env_wasm env) ephPub = Some ch"
    "getProp ev (js ''challenge'') = Some (JStr ch)"
    using returns_getAttestation [OF 1(6)] by blast
  from returns_verifyAttestation [OF 1(7) assms this] obtain v where "attested env ev ephPub v"
    by blast
  then show ?case using 1(5) by (intro keeps_establish) simp_all
qed

lemma keeps_roundtrip:
  assumes "attestationPolicy (cfg env) = Strict"
  shows "keeps (sent_only (gated env) l) (roundtrip env seed prompt model)"
  unfolding roundtrip_def
  by (intro keeps_bind keeps_ret keeps_handshake assms keeps_chat)

subsection \<open>The session state\<close>

text \<open>A predicate on the identity and session key, which the transport does not touch.\<close>

definition session_pred :: "(Identity option \<Rightarrow> bytes option \<Rightarrow> bool) \<Rightarrow> client_state \<Rightarrow> bool" where
  "session_pred P s \<longleftrightarrow> P (c_identity s) (c_sessionKey s)"

lemma session_pred_basic [intro]:
  "keeps (session_pred P) draw" "keeps (session_pred P) (call_wasm r)"
  "keeps (session_pred P) (init env)" "keeps (session_pred P) requireIdentity"
  "keeps (session_pred P) requireSessionKey" "keeps (session_pred P) (fetch net q)"
  by (auto simp: keeps_def session_pred_def draw_def call_wasm_def init_def requireIdentity_def
      requireSessionKey_def fetch_def lift_opt_def throw_def ret_def Let_def split: option.splits)

lemma session_pred_clock [intro]:
  "keeps (session_pred P) (randomBytes env n)" "keeps (session_pred P) (readClock env)"
  unfolding randomBytes_def readClock_def by (intro keeps_andThen session_pred_basic keeps_ret keeps_lift_opt)+

lemma session_pred_signedFetch [intro]: "keeps (session_pred P) (signedFetch env m n q b i)"
  unfolding signedFetch_def authHeader_def Let_def
  by (intro keeps_andThen session_pred_basic session_pred_clock)

lemma session_pred_collateral [intro]: "keeps (session_pred P) (getCollateral env quote)"
proof -
  have "keeps (session_pred P) (fetchCollateralFromPcs p net base quote)" for p net base
    unfolding fetchCollateralFromPcs_def pcsGet_def fetchRootCaCrl_def Let_def
    by (intro keeps_andThen keeps_lift keeps_lift_opt keeps_case_prod keeps_if keeps_throw keeps_ret
        session_pred_basic)
  then show ?thesis unfolding getCollateral_def by (auto split: option.splits)
qed

lemma session_pred_steps [intro]:
  "keeps (session_pred P) (onboard env)"
  "keeps (session_pred P) (getAttestation env ephPub)"
  "keeps (session_pred P) (verifyAttestation env ev ephPub)"
  "keeps (session_pred P) (chat env prompt model)"
  unfolding onboard_def getAttestation_def verifyAttestation_def chat_def Let_def
  by (intro keeps_andThen keeps_lift keeps_lift_opt keeps_if keeps_throw keeps_ret session_pred_basic
      session_pred_clock session_pred_signedFetch session_pred_collateral)+

lemmas session_pred_rules = session_pred_basic session_pred_clock session_pred_signedFetch
  session_pred_collateral session_pred_steps keeps_lift keeps_lift_opt keeps_if keeps_throw keeps_ret

lemma unlockSeed_sessionKey: "keeps (session_pred (\<lambda>_ k. P k)) (unlockSeed env seed)"
  unfolding unlockSeed_def
  by (intro keeps_andThen session_pred_rules) (simp add: keeps_def session_pred_def ret_def Let_def)

lemma unlockSeed_identity:
  "hoare P (unlockSeed env seed) (\<lambda>i. session_pred (\<lambda>i' _. i' = Some i))"
  unfolding hoare_def unlockSeed_def
  by (auto simp: session_pred_def ret_def Let_def elim!: andThen_Inr)

lemma establish_err: "err_keeps (session_pred P) (establishSession env ev ephPriv ephPub)"
  unfolding establishSession_def Let_def
  by (intro err_keeps_andThen err_keeps_if err_keeps_throw session_pred_rules)
    (simp add: err_keeps_def ret_def)

lemma establish_result:
  "hoare (session_pred (\<lambda>i _. P i)) (establishSession env ev ephPriv ephPub)
     (\<lambda>sk. session_pred (\<lambda>i k. P i \<and> k = Some sk))"
  unfolding establishSession_def Let_def
  by (intro hoare_andThen [OF hoare_keeps] hoare_if hoare_throw session_pred_rules)
    (simp add: hoare_def session_pred_def ret_def)

text \<open>A handshake that throws leaves the session key as it was; one that returns has set the
  identity and session key it reports.\<close>

lemma handshake_err_sessionKey:
  "handshake env seed s = (Inl e, s') \<Longrightarrow> c_sessionKey s' = c_sessionKey s"
proof -
  have "err_keeps (session_pred (\<lambda>_ k. k = c_sessionKey s)) (handshake env seed)"
    unfolding handshake_def
    by (rule err_keeps_andThen, rule session_pred_rules, rule err_keeps_andThen,
      rule unlockSeed_sessionKey, (rule err_keeps_andThen, rule session_pred_rules)+,
      rule err_keeps_last, rule establish_err)
  moreover have "session_pred (\<lambda>_ k. k = c_sessionKey s) s" by (simp add: session_pred_def)
  moreover assume "handshake env seed s = (Inl e, s')"
  ultimately have "session_pred (\<lambda>_ k. k = c_sessionKey s) s'" unfolding err_keeps_def by blast
  then show ?thesis by (simp add: session_pred_def)
qed

lemma handshake_ok_session:
  "handshake env seed s = (Inr h, s')
    \<Longrightarrow> c_identity s' = Some (hs_identity h) \<and> c_sessionKey s' = Some (hs_sessionKey h)"
proof -
  have est: "hoare (session_pred (\<lambda>i' _. i' = Some i)) (andThen (establishSession env ev ePriv ePub)
      (\<lambda>k. ret \<lparr>hs_identity = i, hs_evidence = ev, hs_verdict = v, hs_sessionKey = k\<rparr>))
      (\<lambda>h. session_pred (\<lambda>i k. i = Some (hs_identity h) \<and> k = Some (hs_sessionKey h)))" for i ev ePriv ePub v
    by (rule hoare_andThen [OF establish_result]) (simp add: hoare_def ret_def session_pred_def)
  have "hoare (session_pred (\<lambda>_ _. True)) (handshake env seed)
      (\<lambda>h. session_pred (\<lambda>i k. i = Some (hs_identity h) \<and> k = Some (hs_sessionKey h)))"
    unfolding handshake_def
    by (rule hoare_pass, rule session_pred_rules, rule hoare_andThen [OF unlockSeed_identity],
      intro hoare_pass est session_pred_rules)
  moreover have "session_pred (\<lambda>_ _. True) s" by (simp add: session_pred_def)
  moreover assume "handshake env seed s = (Inr h, s')"
  ultimately have "session_pred (\<lambda>i k. i = Some (hs_identity h) \<and> k = Some (hs_sessionKey h)) s'"
    unfolding hoare_def by blast
  then show ?thesis by (simp add: session_pred_def)
qed

text \<open>Under the strict policy a handshake returns an ok verdict.\<close>

lemma handshake_ok_verdict:
  assumes "handshake env seed s = (Inr h, s')" "attestationPolicy (cfg env) = Strict"
  shows "\<exists>ephPub v. hs_verdict h = Some v \<and> attested env (hs_evidence h) ephPub v"
proof -
  have "returns (handshake env seed) h" using assms(1) unfolding returns_def by blast
  then obtain ephPub where h: "returns (getAttestation env ephPub) (hs_evidence h)"
    "returns (verifyAttestation env (hs_evidence h) ephPub) (hs_verdict h)"
    unfolding handshake_def by (auto dest!: returns_andThen)
  then show ?thesis
    using returns_getAttestation returns_verifyAttestation [OF _ assms(2)] by blast
qed

subsection \<open>Verification, branch by branch\<close>

lemma verify_skip: "attestationPolicy (cfg env) = Skip \<Longrightarrow> verifyAttestation env ev ephPub s = (Inr None, s)"
  by (simp add: verifyAttestation_def ret_def)

lemma verify_no_quote:
  assumes "attestationPolicy (cfg env) \<noteq> Skip" "ev \<noteq> JNull" "\<not> truthy (quoteHex_of ev)"
  shows "verifyAttestation env ev ephPub s = (Inl NoQuote, s)"
proof -
  have "get_prop ev k = Inr (getProp ev (js k))" for k using assms(2) by (cases ev) auto
  then show ?thesis using assms
    by (simp add: verifyAttestation_def andThen_def lift_def ret_def throw_def Let_def)
qed

text \<open>A value is returned only with a pinned set and a session key in the evidence, whatever the
  collateral and the network did.\<close>

lemma verify_requires:
  assumes "verifyAttestation env ev ephPub s = (Inr r, s')" "attestationPolicy (cfg env) \<noteq> Skip"
  shows "truthy (pinned (cfg env)) \<and> truthy (getProp ev (js ''session_pub'')) \<and> truthy (quoteHex_of ev)
    \<and> (\<exists>v. r = Some v \<and> (attestationPolicy (cfg env) = Strict \<longrightarrow> ok v))"
proof -
  have "returns (verifyAttestation env ev ephPub) r" using assms(1) unfolding returns_def by blast
  then show ?thesis
    using assms(2) unfolding verifyAttestation_def Let_def
    by (auto dest!: returns_andThen split: if_splits) (metis+)
qed

subsection \<open>The reply\<close>

text \<open>The prompt in the response stops the turn, and the empty prompt always does: every string
  contains it.\<close>

lemma chat_leak:
  assumes "chat env prompt model s = (Inr res, s')"
  shows "prompt \<noteq> []"
proof
  assume p: "prompt = []"
  have "index_of [] t = Some 0" for t :: jsstring by (cases t) auto
  then have "str_includes t prompt" for t by (simp add: p str_includes_def)
  moreover have "returns (chat env prompt model) res" using assms unfolding returns_def by blast
  ultimately show False unfolding chat_def Let_def by (auto dest!: returns_andThen split: if_splits)
qed

text \<open>A frame as the gateway writes it, and the delta it carries.\<close>

definition event_name :: "delta_event \<Rightarrow> jsstring" where
  "event_name e = (case e of Token \<Rightarrow> js ''token'' | Reasoning \<Rightarrow> js ''reasoning'')"

definition sse_frame :: "delta_event \<Rightarrow> jsstring \<Rightarrow> jsstring" where
  "sse_frame e payload = js ''event: '' @ event_name e @ [newline] @ js ''data: '' @ payload @ [newline, newline]"

lemma split_lines_line:
  "newline \<notin> set l \<Longrightarrow> (l = [] \<or> last l \<noteq> 13) \<Longrightarrow> acc = [] \<Longrightarrow>
    split_lines acc (l @ newline # r) = l # split_lines [] r"
proof -
  have "split_lines acc (l @ newline # r) = split_lines (rev l @ acc) (newline # r)"
    if "newline \<notin> set l" for acc
    using that by (induction l arbitrary: acc) (auto simp: newline_def)
  then show "newline \<notin> set l \<Longrightarrow> (l = [] \<or> last l \<noteq> 13) \<Longrightarrow> acc = [] \<Longrightarrow>
    split_lines acc (l @ newline # r) = l # split_lines [] r"
    by (cases l rule: rev_cases) (auto simp: newline_def)
qed

lemma split_lines_crlf:
  "newline \<notin> set l \<Longrightarrow> split_lines [] (l @ 13 # newline # r) = l # split_lines [] r"
proof -
  have "split_lines acc (l @ 13 # newline # r) = split_lines (13 # rev l @ acc) (newline # r)"
    if "newline \<notin> set l" for acc
    using that by (induction l arbitrary: acc) (auto simp: newline_def)
  then show "newline \<notin> set l \<Longrightarrow> split_lines [] (l @ 13 # newline # r) = l # split_lines [] r"
    by (simp add: newline_def)
qed

lemma event_line:
  "split_lines [] (js ''event: '' @ event_name e @ newline # r) = (js ''event: '' @ event_name e) # split_lines [] r"
  "event_of (trim (drop 6 (js ''event: '' @ event_name e))) = Some e"
proof -
  have "split_lines [] ((js ''event: '' @ event_name e) @ newline # r) = (js ''event: '' @ event_name e) # split_lines [] r"
    by (rule split_lines_line) (cases e; simp add: event_name_def js_def newline_def)+
  then show "split_lines [] (js ''event: '' @ event_name e @ newline # r) = (js ''event: '' @ event_name e) # split_lines [] r"
    by simp
  show "event_of (trim (drop 6 (js ''event: '' @ event_name e))) = Some e"
    by (cases e; simp add: event_name_def js_def trim_def trim_end_def is_ws_def ws_codes_def event_of_def)
qed

lemma data_line:
  assumes "newline \<notin> set p" "p \<noteq> []" "last p \<noteq> 13"
  shows "split_lines [] (js ''data: '' @ p @ newline # newline # r) = (js ''data: '' @ p) # [] # split_lines [] r"
proof -
  have "newline \<notin> set (js ''data: '')" by (simp add: js_def newline_def)
  then have "split_lines [] ((js ''data: '' @ p) @ newline # newline # r)
      = (js ''data: '' @ p) # split_lines [] (newline # r)"
    using assms by (intro split_lines_line) auto
  then show ?thesis by (simp add: newline_def)
qed

lemma open_lines_frame:
  assumes "newline \<notin> set p" "p \<noteq> []" "last p \<noteq> 13"
    and "open_line env sk acct (js '' '' @ p) = Inr t"
  shows "open_lines env sk acct ev0 (split_lines [] (sse_frame e p @ r)) =
    (case open_lines env sk acct (event_name e) (split_lines [] r) of
       Inl x \<Rightarrow> Inl x | Inr ds \<Rightarrow> Inr (\<lparr>d_event = e, d_text = t\<rparr> # ds))"
proof -
  have name: "trim (drop 6 (js ''event: '' @ event_name e)) = event_name e"
    by (cases e; simp add: event_name_def js_def trim_def trim_end_def is_ws_def ws_codes_def)
  have ev: "event_of (event_name e) = Some e"
    by (cases e; simp add: event_name_def event_of_def)
  have pre: "prefix (js ''event:'') (js ''event: '' @ event_name e)"
    "\<not> prefix (js ''event:'') (js ''data: '' @ p)" "prefix (js ''data:'') (js ''data: '' @ p)"
    "\<not> prefix (js ''event:'') []" "\<not> prefix (js ''data:'') []"
    by (simp_all add: js_def)
  have d: "drop 5 (js ''data: '' @ p) = js '' '' @ p" by (simp add: js_def)
  have "split_lines [] (sse_frame e p @ r)
      = (js ''event: '' @ event_name e) # (js ''data: '' @ p) # [] # split_lines [] r"
    using event_line(1) [of e "js ''data: '' @ p @ newline # newline # r"] data_line [OF assms(1-3), of r]
    by (simp add: sse_frame_def)
  then show ?thesis
    by (simp only: open_lines.simps(2) pre if_True if_False name ev option.case d assms(4) sum.case)
qed

text \<open>A frame that carries \<open>t\<close> sealed under the session key.\<close>

definition sealed_frame :: "client_env \<Rightarrow> bytes \<Rightarrow> jsstring \<Rightarrow> delta_event \<times> jsstring \<times> jsstring \<Rightarrow> bool" where
  "sealed_frame env sk acct f \<longleftrightarrow>
     (case f of (e, p, t) \<Rightarrow>
        newline \<notin> set p \<and> p \<noteq> [] \<and> last p \<noteq> 13 \<and> well_formed (map unat t) \<and> take 1 t \<noteq> [0xFEFF]
        \<and> (\<exists>nc en. p_parse (env_plat env) (trim (js '' '' @ p)) = Some (JObj [(js ''envelope'', en)])
            \<and> toWireEnvelope (env_plat env) nc acct CHAT_PURPOSE ENVELOPE_V CHAT_PURPOSE = Inr en
            \<and> open_chat (env_wasm env) sk nc acct ENVELOPE_V = Some (utf8 t)))"

definition frames_text :: "(delta_event \<times> jsstring \<times> jsstring) list \<Rightarrow> jsstring" where
  "frames_text fs = concat (map (\<lambda>(e, p, t). sse_frame e p) fs)"

definition frames_deltas :: "(delta_event \<times> jsstring \<times> jsstring) list \<Rightarrow> ChatDelta list" where
  "frames_deltas fs = map (\<lambda>(e, p, t). \<lparr>d_event = e, d_text = t\<rparr>) fs"

lemma open_line_sealed:
  assumes "sealed_frame env sk acct (e, p, t)" "b64_inverse (p_base64 (env_plat env))"
  shows "open_line env sk acct (js '' '' @ p) = Inr t"
proof -
  obtain nc en where f: "p_parse (env_plat env) (trim (js '' '' @ p)) = Some (JObj [(js ''envelope'', en)])"
    "toWireEnvelope (env_plat env) nc acct CHAT_PURPOSE ENVELOPE_V CHAT_PURPOSE = Inr en"
    "open_chat (env_wasm env) sk nc acct ENVELOPE_V = Some (utf8 t)"
    and t: "well_formed (map unat t)" "take 1 t \<noteq> [0xFEFF]"
    using assms(1) by (auto simp: sealed_frame_def)
  have v: "toBigInt (env_plat env) (getProp en (js ''v'')) = Inr ENVELOPE_V"
    by (simp add: envelope_getProp(1) [OF f(2)] toBigInt_def)
  show ?thesis
    by (simp add: open_line_def f(1) fromWire_toWire [OF f(2) assms(2)] v f(3) utf8_roundtrip [OF t])
qed

lemma openDeltas_frames:
  assumes "\<forall>f\<in>set fs. sealed_frame env sk acct f" "b64_inverse (p_base64 (env_plat env))"
  shows "openDeltas env (frames_text fs) sk acct = Inr (frames_deltas fs)"
proof -
  have "open_lines env sk acct ev (split_lines [] (frames_text fs)) = Inr (frames_deltas fs)" for ev
    using assms(1)
  proof (induction fs arbitrary: ev)
    case Nil
    then show ?case by (simp add: frames_text_def frames_deltas_def js_def)
  next
    case (Cons f fs)
    obtain e p t where f: "f = (e, p, t)" by (cases f)
    have sf: "sealed_frame env sk acct (e, p, t)" using Cons.prems f by simp
    then have p: "newline \<notin> set p" "p \<noteq> []" "last p \<noteq> 13" by (auto simp: sealed_frame_def)
    have "open_lines env sk acct ev (split_lines [] (sse_frame e p @ frames_text fs))
        = Inr (\<lparr>d_event = e, d_text = t\<rparr> # frames_deltas fs)"
      unfolding open_lines_frame [OF p open_line_sealed [OF sf assms(2)]]
      using Cons by simp
    then show ?case by (simp add: f frames_text_def frames_deltas_def)
  qed
  then show ?thesis by (simp add: openDeltas_def sse_lines_def)
qed

text \<open>A whole turn: the request that goes out carries the sealed prompt, and the reply is what
  the gateway sealed.\<close>

definition chat_request :: "client_env \<Rightarrow> jsstring \<Rightarrow> json \<Rightarrow> jsstring option \<Rightarrow> request" where
  "chat_request env auth envelope model =
     \<lparr>rq_method = POST, rq_url = shimBase (cfg env) @ js ''/chat'',
      rq_headers = [(js ''Authorization'', auth), (js ''Content-Type'', js ''application/json''),
                    (js ''Accept'', js ''text/event-stream'')],
      rq_body = Some (p_stringify (env_plat env) (chat_body envelope model))\<rparr>"

lemma chat_turn:
  assumes st: "wasm_ready s" "c_identity s = Some ident" "c_sessionKey s = Some sk"
    and seal: "seal_chat (env_wasm env) (draws s) sk (utf8 prompt) (accountId ident) ENVELOPE_V = Some nc"
    and env: "toWireEnvelope (env_plat env) nc (accountId ident) CHAT_PURPOSE ENVELOPE_V CHAT_PURPOSE = Inr en"
    and auth: "authorization_header (env_wasm env) (root ident) (accountId ident)
        (nowSecs (cfg env) (Suc (draws s))) (js ''POST'') (js ''/v1/chat'') = Some a"
    and net: "fetchImpl (cfg env) (reqs s @ [chat_request env a en model]) = Some r"
    and resp: "rs_status r = 200" "rs_text r = frames_text fs" "\<not> str_includes (frames_text fs) prompt"
    and fs: "\<forall>f\<in>set fs. sealed_frame env sk (accountId ident) f" "b64_inverse (p_base64 (env_plat env))"
  shows "chat env prompt model s =
    (Inr \<lparr>reply = texts_of Token (frames_deltas fs), reasoning = texts_of Reasoning (frames_deltas fs),
          deltas = frames_deltas fs, rawBytes = length (utf8 (frames_text fs))\<rparr>,
     s\<lparr>reqs := reqs s @ [chat_request env a en model], draws := Suc (Suc (draws s))\<rparr>)"
proof -
  have path: "sign_path (js ''/v1/chat'') = js ''/v1/chat''" "sign_path (js ''/v1/'' @ js ''chat'' @ []) = js ''/v1/chat''"
    by (simp_all add: sign_path_def js_def)
  show ?thesis
    using assms
    by (simp add: chat_def andThen_def requireIdentity_def requireSessionKey_def lift_opt_def ret_def
        draw_def call_wasm_def lift_def signedFetch_def authHeader_def readClock_def fetch_def Let_def
        method_name_def path chat_request_def openDeltas_frames)
qed


subsection \<open>A concrete client\<close>

text \<open>An instance on which the properties are exercised: a platform whose base64 is the identity
  on characters, a WASM module of constant functions and an XOR-free toy seal that keeps the
  plaintext after a zero nonce, and a gateway that answers every request with 200.\<close>

definition sample_platform :: "json \<Rightarrow> platform" where
  "sample_platform parsed =
     \<lparr>p_base64 = \<lparr>btoa = Some (\<lambda>s. s), atob = Some Some\<rparr>, p_sha256 = (\<lambda>_. []),
      p_parse = (\<lambda>_. Some parsed), p_stringify = (\<lambda>_. js ''body''), p_toString = (\<lambda>_. []),
      p_toBigInt = (\<lambda>_. None), p_decodeURI = Some, p_bufferBase64 = (\<lambda>_. [])\<rparr>"

definition sample_wasm :: "bool \<Rightarrow> caladon_wasm" where
  "sample_wasm good =
     \<lparr>argon2id = (\<lambda>_ _ _ _. Some [1]), account_id = (\<lambda>_. Some (js ''acct'')),
      ed25519_public = (\<lambda>_. Some [2]), wmk_of = (\<lambda>_. Some [3]),
      authorization_header = (\<lambda>_ _ _ _ _. Some (js ''auth'')), challenge_hex = (\<lambda>_. Some (js ''ch'')),
      x25519_public = (\<lambda>_. Some [4]), derive_session_key = (\<lambda>_ _ _ _. Some [5]),
      seal_wmk = (\<lambda>_ _ w _ _. Some (replicate 24 0 @ w)),
      seal_chat = (\<lambda>_ _ m _ _. Some (replicate 24 0 @ m)),
      open_chat = (\<lambda>_ c _ _. Some (drop 24 c)),
      verify_quote_sync = (\<lambda>_ _ _ _ _ _ _. Some \<lparr>ok = good, reason = [], measurement_matched = good\<rparr>),
      passkey_derive_wrapping_key = Some, passkey_wrap_seed = (\<lambda>_ _ s. Some s),
      passkey_unwrap_seed = (\<lambda>_ s. Some s)\<rparr>"

definition sample_evidence :: json where
  "sample_evidence = JObj [(js ''challenge'', JStr (js ''ch'')), (js ''intel_quote'', JStr (js ''ab'')),
     (js ''session_pub'', JStr (js ''k''))]"

definition sample_env :: "policy \<Rightarrow> bool \<Rightarrow> json \<Rightarrow> bytes \<Rightarrow> client_env" where
  "sample_env pol good parsed answer =
     \<lparr>cfg = \<lparr>shimBase = [], pcsCollateralBase = [],
        fetchImpl = (\<lambda>_. Some \<lparr>rs_status = 200, rs_body = answer, rs_header = (\<lambda>_. None)\<rparr>),
        argon2idOpslimit = 3, argon2idMemlimitBytes = 8, salt = [], pinned = Some (JObj []),
        attestationPolicy = pol, collateralProvider = Some (\<lambda>_. Some JNull), nowSecs = (\<lambda>_. 0)\<rparr>,
      rt = \<lparr>global_fetch = None, date_now = (\<lambda>_. 0), rng = (\<lambda>_ n. Some (replicate n 0)),
        plat = sample_platform parsed, wasm = sample_wasm good, wasm_loads = True\<rparr>\<rparr>"

lemmas client_eval = sample_env_def sample_wasm_def sample_platform_def sample_evidence_def
  handshake_def init_def unlockSeed_def onboard_def getAttestation_def verifyAttestation_def
  establishSession_def signedFetch_def authHeader_def fetch_def call_wasm_def requireIdentity_def
  requireSessionKey_def readClock_def randomBytes_def draw_def lift_def lift_opt_def getCollateral_def
  andThen_def ret_def throw_def fromHex_value_def quoteHex_of_def fromBase64_value_def fromBase64_def
  toBase64_def toWireEnvelope_def new_client_state_def NONCE_LEN_def Let_def

lemma sample_handshake:
  "\<exists>h s'. handshake (sample_env Strict True sample_evidence []) [] new_client_state = (Inr h, s')
    \<and> map rq_url (reqs s') = [js ''/accounts'', js ''/attestation?challenge=ch'', js ''/session'']
    \<and> map rq_method (reqs s') = [POST, GET, POST]"
  by (simp add: client_eval)

subsection \<open>Properties of the client\<close>

text \<open>C1. Under the strict policy, every POST to \<open>/session\<close> that a run of the handshake and a chat
  turn makes - whether the run succeeds or throws, whatever the network answers and whatever the
  WASM module does - delivers the WMK sealed under a session key derived from the session public
  key of evidence that carries the challenge sent for the same ephemeral key, and whose quote the
  WASM module accepted together with that challenge, that session key and the pinned set.\<close>

theorem strict_session_gated:
  assumes "attestationPolicy (cfg env) = Strict"
    and "roundtrip env seed prompt model s = (r, s')"
    and "q \<in> set (drop (length (reqs s)) (reqs s'))" "session_post env q"
  shows "session_request_ok env q"
proof -
  have "sent_only (gated env) (reqs s) (snd (roundtrip env seed prompt model s))"
    using keeps_roundtrip [OF assms(1)] sent_only_refl by (rule keepsD)
  then show ?thesis
    using assms(2-4) by (auto simp: sent_only_def gated_def)
qed

lemma strict_session_gated_witness:
  "\<exists>q. q \<in> set (reqs (snd (roundtrip (sample_env Strict True sample_evidence []) [] (js ''hi'') None new_client_state)))
    \<and> rq_url q = js ''/session'' \<and> session_request_ok (sample_env Strict True sample_evidence []) q"
proof -
  let ?env = "sample_env Strict True sample_evidence []"
  have e: "rs_text \<lparr>rs_status = 200, rs_body = [], rs_header = h\<rparr> = []"
    "\<not> str_includes [] (js ''hi'')" "openDeltas en [] sk a = Inr []" for h en sk a
    by (simp_all add: rs_text_def fromUtf8_def strip_bom_def str_includes_def openDeltas_def sse_lines_def js_def)
  have "\<exists>q\<in>set (reqs (snd (roundtrip ?env [] (js ''hi'') None new_client_state))).
      rq_url q = js ''/session'' \<and> rq_method q = POST"
    by (simp add: client_eval roundtrip_def chat_def e)
  then obtain q where q: "q \<in> set (reqs (snd (roundtrip ?env [] (js ''hi'') None new_client_state)))"
    "rq_url q = js ''/session''" "rq_method q = POST" by blast
  have "session_request_ok ?env q"
    by (rule strict_session_gated [where s = new_client_state and seed = "[]" and prompt = "js ''hi''"
          and model = None and s' = "snd (roundtrip ?env [] (js ''hi'') None new_client_state)"
          and r = "fst (roundtrip ?env [] (js ''hi'') None new_client_state)"])
      (use q in \<open>simp_all add: session_post_def sample_env_def new_client_state_def\<close>)
  with q show ?thesis by blast
qed

text \<open>The state a handshake leaves: when it throws, the session key is what it was before; when
  it returns, the identity and the session key it reports are the ones in force, and under the
  strict policy it reports an ok verdict for its own evidence.\<close>

theorem handshake_session_state:
  "case handshake env seed s of
     (Inl e, s') \<Rightarrow> c_sessionKey s' = c_sessionKey s
   | (Inr h, s') \<Rightarrow> c_identity s' = Some (hs_identity h) \<and> c_sessionKey s' = Some (hs_sessionKey h)
       \<and> (attestationPolicy (cfg env) = Strict \<longrightarrow>
            (\<exists>ephPub v. hs_verdict h = Some v \<and> attested env (hs_evidence h) ephPub v))"
  using handshake_err_sessionKey handshake_ok_session handshake_ok_verdict
  by (fastforce split: prod.split sum.split)

lemma handshake_session_state_witness:
  "\<exists>h s'. handshake (sample_env Strict True sample_evidence []) [] new_client_state = (Inr h, s')
    \<and> c_sessionKey s' = Some (hs_sessionKey h)
    \<and> (\<exists>ephPub v. hs_verdict h = Some v
        \<and> attested (sample_env Strict True sample_evidence []) (hs_evidence h) ephPub v)"
proof -
  let ?env = "sample_env Strict True sample_evidence []"
  obtain h s' where h: "handshake ?env [] new_client_state = (Inr h, s')" using sample_handshake by blast
  moreover have "attestationPolicy (cfg ?env) = Strict" by (simp add: sample_env_def)
  ultimately show ?thesis
    using handshake_session_state [where env = ?env and seed = "[]" and s = new_client_state] by auto
qed

text \<open>Unless the policy is skip, verification returns only when a pinned set is configured (no
  trust on first use), the evidence carries a quote and a session key, and - under the strict
  policy - the verdict is ok; every other outcome of the collateral, the network and the WASM
  module is an error.\<close>

theorem verify_requires_pinned_evidence:
  assumes "verifyAttestation env ev ephPub s = (Inr r, s')" "attestationPolicy (cfg env) \<noteq> Skip"
  shows "truthy (pinned (cfg env)) \<and> truthy (getProp ev (js ''session_pub'')) \<and> truthy (quoteHex_of ev)
    \<and> (\<exists>v. r = Some v \<and> (attestationPolicy (cfg env) = Strict \<longrightarrow> ok v))"
  using assms by (rule verify_requires)

lemma verify_requires_pinned_evidence_witness:
  "\<exists>r s'. verifyAttestation (sample_env Observe False sample_evidence []) sample_evidence []
      (new_client_state\<lparr>wasm_ready := True\<rparr>) = (Inr r, s') \<and> (\<exists>v. r = Some v \<and> \<not> ok v)"
proof -
  let ?env = "sample_env Observe False sample_evidence []" and ?s = "new_client_state\<lparr>wasm_ready := True\<rparr>"
  obtain r s' where r: "verifyAttestation ?env sample_evidence [] ?s = (Inr r, s')" "r \<noteq> None \<longrightarrow> \<not> ok (the r)"
    by (simp add: client_eval)
  moreover have "attestationPolicy (cfg ?env) \<noteq> Skip" by (simp add: sample_env_def)
  ultimately show ?thesis using verify_requires_pinned_evidence [OF r(1)] by auto
qed

text \<open>A chat turn: with an identity and a session key, the one request sent carries the prompt
  sealed under the session key, and when the gateway answers 200 with token and reasoning frames
  sealed under that key, the reply is the concatenation of the token texts in order (and the
  reasoning that of the reasoning texts).\<close>

theorem chat_returns_sealed_reply:
  assumes "wasm_ready s" "c_identity s = Some ident" "c_sessionKey s = Some sk"
    and "seal_chat (env_wasm env) (draws s) sk (utf8 prompt) (accountId ident) ENVELOPE_V = Some nc"
    and "toWireEnvelope (env_plat env) nc (accountId ident) CHAT_PURPOSE ENVELOPE_V CHAT_PURPOSE = Inr en"
    and "authorization_header (env_wasm env) (root ident) (accountId ident)
        (nowSecs (cfg env) (Suc (draws s))) (js ''POST'') (js ''/v1/chat'') = Some a"
    and "fetchImpl (cfg env) (reqs s @ [chat_request env a en model]) = Some resp"
    and "rs_status resp = 200" "rs_text resp = frames_text fs" "\<not> str_includes (frames_text fs) prompt"
    and "\<forall>f\<in>set fs. sealed_frame env sk (accountId ident) f" "b64_inverse (p_base64 (env_plat env))"
  shows "chat env prompt model s =
    (Inr \<lparr>reply = texts_of Token (frames_deltas fs), reasoning = texts_of Reasoning (frames_deltas fs),
          deltas = frames_deltas fs, rawBytes = length (utf8 (frames_text fs))\<rparr>,
     s\<lparr>reqs := reqs s @ [chat_request env a en model], draws := Suc (Suc (draws s))\<rparr>)"
  using assms by (rule chat_turn)

definition sample_frame :: jsstring where
  "sample_frame = js ''event: token'' @ [newline] @ js ''data: {}'' @ [newline, newline]"

definition sample_nc :: bytes where
  "sample_nc = replicate 24 0 @ utf8 (js ''yes'')"

definition sample_wire :: "bytes \<Rightarrow> json" where
  "sample_wire nc = (case toWireEnvelope (sample_platform JNull) nc (js ''acct'') CHAT_PURPOSE ENVELOPE_V CHAT_PURPOSE of
     Inr en \<Rightarrow> en | Inl _ \<Rightarrow> JNull)"

lemma sample_wire: "24 \<le> length nc \<Longrightarrow>
  toWireEnvelope (sample_platform x) nc (js ''acct'') CHAT_PURPOSE ENVELOPE_V CHAT_PURPOSE = Inr (sample_wire nc)"
  by (simp add: sample_wire_def toWireEnvelope_def sample_platform_def aad_def NONCE_LEN_def Let_def)

lemma sample_b64_inverse: "b64_inverse (p_base64 (sample_platform x))"
proof -
  have "map (\<lambda>b. ucast (ucast b :: jschar)) bs = (bs :: bytes)" for bs
    by (induction bs) (simp_all add: ucast_up_ucast_id is_up)
  then show ?thesis
    by (simp add: b64_inverse_def sample_platform_def fromBase64_def toBase64_def o_def)
qed

text \<open>A whole chat turn on the sample client: the reply to \<open>hi\<close> is the sealed \<open>yes\<close>.\<close>

lemma chat_returns_sealed_reply_witness:
  "\<exists>s s'. chat (sample_env Strict True (JObj [(js ''envelope'', sample_wire sample_nc)]) (utf8 sample_frame))
      (js ''hi'') None s =
    (Inr \<lparr>reply = js ''yes'', reasoning = [], deltas = [\<lparr>d_event = Token, d_text = js ''yes''\<rparr>],
          rawBytes = length (utf8 sample_frame)\<rparr>, s')"
proof -
  let ?env = "sample_env Strict True (JObj [(js ''envelope'', sample_wire sample_nc)]) (utf8 sample_frame)"
  let ?id = "\<lparr>root = [1], accountId = js ''acct'', ed25519PubB64 = js ''p''\<rparr>"
  let ?s = "new_client_state\<lparr>wasm_ready := True, c_identity := Some ?id, c_sessionKey := Some [5]\<rparr>"
  let ?fs = "[(Token, js ''{}'', js ''yes'')]"
  let ?nc = "replicate 24 0 @ utf8 (js ''hi'')"
  have fs: "frames_text ?fs = sample_frame"
    by (simp add: frames_text_def sse_frame_def event_name_def sample_frame_def js_def)
  have ascii: "\<forall>c\<in>set sample_frame. unat c < 128"
    by (simp add: sample_frame_def js_def newline_def)
  have plat: "env_plat ?env = sample_platform (JObj [(js ''envelope'', sample_wire sample_nc)])"
    by (simp add: sample_env_def)
  have fr: "\<forall>f\<in>set ?fs. sealed_frame ?env [5] (accountId ?id) f"
  proof -
    have t: "trim (js '' {}'') = js ''{}''"
      by (simp add: trim_def trim_end_def js_def is_ws_def ws_codes_def)
    have "toWireEnvelope (env_plat ?env) sample_nc (js ''acct'') CHAT_PURPOSE ENVELOPE_V CHAT_PURPOSE
        = Inr (sample_wire sample_nc)"
      unfolding plat by (rule sample_wire) (simp add: sample_nc_def)
    moreover have "open_chat (env_wasm ?env) [5] sample_nc (js ''acct'') ENVELOPE_V = Some (utf8 (js ''yes''))"
      by (simp add: sample_env_def sample_wasm_def sample_nc_def)
    moreover have "p_parse (env_plat ?env) x = Some (JObj [(js ''envelope'', sample_wire sample_nc)])" for x
      by (simp add: sample_env_def sample_platform_def)
    ultimately show ?thesis
      by (simp add: sealed_frame_def js_def newline_def is_high_def is_low_def) blast
  qed
  have "chat ?env (js ''hi'') None ?s =
    (Inr \<lparr>reply = texts_of Token (frames_deltas ?fs), reasoning = texts_of Reasoning (frames_deltas ?fs),
          deltas = frames_deltas ?fs, rawBytes = length (utf8 (frames_text ?fs))\<rparr>,
     ?s\<lparr>reqs := reqs ?s @ [chat_request ?env (js ''auth'') (sample_wire ?nc) None], draws := Suc (Suc (draws ?s))\<rparr>)"
  proof (rule chat_returns_sealed_reply [where ident = ?id and sk = "[5]" and nc = ?nc and
        resp = "\<lparr>rs_status = 200, rs_body = utf8 sample_frame, rs_header = (\<lambda>_. None)\<rparr>"])
    show "toWireEnvelope (env_plat ?env) ?nc (accountId ?id) CHAT_PURPOSE ENVELOPE_V CHAT_PURPOSE
        = Inr (sample_wire ?nc)"
      unfolding plat by (simp add: sample_wire)
    show "rs_text \<lparr>rs_status = 200, rs_body = utf8 sample_frame, rs_header = (\<lambda>_. None)\<rparr> = frames_text ?fs"
      by (simp add: rs_text_def utf8_ascii_roundtrip [OF ascii] fs)
    show "\<not> str_includes (frames_text ?fs) (js ''hi'')"
      unfolding fs by (simp add: sample_frame_def str_includes_def js_def newline_def)
    show "b64_inverse (p_base64 (env_plat ?env))" unfolding plat by (rule sample_b64_inverse)
  qed (use fr in \<open>simp_all add: sample_env_def sample_wasm_def new_client_state_def\<close>)
  then show ?thesis
    by (auto simp: texts_of_def frames_deltas_def fs)
qed

text \<open>A chat turn with an empty prompt never returns a reply: the check for the plaintext in the
  response finds the empty string everywhere.\<close>

theorem chat_empty_prompt_never_returns:
  "fst (chat env [] model s) \<noteq> Inr res"
  using chat_leak [of env "[]" model s res] by (metis prod.collapse)

end
