(* ===== verification/ShimProps.thy ===== *)
theory ShimProps
  imports Shim Client
begin

text \<open>
  What the shim promises: the relay is opaque and keyless in both directions, every request it
  makes goes to one of its three upstreams without a cookie, the paths it relays are the paths the
  SDK signs, the CRL it re-encodes is the one the SDK decodes, the model list is never empty and
  refreshed at most once a minute, and the front door never answers for the API.
\<close>

subsection \<open>Headers\<close>

text \<open>What iterating a \<open>Headers\<close> object yields: lower-case names, each once but \<open>set-cookie\<close>, which comes once
  for every cookie.\<close>

definition header_list :: "headers \<Rightarrow> bool" where
  "header_list hs \<longleftrightarrow> distinct (map fst (filter (\<lambda>(k, v). k \<noteq> js ''set-cookie'') hs)) \<and> (\<forall>(k, v)\<in>set hs. to_lower k = k)"

lemma to_lower_idem [simp]: "to_lower (to_lower s) = to_lower s"
proof -
  have "\<not> (65 \<le> unat (c + 32) \<and> unat (c + 32) \<le> 90)" if "65 \<le> unat c" "unat c \<le> 90" for c :: jschar
  proof -
    have "unat (c + 32) = unat c + 32" using that by (simp add: unat_word_ariths(1))
    then show ?thesis using that by simp
  qed
  then show ?thesis by (auto simp: to_lower_def)
qed

lemma header_set_new:
  "to_lower k \<notin> (to_lower \<circ> fst) ` set hs \<Longrightarrow> header_set k v hs = hs @ [(to_lower k, v)]"
  by (induction k v hs rule: header_set.induct) auto

lemma copy_headers_filter:
  assumes "\<forall>(k, v)\<in>set hs. to_lower k = k" "distinct (map fst (filter (\<lambda>(k, v). k \<notin> set strip) hs))"
  shows "copy_headers strip hs = filter (\<lambda>(k, v). k \<notin> set strip) hs"
proof -
  let ?keep = "filter (\<lambda>(k, v). k \<notin> set strip)"
  have "foldl (\<lambda>out (k, v). if to_lower k \<in> set strip then out else header_set k v out) out hs = out @ ?keep hs"
    if "\<forall>(k, v)\<in>set hs. to_lower k = k" "distinct (map fst (?keep hs))"
      "(to_lower \<circ> fst) ` set out \<inter> fst ` set (?keep hs) = {}" for out
    using that
  proof (induction hs arbitrary: out)
    case (Cons h hs)
    obtain k v where h: "h = (k, v)" by fastforce
    have l: "to_lower k = k" "\<forall>(k, v)\<in>set hs. to_lower k = k" "distinct (map fst (?keep hs))"
      using Cons.prems(1,2) by (auto simp: h split: if_splits)
    show ?case
    proof (cases "k \<in> set strip")
      case True
      then show ?thesis using Cons.IH [OF l(2,3), of out] Cons.prems(3) l(1) by (simp add: h)
    next
      case False
      then have keep: "?keep (h # hs) = h # ?keep hs" by (simp add: h)
      have k: "k \<notin> fst ` set (?keep hs)" "k \<notin> (to_lower \<circ> fst) ` set out"
        "(to_lower \<circ> fst) ` set out \<inter> fst ` set (?keep hs) = {}"
        using Cons.prems(2,3) unfolding keep by (auto simp: h)
      have "header_set k v out = out @ [(k, v)]" using header_set_new [of k out v] k(2) l(1) by simp
      moreover have "(to_lower \<circ> fst) ` set (out @ [(k, v)]) \<inter> fst ` set (?keep hs) = {}"
        using k(1,3) l(1) by auto
      ultimately show ?thesis using Cons.IH [OF l(2,3), of "out @ [(k, v)]"] False l(1) by (simp add: h)
    qed
  qed simp
  from this [of "[]"] show ?thesis using assms by (simp add: copy_headers_def)
qed

text \<open>The last of several values of a name wins when a header is copied: what is read back from the copy.\<close>

lemma map_of_header_set:
  assumes "to_lower k = k" "\<forall>(k, v)\<in>set hs. to_lower k = k"
  shows "map_of (header_set k v hs) = (map_of hs)(k \<mapsto> v)"
  using assms by (induction k v hs rule: header_set.induct) (auto simp: fun_eq_iff)

lemma lower_header_set:
  assumes "to_lower k = k" "\<forall>(k, v)\<in>set hs. to_lower k = k"
  shows "\<forall>(k, v)\<in>set (header_set k v hs). to_lower k = k"
  using assms by (induction k v hs rule: header_set.induct) auto

lemma map_of_copied:
  assumes "\<forall>(k, v)\<in>set hs. to_lower k = k"
  shows "map_of (copy_headers strip hs) k = (if k \<in> set strip then None else map_of (rev hs) k)"
proof -
  have "(\<forall>(k, v)\<in>set (copy_headers strip hs). to_lower k = k)
      \<and> map_of (copy_headers strip hs) k = (if k \<in> set strip then None else map_of (rev hs) k)"
    using assms
  proof (induction hs rule: rev_induct)
    case (snoc h hs)
    obtain n v where h: "h = (n, v)" by fastforce
    then show ?case using snoc map_of_header_set [of n "copy_headers strip hs" v] lower_header_set [of n "copy_headers strip hs" v]
      by (auto simp: copy_headers_def)
  qed (simp add: copy_headers_def)
  then show ?thesis by blast
qed

lemma header_list_kept:
  assumes "header_list hs" "js ''set-cookie'' \<in> set strip"
  shows "copy_headers strip hs = filter (\<lambda>(k, v). k \<notin> set strip) hs"
proof (rule copy_headers_filter)
  have "filter (\<lambda>(k, v). k \<notin> set strip) hs = filter (\<lambda>(k, v). k \<notin> set strip) (filter (\<lambda>(k, v). k \<noteq> js ''set-cookie'') hs)"
    using assms(2) unfolding filter_filter by (intro filter_cong) auto
  moreover have "distinct (map fst (filter (\<lambda>(k, v). k \<notin> set strip) (filter (\<lambda>(k, v). k \<noteq> js ''set-cookie'') hs)))"
    by (rule distinct_map_filter) (use assms(1) in \<open>simp add: header_list_def\<close>)
  ultimately show "distinct (map fst (filter (\<lambda>(k, v). k \<notin> set strip) hs))" by (simp only:)
  show "\<forall>(k, v)\<in>set hs. to_lower k = k" using assms(1) by (simp add: header_list_def)
qed

lemma header_get_once:
  assumes "header_list hs" "k \<noteq> js ''set-cookie''"
  shows "map_of (rev hs) k = map_of hs k"
proof -
  let ?f = "filter (\<lambda>(k, v). k \<noteq> js ''set-cookie'')"
  have f: "map_of (?f xs) k = map_of xs k" for xs :: headers
    using assms(2) by (induction xs) auto
  have "map_of (rev xs) = map_of xs" if "distinct (map fst xs)" for xs :: headers
    by (rule map_of_inject_set [THEN iffD2]) (use that in \<open>simp_all add: rev_map [symmetric]\<close>)
  then have "map_of (rev (?f hs)) = map_of (?f hs)" using assms(1) by (simp add: header_list_def)
  then show ?thesis using f [of hs] f [of "rev hs"] by (simp add: rev_filter)
qed

subsection \<open>The relay\<close>

text \<open>C15. The relay sends one request, with the method and the very body of the browser's request; every header of it
  has the value the browser's has but the listed hop-by-hop and cookie headers, so the signed Authorization header
  goes through unchanged and no cookie does; it answers with the upstream's status and body
  untouched, with the upstream's headers but the listed ones in their order, and with none of the cookies the
  upstream sets, however many those are - or with a 502 that names the failure.\<close>

theorem relay_is_opaque:
  assumes "header_list (q_headers c)" and "\<forall>l r. h_fetch env l = Fetched r \<longrightarrow> header_list (p_headers r)"
  shows "\<exists>u r. relay env cf c url isStream s = (Inr r, s\<lparr>sent := sent s @ [u]\<rparr>)
    \<and> u_url u = url \<and> u_method u = q_method c
    \<and> u_body u = (if q_method c \<in> {js ''GET'', js ''HEAD''} then None else Some (q_body c))
    \<and> map_of (u_headers u) (js ''authorization'') = map_of (q_headers c) (js ''authorization'')
    \<and> map_of (u_headers u) (js ''cookie'') = None
    \<and> (\<forall>k. k \<noteq> js ''set-cookie'' \<longrightarrow> map_of (u_headers u) k
          = (if k \<in> set STRIP_TO_UPSTREAM then None else map_of (q_headers c) k))
    \<and> (case h_fetch env (sent s @ [u]) of
         Fetched up \<Rightarrow> r_status r = p_status up \<and> r_body r = RawBody (p_body up)
           \<and> r_headers r = filter (\<lambda>(k, v). k \<notin> set STRIP_FROM_UPSTREAM) (p_headers up)
           \<and> map_of (r_headers r) (js ''set-cookie'') = None \<and> r_cookies r = []
       | _ \<Rightarrow> r_status r = 502)"
proof -
  define u where "u = relay_request cf c url isStream"
  have f: "map_of (filter (\<lambda>(k, v). k \<notin> S) hs) k = (if k \<in> S then None else map_of hs k)"
    for S k and hs :: headers by (induction hs) auto
  have low: "\<forall>(k, v)\<in>set (q_headers c). to_lower k = k" using assms(1) by (simp add: header_list_def)
  have h: "map_of (u_headers u) k = (if k \<in> set STRIP_TO_UPSTREAM then None else map_of (q_headers c) k)"
    if "k \<noteq> js ''set-cookie''" for k
    using map_of_copied [OF low, of STRIP_TO_UPSTREAM k] header_get_once [OF assms(1) that]
    by (simp add: u_def relay_request_def buildUpstreamHeaders_def)
  have k: "js ''authorization'' \<notin> set STRIP_TO_UPSTREAM" "js ''cookie'' \<in> set STRIP_TO_UPSTREAM"
    "js ''set-cookie'' \<in> set STRIP_FROM_UPSTREAM"
    by (auto simp: STRIP_TO_UPSTREAM_def STRIP_FROM_UPSTREAM_def)
  have n: "js ''authorization'' \<noteq> js ''set-cookie''" "js ''cookie'' \<noteq> js ''set-cookie''" by simp_all
  have c: "buildClientHeaders up = filter (\<lambda>(k, v). k \<notin> set STRIP_FROM_UPSTREAM) (p_headers up)"
    if "h_fetch env l = Fetched up" for l up
    using assms(2) that k(3) by (simp add: buildClientHeaders_def header_list_kept)
  have u: "u_url u = url" "u_method u = q_method c"
    "u_body u = (if q_method c \<in> {js ''GET'', js ''HEAD''} then None else Some (q_body c))"
    by (simp_all add: u_def relay_request_def)
  define r where "r = (case h_fetch env (sent s @ [u]) of
       FetchAborted \<Rightarrow> bad_gateway ''gateway_timeout'' | FetchFailed \<Rightarrow> bad_gateway ''gateway_unreachable''
     | Fetched up \<Rightarrow> \<lparr>r_status = p_status up, r_headers = buildClientHeaders up, r_cookies = [],
                     r_body = RawBody (p_body up)\<rparr>)"
  have s: "relay env cf c url isStream s = (Inr r, s\<lparr>sent := sent s @ [u]\<rparr>)"
    by (simp add: relay_def monad_simps send_upstream_def u_def [symmetric] r_def)
  have "case h_fetch env (sent s @ [u]) of
         Fetched up \<Rightarrow> r_status r = p_status up \<and> r_body r = RawBody (p_body up)
           \<and> r_headers r = filter (\<lambda>(k, v). k \<notin> set STRIP_FROM_UPSTREAM) (p_headers up)
           \<and> map_of (r_headers r) (js ''set-cookie'') = None \<and> r_cookies r = []
       | _ \<Rightarrow> r_status r = 502"
    by (cases "h_fetch env (sent s @ [u])") (simp_all add: r_def c f k bad_gateway_def json_response_def)
  then show ?thesis
    by (intro exI [of _ u] exI [of _ r]) (use s u h [OF n(1)] h [OF n(2)] h k in simp)
qed

text \<open>A sample platform: every pattern of the application matches literally or by its prefix, the
  network answers every request with one header.\<close>

definition sample_match :: "jsstring option \<Rightarrow> jsstring \<Rightarrow> jsstring \<Rightarrow> jsstring \<Rightarrow> (jsstring \<times> jsstring) list option" where
  "sample_match m pat meth path =
     (if m \<noteq> None \<and> m \<noteq> Some meth then None
      else if pat = path \<or> pat = js ''*'' \<or> pat = js ''/*'' then Some []
      else if pat = js ''/api/caladon/:name'' \<and> prefix (js ''/api/caladon/'') path
        then Some [(js ''name'', drop 13 path)]
      else None)"

definition sample_shim :: shim_env where
  "sample_shim = \<lparr>h_match = sample_match, h_cors = (\<lambda>_ _ next. next), h_getCookie = (\<lambda>_ _. None),
     h_static = (\<lambda>_ path _. map_option (\<lambda>p. json_response JNull 200) path), h_inherited = (\<lambda>_. None),
     h_fetch = (\<lambda>_. Fetched \<lparr>p_status = 200, p_statusText = [], p_headers = [(js ''set-cookie'', js ''a=1''), (js ''set-cookie'', js ''b=2'')], p_body = [1]\<rparr>),
     h_now = int, h_random = (\<lambda>_. []), h_base64url = (\<lambda>_. []), h_parse = (\<lambda>_. None)\<rparr>"

definition sample_request :: http_request where
  "sample_request = \<lparr>q_method = js ''POST'', q_path = js ''/api/caladon/chat'', q_search = [],
     q_headers = [(js ''authorization'', js ''Caladon x''), (js ''cookie'', js ''y'')], q_body = [7]\<rparr>"

lemma lower_js: "to_lower (js s) = js s" if "\<forall>c\<in>set s. \<not> (65 \<le> (of_char c :: nat) \<and> (of_char c :: nat) \<le> 90)"
  using that by (auto simp: to_lower_def js_def)

theorem relay_is_opaque_witness:
  "\<exists>u r. relay sample_shim (read_config (\<lambda>_. None)) sample_request (js ''u'') True \<lparr>sent = [], modelsCache = None, drawn = 0\<rparr>
      = (Inr r, \<lparr>sent = [u], modelsCache = None, drawn = 0\<rparr>)
    \<and> u_body u = Some [7] \<and> map_of (u_headers u) (js ''authorization'') = Some (js ''Caladon x'')
    \<and> map_of (u_headers u) (js ''cookie'') = None"
proof -
  have a: "header_list (q_headers sample_request)"
    by (simp add: header_list_def sample_request_def lower_js)
  have b: "\<forall>l r. h_fetch sample_shim l = Fetched r \<longrightarrow> header_list (p_headers r)"
    by (auto simp: sample_shim_def header_list_def lower_js)
  have q: "q_body sample_request = [7]" "q_method sample_request = js ''POST''"
    "map_of (q_headers sample_request) (js ''authorization'') = Some (js ''Caladon x'')"
    by (simp_all add: sample_request_def)
  show ?thesis
    using relay_is_opaque [OF a b, of "read_config (\<lambda>_. None)" "js ''u''" True
        "\<lparr>sent = [], modelsCache = None, drawn = 0\<rparr>"]
  proof (elim exE conjE, goal_cases)
    case (1 u r)
    have "relay sample_shim (read_config (\<lambda>_. None)) sample_request (js ''u'') True \<lparr>sent = [], modelsCache = None, drawn = 0\<rparr>
      = (Inr r, \<lparr>sent = [u], modelsCache = None, drawn = 0\<rparr>)" using 1(1) by simp
    moreover have "u_body u = Some [7]" using 1(4) q by simp
    ultimately show ?case using 1(5,6) q(3) by metis
  qed
qed

subsection \<open>What the shim sends\<close>

text \<open>The targets a request to the shim can have: the gateway on one of the relayed paths (or one
  inherited by the route table), the gateway's own public paths, Intel's PCS and the root CRL.\<close>

definition upstream_target :: "shim_env \<Rightarrow> shim_config \<Rightarrow> up_request \<Rightarrow> bool" where
  "upstream_target env cf u \<longleftrightarrow>
     (\<exists>n p q. route_of env n = Some p \<and> u_url u = gatewayBase cf @ p @ q)
     \<or> u_url u = gatewayBase cf @ js ''/health'' \<or> u_url u = strip_slash (gatewayBase cf) @ js ''/v1/models''
     \<or> prefix (pcsBase cf) (u_url u) \<or> u_url u = rootCaCrlUrl cf"

definition sends_only :: "(up_request \<Rightarrow> bool) \<Rightarrow> up_request list \<Rightarrow> shim_state \<Rightarrow> bool" where
  "sends_only Q l s \<longleftrightarrow> (\<exists>new. sent s = l @ new \<and> (\<forall>u\<in>set new. Q u))"

lemma keeps_send: "Q u \<Longrightarrow> keeps (sends_only Q l) (send_upstream env u)"
  by (auto simp: keeps_def send_upstream_def sends_only_def)

lemma keeps_shim_draw: "keeps (sends_only Q l) draw_shim"
  by (auto simp: keeps_def draw_shim_def sends_only_def)

lemma keeps_own: "(\<And>n. Q (own_get url n)) \<Longrightarrow> keeps (sends_only Q l) (own_fetch env url t)"
  unfolding own_fetch_def by (auto split: option.splits intro: keeps_send)

definition no_cookie :: "up_request \<Rightarrow> bool" where
  "no_cookie u \<longleftrightarrow> map_of (u_headers u) (js ''cookie'') = None"

definition clean_target :: "shim_env \<Rightarrow> shim_config \<Rightarrow> up_request \<Rightarrow> bool" where
  "clean_target env cf u \<longleftrightarrow> upstream_target env cf u \<and> no_cookie u"

lemma relayed_no_cookie: "header_list (q_headers c) \<Longrightarrow> no_cookie (relay_request cf c url st)"
proof -
  assume h: "header_list (q_headers c)"
  have "js ''cookie'' \<in> set STRIP_TO_UPSTREAM" by (simp add: STRIP_TO_UPSTREAM_def)
  then show ?thesis
    using h by (simp add: no_cookie_def relay_request_def buildUpstreamHeaders_def header_list_def map_of_copied)
qed

lemma keeps_relay:
  assumes "header_list (q_headers c)" "\<And>u. u_url u = url \<Longrightarrow> upstream_target env cf u"
  shows "keeps (sends_only (clean_target env cf) l) (relay env cf c url st)"
proof -
  have "u_url (relay_request cf c url st) = url" by (simp add: relay_request_def)
  then have "clean_target env cf (relay_request cf c url st)"
    using assms(2) relayed_no_cookie [OF assms(1)] unfolding clean_target_def by blast
  then show ?thesis unfolding relay_def by (intro keeps_andThen keeps_send keeps_ret)
qed

lemma keeps_handlers:
  assumes h: "header_list (q_headers c)"
    and cors: "\<And>P opts nxt. keeps P nxt \<Longrightarrow> keeps P (h_cors env opts c nxt)"
    and nxt: "keeps (sends_only (clean_target env cf) l) nxt"
  shows "keeps (sends_only (clean_target env cf) l) (run_handler env cf hnd ps c nxt)"
proof -
  have own: "keeps (sends_only (clean_target env cf) l) (own_fetch env url t)"
    if "\<And>u. u_url u = url \<Longrightarrow> upstream_target env cf u" for url t
    using that by (intro keeps_own) (simp add: clean_target_def no_cookie_def own_get_def)
  have st: "keeps (sends_only (clean_target env cf) l) (serve_static env cf p c nxt)" for p
    unfolding serve_static_def using nxt by (auto split: option.splits)
  have caladon: "keeps (sends_only (clean_target env cf) l) (handleCaladon env cf c ps)"
    unfolding handleCaladon_def Let_def
    by (auto split: option.splits intro!: keeps_relay h) (auto simp: upstream_target_def)
  have mod: "keeps (sends_only (clean_target env cf) l) (models env cf)"
  proof -
    have cache: "keeps (sends_only Q l) (\<lambda>s. ret () (s\<lparr>modelsCache := v\<rparr>))" for Q v
      by (simp add: keeps_def ret_def sends_only_def)
    have rf: "keeps (sends_only (clean_target env cf) l) (refresh_models env cf now)" for now
      unfolding refresh_models_def
      by (intro keeps_andThen own) (auto simp: upstream_target_def cache split: fetch_result.splits option.splits)
    have "keeps (sends_only (clean_target env cf) l)
        (\<lambda>s. if cache_stale now s then refresh_models env cf now s else ret () s)" for now
      using keepsD [OF rf] by (simp add: keeps_def ret_def)
    moreover have "keeps (sends_only (clean_target env cf) l) (\<lambda>s. ret (g s) s)" for g :: "shim_state \<Rightarrow> shim_response"
      by (simp add: keeps_def ret_def)
    ultimately show ?thesis unfolding models_def Let_def by (intro keeps_andThen keeps_shim_draw)
  qed
  show ?thesis
  proof (cases hnd)
    case IssueCookie
    then show ?thesis using nxt
      by (auto simp: issue_cookie_def intro!: keeps_andThen keeps_shim_draw)
  next
    case StampHeaders
    then show ?thesis using nxt by (auto simp: stamp_headers_def intro!: keeps_andThen)
  next
    case SpaFallback
    then show ?thesis using nxt st by (simp add: spa_fallback_def)
  next
    case Health
    then show ?thesis by (auto simp: health_def upstream_target_def intro!: keeps_andThen own)
  next
    case RootCaCrl
    then show ?thesis by (auto simp: rootCaCrl_def upstream_target_def intro!: keeps_andThen own)
  next
    case PcsCollateral
    then show ?thesis
      by (auto simp: pcsCollateral_def upstream_target_def intro!: keeps_relay h)
  qed (simp_all add: cors nxt st caladon mod keeps_ret)
qed

text \<open>Every request the shim makes upstream while it answers one from the browser goes to the
  gateway on a path of the route table or one of the gateway's two public paths, to Intel's PCS or
  to the root CRL, and none carries a cookie.\<close>

theorem shim_sends_only_upstream:
  assumes "header_list (q_headers c)" and "\<forall>P opts nxt. keeps P nxt \<longrightarrow> keeps P (h_cors env opts c nxt)"
  shows "\<exists>new. sent (snd (shim_fetch env cf c s)) = sent s @ new
    \<and> (\<forall>u\<in>set new. upstream_target env cf u \<and> map_of (u_headers u) (js ''cookie'') = None)"
proof -
  have cors: "\<And>P opts nxt. keeps P nxt \<Longrightarrow> keeps P (h_cors env opts c nxt)" using assms(2) by blast
  have "keeps (sends_only (clean_target env cf) l) (run_app env cf gs c)" for l gs
    by (induction gs) (auto split: option.splits intro!: keeps_handlers [OF assms(1) cors])
  then have "sends_only (clean_target env cf) (sent s) (snd (shim_fetch env cf c s))"
    unfolding shim_fetch_def by (rule keepsD) (simp add: sends_only_def)
  then show ?thesis by (auto simp: sends_only_def clean_target_def no_cookie_def)
qed

theorem shim_sends_only_upstream_witness:
  "\<exists>new. sent (snd (shim_fetch sample_shim (read_config (\<lambda>_. None)) sample_request \<lparr>sent = [], modelsCache = None, drawn = 0\<rparr>)) = new
    \<and> (\<forall>u\<in>set new. map_of (u_headers u) (js ''cookie'') = None)"
proof -
  have a: "header_list (q_headers sample_request)"
    by (simp add: header_list_def sample_request_def lower_js)
  have b: "\<forall>P opts nxt. keeps P nxt \<longrightarrow> keeps P (h_cors sample_shim opts sample_request nxt)"
    by (simp add: sample_shim_def)
  show ?thesis
    using shim_sends_only_upstream [OF a b, of "read_config (\<lambda>_. None)" "\<lparr>sent = [], modelsCache = None, drawn = 0\<rparr>"]
    by auto
qed

subsection \<open>Composition with the SDK\<close>

text \<open>For every route the table relays, whatever query the SDK appends, the upstream URL is the
  gateway's base with the path the SDK signs (the path it strips its own query from) and the same
  query, so the gateway verifies the signature over the path it is asked for.\<close>

theorem relayed_path_is_signed_path:
  assumes "map_of ROUTE_MAP name = Some p" and "c2 = [] \<or> take 1 c2 = js ''?''"
    and "map_of params (js ''name'') = Some name" and "q_search c = c2"
  shows "p = js ''/v1/'' @ name \<and> sign_path (js ''/v1/'' @ name @ c2) = p
    \<and> handleCaladon env cf c params = relay env cf c (gatewayBase cf @ sign_path (js ''/v1/'' @ name @ c2) @ c2) (name = js ''chat'')"
proof -
  have p: "p = js ''/v1/'' @ name" using map_of_SomeD [OF assms(1)] by (auto simp: ROUTE_MAP_def)
  have q: "of_char (CHR ''?'') \<notin> set p" using map_of_SomeD [OF assms(1)] by (auto simp: ROUTE_MAP_def js_def)
  have t: "takeWhile (\<lambda>x. x \<noteq> of_char (CHR ''?'')) c2 = []"
    using assms(2) by (cases c2) (auto simp: js_def)
  have "sign_path (p @ c2) = p" unfolding sign_path_def
    by (subst takeWhile_append2) (use q t in auto)
  then have s: "sign_path (js ''/v1/'' @ name @ c2) = p" by (simp add: p)
  show ?thesis
    using p s assms by (simp add: handleCaladon_def route_of_def)
qed

theorem relayed_path_is_signed_path_witness:
  "sign_path (js ''/v1/'' @ js ''attestation'' @ js ''?challenge=x'') = js ''/v1/attestation''"
  using relayed_path_is_signed_path [of "js ''attestation''" "js ''/v1/attestation''" "js ''?challenge=x''"
      "[(js ''name'', js ''attestation'')]" "sample_request\<lparr>q_search := js ''?challenge=x''\<rparr>"]
  by (simp add: ROUTE_MAP_def js_def)

text \<open>The text the shim answers with for the root CRL is decoded by the SDK to the DER bytes the
  shim fetched.\<close>

theorem root_crl_through_shim:
  assumes "h_fetch env (sent s @ [own_get (rootCaCrlUrl cf) t]) = Fetched r" and "up_ok r"
    and "upstreamTimeoutMs cf = Some t" and "0 \<le> t"
  shows "\<exists>resp txt. fst (rootCaCrl env cf s) = Inr resp \<and> r_status resp = 200 \<and> r_body resp = TextBody txt
    \<and> decode_root_crl (fromUtf8 (utf8 txt)) = p_body r"
  using assms by (simp add: rootCaCrl_def own_fetch_def send_upstream_def monad_simps root_crl_text)

theorem root_crl_through_shim_witness:
  "\<exists>resp. fst (rootCaCrl sample_shim ((read_config (\<lambda>_. None))\<lparr>upstreamTimeoutMs := Some 5\<rparr>)
      \<lparr>sent = [], modelsCache = None, drawn = 0\<rparr>) = Inr resp \<and> r_status resp = 200"
  using root_crl_through_shim [of sample_shim "\<lparr>sent = [], modelsCache = None, drawn = 0\<rparr>"
      "(read_config (\<lambda>_. None))\<lparr>upstreamTimeoutMs := Some 5\<rparr>" 5]
  by (auto simp: sample_shim_def up_ok_def)

subsection \<open>The model list\<close>

text \<open>The model list is an object with the one key the client's endpoint has, never an empty list,
  whatever the gateway does; the gateway is asked at most once per call and not at all while the
  cache is younger than its time to live, and only a good answer replaces the cache.\<close>

theorem models_fail_open:
  "\<exists>ids new. models env cf s = (Inr (json_response (JObj [(CALADON_ENDPOINT, JArr (map JStr ids))]) 200),
        s\<lparr>sent := sent s @ new, drawn := Suc (drawn s),
          modelsCache := modelsCache (snd (models env cf s))\<rparr>)
    \<and> ids \<noteq> [] \<and> length new \<le> 1
    \<and> (\<not> cache_stale (h_now env (drawn s)) s \<longrightarrow> new = [])
    \<and> (modelsCache (snd (models env cf s)) = modelsCache s
       \<or> (\<exists>is. modelsCache (snd (models env cf s)) = Some (h_now env (drawn s), is)))"
proof -
  let ?now = "h_now env (drawn s)"
  have ne: "models_of s \<noteq> []" for s
    by (auto simp: models_of_def CALADON_MODELS_def split: option.splits list.splits)
  define s1 where "s1 = s\<lparr>drawn := Suc (drawn s)\<rparr>"
  have st: "cache_stale ?now s1 = cache_stale ?now s" by (simp add: cache_stale_def s1_def)
  define q where "q = own_get (strip_slash (gatewayBase cf) @ js ''/v1/models'') 10000"
  define c0 where "c0 = (case h_fetch env (sent s @ [q]) of
       Fetched r \<Rightarrow> if up_ok r then (case Option.bind (h_parse env (fromUtf8 (p_body r))) model_ids of
           Some ids \<Rightarrow> Some (?now, ids) | None \<Rightarrow> modelsCache s) else modelsCache s
     | _ \<Rightarrow> modelsCache s)"
  have "refresh_models env cf ?now s1 = (Inr (), s1\<lparr>sent := sent s @ [q], modelsCache := c0\<rparr>)"
    by (simp add: refresh_models_def own_fetch_def send_upstream_def monad_simps s1_def q_def [symmetric] c0_def
        split: fetch_result.splits option.splits)
  moreover have "c0 = modelsCache s \<or> (\<exists>is. c0 = Some (?now, is))"
    by (auto simp: c0_def split: fetch_result.splits option.splits)
  ultimately have r: "\<exists>new c. refresh_models env cf ?now s1 = (Inr (), s1\<lparr>sent := sent s @ new, modelsCache := c\<rparr>)
      \<and> length new \<le> 1 \<and> (c = modelsCache s \<or> (\<exists>is. c = Some (?now, is)))"
    by (metis One_nat_def length_Cons list.size(3) order_refl)
  define upd where "upd = (if cache_stale ?now s1 then refresh_models env cf ?now s1 else ret () s1)"
  obtain new c where u: "upd = (Inr (), s1\<lparr>sent := sent s @ new, modelsCache := c\<rparr>)" "length new \<le> 1"
    "\<not> cache_stale ?now s \<longrightarrow> new = []" "c = modelsCache s \<or> (\<exists>is. c = Some (?now, is))"
  proof (cases "cache_stale ?now s")
    case True
    then show ?thesis using r that st by (auto simp: upd_def)
  next
    case False
    have "s1 = s1\<lparr>sent := sent s @ [], modelsCache := modelsCache s\<rparr>" by (simp add: s1_def)
    then show ?thesis using False that [where new = "[]" and c = "modelsCache s"] st by (simp add: upd_def ret_def)
  qed
  let ?t = "s1\<lparr>sent := sent s @ new, modelsCache := c\<rparr>"
  have m: "models env cf s = (Inr (json_response (JObj [(CALADON_ENDPOINT, JArr (map JStr (models_of ?t)))]) 200), ?t)"
    using u(1) [unfolded upd_def]
    by (simp add: models_def draw_shim_def monad_simps Let_def s1_def [symmetric] split del: if_split)
  show ?thesis
    unfolding m by (rule exI [of _ "models_of ?t"], rule exI [of _ new])
      (use ne u in \<open>simp add: s1_def\<close>)
qed

theorem models_fail_open_witness:
  "\<exists>ids. fst (models (sample_shim\<lparr>h_fetch := (\<lambda>_. FetchFailed)\<rparr>) (read_config (\<lambda>_. None))
      \<lparr>sent = [], modelsCache = Some (0, []), drawn = 0\<rparr>) = Inr (json_response (JObj [(CALADON_ENDPOINT, JArr (map JStr ids))]) 200)
    \<and> ids \<noteq> []"
  using models_fail_open [of "sample_shim\<lparr>h_fetch := (\<lambda>_. FetchFailed)\<rparr>" "read_config (\<lambda>_. None)"
      "\<lparr>sent = [], modelsCache = Some (0, []), drawn = 0\<rparr>"] by (metis fst_conv)

subsection \<open>The front door\<close>

definition header_get :: "jsstring \<Rightarrow> headers \<Rightarrow> jsstring option" where
  "header_get k hs = map_of (map (\<lambda>(a, b). (to_lower a, b)) hs) (to_lower k)"

lemma header_get_set: "header_get k (header_set k' v hs) = (if to_lower k = to_lower k' then Some v else header_get k hs)"
  by (induction k' v hs rule: header_set.induct) (auto simp: header_get_def)

text \<open>The front door never answers a path of the API or of the collateral proxy with the page: when
  no file has that path the answer is a 404. Every other path it sees is answered with the
  content security policy and the other security headers set.\<close>

theorem front_door_spares_api:
  assumes "staticDir cf \<noteq> []"
    and "\<forall>m p. h_match env m p (js ''GET'') (q_path c) \<noteq> None" and "q_method c = js ''GET''"
  shows "(is_api (q_path c) \<and> h_static env (staticDir cf) None c = None \<longrightarrow>
        (\<exists>r. run_app env cf (front_door cf) c s = (Inr r, s) \<and> r_status r = 404 \<and> r_body r = TextBody (js ''404 Not Found'')))
    \<and> (\<not> is_api (q_path c) \<longrightarrow>
        (\<exists>r. run_app env cf (front_door cf) c s = (Inr r, s)
           \<and> header_get (js ''content-security-policy'') (r_headers r) = Some CONTENT_SECURITY_POLICY
           \<and> header_get (js ''cross-origin-embedder-policy'') (r_headers r) = Some (js ''require-corp'')))"
proof -
  let ?rest = "run_app env cf [app_use ''/*'' ServeStatic, app_get ''*'' SpaFallback] c"
  have all: "\<exists>ps. h_match env m p (js ''GET'') (q_path c) = Some ps" for m p using assms(2) by simp
  obtain a b d where abd: "h_match env None (js ''/*'') (js ''GET'') (q_path c) = Some a"
    "h_match env (Some (js ''GET'')) (js ''*'') (js ''GET'') (q_path c) = Some b" using all by blast
  have run: "run_app env cf (front_door cf) c = stamp_headers c ?rest"
    using assms(1,3) abd by (simp add: front_door_def app_use_def app_get_def)
  have rest: "\<exists>r. ?rest s = (Inr r, s)"
    using assms(3) abd by (auto simp: app_use_def app_get_def serve_static_def spa_fallback_def ret_def split: option.splits)
  have low: "to_lower (js ''Content-Security-Policy'') = js ''content-security-policy''"
    "to_lower (js ''Cross-Origin-Embedder-Policy'') = js ''cross-origin-embedder-policy''"
    by (simp_all add: to_lower_def js_def)
  have h: "header_get (js ''content-security-policy'') (r_headers (setSecurityHeaders r)) = Some CONTENT_SECURITY_POLICY"
    "header_get (js ''cross-origin-embedder-policy'') (r_headers (setSecurityHeaders r)) = Some (js ''require-corp'')" for r
    by (simp_all add: setSecurityHeaders_def security_headers_def header_get_set to_lower_def js_def)
  show ?thesis
    using rest h
    by (auto simp: run stamp_headers_def monad_simps)
      (use assms abd in \<open>auto simp: app_use_def app_get_def serve_static_def spa_fallback_def ret_def\<close>)
qed

theorem front_door_spares_api_witness:
  "\<exists>r. run_app (sample_shim\<lparr>h_match := (\<lambda>_ _ _ _. Some [])\<rparr>) ((read_config (\<lambda>_. None))\<lparr>staticDir := js ''d''\<rparr>)
      (front_door ((read_config (\<lambda>_. None))\<lparr>staticDir := js ''d''\<rparr>))
      (sample_request\<lparr>q_method := js ''GET''\<rparr>) \<lparr>sent = [], modelsCache = None, drawn = 0\<rparr>
    = (Inr r, \<lparr>sent = [], modelsCache = None, drawn = 0\<rparr>) \<and> r_status r = 404"
  using front_door_spares_api [of "(read_config (\<lambda>_. None))\<lparr>staticDir := js ''d''\<rparr>"
      "sample_shim\<lparr>h_match := (\<lambda>_ _ _ _. Some [])\<rparr>" "sample_request\<lparr>q_method := js ''GET''\<rparr>"
      "\<lparr>sent = [], modelsCache = None, drawn = 0\<rparr>"]
  by (auto simp: sample_shim_def sample_request_def is_api_def js_def)

end
