(* ===== verification/StoreProxy.thy ===== *)
theory StoreProxy
  imports StoreTurns "HOL-Library.Multiset"
begin

text \<open>
  The page's side of the device store: \<open>lib/store/client.ts\<close> (the proxy, its pending map, opening,
  the operations, teardown) and \<open>lib/store/kdf.ts\<close>. A step is what the page or the worker does in one
  turn of the event loop, with the promise continuations it starts; the log of posted messages and
  the log of settled promises are part of the state, so that ordering and losses can be stated.
  A promise is a number. The clock is a parameter.
\<close>

subsection \<open>State\<close>

datatype proxy_error =
    WorkerSaid serror
  | WorkerFailed jsstring
  | ProxyTerminated

datatype outcome = Resolved response_body | Rejected proxy_error

text \<open>What runs when a pending request is answered: \<open>openStore\<close> after its INIT, or the operation's own promise.\<close>

datatype continuation = KInit | KOp

datatype ready = Waiting | Opened | Failed proxy_error

text \<open>\<open>singleton\<close> is the proxy object whose fields follow; a null singleton is a proxy as the
  constructor makes it. \<open>waiting\<close> holds the operations that await \<open>ready\<close>, with the request each then
  sends (None: a promise that only adopts \<open>ready\<close>).\<close>

record page =
  worker :: "nat option"
  pending :: "(jsstring \<times> nat \<times> continuation) list"
  opened_flag :: bool
  ready_of :: ready
  waiting :: "(nat \<times> request_body option) list"
  counter :: nat
  spawned :: nat
  posted :: "(nat \<times> StoreRequest) list"
  settled :: "(nat \<times> outcome) list"
  next_promise :: nat

definition new_page :: page where
  "new_page = \<lparr>worker = None, pending = [], opened_flag = False, ready_of = Waiting, waiting = [],
     counter = 0, spawned = 0, posted = [], settled = [], next_promise = 0\<rparr>"

definition MAX_SAFE_INTEGER :: nat where "MAX_SAFE_INTEGER = 9007199254740991"

text \<open>\<open>stamp\<close> gives \<open>Date.now().toString(36)\<close> at the moment the counter has a value.\<close>

definition request_id :: "(nat \<Rightarrow> jsstring) \<Rightarrow> nat \<Rightarrow> jsstring" where
  "request_id stamp n = js ''r'' @ decimal n @ js ''_'' @ stamp n"

definition nextRequestId :: "(nat \<Rightarrow> jsstring) \<Rightarrow> page \<Rightarrow> jsstring \<times> page" where
  "nextRequestId stamp pg =
     (let n = (counter pg + 1) mod MAX_SAFE_INTEGER in (request_id stamp n, pg\<lparr>counter := n\<rparr>))"

subsection \<open>Sending and settling\<close>

definition ensureWorker :: "page \<Rightarrow> nat \<times> page" where
  "ensureWorker pg =
     (case worker pg of
        Some w \<Rightarrow> (w, pg)
      | None \<Rightarrow> (spawned pg, pg\<lparr>worker := Some (spawned pg), spawned := Suc (spawned pg)\<rparr>))"

text \<open>\<open>Map.set\<close> and \<open>Map.delete\<close> on a map in insertion order.\<close>

definition map_set :: "'k \<Rightarrow> 'v \<Rightarrow> ('k \<times> 'v) list \<Rightarrow> ('k \<times> 'v) list" where
  "map_set k v m = (if k \<in> fst ` set m then map (\<lambda>e. if fst e = k then (k, v) else e) m else m @ [(k, v)])"

definition map_delete :: "'k \<Rightarrow> ('k \<times> 'v) list \<Rightarrow> ('k \<times> 'v) list" where
  "map_delete k m = filter (\<lambda>e. fst e \<noteq> k) m"

definition send :: "(nat \<Rightarrow> jsstring) \<Rightarrow> nat \<Rightarrow> continuation \<Rightarrow> request_body \<Rightarrow> page \<Rightarrow> page" where
  "send stamp p k body pg =
     (let (rid, pg1) = nextRequestId stamp pg; (w, pg2) = ensureWorker pg1
      in pg2\<lparr>pending := map_set rid (p, k) (pending pg2),
             posted := posted pg2 @ [(w, \<lparr>sq_requestId = rid, sq_body = body\<rparr>)]\<rparr>)"

definition settle :: "nat \<Rightarrow> outcome \<Rightarrow> page \<Rightarrow> page" where
  "settle p out pg = pg\<lparr>settled := settled pg @ [(p, out)]\<rparr>"

definition new_promise :: "page \<Rightarrow> nat \<times> page" where
  "new_promise pg = (next_promise pg, pg\<lparr>next_promise := Suc (next_promise pg)\<rparr>)"

text \<open>The promise of an \<open>async\<close> function that returns \<open>this.ready\<close>.\<close>

definition adopt :: "nat \<Rightarrow> page \<Rightarrow> page" where
  "adopt p pg =
     (case ready_of pg of
        Opened \<Rightarrow> settle p (Resolved (OK None)) pg
      | Failed e \<Rightarrow> settle p (Rejected e) pg
      | Waiting \<Rightarrow> pg\<lparr>waiting := waiting pg @ [(p, None)]\<rparr>)"

text \<open>\<open>resolveReady\<close> and \<open>rejectReady\<close> of the current promise: the second settling of a promise does nothing.\<close>

definition wake :: "(nat \<Rightarrow> jsstring) \<Rightarrow> nat \<times> request_body option \<Rightarrow> page \<Rightarrow> page" where
  "wake stamp e pg =
     (case snd e of Some body \<Rightarrow> send stamp (fst e) KOp body pg | None \<Rightarrow> settle (fst e) (Resolved (OK None)) pg)"

definition resolveReady :: "(nat \<Rightarrow> jsstring) \<Rightarrow> page \<Rightarrow> page" where
  "resolveReady stamp pg =
     (if ready_of pg = Waiting
      then fold (wake stamp) (waiting pg) (pg\<lparr>ready_of := Opened, waiting := []\<rparr>) else pg)"

definition settle_all :: "outcome \<Rightarrow> nat list \<Rightarrow> page \<Rightarrow> page" where
  "settle_all out ps pg = pg\<lparr>settled := settled pg @ map (\<lambda>p. (p, out)) ps\<rparr>"

definition rejectReady :: "proxy_error \<Rightarrow> page \<Rightarrow> page" where
  "rejectReady e pg =
     (if ready_of pg = Waiting
      then settle_all (Rejected e) (map fst (waiting pg)) (pg\<lparr>ready_of := Failed e, waiting := []\<rparr>) else pg)"

definition continue :: "(nat \<Rightarrow> jsstring) \<Rightarrow> outcome \<Rightarrow> nat \<times> continuation \<Rightarrow> page \<Rightarrow> page" where
  "continue stamp out e pg =
     (case snd e of
        KOp \<Rightarrow> settle (fst e) out pg
      | KInit \<Rightarrow>
          (case out of
             Resolved _ \<Rightarrow> adopt (fst e) (resolveReady stamp (pg\<lparr>opened_flag := True\<rparr>))
           | Rejected err \<Rightarrow> rejectReady err (settle (fst e) (Rejected err) pg)))"

subsection \<open>The operations of the page\<close>

definition openStore :: "(nat \<Rightarrow> jsstring) \<Rightarrow> jsstring \<Rightarrow> page \<Rightarrow> page" where
  "openStore stamp hexKey pg =
     (let (p, pg1) = new_promise pg
      in if opened_flag pg1 then adopt p pg1 else send stamp p KInit (INIT hexKey) pg1)"

text \<open>Every operation awaits \<open>ready\<close> and then sends its request.\<close>

definition call_op :: "(nat \<Rightarrow> jsstring) \<Rightarrow> request_body \<Rightarrow> page \<Rightarrow> page" where
  "call_op stamp body pg =
     (let (p, pg1) = new_promise pg
      in case ready_of pg1 of
           Opened \<Rightarrow> send stamp p KOp body pg1
         | Failed e \<Rightarrow> settle p (Rejected e) pg1
         | Waiting \<Rightarrow> pg1\<lparr>waiting := waiting pg1 @ [(p, Some body)]\<rparr>)"

text \<open>The requests of the methods, with their default arguments.\<close>

definition proxy_persistTurn :: "(nat \<Rightarrow> jsstring) \<Rightarrow> jsstring \<Rightarrow> StoredMessage \<Rightarrow> StoredMessage \<Rightarrow> StoredConversation \<Rightarrow> page \<Rightarrow> page" where
  "proxy_persistTurn stamp cid u a c = call_op stamp (PERSIST_TURN cid u a c)"

definition proxy_hydrate :: "(nat \<Rightarrow> jsstring) \<Rightarrow> jsstring \<Rightarrow> page \<Rightarrow> page" where
  "proxy_hydrate stamp cid = call_op stamp (HYDRATE_CONVO cid)"

definition proxy_listConversations :: "(nat \<Rightarrow> jsstring) \<Rightarrow> int option \<Rightarrow> jsnum option \<Rightarrow> page \<Rightarrow> page" where
  "proxy_listConversations stamp limit cursor = call_op stamp (LIST_CONVOS (Some (nullish limit 50)) cursor)"

definition proxy_forkConversation :: "(nat \<Rightarrow> jsstring) \<Rightarrow> jsstring \<Rightarrow> jsstring \<Rightarrow> page \<Rightarrow> page" where
  "proxy_forkConversation stamp cid mid = call_op stamp (FORK cid mid)"

definition proxy_importChatExport :: "(nat \<Rightarrow> jsstring) \<Rightarrow> json option \<Rightarrow> page \<Rightarrow> page" where
  "proxy_importChatExport stamp j = call_op stamp (IMPORT j)"

definition proxy_deleteConversation :: "(nat \<Rightarrow> jsstring) \<Rightarrow> jsstring \<Rightarrow> page \<Rightarrow> page" where
  "proxy_deleteConversation stamp cid = call_op stamp (DELETE_CONVO cid)"

definition proxy_search :: "(nat \<Rightarrow> jsstring) \<Rightarrow> jsstring \<Rightarrow> int option \<Rightarrow> jsnum option \<Rightarrow> page \<Rightarrow> page" where
  "proxy_search stamp q limit cursor = call_op stamp (SEARCH q (Some (nullish limit 20)) cursor)"

definition proxy_storeVectors :: "(nat \<Rightarrow> jsstring) \<Rightarrow> jsstring \<Rightarrow> VectorChunk list \<Rightarrow> page \<Rightarrow> page" where
  "proxy_storeVectors stamp mid cs = call_op stamp (STORE_VECTORS mid cs)"

definition proxy_hydrateVectors :: "(nat \<Rightarrow> jsstring) \<Rightarrow> page \<Rightarrow> page" where
  "proxy_hydrateVectors stamp = call_op stamp HYDRATE_VECTORS"

definition proxy_upsertMemory :: "(nat \<Rightarrow> jsstring) \<Rightarrow> jsstring \<Rightarrow> jsstring \<Rightarrow> jsstring option \<Rightarrow> page \<Rightarrow> page" where
  "proxy_upsertMemory stamp k v prev = call_op stamp (UPSERT_MEMORY k v prev)"

definition proxy_deleteMemory :: "(nat \<Rightarrow> jsstring) \<Rightarrow> jsstring \<Rightarrow> page \<Rightarrow> page" where
  "proxy_deleteMemory stamp k = call_op stamp (DELETE_MEMORY k)"

definition proxy_listMemories :: "(nat \<Rightarrow> jsstring) \<Rightarrow> page \<Rightarrow> page" where
  "proxy_listMemories stamp = call_op stamp LIST_MEMORIES"

definition proxy_upsertAgent :: "(nat \<Rightarrow> jsstring) \<Rightarrow> StoredAgent \<Rightarrow> page \<Rightarrow> page" where
  "proxy_upsertAgent stamp a = call_op stamp (UPSERT_AGENT a)"

definition proxy_getAgent :: "(nat \<Rightarrow> jsstring) \<Rightarrow> jsstring \<Rightarrow> page \<Rightarrow> page" where
  "proxy_getAgent stamp k = call_op stamp (GET_AGENT k)"

definition proxy_listAgents :: "(nat \<Rightarrow> jsstring) \<Rightarrow> page \<Rightarrow> page" where
  "proxy_listAgents stamp = call_op stamp LIST_AGENTS"

definition proxy_deleteAgent :: "(nat \<Rightarrow> jsstring) \<Rightarrow> jsstring \<Rightarrow> page \<Rightarrow> page" where
  "proxy_deleteAgent stamp k = call_op stamp (DELETE_AGENT k)"

definition proxy_upsertSkill :: "(nat \<Rightarrow> jsstring) \<Rightarrow> StoredSkill \<Rightarrow> page \<Rightarrow> page" where
  "proxy_upsertSkill stamp a = call_op stamp (UPSERT_SKILL a)"

definition proxy_getSkill :: "(nat \<Rightarrow> jsstring) \<Rightarrow> jsstring \<Rightarrow> page \<Rightarrow> page" where
  "proxy_getSkill stamp k = call_op stamp (GET_SKILL k)"

definition proxy_listSkills :: "(nat \<Rightarrow> jsstring) \<Rightarrow> page \<Rightarrow> page" where
  "proxy_listSkills stamp = call_op stamp LIST_SKILLS"

definition proxy_deleteSkill :: "(nat \<Rightarrow> jsstring) \<Rightarrow> jsstring \<Rightarrow> page \<Rightarrow> page" where
  "proxy_deleteSkill stamp k = call_op stamp (DELETE_SKILL k)"

definition proxy_clearStore :: "(nat \<Rightarrow> jsstring) \<Rightarrow> page \<Rightarrow> page" where
  "proxy_clearStore stamp = call_op stamp CLEAR_ALL"

definition isOpen :: "page \<Rightarrow> bool" where
  "isOpen pg = opened_flag pg"

subsection \<open>Messages from the worker and teardown\<close>

definition outcome_of :: "response_body \<Rightarrow> outcome" where
  "outcome_of b = (case b of ERROR e \<Rightarrow> Rejected (WorkerSaid e) | _ \<Rightarrow> Resolved b)"

definition on_message :: "(nat \<Rightarrow> jsstring) \<Rightarrow> StoreResponse \<Rightarrow> page \<Rightarrow> page" where
  "on_message stamp res pg =
     (case map_of (pending pg) (sr_requestId res) of
        None \<Rightarrow> pg
      | Some e \<Rightarrow> continue stamp (outcome_of (sr_body res)) e
                    (pg\<lparr>pending := map_delete (sr_requestId res) (pending pg)\<rparr>))"

definition reject_pending :: "(nat \<Rightarrow> jsstring) \<Rightarrow> proxy_error \<Rightarrow> (jsstring \<times> nat \<times> continuation) list \<Rightarrow> page \<Rightarrow> page" where
  "reject_pending stamp err es pg = fold (\<lambda>e. continue stamp (Rejected err) (snd e)) es pg"

definition on_error :: "(nat \<Rightarrow> jsstring) \<Rightarrow> jsstring \<Rightarrow> page \<Rightarrow> page" where
  "on_error stamp message pg = reject_pending stamp (WorkerFailed message) (pending pg) (pg\<lparr>pending := []\<rparr>)"

text \<open>The fresh \<open>ready\<close> is installed before the continuations of the rejected requests run.\<close>

definition terminate :: "(nat \<Rightarrow> jsstring) \<Rightarrow> page \<Rightarrow> page" where
  "terminate stamp pg =
     settle_all (Rejected ProxyTerminated) (map fst (waiting pg))
       (reject_pending stamp ProxyTerminated (pending pg)
          (pg\<lparr>worker := None, pending := [], opened_flag := False, ready_of := Waiting, waiting := []\<rparr>))"

text \<open>\<open>resetStoreProxy\<close>: the torn-down object is dropped, the next \<open>getStoreProxy\<close> makes a new one.\<close>

definition resetStoreProxy :: "(nat \<Rightarrow> jsstring) \<Rightarrow> page \<Rightarrow> page" where
  "resetStoreProxy stamp pg = (terminate stamp pg)\<lparr>ready_of := Waiting, waiting := []\<rparr>"

datatype page_event =
    Open_store jsstring
  | Call request_body
  | Message StoreResponse
  | Worker_error jsstring
  | Terminate
  | Reset

fun page_step :: "(nat \<Rightarrow> jsstring) \<Rightarrow> page_event \<Rightarrow> page \<Rightarrow> page" where
  "page_step stamp (Open_store k) = openStore stamp k"
| "page_step stamp (Call body) = call_op stamp body"
| "page_step stamp (Message res) = on_message stamp res"
| "page_step stamp (Worker_error m) = on_error stamp m"
| "page_step stamp Terminate = terminate stamp"
| "page_step stamp Reset = resetStoreProxy stamp"

definition run_page :: "(nat \<Rightarrow> jsstring) \<Rightarrow> page_event list \<Rightarrow> page \<Rightarrow> page" where
  "run_page stamp evs pg = fold (page_step stamp) evs pg"

inductive page_reach :: "(nat \<Rightarrow> jsstring) \<Rightarrow> page \<Rightarrow> bool" for stamp where
  start: "page_reach stamp new_page"
| step: "page_reach stamp pg \<Longrightarrow> page_reach stamp (page_step stamp ev pg)"

subsection \<open>Key derivation\<close>

text \<open>\<open>kdf.ts\<close>: the hexadecimal form of \<open>device_store_key(root)\<close>, and the raw bytes after \<open>fill(0)\<close>.\<close>

definition deriveStoreKeyHexFrom :: "(bytes \<Rightarrow> bytes) \<Rightarrow> bytes \<Rightarrow> jsstring \<times> bytes" where
  "deriveStoreKeyHexFrom device_store_key secret =
     (let raw = device_store_key secret in (toHex raw, replicate (length raw) 0))"

definition deriveStoreKeyHex :: "(jsstring + (bytes \<Rightarrow> bytes)) \<Rightarrow> bytes \<Rightarrow> jsstring + jsstring" where
  "deriveStoreKeyHex loaded secret =
     (case loaded of Inl e \<Rightarrow> Inl e | Inr device_store_key \<Rightarrow> Inr (fst (deriveStoreKeyHexFrom device_store_key secret)))"

subsection \<open>Request ids\<close>

lemma digit_unat: "d < 10 \<Longrightarrow> unat (of_nat (48 + d) :: jschar) = 48 + d"
  by (simp add: unat_of_nat take_bit_nat_eq_self_iff del: of_nat_add)

lemma decimal_digits: "c \<in> set (decimal n) \<Longrightarrow> \<exists>d<10. c = of_nat (48 + d)"
proof (induction n rule: decimal.induct)
  case (1 n)
  show ?case
  proof (cases "n < 10")
    case True
    then show ?thesis using 1(2) by (auto simp: decimal.simps [of n] simp del: of_nat_add)
  next
    case False
    then have "c \<in> set (decimal (n div 10)) \<or> c = of_nat (48 + n mod 10)"
      using 1(2) by (auto simp: decimal.simps [of n] simp del: of_nat_add)
    moreover have "n mod 10 < 10" by simp
    ultimately show ?thesis using 1(1) [OF False] by blast
  qed
qed

lemma decimal_value: "foldl (\<lambda>a c. 10 * a + (unat c - 48)) 0 (decimal n) = n"
proof (induction n rule: decimal.induct)
  case (1 n)
  show ?case
  proof (cases "n < 10")
    case True
    then show ?thesis using digit_unat [of n] by (simp add: decimal.simps [of n] del: of_nat_add)
  next
    case False
    then have "decimal n = decimal (n div 10) @ [of_nat (48 + n mod 10)]"
      by (subst decimal.simps) (simp del: of_nat_add)
    then show ?thesis using 1 False digit_unat [of "n mod 10"] by (simp del: of_nat_add)
  qed
qed

lemma decimal_inject: "decimal m = decimal n \<Longrightarrow> m = n"
  by (metis decimal_value)

lemma underscore_no_digit: "(of_char (CHR ''_'') :: jschar) \<notin> set (decimal n)"
proof
  assume "(of_char (CHR ''_'') :: jschar) \<in> set (decimal n)"
  then obtain d where "d < 10" "of_char (CHR ''_'') = (of_nat (48 + d) :: jschar)" using decimal_digits by blast
  then have "unat (of_char (CHR ''_'') :: jschar) = 48 + d" using digit_unat by metis
  then show False using \<open>d < 10\<close> by simp
qed

lemma decimal_split: "takeWhile (\<lambda>c. c \<noteq> of_char (CHR ''_'')) (decimal n @ js ''_'' @ s) = decimal n"
  using underscore_no_digit [of n] by (subst takeWhile_append2) (auto simp: js_def)

lemma request_id_inject: "request_id stamp m = request_id stamp n \<Longrightarrow> m = n"
proof -
  assume "request_id stamp m = request_id stamp n"
  then have "decimal m @ js ''_'' @ stamp m = decimal n @ js ''_'' @ stamp n"
    by (simp add: request_id_def)
  then have "decimal m = decimal n" by (metis decimal_split)
  then show "m = n" by (rule decimal_inject)
qed

subsection \<open>Every promise is in one place\<close>

text \<open>\<open>F\<close> are the promises that a step in progress has in hand.\<close>

definition held :: "page \<Rightarrow> nat multiset" where
  "held pg = mset (map fst (settled pg)) + mset (map (fst \<circ> snd) (pending pg)) + mset (map fst (waiting pg))"

definition ids_ok :: "(nat \<Rightarrow> jsstring) \<Rightarrow> nat \<Rightarrow> (jsstring \<times> 'v) list \<Rightarrow> bool" where
  "ids_ok stamp n m \<longleftrightarrow> distinct (map fst m) \<and> (\<forall>e\<in>set m. \<exists>i\<le>n. fst e = request_id stamp i)"

lemma ids_ok_Nil [simp]: "ids_ok stamp n []"
  by (simp add: ids_ok_def)

lemma ids_ok_new:
  assumes "ids_ok stamp n m"
  shows "map_set (request_id stamp (Suc n)) v m = m @ [(request_id stamp (Suc n), v)]"
    "ids_ok stamp (Suc n) (m @ [(request_id stamp (Suc n), v)])"
proof -
  have new: "request_id stamp (Suc n) \<notin> fst ` set m"
    using assms request_id_inject by (fastforce simp: ids_ok_def)
  then show "map_set (request_id stamp (Suc n)) v m = m @ [(request_id stamp (Suc n), v)]"
    by (simp add: map_set_def)
  show "ids_ok stamp (Suc n) (m @ [(request_id stamp (Suc n), v)])"
    using assms new by (auto simp: ids_ok_def) (metis fst_conv le_SucI)
qed

lemma ids_ok_delete: "ids_ok stamp n m \<Longrightarrow> ids_ok stamp n (map_delete k m)"
  by (auto simp: ids_ok_def map_delete_def distinct_map_filter)

definition page_ok :: "(nat \<Rightarrow> jsstring) \<Rightarrow> nat multiset \<Rightarrow> page \<Rightarrow> bool" where
  "page_ok stamp F pg \<longleftrightarrow> (length (posted pg) < MAX_SAFE_INTEGER \<longrightarrow>
     counter pg = length (posted pg)
   \<and> ids_ok stamp (length (posted pg)) (pending pg)
   \<and> held pg + F = mset [0 ..< next_promise pg]
   \<and> (ready_of pg = Waiting \<or> waiting pg = []))"

lemma page_ok_new: "page_ok stamp {#} new_page"
  by (simp add: page_ok_def new_page_def held_def)

lemma ensureWorker_fields:
  "pending (snd (ensureWorker pg)) = pending pg" "settled (snd (ensureWorker pg)) = settled pg"
  "waiting (snd (ensureWorker pg)) = waiting pg" "counter (snd (ensureWorker pg)) = counter pg"
  "posted (snd (ensureWorker pg)) = posted pg" "next_promise (snd (ensureWorker pg)) = next_promise pg"
  "ready_of (snd (ensureWorker pg)) = ready_of pg" "opened_flag (snd (ensureWorker pg)) = opened_flag pg"
  "worker (snd (ensureWorker pg)) = Some (fst (ensureWorker pg))"
  by (simp_all add: ensureWorker_def split: option.split)

lemma send_fields:
  fixes stamp p k body pg
  defines "rid \<equiv> request_id stamp ((counter pg + 1) mod MAX_SAFE_INTEGER)"
  shows "pending (send stamp p k body pg) = map_set rid (p, k) (pending pg)"
    "settled (send stamp p k body pg) = settled pg" "waiting (send stamp p k body pg) = waiting pg"
    "counter (send stamp p k body pg) = (counter pg + 1) mod MAX_SAFE_INTEGER"
    "posted (send stamp p k body pg) = posted pg @ [(fst (ensureWorker pg), \<lparr>sq_requestId = rid, sq_body = body\<rparr>)]"
    "next_promise (send stamp p k body pg) = next_promise pg" "ready_of (send stamp p k body pg) = ready_of pg"
    "opened_flag (send stamp p k body pg) = opened_flag pg"
    "worker (send stamp p k body pg) = Some (fst (ensureWorker pg))"
    "spawned (send stamp p k body pg) = (if worker pg = None then Suc (spawned pg) else spawned pg)"
  by (simp_all add: send_def nextRequestId_def rid_def Let_def case_prod_beta ensureWorker_fields)
    (simp_all add: ensureWorker_def split: option.split)

lemma ok_send: "page_ok stamp (add_mset p F) pg \<Longrightarrow> page_ok stamp F (send stamp p k body pg)"
proof -
  assume ok: "page_ok stamp (add_mset p F) pg"
  show "page_ok stamp F (send stamp p k body pg)"
  proof (cases "length (posted pg) + 1 < MAX_SAFE_INTEGER")
    case True
    have w: "counter pg = length (posted pg)" "ids_ok stamp (length (posted pg)) (pending pg)"
      "held pg + add_mset p F = mset [0 ..< next_promise pg]" "ready_of pg = Waiting \<or> waiting pg = []"
      using ok True by (simp_all add: page_ok_def)
    have c: "(counter pg + 1) mod MAX_SAFE_INTEGER = Suc (length (posted pg))" using True w(1) by simp
    have m: "pending (send stamp p k body pg) = pending pg @ [(request_id stamp (Suc (length (posted pg))), p, k)]"
      by (simp only: send_fields c ids_ok_new(1) [OF w(2)])
    have "held (send stamp p k body pg) + F = held pg + add_mset p F"
      unfolding held_def m send_fields(2-) by simp
    then show ?thesis using w ids_ok_new(2) [OF w(2)] c by (simp add: page_ok_def send_fields(2-) m)
  next
    case False
    then show ?thesis by (simp add: page_ok_def send_fields)
  qed
qed

lemma ok_settle: "page_ok stamp (add_mset p F) pg \<Longrightarrow> page_ok stamp F (settle p out pg)"
  by (simp add: page_ok_def settle_def held_def)

lemma ok_settle_all: "page_ok stamp (mset ps + F) pg \<Longrightarrow> page_ok stamp F (settle_all out ps pg)"
  by (simp add: page_ok_def settle_all_def held_def o_def ac_simps)

lemma ok_wait:
  "page_ok stamp (add_mset p F) pg \<Longrightarrow> ready_of pg = Waiting \<Longrightarrow> page_ok stamp F (pg\<lparr>waiting := waiting pg @ [(p, b)]\<rparr>)"
  by (simp add: page_ok_def held_def)

lemma ok_adopt: "page_ok stamp (add_mset p F) pg \<Longrightarrow> page_ok stamp F (adopt p pg)"
  by (simp add: adopt_def ok_settle ok_wait split: ready.split)

lemma ok_flag: "page_ok stamp F pg \<Longrightarrow> page_ok stamp F (pg\<lparr>opened_flag := b\<rparr>)"
  by (simp add: page_ok_def held_def)

lemma ok_wake: "page_ok stamp (add_mset (fst e) F) pg \<Longrightarrow> page_ok stamp F (wake stamp e pg)"
  by (simp add: wake_def ok_settle ok_send split: option.split)

lemma ok_wakes: "page_ok stamp (mset (map fst ws) + F) pg \<Longrightarrow> page_ok stamp F (fold (wake stamp) ws pg)"
  by (induction ws arbitrary: pg) (simp_all add: ok_wake)

lemma ok_take_waiting:
  "page_ok stamp F pg \<Longrightarrow> page_ok stamp (mset (map fst (waiting pg)) + F) (pg\<lparr>ready_of := r, waiting := []\<rparr>)"
  by (simp add: page_ok_def held_def ac_simps)

lemma ok_resolveReady: "page_ok stamp F pg \<Longrightarrow> page_ok stamp F (resolveReady stamp pg)"
  using ok_wakes [OF ok_take_waiting] by (simp add: resolveReady_def)

lemma ok_rejectReady: "page_ok stamp F pg \<Longrightarrow> page_ok stamp F (rejectReady e pg)"
  using ok_settle_all [OF ok_take_waiting] by (simp add: rejectReady_def)

lemma ok_continue: "page_ok stamp (add_mset (fst e) F) pg \<Longrightarrow> page_ok stamp F (continue stamp out e pg)"
  by (auto simp: continue_def intro: ok_settle ok_adopt ok_resolveReady ok_rejectReady ok_flag
      split: continuation.split outcome.split)

lemma ok_new_promise: "page_ok stamp F pg \<Longrightarrow> page_ok stamp (add_mset (next_promise pg) F) (snd (new_promise pg))"
  by (simp add: page_ok_def new_promise_def held_def)

lemma ok_reject_pending:
  "page_ok stamp (mset (map (fst \<circ> snd) es) + F) pg \<Longrightarrow> page_ok stamp F (reject_pending stamp err es pg)"
  unfolding reject_pending_def by (induction es arbitrary: pg) (simp_all add: ok_continue)

lemma ok_take_pending:
  "page_ok stamp F pg \<Longrightarrow> page_ok stamp (mset (map (fst \<circ> snd) (pending pg)) + F) (pg\<lparr>pending := []\<rparr>)"
  by (simp add: page_ok_def held_def ac_simps)

lemma map_of_delete_mset:
  "distinct (map fst m) \<Longrightarrow> map_of m k = Some v \<Longrightarrow> mset m = add_mset (k, v) (mset (map_delete k m))"
proof (induction m)
  case (Cons a m)
  show ?case
  proof (cases "fst a = k")
    case True
    then have "\<forall>e\<in>set m. fst e \<noteq> k" using Cons.prems(1) by (auto simp: image_iff)
    then have "map_delete k m = m" by (simp add: map_delete_def filter_id_conv)
    then show ?thesis using Cons.prems True by (cases a) (simp add: map_delete_def)
  next
    case False
    then show ?thesis using Cons by (cases a) (simp add: map_delete_def)
  qed
qed simp

lemma ok_take_one:
  assumes "page_ok stamp F pg" "map_of (pending pg) k = Some e"
  shows "page_ok stamp (add_mset (fst e) F) (pg\<lparr>pending := map_delete k (pending pg)\<rparr>)"
proof (cases "length (posted pg) < MAX_SAFE_INTEGER")
  case True
  then have d: "distinct (map fst (pending pg))" using assms(1) by (simp add: page_ok_def ids_ok_def)
  have "mset (map (fst \<circ> snd) (pending pg)) = image_mset (fst \<circ> snd) (mset (pending pg))" by simp
  also have "\<dots> = add_mset (fst e) (mset (map (fst \<circ> snd) (map_delete k (pending pg))))"
    by (simp add: map_of_delete_mset [OF d assms(2)])
  finally have "held pg = add_mset (fst e) (held (pg\<lparr>pending := map_delete k (pending pg)\<rparr>))"
    by (simp add: held_def)
  then show ?thesis using assms(1) True by (simp add: page_ok_def ids_ok_delete)
next
  case False
  then show ?thesis by (simp add: page_ok_def)
qed

lemma ok_on_message: "page_ok stamp F pg \<Longrightarrow> page_ok stamp F (on_message stamp res pg)"
  by (auto simp: on_message_def intro!: ok_continue ok_take_one split: option.split)

lemma ok_on_error: "page_ok stamp F pg \<Longrightarrow> page_ok stamp F (on_error stamp m pg)"
  unfolding on_error_def by (rule ok_reject_pending [OF ok_take_pending])

lemma ok_terminate: "page_ok stamp F pg \<Longrightarrow> page_ok stamp F (terminate stamp pg)"
proof -
  assume "page_ok stamp F pg"
  then have "page_ok stamp (mset (map (fst \<circ> snd) (pending pg)) + (mset (map fst (waiting pg)) + F))
      (pg\<lparr>worker := None, pending := [], opened_flag := False, ready_of := Waiting, waiting := []\<rparr>)"
    by (simp add: page_ok_def held_def ac_simps)
  then show ?thesis unfolding terminate_def by (intro ok_settle_all ok_reject_pending)
qed

text \<open>A rejected continuation leaves no promise behind.\<close>

lemma reject_continue_fields:
  assumes "waiting pg = []"
  shows "waiting (continue stamp (Rejected err) e pg) = []" "pending (continue stamp (Rejected err) e pg) = pending pg"
    "posted (continue stamp (Rejected err) e pg) = posted pg" "worker (continue stamp (Rejected err) e pg) = worker pg"
    "spawned (continue stamp (Rejected err) e pg) = spawned pg"
    "opened_flag (continue stamp (Rejected err) e pg) = opened_flag pg"
  using assms by (auto simp: continue_def settle_def rejectReady_def settle_all_def split: continuation.split)

lemma reject_pending_fields:
  assumes "waiting pg = []"
  shows "waiting (reject_pending stamp err es pg) = [] \<and> pending (reject_pending stamp err es pg) = pending pg
    \<and> posted (reject_pending stamp err es pg) = posted pg \<and> worker (reject_pending stamp err es pg) = worker pg
    \<and> spawned (reject_pending stamp err es pg) = spawned pg
    \<and> opened_flag (reject_pending stamp err es pg) = opened_flag pg"
  using assms unfolding reject_pending_def
proof (induction es arbitrary: pg)
  case (Cons e es)
  note f = reject_continue_fields [OF Cons.prems, of stamp err "snd e"]
  show ?case using Cons.IH [OF f(1)] f by simp
qed simp

lemma terminate_fields:
  "waiting (terminate stamp pg) = []" "pending (terminate stamp pg) = []" "posted (terminate stamp pg) = posted pg"
  "worker (terminate stamp pg) = None" "spawned (terminate stamp pg) = spawned pg" "opened_flag (terminate stamp pg) = False"
  by (simp_all add: terminate_def settle_all_def reject_pending_fields)

lemma ok_reset: "page_ok stamp F pg \<Longrightarrow> page_ok stamp F (resetStoreProxy stamp pg)"
  using ok_terminate [of stamp F pg] by (simp add: resetStoreProxy_def page_ok_def held_def terminate_fields)

lemma ok_step: "page_ok stamp {#} pg \<Longrightarrow> page_ok stamp {#} (page_step stamp ev pg)"
proof (cases ev)
  case (Open_store k)
  assume "page_ok stamp {#} pg"
  then show ?thesis using ok_new_promise [of stamp "{#}" pg]
    by (auto simp: Open_store openStore_def new_promise_def Let_def intro: ok_adopt ok_send)
next
  case (Call b)
  assume "page_ok stamp {#} pg"
  then show ?thesis using ok_new_promise [of stamp "{#}" pg]
    by (auto simp: Call call_op_def new_promise_def Let_def intro: ok_send ok_settle dest: ok_wait split: ready.split)
qed (simp_all add: ok_on_message ok_on_error ok_terminate ok_reset)

lemma reach_ok: "page_reach stamp pg \<Longrightarrow> page_ok stamp {#} pg"
  by (induction rule: page_reach.induct) (auto intro: page_ok_new ok_step)

subsection \<open>What a worker is sent\<close>

text \<open>Every request to a worker comes after an INIT to that worker.\<close>

definition is_init :: "nat \<times> StoreRequest \<Rightarrow> bool" where
  "is_init e = (case sq_body (snd e) of INIT k \<Rightarrow> True | _ \<Rightarrow> False)"

definition init_first :: "(nat \<times> StoreRequest) list \<Rightarrow> bool" where
  "init_first es \<longleftrightarrow> (\<forall>i<length es. is_init (es ! i) \<or> (\<exists>j<i. fst (es ! j) = fst (es ! i) \<and> is_init (es ! j)))"

lemma init_first_append:
  "init_first es \<Longrightarrow> is_init e \<or> (\<exists>e'\<in>set es. fst e' = fst e \<and> is_init e') \<Longrightarrow> init_first (es @ [e])"
  unfolding init_first_def
proof (intro allI impI)
  fix i
  assume old: "\<forall>i<length es. is_init (es ! i) \<or> (\<exists>j<i. fst (es ! j) = fst (es ! i) \<and> is_init (es ! j))"
    and e: "is_init e \<or> (\<exists>e'\<in>set es. fst e' = fst e \<and> is_init e')" and i: "i < length (es @ [e])"
  show "is_init ((es @ [e]) ! i)
    \<or> (\<exists>j<i. fst ((es @ [e]) ! j) = fst ((es @ [e]) ! i) \<and> is_init ((es @ [e]) ! j))"
  proof (cases "i < length es")
    case True
    then have eq: "(es @ [e]) ! j = es ! j" if "j \<le> i" for j using that by (simp add: nth_append)
    have "is_init (es ! i) \<or> (\<exists>j<i. fst (es ! j) = fst (es ! i) \<and> is_init (es ! j))"
      using old True by blast
    then consider (init) "is_init (es ! i)"
      | (earlier) j where "j < i" "fst (es ! j) = fst (es ! i)" "is_init (es ! j)" by blast
    then show ?thesis
    proof cases
      case init
      then show ?thesis by (simp add: eq)
    next
      case earlier
      then show ?thesis by (intro disjI2 exI [of _ j]) (simp add: eq)
    qed
  next
    case False
    then have l: "i = length es" using i by simp
    show ?thesis
    proof (cases "is_init e")
      case False
      then obtain j where "j < length es" "fst (es ! j) = fst e" "is_init (es ! j)"
        using e by (metis in_set_conv_nth)
      then show ?thesis using l by (intro disjI2 exI [of _ j]) (simp add: nth_append)
    qed (simp add: l)
  qed
qed

lemma init_first_Nil [simp]: "init_first []"
  by (simp add: init_first_def)

text \<open>A stretch of the page's life that began with \<open>old\<close> posted and \<open>s0\<close> workers spawned, and in which the
  page's calls ask for the requests \<open>E\<close>.\<close>

definition keyed :: "(nat \<times> StoreRequest) list \<Rightarrow> page \<Rightarrow> bool" where
  "keyed old pg \<longleftrightarrow> (\<exists>e\<in>set (drop (length old) (posted pg)). worker pg = Some (fst e) \<and> is_init e)"

definition in_stretch :: "(nat \<times> StoreRequest) list \<Rightarrow> nat \<Rightarrow> request_body set \<Rightarrow> page \<Rightarrow> bool" where
  "in_stretch old s0 E pg \<longleftrightarrow>
     prefix old (posted pg) \<and> init_first (drop (length old) (posted pg))
   \<and> (\<forall>e\<in>set (drop (length old) (posted pg)). s0 \<le> fst e \<and> sq_body (snd e) \<in> E)
   \<and> s0 \<le> spawned pg \<and> (\<forall>w. worker pg = Some w \<longrightarrow> s0 \<le> w)
   \<and> (ready_of pg = Opened \<longrightarrow> keyed old pg)
   \<and> ((\<exists>rid p. (rid, p, KInit) \<in> set (pending pg)) \<longrightarrow> keyed old pg)
   \<and> (\<forall>p b. (p, Some b) \<in> set (waiting pg) \<longrightarrow> b \<in> E)"

lemma in_stretchD:
  assumes "in_stretch old s0 E pg"
  shows "prefix old (posted pg)" "init_first (drop (length old) (posted pg))"
    "\<And>e. e \<in> set (drop (length old) (posted pg)) \<Longrightarrow> s0 \<le> fst e \<and> sq_body (snd e) \<in> E"
    "s0 \<le> spawned pg" "\<And>w. worker pg = Some w \<Longrightarrow> s0 \<le> w" "ready_of pg = Opened \<Longrightarrow> keyed old pg"
    "\<And>rid p. (rid, p, KInit) \<in> set (pending pg) \<Longrightarrow> keyed old pg"
    "\<And>p b. (p, Some b) \<in> set (waiting pg) \<Longrightarrow> b \<in> E"
  using assms by (auto simp: in_stretch_def)

text \<open>What has been posted and the worker are all that \<open>keyed\<close> reads.\<close>

lemma keyed_cong: "posted q = posted pg \<Longrightarrow> worker q = worker pg \<Longrightarrow> keyed old q = keyed old pg"
  by (simp add: keyed_def)

lemma in_stretch_weaken:
  assumes "in_stretch old s0 E pg" "posted q = posted pg" "worker q = worker pg" "spawned q = spawned pg"
    "ready_of q = Opened \<longrightarrow> keyed old pg" "set (pending q) \<subseteq> set (pending pg)"
    "\<forall>p b. (p, Some b) \<in> set (waiting q) \<longrightarrow> b \<in> E"
  shows "in_stretch old s0 E q"
  unfolding in_stretch_def keyed_cong [OF assms(2,3)] assms(2-4)
  using in_stretchD [OF assms(1)] assms(5-) by blast

lemma in_map_set: "e \<in> set (map_set k v m) \<Longrightarrow> e = (k, v) \<or> e \<in> set m"
  by (auto simp: map_set_def split: if_splits)

lemma worker_ensured: "worker pg = Some w \<Longrightarrow> fst (ensureWorker pg) = w"
  by (simp add: ensureWorker_def)

lemma in_send:
  assumes "in_stretch old s0 E pg" "body \<in> E" "k = KInit \<longrightarrow> (\<exists>key. body = INIT key)"
    "k = KOp \<longrightarrow> ready_of pg = Opened"
  shows "in_stretch old s0 E (send stamp p k body pg)"
proof -
  let ?w = "fst (ensureWorker pg)" and ?q = "send stamp p k body pg"
  let ?e = "(?w, \<lparr>sq_requestId = request_id stamp ((counter pg + 1) mod MAX_SAFE_INTEGER), sq_body = body\<rparr>)"
  let ?new = "drop (length old) (posted pg)"
  note s = in_stretchD [OF assms(1)]
  have new: "drop (length old) (posted ?q) = ?new @ [?e]"
    using prefix_length_le [OF s(1)] by (simp add: send_fields)
  have w: "s0 \<le> ?w" using s(4,5) by (auto simp: ensureWorker_def split: option.split)
  have keep: "keyed old ?q" if "keyed old pg"
    using that worker_ensured unfolding keyed_def new by (fastforce simp: send_fields)
  have init: "keyed old ?q" if "k = KInit"
    using that assms(3) unfolding keyed_def new by (auto simp: send_fields is_init_def)
  have "is_init ?e \<or> (\<exists>e'\<in>set ?new. fst e' = fst ?e \<and> is_init e')"
  proof (cases k)
    case KInit
    then show ?thesis using assms(3) by (auto simp: is_init_def)
  next
    case KOp
    then show ?thesis using s(6) assms(4) worker_ensured by (fastforce simp: keyed_def)
  qed
  then have first: "init_first (?new @ [?e])" by (rule init_first_append [OF s(2)])
  have pend: "keyed old ?q" if "(rid, q, KInit) \<in> set (pending ?q)" for rid q
    using in_map_set [OF that [unfolded send_fields]] s(7) keep init by auto
  have "prefix old (posted ?q)" using s(1) by (simp add: send_fields prefix_append)
  then show ?thesis
    unfolding in_stretch_def new
    using s(3,4,5,6,8) w first keep pend assms(2) by (auto simp: send_fields(3,7,9,10))
qed

lemma settle_fields [simp]:
  "posted (settle p out pg) = posted pg" "worker (settle p out pg) = worker pg" "spawned (settle p out pg) = spawned pg"
  "ready_of (settle p out pg) = ready_of pg" "pending (settle p out pg) = pending pg"
  "waiting (settle p out pg) = waiting pg"
  by (simp_all add: settle_def)

lemma in_settle:
  assumes "in_stretch old s0 E pg"
  shows "in_stretch old s0 E (settle p out pg)"
  by (rule in_stretch_weaken [OF assms]) (auto dest: in_stretchD(6,8) [OF assms])

lemma in_adopt:
  assumes "in_stretch old s0 E pg"
  shows "in_stretch old s0 E (adopt p pg)"
proof -
  have "in_stretch old s0 E (pg\<lparr>waiting := waiting pg @ [(p, None)]\<rparr>)"
    by (rule in_stretch_weaken [OF assms]) (auto dest: in_stretchD(6,8) [OF assms])
  then show ?thesis using in_settle [OF assms] by (simp add: adopt_def split: ready.split)
qed

lemma wake_ready: "ready_of (wake stamp e pg) = ready_of pg"
  by (simp add: wake_def send_fields settle_def split: option.split)

lemma in_wakes:
  assumes "in_stretch old s0 E pg" "ready_of pg = Opened" "\<forall>p b. (p, Some b) \<in> set ws \<longrightarrow> b \<in> E"
  shows "in_stretch old s0 E (fold (wake stamp) ws pg)"
  using assms
proof (induction ws arbitrary: pg)
  case (Cons e ws)
  have "in_stretch old s0 E (wake stamp e pg)"
    using Cons.prems by (cases e) (auto simp: wake_def intro: in_send in_settle split: option.split)
  then show ?case using Cons.IH Cons.prems by (simp add: wake_ready)
qed simp

lemma in_resolveReady:
  assumes "in_stretch old s0 E pg" "keyed old pg"
  shows "in_stretch old s0 E (resolveReady stamp pg)"
proof (cases "ready_of pg = Waiting")
  case True
  have "in_stretch old s0 E (pg\<lparr>ready_of := Opened, waiting := []\<rparr>)"
    by (rule in_stretch_weaken [OF assms(1)]) (simp_all add: assms(2))
  then show ?thesis using True in_stretchD(8) [OF assms(1)] by (simp add: resolveReady_def in_wakes)
next
  case False
  then show ?thesis using assms(1) by (simp add: resolveReady_def)
qed

lemma in_rejectReady: "in_stretch old s0 E pg \<Longrightarrow> in_stretch old s0 E (rejectReady e pg)"
  unfolding rejectReady_def settle_all_def by (cases "ready_of pg = Waiting")
    (simp_all, erule in_stretch_weaken, simp_all)

lemma in_continue:
  assumes "in_stretch old s0 E pg" "snd e = KInit \<longrightarrow> keyed old pg"
  shows "in_stretch old s0 E (continue stamp out e pg)"
proof -
  have f: "in_stretch old s0 E (pg\<lparr>opened_flag := True\<rparr>)"
    by (rule in_stretch_weaken [OF assms(1)]) (auto dest: in_stretchD(6,8) [OF assms(1)])
  have "snd e = KInit \<longrightarrow> keyed old (pg\<lparr>opened_flag := True\<rparr>)"
    using assms(2) by (simp add: keyed_def)
  then show ?thesis using assms f
    by (auto simp: continue_def intro: in_settle in_adopt in_resolveReady in_rejectReady
        split: continuation.split outcome.split)
qed

lemma in_reject_continue:
  "in_stretch old s0 E pg \<Longrightarrow> in_stretch old s0 E (continue stamp (Rejected err) e pg)"
  by (auto simp: continue_def intro: in_settle in_rejectReady split: continuation.split)

lemma in_reject_pending:
  "in_stretch old s0 E pg \<Longrightarrow> in_stretch old s0 E (reject_pending stamp err es pg)"
  unfolding reject_pending_def by (induction es arbitrary: pg) (simp_all add: in_reject_continue)

lemma in_drop_pending:
  assumes "in_stretch old s0 E pg" "set m \<subseteq> set (pending pg)"
  shows "in_stretch old s0 E (pg\<lparr>pending := m\<rparr>)"
  by (rule in_stretch_weaken [OF assms(1)]) (use assms(2) in \<open>auto dest: in_stretchD(6,8) [OF assms(1)]\<close>)

lemma in_terminate:
  assumes "in_stretch old s0 E pg"
  shows "in_stretch old s0 E (terminate stamp pg)"
proof -
  let ?cut = "pg\<lparr>worker := None, pending := [], opened_flag := False, ready_of := Waiting, waiting := []\<rparr>"
  let ?r = "reject_pending stamp ProxyTerminated (pending pg) ?cut"
  have "in_stretch old s0 E ?cut" using in_stretchD [OF assms] by (simp add: in_stretch_def)
  then have r: "in_stretch old s0 E ?r" by (rule in_reject_pending)
  show ?thesis unfolding terminate_def settle_all_def
    by (rule in_stretch_weaken [OF r]) (auto dest: in_stretchD(6,8) [OF r])
qed

lemma in_reset: "in_stretch old s0 E pg \<Longrightarrow> in_stretch old s0 E (resetStoreProxy stamp pg)"
  unfolding resetStoreProxy_def
  by (rule in_stretch_weaken [OF in_terminate [of old s0 E pg stamp]]) simp_all

lemma in_on_message:
  assumes "in_stretch old s0 E pg"
  shows "in_stretch old s0 E (on_message stamp res pg)"
proof (cases "map_of (pending pg) (sr_requestId res)")
  case (Some e)
  let ?q = "pg\<lparr>pending := map_delete (sr_requestId res) (pending pg)\<rparr>"
  have i: "in_stretch old s0 E ?q"
    by (rule in_drop_pending [OF assms]) (auto simp: map_delete_def)
  have "keyed old ?q" if "snd e = KInit"
  proof -
    have "(sr_requestId res, fst e, KInit) \<in> set (pending pg)"
      using map_of_SomeD [OF Some] that by (metis prod.collapse)
    then have "keyed old pg" by (rule in_stretchD(7) [OF assms])
    then show ?thesis by (simp add: keyed_def)
  qed
  then show ?thesis using in_continue [OF i] by (simp add: on_message_def Some)
qed (simp add: on_message_def assms)

fun event_bodies :: "page_event \<Rightarrow> request_body set" where
  "event_bodies (Open_store k) = {INIT k}"
| "event_bodies (Call b) = {b}"
| "event_bodies _ = {}"

lemma in_open:
  assumes "in_stretch old s0 E pg" "INIT k \<in> E"
  shows "in_stretch old s0 E (openStore stamp k pg)"
proof -
  have n: "in_stretch old s0 E (pg\<lparr>next_promise := n\<rparr>)" for n
    by (rule in_stretch_weaken [OF assms(1)]) (auto dest: in_stretchD(6,8) [OF assms(1)])
  show ?thesis using in_adopt [OF n] in_send [OF n assms(2), of KInit]
    by (simp add: openStore_def new_promise_def)
qed

lemma in_call:
  assumes "in_stretch old s0 E pg" "b \<in> E"
  shows "in_stretch old s0 E (call_op stamp b pg)"
proof -
  let ?q = "pg\<lparr>next_promise := Suc (next_promise pg)\<rparr>"
  have n: "in_stretch old s0 E ?q"
    by (rule in_stretch_weaken [OF assms(1)]) (auto dest: in_stretchD(6,8) [OF assms(1)])
  have "in_stretch old s0 E (?q\<lparr>waiting := waiting pg @ [(p, Some b)]\<rparr>)" if "ready_of pg = Waiting" for p
    by (rule in_stretch_weaken [OF n]) (use that assms(2) in \<open>auto dest: in_stretchD(6,8) [OF assms(1)]\<close>)
  then show ?thesis using in_settle [OF n] in_send [OF n assms(2), of KOp]
    by (simp add: call_op_def new_promise_def split: ready.split)
qed

lemma in_step:
  assumes "in_stretch old s0 E pg" "event_bodies ev \<subseteq> E"
  shows "in_stretch old s0 E (page_step stamp ev pg)"
proof (cases ev)
  case (Worker_error m)
  then show ?thesis using in_reject_pending [OF in_drop_pending [OF assms(1), of "[]"]] by (simp add: on_error_def)
qed (use assms in \<open>simp_all add: in_open in_call in_on_message in_terminate in_reset\<close>)

lemma in_run:
  "in_stretch old s0 E pg \<Longrightarrow> (\<forall>ev\<in>set evs. event_bodies ev \<subseteq> E) \<Longrightarrow> in_stretch old s0 E (run_page stamp evs pg)"
  unfolding run_page_def by (induction evs arbitrary: pg) (simp_all add: in_step)

lemma reset_in_stretch: "in_stretch (posted pg) (spawned pg) E (resetStoreProxy stamp pg)"
  by (simp add: in_stretch_def resetStoreProxy_def terminate_fields)

end
