(* ===== verification/AgentIds.thy ===== *)
theory AgentIds
  imports Shim StoreProxy
begin

text \<open>
  Names of agents and the text helpers of \<open>web-client/overlay/packages/data-provider/src/parsers.ts\<close>:
  the encoding of endpoint, model, sender and index into an ephemeral agent id, its parser, the
  index suffix, and the joining of text parts. The main results: the encoding is inverted by the parser for
  names whose pieces hold no doubled underscore, and stripping a suffix undoes appending one for every id.
\<close>

subsection \<open>Replacing and splitting\<close>

text \<open>\<open>s.replace(/sep/g, rep)\<close> for a literal separator.\<close>

definition replace_all :: "jsstring \<Rightarrow> jsstring \<Rightarrow> jsstring \<Rightarrow> jsstring" where
  "replace_all sep rep s = join rep (split_str sep s)"

definition us :: "nat \<Rightarrow> jsstring" where
  "us n = replicate n 95"

lemma us_simps: "us 2 = [95, 95]" "us 3 = [95, 95, 95]" "us 4 = [95, 95, 95, 95]"
  by (simp_all add: us_def eval_nat_numeral)

definition colon :: jschar where "colon = 58"

subsection \<open>Ephemeral agent ids\<close>

record ephemeral_id =
  ep_endpoint :: jsstring
  ep_model :: jsstring
  ep_sender :: "jsstring option"
  ep_index :: "int option"

definition encodeEphemeralAgentId :: "ephemeral_id \<Rightarrow> jsstring" where
  "encodeEphemeralAgentId a =
     (let start = replace_all [colon] (us 2) (ep_endpoint a @ [colon] @ ep_model a);
          named = (if nullish (ep_sender a) [] \<noteq> []
                   then start @ us 3 @ replace_all [colon] (us 2) (the (ep_sender a)) else start)
      in case ep_index a of None \<Rightarrow> named | Some i \<Rightarrow> named @ us 4 @ show_int i)"

text \<open>The index suffix: the last four underscores, when a number follows them.\<close>

definition take_index :: "jsstring \<Rightarrow> int option \<times> jsstring" where
  "take_index agentId =
     (case last_index_of (us 4) agentId of
        None \<Rightarrow> (None, agentId)
      | Some k \<Rightarrow>
          (case parseInt10 (drop (k + 4) agentId) of
             None \<Rightarrow> (None, agentId)
           | Some i \<Rightarrow> (Some i, take k agentId)))"

definition take_sender :: "jsstring \<Rightarrow> jsstring option \<times> jsstring" where
  "take_sender workingId =
     (if str_includes workingId (us 3)
      then (case split_str (us 3) workingId of
              [] \<Rightarrow> (None, workingId)
            | [before] \<Rightarrow> (None, before)
            | before # tail_part # _ \<Rightarrow> (Some (replace_all (us 2) [colon] tail_part), before))
      else (None, workingId))"

definition parseEphemeralAgentId :: "jsstring \<Rightarrow> ephemeral_id option" where
  "parseEphemeralAgentId agentId =
     (if \<not> str_includes agentId (us 2) then None
      else
        let (idx, workingId) = take_index agentId; (sender, mainPart) = take_sender workingId in
        case split_str (us 2) mainPart of
          endpoint # modelParts \<Rightarrow>
            if endpoint = [] \<or> modelParts = [] then None
            else Some \<lparr>ep_endpoint = endpoint, ep_model = join [colon] modelParts, ep_sender = sender, ep_index = idx\<rparr>
        | [] \<Rightarrow> None)"

definition isEphemeralAgentId :: "jsstring option \<Rightarrow> bool" where
  "isEphemeralAgentId agentId = (case agentId of None \<Rightarrow> True | Some s \<Rightarrow> \<not> prefix (js ''agent_'') s)"

text \<open>\<open>replace(/____\d+$/, '')\<close>: the digits at the end, when four underscores stand before them.\<close>

definition stripAgentIdSuffix :: "jsstring \<Rightarrow> jsstring" where
  "stripAgentIdSuffix agentId =
     (let ds = takeWhile is_digit (rev agentId); r = dropWhile is_digit (rev agentId)
      in if ds \<noteq> [] \<and> prefix (us 4) r then rev (drop 4 r) else agentId)"

definition appendAgentIdSuffix :: "jsstring \<Rightarrow> int \<Rightarrow> jsstring" where
  "appendAgentIdSuffix agentId i = agentId @ us 4 @ show_int i"

subsection \<open>Runs of a separator\<close>

lemma prefix_run: "prefix (replicate n x) (replicate j x @ b) \<Longrightarrow> j < n \<Longrightarrow> b \<noteq> [] \<and> hd b = x"
proof (induction j arbitrary: n)
  case 0
  then show ?case by (cases n; cases b) auto
next
  case (Suc j)
  then show ?case by (cases n) auto
qed

lemma prefix_run_before:
  assumes "prefix (replicate n x) (a @ r)" "a \<noteq> []" "last a \<noteq> x"
  shows "prefix (replicate n x) a"
proof (cases "n \<le> length a")
  case True
  then show ?thesis using assms(1) by (metis length_replicate prefix_append prefix_length_prefix prefix_order.refl prefixI)
next
  case False
  then have "take (length a) (replicate n x) = a"
    using assms(1) by (auto simp: prefix_def append_eq_append_conv_if)
  then have "last a = x" using assms(2) False by (metis in_set_replicate in_set_takeD last_in_set)
  then show ?thesis using assms(3) by simp
qed

lemma no_run_append:
  assumes "\<not> sublist (replicate n x) a" "\<not> sublist (replicate n x) b" "a = [] \<or> last a \<noteq> x" "b = [] \<or> hd b \<noteq> x" "m < n"
  shows "\<not> sublist (replicate n x) (a @ replicate m x @ b)"
  using assms(1,3)
proof (induction a)
  case Nil
  have "\<not> sublist (replicate n x) (replicate m x @ b)" using assms(5)
  proof (induction m)
    case 0
    then show ?case using assms(2) by simp
  next
    case (Suc m)
    then show ?case using prefix_run [of n x "Suc m" b] assms(4) by (auto simp: sublist_Cons_right)
  qed
  then show ?case by simp
next
  case (Cons c cs)
  have "\<not> prefix (replicate n x) ((c # cs) @ replicate m x @ b)"
    using prefix_run_before [of n x "c # cs"] Cons.prems by (auto dest: prefix_imp_sublist)
  moreover have "\<not> sublist (replicate n x) (cs @ replicate m x @ b)"
    using Cons by (cases cs) (auto simp: sublist_Cons_right)
  ultimately show ?case by (simp add: sublist_Cons_right)
qed

lemma split_on_run:
  assumes "\<not> sublist (replicate (Suc k) x) b" "b = [] \<or> last b \<noteq> x"
  shows "split_on (replicate (Suc k) x) acc (b @ replicate (Suc k) x @ r) 0 = (rev acc @ b) # split_on (replicate (Suc k) x) [] r 0"
  using assms
proof (induction b arbitrary: acc)
  case Nil
  have "split_on (replicate (Suc k) x) y (replicate j x @ r) j = split_on (replicate (Suc k) x) y r 0" for j y
    by (induction j arbitrary: y) simp_all
  moreover have "prefix (x # replicate k x) (x # replicate k x @ r)" by simp
  ultimately show ?case by simp
next
  case (Cons c cs)
  have "\<not> prefix (replicate (Suc k) x) ((c # cs) @ replicate (Suc k) x @ r)"
    using prefix_run_before [of "Suc k" x "c # cs"] Cons.prems by (auto dest: prefix_imp_sublist)
  moreover have "\<not> sublist (replicate (Suc k) x) cs" "cs = [] \<or> last cs \<noteq> x" using Cons.prems by (auto simp: sublist_Cons_right)
  ultimately show ?case using Cons.IH [of "c # acc"] by simp
qed

lemma split_on_absent: "\<not> sublist p b \<Longrightarrow> split_on p acc b 0 = [rev acc @ b]"
  by (induction b arbitrary: acc) (auto simp: sublist_Cons_right)

lemma split_ne [simp]: "split_on p acc s k \<noteq> []"
  by (induction p acc s k rule: split_on.induct) auto

lemma join_split_on: "p \<noteq> [] \<Longrightarrow> length p = 1 \<Longrightarrow> join p (split_on p acc s 0) = rev acc @ s"
proof (induction s arbitrary: acc)
  case (Cons c cs)
  obtain x where p: "p = [x]" using Cons.prems by (cases p) auto
  obtain y ys where yy: "split_on p [] cs 0 = y # ys" using split_ne [of p "[]" cs 0] by (cases "split_on p [] cs 0") auto
  have "join p (y # ys) = cs" using Cons.IH [of "[]"] Cons.prems yy by simp
  then have "x = c \<Longrightarrow> join [c] (rev acc # split_on [c] [] cs 0) = rev acc @ c # cs" using p yy by simp
  then show ?case using Cons p by auto
qed simp

lemma last_index_of_None: "last_index_of p s = None \<longleftrightarrow> \<not> sublist p s"
  by (induction s) (auto simp: sublist_Cons_right split: option.splits)

lemma last_index_of_append: "last_index_of p s = Some i \<Longrightarrow> last_index_of p (a @ s) = Some (length a + i)"
  by (induction a) auto

lemma last_run:
  assumes "x \<notin> set d"
  shows "last_index_of (replicate (Suc k) x) (a @ replicate (Suc k) x @ d) = Some (length a)"
proof -
  have d: "d = [] \<or> hd d \<noteq> x" using assms hd_in_set by fastforce
  have "\<not> sublist (replicate (Suc k) x) d" using assms by (auto dest: set_mono_sublist)
  then have "\<not> sublist (replicate (Suc k) x) (replicate k x @ d)"
    using no_run_append [of "Suc k" x "[]" d k] d by simp
  then have "last_index_of (replicate (Suc k) x) (replicate (Suc k) x @ d) = Some 0"
    using last_index_of_None [of "replicate (Suc k) x" "replicate k x @ d"] by simp
  from last_index_of_append [OF this, of a] show ?thesis by simp
qed

subsection \<open>Clean names\<close>

text \<open>A piece that cannot be taken for a separator, and a name made of such pieces between its colons.\<close>

definition clean :: "jsstring \<Rightarrow> bool" where
  "clean p \<longleftrightarrow> p \<noteq> [] \<and> colon \<notin> set p \<and> hd p \<noteq> 95 \<and> last p \<noteq> 95 \<and> \<not> sublist (us 2) p"

definition clean_name :: "jsstring \<Rightarrow> bool" where
  "clean_name s \<longleftrightarrow> (\<forall>p\<in>set (split_str [colon] s). clean p)"

lemma clean_join:
  "ps \<noteq> [] \<Longrightarrow> \<forall>p\<in>set ps. clean p \<Longrightarrow> \<not> sublist (us 3) (join (us 2) ps) \<and> join (us 2) ps \<noteq> []
     \<and> hd (join (us 2) ps) \<noteq> 95 \<and> last (join (us 2) ps) \<noteq> 95"
proof (induction ps rule: induct_list012)
  case (2 p)
  have "sublist (us 2) (us 3)" by (simp add: us_def eval_nat_numeral sublist_Cons_right)
  then have "\<not> sublist (us 3) p" using 2 sublist_order.order_trans by (fastforce simp: clean_def)
  then show ?case using 2 by (simp add: clean_def)
next
  case (3 p q ps)
  let ?J = "join (us 2) (q # ps)"
  have ih: "\<not> sublist (us 3) ?J" "?J \<noteq> []" "hd ?J \<noteq> 95" "last ?J \<noteq> 95" using 3 by auto
  have p: "p \<noteq> []" "hd p \<noteq> 95" "last p \<noteq> 95" "\<not> sublist (us 2) p" using 3 by (auto simp: clean_def)
  have "sublist (us 2) (us 3)" by (simp add: us_def eval_nat_numeral sublist_Cons_right)
  then have "\<not> sublist (us 3) p" using p(4) sublist_order.order_trans by blast
  then have "\<not> sublist (us 3) (p @ us 2 @ ?J)"
    using no_run_append [of 3 95 p ?J 2] ih p by (simp add: us_def)
  then show ?case using ih p by (simp add: hd_append)
qed simp

lemma split_join_clean:
  "ps \<noteq> [] \<Longrightarrow> \<forall>p\<in>set ps. clean p \<Longrightarrow> split_str (us 2) (join (us 2) ps) = ps"
proof (induction ps rule: induct_list012)
  case (2 p)
  then show ?case by (simp add: split_str_def split_on_absent clean_def)
next
  case (3 p q ps)
  have u: "us 2 = replicate (Suc 1) 95" by (simp add: us_def eval_nat_numeral)
  have "\<not> sublist (us 2) p" "last p \<noteq> 95" using 3 by (auto simp: clean_def)
  then have "split_on (us 2) [] (p @ us 2 @ join (us 2) (q # ps)) 0 = p # split_on (us 2) [] (join (us 2) (q # ps)) 0"
    unfolding u using split_on_run [of 1 95 p "[]"] by simp
  then show ?case using 3 by (simp add: split_str_def)
qed simp

lemma replace_colon: "replace_all [colon] (us 2) s = join (us 2) (split_str [colon] s)"
  by (simp add: replace_all_def)

lemma split_at_char: "x \<notin> set e \<Longrightarrow> split_str [x] (e @ x # s) = e # split_str [x] s"
proof -
  assume e: "x \<notin> set e"
  then have "\<not> sublist [x] e" by (auto dest: set_mono_sublist)
  moreover have "e = [] \<or> last e \<noteq> x" using e by (metis last_in_set)
  ultimately show ?thesis using split_on_run [of 0 x e "[]" s] by (simp add: split_str_def)
qed

lemma join_colon: "join [colon] (split_str [colon] s) = s"
  by (simp add: split_str_def join_split_on)

lemma digits_decimal: "digits n = decimal n"
  by (induction n rule: digits.induct) (subst digits.simps, subst decimal.simps, simp)

lemma is_digit_decimal: "c \<in> set (decimal n) \<Longrightarrow> is_digit c"
proof -
  assume "c \<in> set (decimal n)"
  then obtain d where "d < 10" "c = of_nat (48 + d)" using decimal_digits by blast
  then show "is_digit c" using digit_unat [of d] by (simp add: is_digit_def del: of_nat_add)
qed

lemma dec_value_decimal: "dec_value (decimal n) = int n"
proof -
  have "foldl (\<lambda>n c. 10 * n + int (unat c - 48)) (int a) s = int (foldl (\<lambda>a c. 10 * a + (unat c - 48)) a s)" for s :: jsstring and a
  proof (induction s arbitrary: a)
    case (Cons c s)
    have "10 * int a + int (unat c - 48) = int (10 * a + (unat c - 48))" by simp
    then show ?case unfolding foldl_Cons by (simp only: Cons)
  qed simp
  from this [of 0 "decimal n"] show ?thesis by (simp add: dec_value_def decimal_value)
qed

lemma decimal_ne [simp]: "decimal n \<noteq> []"
  by (subst decimal.simps) simp

lemma digit_no_ws: "is_digit c \<Longrightarrow> \<not> is_ws c"
  by (auto simp: is_digit_def is_ws_def ws_codes_def)

lemma digit_no_sign: "is_digit c \<Longrightarrow> c \<noteq> 45 \<and> c \<noteq> 43 \<and> c \<noteq> 95"
  by (auto simp: is_digit_def)

lemma parseInt10_show_int: "parseInt10 (show_int i) = Some i"
proof -
  have all: "\<forall>c\<in>set (decimal n). is_digit c" for n using is_digit_decimal by blast
  obtain c cs where d: "decimal (nat \<bar>i\<bar>) = c # cs" using decimal_ne by (cases "decimal (nat \<bar>i\<bar>)") blast+
  have c: "is_digit c" using all [of "nat \<bar>i\<bar>"] d by simp
  have t: "takeWhile is_digit (decimal (nat \<bar>i\<bar>)) = decimal (nat \<bar>i\<bar>)" using all by (simp add: takeWhile_eq_all_conv)
  have s: "js ''-'' = [45]" "js ''+'' = [43]" by (simp_all add: js_def)
  have w: "\<not> is_ws 45" by (simp add: is_ws_def ws_codes_def)
  show ?thesis
  proof (cases "i < 0")
    case True
    then have "show_int i = 45 # decimal (nat \<bar>i\<bar>)" by (simp add: show_int_def digits_decimal s)
    then show ?thesis using True dec_value_decimal [of "nat \<bar>i\<bar>"]
      by (simp add: parseInt10_def Let_def s w t del: abs_of_neg abs_of_nonpos)
  next
    case False
    then have "show_int i = decimal (nat \<bar>i\<bar>)" by (simp add: show_int_def digits_decimal)
    moreover have "nat \<bar>i\<bar> = nat i" using False by simp
    ultimately have "show_int i = decimal (nat \<bar>i\<bar>)" by simp
    moreover have "dropWhile is_ws (decimal (nat \<bar>i\<bar>)) = decimal (nat \<bar>i\<bar>)"
      "take 1 (decimal (nat \<bar>i\<bar>)) \<noteq> [45]" "take 1 (decimal (nat \<bar>i\<bar>)) \<noteq> [43]"
      using digit_no_ws [OF c] digit_no_sign [OF c] by (simp_all add: d)
    ultimately show ?thesis using False dec_value_decimal [of "nat \<bar>i\<bar>"]
      by (simp add: parseInt10_def Let_def s t del: abs_of_nonneg)
  qed
qed

lemma show_int_no_us: "95 \<notin> set (show_int i)"
proof -
  have "95 \<notin> set (decimal n)" for n using is_digit_decimal digit_no_sign by blast
  then show ?thesis by (auto simp: show_int_def digits_decimal js_def)
qed

subsection \<open>The round trip\<close>

lemma us_sub: "m \<le> n \<Longrightarrow> \<not> sublist (us m) s \<Longrightarrow> \<not> sublist (us n) s"
proof
  assume "m \<le> n" "\<not> sublist (us m) s" "sublist (us n) s"
  moreover have "us n = us m @ us (n - m)" using \<open>m \<le> n\<close> by (simp add: us_def flip: replicate_add)
  then have "sublist (us m) (us n)" by (metis prefixI prefix_imp_sublist)
  ultimately show False using sublist_order.order_trans by blast
qed

lemma clean_name_join:
  assumes "clean_name s"
  shows "\<not> sublist (us 3) (replace_all [colon] (us 2) s) \<and> replace_all [colon] (us 2) s \<noteq> []
     \<and> hd (replace_all [colon] (us 2) s) \<noteq> 95 \<and> last (replace_all [colon] (us 2) s) \<noteq> 95"
  using clean_join [of "split_str [colon] s"] assms unfolding replace_colon clean_name_def split_str_def by simp

lemma sender_back: "clean_name s \<Longrightarrow> replace_all (us 2) [colon] (replace_all [colon] (us 2) s) = s"
proof -
  assume "clean_name s"
  then have "split_str (us 2) (replace_all [colon] (us 2) s) = split_str [colon] s"
    unfolding replace_colon clean_name_def by (intro split_join_clean) (simp_all add: split_str_def)
  then show ?thesis by (simp add: replace_all_def join_colon)
qed

text \<open>Encoding an ephemeral agent and parsing the id gives the agent back, colons and index included, when
  the pieces of its names between colons are not empty, do not begin or end with an underscore and hold no doubled one.\<close>

theorem ephemeral_id_roundtrip:
  assumes "clean e" "clean_name m" "\<forall>s. sender = Some s \<longrightarrow> clean_name s"
  shows "parseEphemeralAgentId (encodeEphemeralAgentId \<lparr>ep_endpoint = e, ep_model = m, ep_sender = sender, ep_index = idx\<rparr>)
     = Some \<lparr>ep_endpoint = e, ep_model = m, ep_sender = sender, ep_index = idx\<rparr>"
proof -
  let ?ps = "e # split_str [colon] m"
  let ?J = "join (us 2) ?ps"
  have ps: "\<forall>p\<in>set ?ps. clean p" using assms(1,2) by (auto simp: clean_name_def)
  have start: "replace_all [colon] (us 2) (e @ [colon] @ m) = ?J"
    unfolding replace_colon using split_at_char [of colon e m] assms(1) by (simp add: clean_def)
  have J: "\<not> sublist (us 3) ?J" "?J \<noteq> []" "hd ?J \<noteq> 95" "last ?J \<noteq> 95" using clean_join [OF _ ps] by simp_all
  obtain q qs where qs: "split_str [colon] m = q # qs" using split_ne [of "[colon]" "[]" m 0]
    by (cases "split_str [colon] m") (auto simp: split_str_def)
  have J2: "str_includes ?J (us 2)" unfolding str_includes_iff_sublist qs by (simp add: sublist_appendI)
  define W where "W = (case sender of None \<Rightarrow> ?J | Some s \<Rightarrow> ?J @ us 3 @ replace_all [colon] (us 2) s)"
  have snd_ne: "sender = Some s \<Longrightarrow> s \<noteq> []" for s using assms(3) by (auto simp: clean_name_def split_str_def clean_def)
  have W: "\<not> sublist (us 4) W" "W \<noteq> [] \<and> last W \<noteq> 95" "str_includes W (us 2)"
    and tk: "take_sender W = (sender, ?J)"
  proof -
    have J4: "\<not> sublist (us 4) ?J" using us_sub [of 3 4] J(1) by simp
    have "\<not> sublist (us 4) W \<and> (W \<noteq> [] \<and> last W \<noteq> 95) \<and> str_includes W (us 2) \<and> take_sender W = (sender, ?J)"
    proof (cases sender)
      case None
      then show ?thesis using J J2 J4 by (simp add: W_def take_sender_def str_includes_iff_sublist)
    next
      case (Some s)
      let ?S = "replace_all [colon] (us 2) s"
      have S: "\<not> sublist (us 3) ?S" "?S \<noteq> []" "hd ?S \<noteq> 95" "last ?S \<noteq> 95"
        using clean_name_join assms(3) Some by blast+
      have Wd: "W = ?J @ us 3 @ ?S" by (simp add: W_def Some)
      have "\<not> sublist (us 4) ?S" using us_sub [of 3 4] S(1) by simp
      then have n4: "\<not> sublist (us 4) W" using no_run_append [of 4 95 ?J ?S 3] J4 J S unfolding Wd us_def by simp
      have u3: "us 3 = replicate (Suc 2) 95" by (simp add: us_def eval_nat_numeral)
      have sp: "split_str (us 3) W = [?J, ?S]"
        using split_on_run [of 2 95 ?J "[]" ?S] J split_on_absent [OF S(1)[unfolded u3], of "[]"]
        unfolding Wd split_str_def u3 by simp
      have "sublist (us 3) W" unfolding Wd by (metis sublist_appendI)
      then have "take_sender W = (Some s, ?J)"
        using sp sender_back assms(3) Some by (simp add: take_sender_def str_includes_iff_sublist)
      moreover have "str_includes W (us 2)" using J2 unfolding Wd str_includes_iff_sublist by (metis sublist_append_leftI sublist_order.order_trans sublist_append_rightI)
      ultimately show ?thesis using n4 S Wd Some by simp
    qed
    then show "\<not> sublist (us 4) W" "W \<noteq> [] \<and> last W \<noteq> 95" "str_includes W (us 2)" "take_sender W = (sender, ?J)" by blast+
  qed
  have en: "encodeEphemeralAgentId \<lparr>ep_endpoint = e, ep_model = m, ep_sender = sender, ep_index = idx\<rparr>
      = (case idx of None \<Rightarrow> W | Some i \<Rightarrow> W @ us 4 @ show_int i)" (is "?E = _")
    using snd_ne start by (cases sender; cases idx) (simp_all add: encodeEphemeralAgentId_def Let_def W_def)
  have ix: "take_index ?E = (idx, W)"
  proof (cases idx)
    case None
    then have "?E = W" using en by simp
    then show ?thesis using None W(1) last_index_of_None [of "us 4" W] by (simp add: take_index_def)
  next
    case (Some i)
    have u4: "us 4 = replicate (Suc 3) 95" by (simp add: us_def eval_nat_numeral)
    have "last_index_of (us 4) (W @ us 4 @ show_int i) = Some (length W)"
      unfolding u4 by (rule last_run [OF show_int_no_us])
    moreover have "drop (length W + 4) (W @ us 4 @ show_int i) = show_int i" by (simp add: us_def)
    moreover have "?E = W @ us 4 @ show_int i" using en Some by simp
    ultimately show ?thesis using Some by (simp add: take_index_def parseInt10_show_int)
  qed
  have inc: "str_includes ?E (us 2)"
    using W(3) unfolding en str_includes_iff_sublist by (cases idx) (auto intro: sublist_order.order_trans [OF _ sublist_append_rightI])
  show ?thesis using inc ix tk split_join_clean [OF _ ps] assms(1) qs
    by (simp add: parseEphemeralAgentId_def join_colon [of m, unfolded qs] clean_def)
qed

lemma ephemeral_id_roundtrip_witness:
  "parseEphemeralAgentId (encodeEphemeralAgentId \<lparr>ep_endpoint = js ''caladon'', ep_model = js ''gpt_4:fast'', ep_sender = Some (js ''A b''), ep_index = Some 2\<rparr>)
     = Some \<lparr>ep_endpoint = js ''caladon'', ep_model = js ''gpt_4:fast'', ep_sender = Some (js ''A b''), ep_index = Some 2\<rparr>"
  by (rule ephemeral_id_roundtrip)
     (simp_all add: clean_def clean_name_def split_str_def js_def colon_def us_simps sublist_Cons_right)

text \<open>Stripping the index suffix undoes appending one, for every id and every index.\<close>

theorem strip_undoes_append:
  assumes "0 \<le> i"
  shows "stripAgentIdSuffix (appendAgentIdSuffix agentId i) = agentId"
proof -
  have d: "show_int i = decimal (nat i)" using assms by (simp add: show_int_def digits_decimal)
  have all: "\<forall>c\<in>set (rev (decimal (nat i))). is_digit c" using is_digit_decimal by auto
  have u: "rev (us 4) = us 4" "us 4 = 95 # us 3" "\<not> is_digit 95" by (simp_all add: us_simps is_digit_def)
  have r: "rev (appendAgentIdSuffix agentId i) = rev (decimal (nat i)) @ us 4 @ rev agentId"
    by (simp add: appendAgentIdSuffix_def d u(1))
  have "takeWhile is_digit (rev (decimal (nat i)) @ us 4 @ rev agentId) = rev (decimal (nat i))"
    "dropWhile is_digit (rev (decimal (nat i)) @ us 4 @ rev agentId) = us 4 @ rev agentId"
    using all by (simp_all add: u(2,3) takeWhile_append dropWhile_append)
  then show ?thesis by (simp add: stripAgentIdSuffix_def r Let_def us_simps)
qed

lemma strip_undoes_append_witness:
  "stripAgentIdSuffix (appendAgentIdSuffix (js ''agent_a____1'') 12) = js ''agent_a____1''"
  by (rule strip_undoes_append) simp
end
