(* ===== verification/ProviderConfig.thy ===== *)
theory ProviderConfig
  imports AgentIds Client
begin

text \<open>
  The shared configuration of the provider package,
  \<open>web-client/overlay/packages/data-provider/src/config.ts\<close>: the screening of the addresses an
  operator may allow-list, the rule for OIDC addresses, the endpoint names and model tables, the
  vision check and the lookups in an endpoints configuration. The zod schemas around these functions
  are declarations for a library and are not modelled; a schema that calls one of the functions here
  is represented by the predicate it refines with. The main result: an IPv4 entry is accepted exactly when it
  names a valid port of an address in one of ten reserved networks.
\<close>

subsection \<open>Literal addresses\<close>

text \<open>\<open>\<d>\<close> groups of \<open>/^(\d{1,3})\.(\d{1,3})\.(\d{1,3})\.(\d{1,3})$/\<close>, read as numbers.\<close>

definition is_group :: "jsstring \<Rightarrow> bool" where
  "is_group s = (s \<noteq> [] \<and> length s \<le> 3 \<and> list_all is_digit s)"

definition ipv4_octets :: "jsstring \<Rightarrow> (int \<times> int \<times> int \<times> int) option" where
  "ipv4_octets value =
     (case split_str (js ''.'') value of
        [a, b, c, d] \<Rightarrow>
          if is_group a \<and> is_group b \<and> is_group c \<and> is_group d
          then Some (dec_value a, dec_value b, dec_value c, dec_value d) else None
      | _ \<Rightarrow> None)"

definition private_octets :: "int \<Rightarrow> int \<Rightarrow> int \<Rightarrow> bool" where
  "private_octets a b c =
     (if a = 0 \<or> a = 10 \<or> a = 127 then True
      else if a = 169 \<and> b = 254 then True
      else if a = 172 \<and> b \<ge> 16 \<and> b \<le> 31 then True
      else if a = 192 \<and> b = 168 then True
      else if a = 192 \<and> b = 0 \<and> c = 0 then True
      else if a = 100 \<and> b \<ge> 64 \<and> b \<le> 127 then True
      else if a = 198 \<and> (b = 18 \<or> b = 19) then True
      else if a \<ge> 224 then True
      else False)"

definition isPrivateIPv4Literal :: "jsstring \<Rightarrow> bool" where
  "isPrivateIPv4Literal value =
     (case ipv4_octets value of None \<Rightarrow> False | Some (a, b, c, d) \<Rightarrow> private_octets a b c)"

text \<open>\<open>parseInt(s, 16)\<close> of up to four hexadecimal digits; the bit mask is applied to 32-bit integers.\<close>

definition is_hex :: "jschar \<Rightarrow> bool" where
  "is_hex c = (is_digit c \<or> (97 \<le> c \<and> c \<le> 102))"

definition hextet_value :: "jsstring \<Rightarrow> 32 word" where
  "hextet_value s = foldl (\<lambda>n c. 16 * n + (if is_digit c then ucast c - 48 else ucast c - 87)) 0 s"

definition isPrivateIPv6Literal :: "jsstring \<Rightarrow> bool" where
  "isPrivateIPv6Literal value =
     (let firstHextet = takeWhile (\<lambda>c. c \<noteq> 58) value in
      if \<not> str_includes value (js '':'') then False
      else if value = js ''::1'' \<or> value = js ''::'' then True
      else if prefix (js ''fc'') value \<or> prefix (js ''fd'') value then True
      else if firstHextet \<noteq> [] \<and> length firstHextet \<le> 4 \<and> list_all is_hex firstHextet
              \<and> hextet_value firstHextet AND 0xffc0 = 0xfe80 then True
      else if prefix (js ''::ffff:'') value \<and> ipv4_octets (drop 7 value) \<noteq> None
           then isPrivateIPv4Literal (drop 7 value)
      else False)"

subsection \<open>Allow-listed addresses\<close>

definition normalizePort :: "jsstring \<Rightarrow> jsstring" where
  "normalizePort p =
     (let portString = Prelude.trim p; parsed = dec_value portString in
      if portString = [] \<or> \<not> list_all is_digit portString then []
      else if parsed < 1 \<or> 65535 < parsed then []
      else show_int parsed)"

text \<open>\<open>replace(/^\[|\]$/g, '')\<close>\<close>

definition strip_brackets :: "jsstring \<Rightarrow> jsstring" where
  "strip_brackets s =
     (let t = (if take 1 s = [91] then drop 1 s else s)
      in if t \<noteq> [] \<and> last t = 93 then butlast t else t)"

text \<open>\<open>/^\[([^\]]+)\]:(\d+)$/\<close> and \<open>/^([^:]+):(\d+)$/\<close>, with their two groups.\<close>

definition match_bracketed :: "jsstring \<Rightarrow> (jsstring \<times> jsstring) option" where
  "match_bracketed s =
     (let t = drop 1 s; adr = takeWhile (\<lambda>c. c \<noteq> 93) t; r = dropWhile (\<lambda>c. c \<noteq> 93) t; ds = drop 2 r in
      if take 1 s = [91] \<and> adr \<noteq> [] \<and> take 2 r = [93, 58] \<and> ds \<noteq> [] \<and> list_all is_digit ds
      then Some (adr, ds) else None)"

definition match_hostPort :: "jsstring \<Rightarrow> (jsstring \<times> jsstring) option" where
  "match_hostPort s =
     (let adr = takeWhile (\<lambda>c. c \<noteq> 58) s; r = dropWhile (\<lambda>c. c \<noteq> 58) s; ds = drop 1 r in
      if adr \<noteq> [] \<and> take 1 r = [58] \<and> ds \<noteq> [] \<and> list_all is_digit ds then Some (adr, ds) else None)"

definition parseAllowedAddressEntry ::
  "(jschar \<Rightarrow> jsstring) \<Rightarrow> jsstring \<Rightarrow> (jsstring \<times> jsstring) option" where
  "parseAllowedAddressEntry fold_of e =
     (let trimmed = Prelude.trim (toLowerCase fold_of e);
          m = (case match_bracketed trimmed of None \<Rightarrow> match_hostPort trimmed | Some x \<Rightarrow> Some x);
          adr = strip_brackets (case m of None \<Rightarrow> [] | Some (h, _) \<Rightarrow> h);
          prt = normalizePort (case m of None \<Rightarrow> [] | Some (_, p) \<Rightarrow> p)
      in if adr = [] \<or> prt = [] then None else Some (adr, prt))"

text \<open>The four refinements of the entry schema, in order.\<close>

definition not_blank :: "jsstring \<Rightarrow> bool" where
  "not_blank e = (e \<noteq> [] \<and> Prelude.trim e \<noteq> [])"

definition not_a_url :: "jsstring \<Rightarrow> bool" where
  "not_a_url e = (\<not> str_includes e (js ''://'') \<and> \<not> str_includes e (js ''/'') \<and> \<not> list_ex is_ws e)"

definition private_scope :: "(jschar \<Rightarrow> jsstring) \<Rightarrow> jsstring \<Rightarrow> bool" where
  "private_scope fold_of e =
     (case parseAllowedAddressEntry fold_of e of
        None \<Rightarrow> False
      | Some (stripped, _) \<Rightarrow>
          let isIPv4 = (ipv4_octets stripped \<noteq> None); isIPv6 = (\<not> isIPv4 \<and> str_includes stripped (js '':''))
          in if \<not> isIPv4 \<and> \<not> isIPv6 then True
             else if isIPv4 then isPrivateIPv4Literal stripped else isPrivateIPv6Literal stripped)"

definition allowedAddressEntry :: "(jschar \<Rightarrow> jsstring) \<Rightarrow> jsstring \<Rightarrow> bool" where
  "allowedAddressEntry fold_of e =
     (not_blank e \<and> not_a_url e \<and> parseAllowedAddressEntry fold_of e \<noteq> None \<and> private_scope fold_of e)"

subsection \<open>OIDC addresses\<close>

text \<open>\<open>new URL\<close> is an argument: the protocol and host name, or \<open>None\<close> when it throws.\<close>

definition LOCAL_REMOTE_OIDC_HOSTS :: "jsstring list" where
  "LOCAL_REMOTE_OIDC_HOSTS = [js ''localhost'', js ''127.0.0.1'', js ''[::1]'']"

definition isRemoteOidcUrlAllowed ::
  "(jschar \<Rightarrow> jsstring) \<Rightarrow> (jsstring \<Rightarrow> (jsstring \<times> jsstring) option) \<Rightarrow> jsstring \<Rightarrow> bool" where
  "isRemoteOidcUrlAllowed fold_of new_url value =
     (case new_url value of
        None \<Rightarrow> False
      | Some (protocol, host) \<Rightarrow>
          if protocol = js ''https:'' then True
          else if protocol \<noteq> js ''http:'' then False
          else (let hostname = toLowerCase fold_of host
                in hostname \<in> set LOCAL_REMOTE_OIDC_HOSTS \<or> suffix (js ''.localhost'') hostname))"

record oidc =
  oi_enabled :: bool
  oi_issuer :: "jsstring option"
  oi_audience :: "jsstring option"

definition oidc_issues :: "oidc \<Rightarrow> (string \<times> string) list" where
  "oidc_issues c =
     (if oi_enabled c \<and> nullish (oi_issuer c) [] = [] then [(''issuer'', ''issuer is required when OIDC auth is enabled'')] else [])
     @ (if oi_enabled c \<and> nullish (oi_audience c) [] = [] then [(''audience'', ''audience is required when OIDC auth is enabled'')] else [])"

subsection \<open>Endpoint names and model tables\<close>

text \<open>
  The members of the enumeration \<open>EModelEndpoint\<close> this file uses; the enumeration itself and its values are
  declared outside the files here, so \<open>e_value\<close> gives them. \<open>e_in_enum\<close> is \<open>key in EModelEndpoint\<close>, \<open>e_is_agents\<close> the
  function \<open>isAgentsEndpoint\<close>.
\<close>

datatype EModelEndpoint = E_openAI | E_assistants | E_azureAssistants | E_azureOpenAI | E_agents | E_google
  | E_anthropic | E_custom | E_bedrock

record endpoint_names =
  e_value :: "EModelEndpoint \<Rightarrow> jsstring"
  e_in_enum :: "jsstring \<Rightarrow> bool"
  e_is_agents :: "jsstring \<Rightarrow> bool"
  e_is_assistants :: "jsstring \<Rightarrow> bool"

text \<open>A property of an object literal: of two entries with one key the later one counts.\<close>

definition own :: "(jsstring \<times> 'a) list \<Rightarrow> jsstring \<Rightarrow> 'a option" where
  "own tbl k = map_of (rev tbl) k"

definition alternateName :: "('x) endpoint_names_scheme \<Rightarrow> (jsstring \<times> jsstring) list" where
  "alternateName en =
     [(e_value en E_openAI, js ''OpenAI''), (e_value en E_assistants, js ''Assistants''),
      (e_value en E_agents, js ''My Agents''), (e_value en E_azureAssistants, js ''Azure Assistants''),
      (e_value en E_azureOpenAI, js ''Azure OpenAI''), (e_value en E_google, js ''Google''),
      (e_value en E_anthropic, js ''Anthropic''), (e_value en E_custom, js ''Custom''),
      (e_value en E_bedrock, js ''AWS Bedrock''), (js ''ollama'', js ''Ollama''), (js ''deepseek'', js ''DeepSeek''),
      (js ''moonshot'', js ''Moonshot''), (js ''xai'', js ''xAI''), (js ''vercel'', js ''Vercel''), (js ''helicone'', js ''Helicone'')]"

definition sharedOpenAIModels :: "jsstring list" where
  "sharedOpenAIModels =
     [js ''gpt-5.4'', js ''gpt-5.4-thinking'', js ''gpt-5.4-pro'', js ''gpt-5.1'',
      js ''gpt-5.1-chat-latest'', js ''gpt-5.1-codex'', js ''gpt-5.1-codex-mini'', js ''gpt-5'',
      js ''gpt-5-mini'', js ''gpt-5-nano'', js ''gpt-5-chat-latest'', js ''gpt-4.1'',
      js ''gpt-4.1-mini'', js ''gpt-4.1-nano'', js ''gpt-4o-mini'', js ''gpt-4o'',
      js ''gpt-4.5-preview'', js ''gpt-4.5-preview-2025-02-27'', js ''gpt-3.5-turbo'',
      js ''gpt-3.5-turbo-0125'', js ''gpt-4-turbo'', js ''gpt-4-turbo-2024-04-09'',
      js ''gpt-4-0125-preview'', js ''gpt-4-turbo-preview'', js ''gpt-4-1106-preview'',
      js ''gpt-3.5-turbo-1106'', js ''gpt-3.5-turbo-16k-0613'', js ''gpt-3.5-turbo-16k'', js ''gpt-4'',
      js ''gpt-4-0314'', js ''gpt-4-32k-0314'', js ''gpt-4-0613'', js ''gpt-3.5-turbo-0613'']"

definition sharedAnthropicModels :: "jsstring list" where
  "sharedAnthropicModels =
     [js ''claude-opus-4-8'', js ''claude-opus-4-7'', js ''claude-sonnet-4-6'', js ''claude-opus-4-6'',
      js ''claude-sonnet-4-5'', js ''claude-sonnet-4-5-20250929'', js ''claude-haiku-4-5'',
      js ''claude-haiku-4-5-20251001'', js ''claude-opus-4-1'', js ''claude-opus-4-1-20250805'',
      js ''claude-opus-4-5'', js ''claude-sonnet-4-20250514'', js ''claude-sonnet-4-0'',
      js ''claude-opus-4-20250514'', js ''claude-opus-4-0'', js ''claude-3-7-sonnet-latest'',
      js ''claude-3-7-sonnet-20250219'', js ''claude-3-5-haiku-20241022'',
      js ''claude-3-5-sonnet-20241022'', js ''claude-3-5-sonnet-20240620'',
      js ''claude-3-5-sonnet-latest'']"

definition bedrockModels :: "jsstring list" where
  "bedrockModels =
     [js ''anthropic.claude-opus-4-8'', js ''anthropic.claude-opus-4-7'',
      js ''anthropic.claude-sonnet-4-6'', js ''anthropic.claude-opus-4-6-v1'',
      js ''anthropic.claude-sonnet-4-5-20250929-v1:0'', js ''anthropic.claude-haiku-4-5-20251001-v1:0'',
      js ''anthropic.claude-opus-4-1-20250805-v1:0'', js ''anthropic.claude-3-5-sonnet-20241022-v2:0'',
      js ''anthropic.claude-3-5-sonnet-20240620-v1:0'', js ''anthropic.claude-3-5-haiku-20241022-v1:0'',
      js ''cohere.command-r-v1:0'', js ''cohere.command-r-plus-v1:0'', js ''meta.llama2-13b-chat-v1'',
      js ''meta.llama2-70b-chat-v1'', js ''meta.llama3-8b-instruct-v1:0'',
      js ''meta.llama3-70b-instruct-v1:0'', js ''meta.llama3-1-8b-instruct-v1:0'',
      js ''meta.llama3-1-70b-instruct-v1:0'', js ''meta.llama3-1-405b-instruct-v1:0'',
      js ''mistral.mistral-7b-instruct-v0:2'', js ''mistral.mixtral-8x7b-instruct-v0:1'',
      js ''mistral.mistral-large-2402-v1:0'', js ''mistral.mistral-large-2407-v1:0'',
      js ''mistral.mistral-small-2402-v1:0'', js ''ai21.jamba-instruct-v1:0'',
      js ''amazon.titan-text-lite-v1'', js ''amazon.titan-text-express-v1'',
      js ''amazon.titan-text-premier-v1:0'']"

definition googleModels :: "jsstring list" where
  "googleModels =
     [js ''gemini-3.5-flash'', js ''gemini-3.1-pro-preview'', js ''gemini-3.1-pro-preview-customtools'',
      js ''gemini-3.1-flash-lite-preview'', js ''gemini-3-pro-preview'', js ''gemini-3-flash-preview'',
      js ''gemini-2.5-pro'', js ''gemini-2.5-flash'', js ''gemini-2.5-flash-lite'']"

definition defaultModels :: "('x) endpoint_names_scheme \<Rightarrow> (jsstring \<times> jsstring list) list" where
  "defaultModels en =
     [(e_value en E_azureAssistants, sharedOpenAIModels),
      (e_value en E_assistants, sharedOpenAIModels @ [js ''chatgpt-4o-latest'']),
      (e_value en E_agents, sharedOpenAIModels), (e_value en E_google, googleModels),
      (e_value en E_anthropic, sharedAnthropicModels),
      (e_value en E_openAI, sharedOpenAIModels @ [js ''chatgpt-4o-latest'', js ''gpt-4-vision-preview'',
         js ''gpt-3.5-turbo-instruct-0914'', js ''gpt-3.5-turbo-instruct'']),
      (e_value en E_bedrock, bedrockModels)]"

definition ascii_lower :: "jschar \<Rightarrow> jschar" where
  "ascii_lower c = (if 65 \<le> c \<and> c \<le> 90 then c + 32 else c)"

text \<open>\<open>/gpt-3\\.5/i\<close> in the source doubles the backslash: it asks for a backslash, any character and a 5.\<close>

fun matches_gpt3 :: "jsstring \<Rightarrow> bool" where
  "matches_gpt3 [] = False"
| "matches_gpt3 (c # cs) =
     (prefix (js ''gpt-3'' @ [92]) (map ascii_lower (c # cs)) \<and> take 1 (drop 7 (c # cs)) = [53]
        \<and> take 1 (drop 6 (c # cs)) \<notin> {[10], [13], [0x2028], [0x2029]}
      \<or> matches_gpt3 cs)"

definition fitlerAssistantModels :: "jsstring \<Rightarrow> bool" where
  "fitlerAssistantModels s =
     ((str_includes (map ascii_lower s) (js ''gpt-4'') \<or> matches_gpt3 s)
      \<and> \<not> (str_includes (map ascii_lower s) (js ''vision'') \<or> str_includes (map ascii_lower s) (js ''instruct'')))"

definition initialModelsConfig :: "('x) endpoint_names_scheme \<Rightarrow> (jsstring \<times> jsstring list) list" where
  "initialModelsConfig en =
     (let dflt = (\<lambda>e. nullish (own (defaultModels en) (e_value en e)) []); openAIModels = dflt E_openAI in
      [(js ''initial'', []), (e_value en E_openAI, openAIModels),
       (e_value en E_assistants, filter fitlerAssistantModels openAIModels), (e_value en E_agents, openAIModels),
       (e_value en E_azureOpenAI, openAIModels), (e_value en E_google, dflt E_google),
       (e_value en E_anthropic, dflt E_anthropic), (e_value en E_bedrock, dflt E_bedrock)])"

text \<open>Every chat route is the one route of the shim.\<close>

definition CALADON_CHAT_URL :: jsstring where "CALADON_CHAT_URL = js ''/api/caladon/chat''"

definition EndpointURLs :: "('x) endpoint_names_scheme \<Rightarrow> (jsstring \<times> jsstring) list" where
  "EndpointURLs en = [(e_value en E_assistants, CALADON_CHAT_URL), (e_value en E_azureAssistants, CALADON_CHAT_URL),
     (e_value en E_agents, CALADON_CHAT_URL)]"

definition visionModels :: "jsstring list" where
  "visionModels =
     [js ''qwen-vl'', js ''grok-vision'', js ''grok-2-vision'', js ''grok-3'', js ''gpt-4o-mini'',
      js ''gpt-4o'', js ''gpt-4-turbo'', js ''gpt-4-vision'', js ''o4-mini'', js ''o3'', js ''o1'',
      js ''gpt-5'', js ''gpt-4.1'', js ''gpt-4.5'', js ''llava'', js ''llava-13b'',
      js ''gemini-pro-vision'', js ''claude-3'', js ''gemma'', js ''gemini-exp'', js ''gemini-1.5'',
      js ''gemini-2'', js ''gemini-2.5'', js ''gemini-3'', js ''moondream'', js ''llama3.2-vision'',
      js ''llama-3.2-11b-vision'', js ''llama-3-2-11b-vision'', js ''llama-3.2-90b-vision'',
      js ''llama-3-2-90b-vision'', js ''llama-4'', js ''claude-opus-4'', js ''claude-sonnet-4'',
      js ''claude-haiku-4'']"

definition validateVisionModel :: "jsstring \<Rightarrow> jsstring list \<Rightarrow> jsstring list option \<Rightarrow> bool" where
  "validateVisionModel m additionalModels availableModels =
     (if m = [] then False
      else if str_includes m (js ''gpt-4-turbo-preview'') \<or> str_includes m (js ''o1-mini'') then False
      else if availableModels \<noteq> None \<and> m \<notin> set (the availableModels) then False
      else list_ex (str_includes m) (visionModels @ additionalModels))"

subsection \<open>The endpoints configuration\<close>

text \<open>A configuration is an object of objects; \<open>None\<close> is null or undefined.\<close>

definition getEndpointField ::
  "(jsstring \<times> json) list option \<Rightarrow> jsstring option \<Rightarrow> string \<Rightarrow> json option" where
  "getEndpointField endpointsConfig endpoint property =
     (case (endpointsConfig, endpoint) of
        (Some kvs, Some k) \<Rightarrow>
          let config = map_of kvs k in if \<not> truthy config then None else getProp (the config) (js property)
      | _ \<Rightarrow> None)"

definition or_name :: "json option \<Rightarrow> jsstring \<Rightarrow> json" where
  "or_name v k = (if truthy v then the v else JStr k)"

definition resolveEndpointType ::
  "('x) endpoint_names_scheme \<Rightarrow> (jsstring \<times> json) list option \<Rightarrow> jsstring option \<Rightarrow> jsstring option \<Rightarrow> json option" where
  "resolveEndpointType en endpointsConfig endpoint agentProvider =
     (let e = nullish endpoint []; p = nullish agentProvider [] in
      if e = [] then None
      else if \<not> e_is_agents en e then Some (or_name (getEndpointField endpointsConfig (Some e) ''type'') e)
      else if p \<noteq> [] then Some (or_name (getEndpointField endpointsConfig (Some p) ''type'') p)
      else Some (JStr (e_value en E_agents)))"

text \<open>\<open>endpointsConfig[endpoint]?.customParams?.defaultParamsEndpoint\<close>\<close>

definition chain_prop :: "json option \<Rightarrow> string \<Rightarrow> json option" where
  "chain_prop v k = (case defined v of None \<Rightarrow> None | Some w \<Rightarrow> getProp w (js k))"

definition getDefaultParamsEndpoint ::
  "(jsstring \<times> json) list option \<Rightarrow> jsstring option \<Rightarrow> json option" where
  "getDefaultParamsEndpoint endpointsConfig endpoint =
     (case endpointsConfig of
        None \<Rightarrow> None
      | Some kvs \<Rightarrow>
          if nullish endpoint [] = [] then None
          else chain_prop (chain_prop (map_of kvs (the endpoint)) ''customParams'') ''defaultParamsEndpoint'')"

text \<open>No model named gpt-3.5 reaches the assistants: the doubled backslash of the filter never matches one.\<close>

lemma no_backslash: "92 \<notin> set s \<Longrightarrow> \<not> matches_gpt3 s"
proof (induction s)
  case (Cons c cs)
  have "\<not> prefix (js ''gpt-3'' @ [92]) (map ascii_lower (c # cs))"
  proof
    assume "prefix (js ''gpt-3'' @ [92]) (map ascii_lower (c # cs))"
    then have "92 \<in> ascii_lower ` set (c # cs)" by (auto simp: prefix_def) (metis in_set_conv_decomp list.set_map set_ConsD)
    then obtain d where d: "d \<in> set (c # cs)" "ascii_lower d = 92" by (metis imageE)
    have "ascii_lower d = 92 \<Longrightarrow> d = 92"
      by (auto simp: ascii_lower_def word_le_nat_alt split: if_splits)
    then show False using d Cons.prems by auto
  qed
  then show ?case using Cons by simp
qed simp

subsection \<open>The reserved networks\<close>

text \<open>The specification: ten networks in the usual notation, and membership by the leading bits.\<close>

definition address :: "nat \<Rightarrow> nat \<Rightarrow> nat \<Rightarrow> nat \<Rightarrow> nat" where
  "address a b c d = a * 2 ^ 24 + b * 2 ^ 16 + c * 2 ^ 8 + d"

definition in_network :: "nat \<Rightarrow> nat \<times> nat \<Rightarrow> bool" where
  "in_network ip n = (ip div 2 ^ (32 - snd n) = fst n div 2 ^ (32 - snd n))"

definition reserved_networks :: "(nat \<times> nat) list" where
  "reserved_networks =
     [(address 0 0 0 0, 8), (address 10 0 0 0, 8), (address 127 0 0 0, 8), (address 169 254 0 0, 16),
      (address 172 16 0 0, 12), (address 192 168 0 0, 16), (address 192 0 0 0, 24), (address 100 64 0 0, 10),
      (address 198 18 0 0, 15), (address 224 0 0 0, 3)]"

lemma address_div:
  assumes "b < 256" "c < 256" "d < 256"
  shows "address a b c d div 2 ^ 24 = a" "address a b c d div 2 ^ 16 = 256 * a + b"
    "address a b c d div 2 ^ 8 = 65536 * a + 256 * b + c"
  using assms unfolding address_def by simp_all

lemma address_div_more:
  assumes "b < 256" "c < 256" "d < 256"
  shows "address a b c d div 2 ^ 20 = 16 * a + b div 16" "address a b c d div 2 ^ 22 = 4 * a + b div 64"
    "address a b c d div 2 ^ 17 = 128 * a + b div 2" "address a b c d div 2 ^ 29 = a div 32"
proof -
  have *: "address a b c d div 2 ^ (16 + k) = (256 * a + b) div 2 ^ k" for k
    using address_div(2) [OF assms, of a] by (simp add: power_add div_mult2_eq)
  show "address a b c d div 2 ^ 20 = 16 * a + b div 16" using * [of 4] by simp
  show "address a b c d div 2 ^ 22 = 4 * a + b div 64" using * [of 6] by simp
  show "address a b c d div 2 ^ 17 = 128 * a + b div 2" using * [of 1] by simp
  show "address a b c d div 2 ^ 29 = a div 32" using * [of 13] assms(1) by simp
qed

lemma two_digits: "(y::nat) < m \<Longrightarrow> v < m \<Longrightarrow> m * x + y = m * u + v \<longleftrightarrow> x = u \<and> y = v"
  by (metis add.commute add_left_cancel div_mult_self2 div_less add_0 gr_implies_not0)

lemma private_octets_networks:
  assumes "a < 256" "b < 256" "c < 256" "d < 256"
  shows "private_octets (int a) (int b) (int c) \<longleftrightarrow> (\<exists>n\<in>set reserved_networks. in_network (address a b c d) n)"
proof -
  have k: "(32::nat) - 8 = 24" "(32::nat) - 16 = 16" "(32::nat) - 12 = 20" "(32::nat) - 24 = 8"
    "(32::nat) - 10 = 22" "(32::nat) - 15 = 17" "(32::nat) - 3 = 29" by simp_all
  have "(\<exists>n\<in>set reserved_networks. in_network (address a b c d) n) \<longleftrightarrow>
     a = 0 \<or> a = 10 \<or> a = 127 \<or> 256 * a + b = 256 * 169 + 254 \<or> 16 * a + b div 16 = 16 * 172 + 1
     \<or> 256 * a + b = 256 * 192 + 168 \<or> 65536 * a + 256 * b + c = 65536 * 192 \<or> 4 * a + b div 64 = 4 * 100 + 1
     \<or> 128 * a + b div 2 = 128 * 198 + 9 \<or> a div 32 = 7"
    unfolding reserved_networks_def in_network_def
    by (simp only: list.set bex_simps fst_conv snd_conv k address_div [OF assms(2-4)] address_div_more [OF assms(2-4)]) (simp add: address_def)
  also have "\<dots> \<longleftrightarrow> a = 0 \<or> a = 10 \<or> a = 127 \<or> (a = 169 \<and> b = 254) \<or> (a = 172 \<and> 16 \<le> b \<and> b \<le> 31)
     \<or> (a = 192 \<and> b = 168) \<or> (a = 192 \<and> b = 0 \<and> c = 0) \<or> (a = 100 \<and> 64 \<le> b \<and> b \<le> 127)
     \<or> (a = 198 \<and> (b = 18 \<or> b = 19)) \<or> 224 \<le> a"
  proof -
    have "256 * a + b = 256 * 169 + 254 \<longleftrightarrow> a = 169 \<and> b = 254" using assms(2) by (intro two_digits) simp_all
    moreover have "256 * a + b = 256 * 192 + 168 \<longleftrightarrow> a = 192 \<and> b = 168" using assms(2) by (intro two_digits) simp_all
    moreover have "16 * a + b div 16 = 16 * 172 + 1 \<longleftrightarrow> a = 172 \<and> b div 16 = 1" using assms(2) by (intro two_digits) simp_all
    moreover have "b div 16 = 1 \<longleftrightarrow> 16 \<le> b \<and> b \<le> 31" by (intro iffI) linarith+
    moreover have "65536 * a + 256 * b + c = 65536 * 192 \<longleftrightarrow> a = 192 \<and> b = 0 \<and> c = 0"
      using assms(2,3) two_digits [of "256 * b + c" 65536 0 a 192] by auto
    moreover have "4 * a + b div 64 = 4 * 100 + 1 \<longleftrightarrow> a = 100 \<and> b div 64 = 1" using assms(2) by (intro two_digits) simp_all
    moreover have "b div 64 = 1 \<longleftrightarrow> 64 \<le> b \<and> b \<le> 127" by (intro iffI) linarith+
    moreover have "128 * a + b div 2 = 128 * 198 + 9 \<longleftrightarrow> a = 198 \<and> b div 2 = 9" using assms(2) by (intro two_digits) simp_all
    moreover have "b div 2 = 9 \<longleftrightarrow> b = 18 \<or> b = 19" by (intro iffI) linarith+
    moreover have "a div 32 = 7 \<longleftrightarrow> 224 \<le> a" using assms(1) by (intro iffI) linarith+
    ultimately show ?thesis by (simp only: conj_assoc)
  qed
  also have "\<dots> \<longleftrightarrow> private_octets (int a) (int b) (int c)"
    unfolding private_octets_def by simp
  finally show ?thesis by simp
qed

subsection \<open>Dotted addresses\<close>

text \<open>The entry \<open>a.b.c.d:p\<close> as an operator writes it.\<close>

definition dotted :: "nat \<Rightarrow> nat \<Rightarrow> nat \<Rightarrow> nat \<Rightarrow> jsstring" where
  "dotted a b c d = decimal a @ js ''.'' @ decimal b @ js ''.'' @ decimal c @ js ''.'' @ decimal d"

lemma short_decimal: "n < 256 \<Longrightarrow> length (decimal n) \<le> 3"
proof -
  assume n: "n < 256"
  have 1: "length (decimal k) = 1" if "k < 10" for k using that by (subst decimal.simps) simp
  have 2: "length (decimal k) \<le> 2" if "k < 100" for k
  proof (cases "k < 10")
    case False
    then show ?thesis using 1 [of "k div 10"] that by (subst decimal.simps) simp
  qed (simp add: 1)
  show ?thesis
  proof (cases "n < 10")
    case False
    then show ?thesis using 2 [of "n div 10"] n by (subst decimal.simps) simp
  qed (simp add: 1)
qed

lemma all_digits: "list_all is_digit (decimal n)"
  using is_digit_decimal by (auto simp: list_all_iff)

lemma group_decimal: "n < 256 \<Longrightarrow> is_group (decimal n)"
  by (simp add: is_group_def short_decimal all_digits)

lemma decimal_lacks: "\<not> is_digit x \<Longrightarrow> x \<notin> set (decimal n)"
  using is_digit_decimal by blast

lemma lit: "js ''.'' = [46]" "js '':'' = [58]" "js ''/'' = [47]" "\<not> is_digit 46" "\<not> is_digit 58" "\<not> is_digit 91" "\<not> is_digit 93" "\<not> is_digit 47"
  by (simp_all add: js_def is_digit_def)

lemma split_dot: "split_str [46] (decimal a @ 46 # s) = decimal a # split_str [46] s"
  using split_at_char [of 46 "decimal a" s] decimal_lacks lit(4) by simp

lemma split_last: "split_str [46] (decimal a) = [decimal a]"
proof -
  have "\<not> sublist [46] (decimal a)" using decimal_lacks [OF lit(4)] by (auto dest: set_mono_sublist)
  then show ?thesis using split_on_absent [of "[46]" "decimal a" "[]"] by (simp add: split_str_def)
qed

lemma octets_dotted:
  "a < 256 \<Longrightarrow> b < 256 \<Longrightarrow> c < 256 \<Longrightarrow> d < 256 \<Longrightarrow>
     ipv4_octets (dotted a b c d) = Some (int a, int b, int c, int d)"
  by (simp add: ipv4_octets_def dotted_def lit(1) split_dot split_last group_decimal dec_value_decimal)

lemma decimal_hd_last: "is_digit (hd (decimal n))" "is_digit (last (decimal n))"
  using is_digit_decimal decimal_ne by (metis hd_in_set, metis last_in_set)

lemma dotted_ends: "dotted a b c d \<noteq> []" "is_digit (hd (dotted a b c d))" "is_digit (last (dotted a b c d))"
  using decimal_hd_last by (simp_all add: dotted_def lit(1))

lemma set_dotted: "set (dotted a b c d) \<subseteq> {x. is_digit x \<or> x = 46}"
  using is_digit_decimal by (auto simp: dotted_def lit(1))

lemma lower_same:
  assumes "\<forall>c\<in>set s. is_digit c \<or> c = 46 \<or> c = 58"
  shows "toLowerCase f s = s"
proof -
  have "\<not> (65 \<le> c \<and> c \<le> 90) \<and> c < 128" if "is_digit c \<or> c = 46 \<or> c = 58" for c :: jschar
    using that by (auto simp: is_digit_def word_le_nat_alt word_less_nat_alt)
  then show ?thesis using assms unfolding toLowerCase_def by (induction s) auto
qed

lemma trim_same:
  assumes "\<forall>c\<in>set s. \<not> is_ws c"
  shows "Prelude.trim s = s"
proof -
  have "dropWhile is_ws s = s" "dropWhile is_ws (rev s) = rev s"
    using assms unfolding dropWhile_eq_self_iff by (metis hd_in_set, metis hd_in_set set_rev rev_is_Nil_conv)
  then show ?thesis by (simp add: Prelude.trim_def trim_end_def)
qed

lemma not_ws: "is_digit c \<or> c = 46 \<or> c = 58 \<Longrightarrow> \<not> is_ws c"
  using digit_no_ws by (auto simp: is_ws_def ws_codes_def)

lemma normalizePort_decimal: "normalizePort (decimal p) = (if 1 \<le> p \<and> p \<le> 65535 then decimal p else [])"
proof -
  have "Prelude.trim (decimal p) = decimal p" using trim_same is_digit_decimal not_ws by blast
  then show ?thesis
    by (auto simp: normalizePort_def Let_def all_digits dec_value_decimal show_int_def digits_decimal)
qed

lemma parse_dotted:
  "parseAllowedAddressEntry f (dotted a b c d @ js '':'' @ decimal p)
     = (if 1 \<le> p \<and> p \<le> 65535 then Some (dotted a b c d, decimal p) else None)"
proof -
  let ?A = "dotted a b c d" and ?e = "dotted a b c d @ 58 # decimal p"
  have cs: "\<forall>x\<in>set ?e. is_digit x \<or> x = 46 \<or> x = 58" using set_dotted is_digit_decimal by fastforce
  have t: "Prelude.trim (toLowerCase f ?e) = ?e" using lower_same [OF cs] trim_same cs not_ws by metis
  have h: "take 1 ?A = [hd ?A]" "take 1 ?e = [hd ?A]" "hd ?A \<noteq> 91" "last ?A \<noteq> 93"
    using dotted_ends [of a b c d] lit(6,7) by (auto simp: take_Suc neq_Nil_conv)
  have no: "58 \<notin> set ?A" using set_dotted lit(5) by fastforce
  then have w: "takeWhile (\<lambda>c. c \<noteq> 58) ?e = ?A" "dropWhile (\<lambda>c. c \<noteq> 58) ?e = 58 # decimal p"
    by (auto simp: takeWhile_append dropWhile_append)
  have m: "match_bracketed ?e = None" "match_hostPort ?e = Some (?A, decimal p)"
    using h w dotted_ends(1) by (simp_all add: match_bracketed_def match_hostPort_def Let_def all_digits)
  have s: "strip_brackets ?A = ?A" using h dotted_ends(1) by (simp add: strip_brackets_def)
  show ?thesis
    by (simp add: parseAllowedAddressEntry_def lit(2) t m s Let_def normalizePort_decimal dotted_ends(1))
qed

text \<open>C39. The allow-list accepts an IPv4 entry exactly when its port is a port and its address lies in
  one of the ten reserved networks: no public address gets through, and no private one is refused.\<close>

theorem ipv4_entry_accepted:
  assumes "a < 256" "b < 256" "c < 256" "d < 256"
  shows "allowedAddressEntry fold_of (dotted a b c d @ js '':'' @ decimal p)
     \<longleftrightarrow> 1 \<le> p \<and> p \<le> 65535 \<and> (\<exists>n\<in>set reserved_networks. in_network (address a b c d) n)"
proof -
  let ?e = "dotted a b c d @ js '':'' @ decimal p"
  have cs: "\<forall>x\<in>set ?e. is_digit x \<or> x = 46 \<or> x = 58" using set_dotted is_digit_decimal lit(2) by fastforce
  then have ws: "\<forall>x\<in>set ?e. \<not> is_ws x" and sl: "47 \<notin> set ?e" using not_ws lit(8) by (blast, fastforce)
  have "\<not> sublist (js ''/'') ?e" "\<not> sublist (js ''://'') ?e"
    using sl by (auto simp: js_def dest!: set_mono_sublist)
  then have "not_a_url ?e" using ws by (auto simp: not_a_url_def str_includes_iff_sublist list_ex_iff)
  moreover have "not_blank ?e" using trim_same [OF ws] dotted_ends(1) by (simp add: not_blank_def)
  moreover have "private_scope fold_of ?e \<longleftrightarrow> 1 \<le> p \<and> p \<le> 65535 \<and> private_octets (int a) (int b) (int c)"
    using octets_dotted [OF assms] by (auto simp: private_scope_def parse_dotted isPrivateIPv4Literal_def)
  ultimately show ?thesis
    using private_octets_networks [OF assms] by (auto simp: allowedAddressEntry_def parse_dotted)
qed

lemma ipv4_entry_accepted_witness:
  "\<not> allowedAddressEntry (\<lambda>c. [c]) (dotted 172 32 0 1 @ js '':'' @ decimal 443)"
  using ipv4_entry_accepted [of 172 32 0 1 "\<lambda>c. [c]" 443]
  by (simp add: reserved_networks_def in_network_def address_def)

end
