(* ===== verification/UnlockScreen.thy ===== *)
theory UnlockScreen
  imports ProviderConfig "HOL-Library.Sublist"
begin

text \<open>
  The unlock screen, \<open>components/Auth/CaladonUnlock.tsx\<close>: the recovery code of a seed and the screen's states.
  A step is one click, one keystroke or the end of the handshake; a control that is not rendered, or is
  disabled, does nothing. The seeds handed to \<open>caladon.unlock\<close> are logged in the order of the calls.
\<close>

subsection \<open>Recovery codes\<close>

definition dash :: jschar where "dash = of_char (CHR ''-'')"

text \<open>\<open>match(/.{1,8}/g)\<close>: blocks of eight.\<close>

fun blocks8 :: "'a list \<Rightarrow> 'a list list" where
  "blocks8 [] = []"
| "blocks8 (c # cs) = take 8 (c # cs) # blocks8 (drop 7 cs)"

definition encodeRecoveryCode :: "bytes \<Rightarrow> jsstring" where
  "encodeRecoveryCode seed = join [dash] (blocks8 (toHex seed))"

text \<open>\<open>/[\s-]/\<close>. No character outside ASCII has a lower case that is one of the sixteen digits, so \<open>toLowerCase\<close>
  is taken on ASCII.\<close>

definition separator :: "jschar \<Rightarrow> bool" where
  "separator c \<longleftrightarrow> is_ws c \<or> c = dash"

definition lower_hex :: "jschar \<Rightarrow> bool" where
  "lower_hex c \<longleftrightarrow> 48 \<le> c \<and> c \<le> 57 \<or> 97 \<le> c \<and> c \<le> 102"

definition decodeRecoveryCode :: "jsstring \<Rightarrow> bytes option" where
  "decodeRecoveryCode typed =
     (let cleaned = map ascii_lower (filter (\<lambda>c. \<not> separator c) typed) in
      if \<not> (length cleaned = 64 \<and> (\<forall>c\<in>set cleaned. lower_hex c)) then None
      else Some (map (\<lambda>i. to_uint8 (parseInt16 (take 2 (drop (i * 2) cleaned)))) [0 ..< 32]))"

lemma lower_hex_digit: "lower_hex c \<longleftrightarrow> (\<exists>n<16. c = hex_digit n)"
proof
  assume h: "lower_hex c"
  define n where "n = (if unat c \<le> 57 then unat c - 48 else unat c - 87)"
  have r: "48 \<le> unat c \<and> unat c \<le> 57 \<or> 97 \<le> unat c \<and> unat c \<le> 102"
    using h by (simp add: lower_hex_def word_le_nat_alt)
  then have n: "n < 16" by (auto simp: n_def)
  have "unat c = unat (hex_digit n)" using r n by (auto simp: unat_hex_digit n_def split: if_splits)
  then have "c = hex_digit n" by (simp only: word_unat_eq_iff)
  then show "\<exists>n<16. c = hex_digit n" using n by blast
next
  assume "\<exists>n<16. c = hex_digit n"
  then show "lower_hex c" by (auto simp: lower_hex_def word_le_nat_alt unat_hex_digit split: if_splits)
qed

lemma lower_hex_kept:
  assumes "lower_hex c"
  shows "ascii_lower c = c" "\<not> separator c"
proof -
  obtain n where n: "n < 16" "c = hex_digit n" using assms lower_hex_digit by blast
  show "ascii_lower c = c" using n by (auto simp: ascii_lower_def word_le_nat_alt unat_hex_digit split: if_splits)
  show "\<not> separator c" using hex_digit_facts(2,3) [OF n(1)] n(2) by (auto simp: separator_def dash_def)
qed

lemma toHex_lower: "c \<in> set (toHex bs) \<Longrightarrow> lower_hex c"
proof (induction bs)
  case (Cons b bs)
  have "unat b < 256" by (rule byte_less)
  then have "unat b div 16 < 16" "unat b mod 16 < 16" by auto
  then have "lower_hex (hex_digit (unat b div 16))" "lower_hex (hex_digit (unat b mod 16))"
    using lower_hex_digit by blast+
  then show ?case using Cons by (auto simp: toHex_pair simp del: toHex.simps(2))
qed simp

text \<open>A pair of lower case digits is read back as the byte whose digits they are.\<close>

lemma toHex_read_pair:
  assumes "lower_hex c" "lower_hex d"
  shows "toHex [to_uint8 (parseInt16 [c, d])] = [c, d]"
proof -
  obtain m n where mn: "m < 16" "n < 16" "c = hex_digit m" "d = hex_digit n"
    using assms lower_hex_digit by blast
  have "m * 16 + n < 256" using mn by simp
  then have "unat (to_uint8 (Some (int (m * 16 + n)))) = m * 16 + n"
    by (simp only: to_uint8_def option.case of_int_of_nat_eq unsigned_of_nat) (simp add: take_bit_nat_eq_self)
  moreover have "(m * 16 + n) div 16 = m" "(m * 16 + n) mod 16 = n" using mn by simp_all
  ultimately show ?thesis
    unfolding mn(3,4) parseInt16_pair [OF mn(1,2)] toHex_pair by (simp only: toHex.simps append.simps)
qed

lemma read_Cons:
  "map (\<lambda>i. to_uint8 (parseInt16 (take 2 (drop (i * 2) (c # d # r))))) [0 ..< Suc k]
   = to_uint8 (parseInt16 [c, d]) # map (\<lambda>i. to_uint8 (parseInt16 (take 2 (drop (i * 2) r)))) [0 ..< k]"
proof -
  have "map f [0 ..< Suc k] = f 0 # map (\<lambda>i. f (Suc i)) [0 ..< k]" for f :: "nat \<Rightarrow> byte"
    by (simp only: upt_conv_Cons [OF zero_less_Suc] map_Suc_upt [symmetric] list.map map_map o_def)
  then show ?thesis by (simp del: upt_Suc)
qed

lemma toHex_Cons: "toHex (b # bs) = toHex [b] @ toHex bs"
  by simp

lemma toHex_read:
  "length s = 2 * k \<Longrightarrow> \<forall>c\<in>set s. lower_hex c \<Longrightarrow>
   toHex (map (\<lambda>i. to_uint8 (parseInt16 (take 2 (drop (i * 2) s)))) [0 ..< k]) = s"
proof (induction k arbitrary: s)
  case (Suc k)
  obtain c r' where "s = c # r'" using Suc.prems(1) by (cases s) simp_all
  moreover from this obtain d r where "r' = d # r" using Suc.prems(1) by (cases r') simp_all
  ultimately have s: "s = c # d # r" by simp
  have "toHex (map (\<lambda>i. to_uint8 (parseInt16 (take 2 (drop (i * 2) r)))) [0 ..< k]) = r"
    by (rule Suc.IH) (use Suc.prems s in simp_all)
  moreover have "toHex [to_uint8 (parseInt16 [c, d])] = [c, d]"
    by (rule toHex_read_pair) (use Suc.prems s in simp_all)
  ultimately show ?case unfolding s read_Cons toHex_Cons [of _ "map _ _"] by (simp only: append.simps)
qed simp

lemma blocks8_concat: "concat (blocks8 s) = s"
proof (induction s rule: blocks8.induct)
  case (2 c cs)
  have "take 8 (c # cs) @ drop 7 cs = c # cs" by (simp add: numeral_eq_Suc)
  then show ?case using 2 by (simp del: take_Suc_Cons)
qed simp

lemma filter_join: "(\<forall>c\<in>set sep. \<not> P c) \<Longrightarrow> filter P (join sep xs) = filter P (concat xs)"
  by (induction sep xs rule: join.induct) auto

lemma code_cleaned: "filter (\<lambda>c. \<not> separator c) (encodeRecoveryCode seed) = toHex seed"
proof -
  have "filter (\<lambda>c. \<not> separator c) (encodeRecoveryCode seed) = filter (\<lambda>c. \<not> separator c) (toHex seed)"
    by (simp add: encodeRecoveryCode_def filter_join blocks8_concat separator_def)
  also have "\<dots> = toHex seed" using toHex_lower lower_hex_kept(2) by (fastforce simp: filter_id_conv)
  finally show ?thesis .
qed

lemma decode_iff:
  "decodeRecoveryCode typed = Some seed \<longleftrightarrow>
     length seed = 32
   \<and> map ascii_lower (filter (\<lambda>c. \<not> separator c) typed) = filter (\<lambda>c. \<not> separator c) (encodeRecoveryCode seed)"
proof -
  let ?s = "map ascii_lower (filter (\<lambda>c. \<not> separator c) typed)"
  let ?read = "map (\<lambda>i. to_uint8 (parseInt16 (take 2 (drop (i * 2) ?s)))) [0 ..< 32]"
  have read: "toHex ?read = ?s" if "length ?s = 64" "\<forall>c\<in>set ?s. lower_hex c"
    using toHex_read [of ?s 32] that by simp
  show ?thesis unfolding code_cleaned
  proof
    assume d: "decodeRecoveryCode typed = Some seed"
    then have ok: "length ?s = 64" "\<forall>c\<in>set ?s. lower_hex c" and "seed = ?read"
      by (auto simp: decodeRecoveryCode_def Let_def split: if_splits)
    then show "length seed = 32 \<and> ?s = toHex seed" using read by simp
  next
    assume d: "length seed = 32 \<and> ?s = toHex seed"
    then have ok: "length ?s = 64" "\<forall>c\<in>set ?s. lower_hex c" using toHex_lower length_toHex [of seed] by simp_all
    have "toHex ?read = toHex seed" using read [OF ok] d by simp
    then have "?read = seed" by (simp only: toHex_inj)
    then show "decodeRecoveryCode typed = Some seed" using ok by (simp add: decodeRecoveryCode_def Let_def)
  qed
qed


text \<open>C37. A recovery code is read back whatever its formatting, and nothing else is: what is typed decodes to a seed
  exactly if the seed has 32 bytes and what was typed is, apart from spaces, dashes and capitals, the
  code that was shown for it.\<close>

theorem recovery_code_roundtrip:
  "decodeRecoveryCode typed = Some seed \<longleftrightarrow>
     length seed = 32
   \<and> map ascii_lower (filter (\<lambda>c. \<not> separator c) typed) = filter (\<lambda>c. \<not> separator c) (encodeRecoveryCode seed)"
  by (rule decode_iff)

text \<open>In particular the code itself is read back.\<close>

lemma recovery_code_read:
  assumes "length seed = 32"
  shows "decodeRecoveryCode (encodeRecoveryCode seed) = Some seed"
proof -
  have "map ascii_lower (toHex seed) = toHex seed"
    using toHex_lower lower_hex_kept(1) by (fastforce intro: map_idI)
  then show ?thesis using assms by (simp add: decode_iff code_cleaned)
qed

subsection \<open>The screen\<close>

datatype screen_mode = MChoose | MCreate | MRestore

datatype screen_phase = Idle | Unlocking | ErrorPhase

definition VERIFY_FAILED_MESSAGE :: jsstring where
  "VERIFY_FAILED_MESSAGE = js ''Could not establish a verified session '' @ [0x2014] @ js '' refusing to connect.''"

definition NOT_ENCLAVE_MESSAGE :: jsstring where
  "NOT_ENCLAVE_MESSAGE = VERIFY_FAILED_MESSAGE @ js '' The server could not prove it is the attested enclave.''"

definition UNAVAILABLE_MESSAGE :: jsstring where
  "UNAVAILABLE_MESSAGE = js ''Caladon identity is unavailable in this build.''"

definition BAD_CODE_MESSAGE :: jsstring where
  "BAD_CODE_MESSAGE = js ''That is not a valid recovery code. It must be 64 hexadecimal characters (32 bytes).''"

record unlock_screen =
  us_mode :: screen_mode
  us_phase :: screen_phase
  us_errorText :: jsstring
  us_newSeed :: "bytes option"
  us_savedConfirmed :: bool
  us_restoreInput :: jsstring
  us_restoreError :: "jsstring option"
  us_lastSeed :: "bytes option"
  us_calls :: "bytes list"

definition new_screen :: unlock_screen where
  "new_screen = \<lparr>us_mode = MChoose, us_phase = Idle, us_errorText = VERIFY_FAILED_MESSAGE, us_newSeed = None,
     us_savedConfirmed = False, us_restoreInput = [], us_restoreError = None, us_lastSeed = None, us_calls = []\<rparr>"

definition resetTransient :: "unlock_screen \<Rightarrow> unlock_screen" where
  "resetTransient s = s\<lparr>us_phase := Idle, us_restoreError := None\<rparr>"

text \<open>\<open>runUnlock\<close> up to its await; \<open>available\<close> says that the context has a \<open>caladon\<close>.\<close>

definition runUnlock :: "bool \<Rightarrow> bytes \<Rightarrow> unlock_screen \<Rightarrow> unlock_screen" where
  "runUnlock available seed s =
     (if \<not> available then s\<lparr>us_errorText := UNAVAILABLE_MESSAGE, us_phase := ErrorPhase\<rparr>
      else s\<lparr>us_lastSeed := Some seed, us_phase := Unlocking, us_calls := us_calls s @ [seed]\<rparr>)"

text \<open>How \<open>caladon.unlock\<close> ends: it resolves, it rejects with an \<open>AttestationFailedError\<close>, or with another error.\<close>

datatype unlock_end = Unlocked | NotAttested | FailedOtherwise

definition unlock_ended :: "unlock_end \<Rightarrow> unlock_screen \<Rightarrow> unlock_screen" where
  "unlock_ended r s =
     (case r of
        Unlocked \<Rightarrow> s
      | NotAttested \<Rightarrow> s\<lparr>us_errorText := NOT_ENCLAVE_MESSAGE, us_phase := ErrorPhase\<rparr>
      | FailedOtherwise \<Rightarrow> s\<lparr>us_errorText := VERIFY_FAILED_MESSAGE, us_phase := ErrorPhase\<rparr>)"

text \<open>\<open>getRandomValues\<close> fills the 32 bytes.\<close>

definition handleCreate :: "(nat \<Rightarrow> byte) \<Rightarrow> unlock_screen \<Rightarrow> unlock_screen" where
  "handleCreate random s =
     (resetTransient (s\<lparr>us_newSeed := Some (map random [0 ..< 32]), us_savedConfirmed := False\<rparr>))\<lparr>us_mode := MCreate\<rparr>"

definition handleRestore :: "unlock_screen \<Rightarrow> unlock_screen" where
  "handleRestore s = (resetTransient (s\<lparr>us_restoreInput := [], us_restoreError := None\<rparr>))\<lparr>us_mode := MRestore\<rparr>"

definition handleBack :: "unlock_screen \<Rightarrow> unlock_screen" where
  "handleBack s = resetTransient (s\<lparr>us_mode := MChoose, us_newSeed := None, us_savedConfirmed := False,
     us_restoreInput := [], us_restoreError := None\<rparr>)"

definition handleRestoreSubmit :: "bool \<Rightarrow> unlock_screen \<Rightarrow> unlock_screen" where
  "handleRestoreSubmit available s =
     (case decodeRecoveryCode (us_restoreInput s) of
        None \<Rightarrow> s\<lparr>us_restoreError := Some BAD_CODE_MESSAGE\<rparr>
      | Some seed \<Rightarrow> runUnlock available seed (s\<lparr>us_restoreError := None\<rparr>))"

definition handleRetry :: "bool \<Rightarrow> unlock_screen \<Rightarrow> unlock_screen" where
  "handleRetry available s =
     (case us_lastSeed s of Some seed \<Rightarrow> runUnlock available seed s | None \<Rightarrow> s\<lparr>us_phase := Idle\<rparr>)"

datatype screen_event =
    Click_create "nat \<Rightarrow> byte"
  | Click_restore
  | Click_back
  | Tick_saved bool
  | Typed jsstring
  | Click_continue
  | Click_submit
  | Click_retry
  | Unlock_ended unlock_end

text \<open>The controls of the view that is rendered: the error view, the spinner, the two flows, the choice.\<close>

fun screen_step :: "bool \<Rightarrow> screen_event \<Rightarrow> unlock_screen \<Rightarrow> unlock_screen" where
  "screen_step av (Click_create random) s =
     (if us_phase s = Idle \<and> us_mode s = MChoose then handleCreate random s else s)"
| "screen_step av Click_restore s = (if us_phase s = Idle \<and> us_mode s = MChoose then handleRestore s else s)"
| "screen_step av Click_back s =
     (if us_phase s = ErrorPhase \<or> us_phase s = Idle \<and> us_mode s \<noteq> MChoose then handleBack s else s)"
| "screen_step av (Tick_saved b) s =
     (if us_phase s = Idle \<and> us_mode s = MCreate then s\<lparr>us_savedConfirmed := b\<rparr> else s)"
| "screen_step av (Typed v) s =
     (if us_phase s = Idle \<and> us_mode s = MRestore
      then s\<lparr>us_restoreInput := v,
             us_restoreError := (case us_restoreError s of Some e \<Rightarrow> if e \<noteq> [] then None else Some e | None \<Rightarrow> None)\<rparr>
      else s)"
| "screen_step av Click_continue s =
     (if us_phase s = Idle \<and> us_mode s = MCreate \<and> us_savedConfirmed s
      then (case us_newSeed s of Some seed \<Rightarrow> runUnlock av seed s | None \<Rightarrow> s) else s)"
| "screen_step av Click_submit s =
     (if us_phase s = Idle \<and> us_mode s = MRestore \<and> trim (us_restoreInput s) \<noteq> []
      then handleRestoreSubmit av s else s)"
| "screen_step av Click_retry s = (if us_phase s = ErrorPhase then handleRetry av s else s)"
| "screen_step av (Unlock_ended r) s = (if us_phase s = Unlocking then unlock_ended r s else s)"

definition run_screen :: "bool \<Rightarrow> screen_event list \<Rightarrow> unlock_screen" where
  "run_screen av evs = fold (screen_step av) evs new_screen"

text \<open>Where a seed may come from: made on this screen, its code then confirmed as saved; or typed.\<close>

definition legitimate :: "screen_event list \<Rightarrow> bytes \<Rightarrow> bool" where
  "legitimate evs seed \<longleftrightarrow>
     (\<exists>random. seed = map random [0 ..< 32] \<and> subseq [Click_create random, Tick_saved True, Click_continue] evs)
   \<or> (\<exists>v. decodeRecoveryCode v = Some seed \<and> subseq [Typed v, Click_submit] evs)"

lemma legitimate_more: "legitimate evs seed \<Longrightarrow> legitimate (evs @ [e]) seed"
  unfolding legitimate_def by (blast intro: subseq_rev_drop_many)

lemma subseq_snoc: "subseq xs evs \<Longrightarrow> subseq (xs @ [e]) (evs @ [e])"
  by simp

text \<open>The invariant: what the fields hold comes from the events so far.\<close>

definition seed_made :: "screen_event list \<Rightarrow> bool \<Rightarrow> bytes \<Rightarrow> bool" where
  "seed_made evs confirmed seed \<longleftrightarrow> (\<exists>random. seed = map random [0 ..< 32] \<and> subseq [Click_create random] evs
     \<and> (confirmed \<longrightarrow> subseq [Click_create random, Tick_saved True] evs))"

definition screen_inv :: "screen_event list \<Rightarrow> unlock_screen \<Rightarrow> bool" where
  "screen_inv evs s \<longleftrightarrow>
     (\<forall>seed. us_newSeed s = Some seed \<longrightarrow> seed_made evs (us_savedConfirmed s) seed)
   \<and> (us_restoreInput s = [] \<or> Typed (us_restoreInput s) \<in> set evs)
   \<and> (\<forall>seed. us_lastSeed s = Some seed \<longrightarrow> legitimate evs seed)
   \<and> (\<forall>seed\<in>set (us_calls s). legitimate evs seed)"

lemma seed_made_more: "seed_made evs b seed \<Longrightarrow> seed_made (evs @ [e]) b seed"
  unfolding seed_made_def by (blast intro: subseq_rev_drop_many)

lemma seed_made_tick:
  assumes "seed_made evs b seed"
  shows "seed_made (evs @ [Tick_saved v]) v seed"
proof -
  obtain random where r: "seed = map random [0 ..< 32]" "subseq [Click_create random] evs"
    using assms by (auto simp: seed_made_def)
  have "subseq [Click_create random, Tick_saved v] (evs @ [Tick_saved v])" using subseq_snoc [OF r(2)] by simp
  then have "v \<longrightarrow> subseq [Click_create random, Tick_saved True] (evs @ [Tick_saved v])" by (cases v) auto
  moreover have "subseq [Click_create random] (evs @ [Tick_saved v])" by (rule subseq_rev_drop_many [OF r(2)])
  ultimately show ?thesis unfolding seed_made_def using r(1) by blast
qed

lemma screen_inv_more: "screen_inv evs s \<Longrightarrow> screen_inv (evs @ [e]) s"
  by (auto simp: screen_inv_def seed_made_more legitimate_more)

lemma runUnlock_inv:
  "screen_inv evs s \<Longrightarrow> legitimate evs seed \<Longrightarrow> screen_inv evs (runUnlock av seed s)"
  by (auto simp: screen_inv_def runUnlock_def)

lemma screen_inv_step: "screen_inv evs s \<Longrightarrow> screen_inv (evs @ [e]) (screen_step av e s)"
proof -
  assume i: "screen_inv evs s"
  note m = screen_inv_more [OF i, of e]
  show ?thesis
  proof (cases e)
    case (Click_create random)
    have "seed_made (evs @ [e]) False (map random [0 ..< 32])" by (auto simp: seed_made_def Click_create)
    then show ?thesis using m by (simp add: Click_create handleCreate_def resetTransient_def screen_inv_def)
  next
    case (Tick_saved b)
    have "seed_made (evs @ [e]) b seed" if "us_newSeed s = Some seed" for seed
      using i that seed_made_tick Tick_saved by (auto simp: screen_inv_def)
    then show ?thesis using m by (simp add: Tick_saved screen_inv_def)
  next
    case Click_continue
    show ?thesis
    proof (cases "us_savedConfirmed s \<and> us_newSeed s \<noteq> None")
      case True
      then obtain seed where s: "us_newSeed s = Some seed" by blast
      then have "seed_made evs True seed" using i True by (simp add: screen_inv_def)
      then have "legitimate (evs @ [e]) seed"
        using subseq_snoc [of "[Click_create _, Tick_saved True]" evs Click_continue]
        by (auto simp: seed_made_def legitimate_def Click_continue)
      then show ?thesis using m runUnlock_inv s by (simp add: Click_continue)
    qed (use m in \<open>auto simp: Click_continue\<close>)
  next
    case Click_submit
    show ?thesis
    proof (cases "decodeRecoveryCode (us_restoreInput s)")
      case None
      then show ?thesis using m by (simp add: Click_submit handleRestoreSubmit_def screen_inv_def)
    next
      case (Some seed)
      have "legitimate (evs @ [e]) seed" if "trim (us_restoreInput s) \<noteq> []"
      proof -
        have "us_restoreInput s \<noteq> []" using that by (auto simp: trim_def trim_end_def)
        then have "subseq [Typed (us_restoreInput s)] evs"
          using i by (auto simp: screen_inv_def subseq_singleton_left)
        then show ?thesis using Some subseq_snoc [of "[Typed (us_restoreInput s)]" evs Click_submit]
          by (auto simp: legitimate_def Click_submit)
      qed
      moreover have "screen_inv (evs @ [e]) (s\<lparr>us_restoreError := None\<rparr>)" using m by (simp add: screen_inv_def)
      ultimately show ?thesis using m runUnlock_inv Some by (simp add: Click_submit handleRestoreSubmit_def)
    qed
  next
    case Click_retry
    then show ?thesis using m
      by (auto simp: handleRetry_def screen_inv_def runUnlock_def split: option.split)
  next
    case (Typed v)
    then show ?thesis using m by (simp add: screen_inv_def)
  next
    case (Unlock_ended r)
    then show ?thesis using m by (cases r) (simp_all add: unlock_ended_def screen_inv_def)
  qed (use m in \<open>simp_all add: handleRestore_def handleBack_def resetTransient_def screen_inv_def\<close>)
qed

lemma screen_inv_run: "screen_inv evs (run_screen av evs)"
proof (induction evs rule: rev_induct)
  case Nil
  show ?case by (simp add: run_screen_def screen_inv_def new_screen_def)
next
  case (snoc e evs)
  then show ?case using screen_inv_step by (simp add: run_screen_def)
qed

subsection \<open>Properties\<close>

text \<open>C38. No seed is used that the user does not hold: whatever is clicked and typed and however the handshakes end,
  every seed the screen hands to \<open>caladon.unlock\<close>, the retries included, has 32 bytes and was either
  made on the screen, its code confirmed as saved before Continue, or typed as a code and submitted.\<close>

theorem unlocks_with_a_held_seed:
  assumes "seed \<in> set (us_calls (run_screen av evs))"
  shows "length seed = 32 \<and> legitimate evs seed"
proof -
  have l: "legitimate evs seed" using screen_inv_run [of evs av] assms by (simp add: screen_inv_def)
  then have "length seed = 32" by (auto simp: legitimate_def decode_iff)
  then show ?thesis using l by simp
qed

lemma unlocks_with_a_held_seed_witness:
  "us_calls (run_screen True [Click_create (\<lambda>_. 7), Tick_saved True, Click_continue, Unlock_ended NotAttested, Click_retry])
     = [replicate 32 7, replicate 32 7]
   \<and> legitimate [Click_create (\<lambda>_. 7), Tick_saved True, Click_continue, Unlock_ended NotAttested, Click_retry] (replicate 32 7)"
proof -
  let ?evs = "[Click_create (\<lambda>_. 7), Tick_saved True, Click_continue, Unlock_ended NotAttested, Click_retry]"
  have c: "us_calls (run_screen True ?evs) = [replicate 32 7, replicate 32 7]"
    by (simp add: run_screen_def new_screen_def handleCreate_def resetTransient_def runUnlock_def unlock_ended_def
        handleRetry_def map_replicate_const)
  then have "replicate 32 7 \<in> set (us_calls (run_screen True ?evs))" by simp
  from unlocks_with_a_held_seed [OF this] show ?thesis using c by simp
qed

text \<open>A failed handshake is shown and nothing is called until the user asks again; a code that is no code calls nothing.\<close>

lemma failure_is_shown:
  assumes "us_phase s = Unlocking" "r \<noteq> Unlocked"
  shows "us_phase (screen_step av (Unlock_ended r) s) = ErrorPhase"
    "us_calls (screen_step av (Unlock_ended r) s) = us_calls s"
  using assms by (simp_all add: unlock_ended_def split: unlock_end.split)

lemma no_code_no_call:
  assumes "decodeRecoveryCode (us_restoreInput s) = None" "us_phase s = Idle" "us_mode s = MRestore"
    "trim (us_restoreInput s) \<noteq> []"
  shows "screen_step av Click_submit s = s\<lparr>us_restoreError := Some BAD_CODE_MESSAGE\<rparr>"
  using assms by (simp add: handleRestoreSubmit_def)

end
