(* ===== verification/CaladonLib.thy ===== *)
theory CaladonLib
  imports Client
begin

text \<open>
  The integration module of the web client, \<open>overlay/client/src/lib/caladon/index.ts\<close>: the build-time
  configuration it reads, the singletons it holds (client, WASM module, identity, handshake
  result), and the operations the rest of the fork uses. The main results: a production build
  cannot run under a policy other than strict, and in such a build an unlocked state always
  comes with a verdict that was ok for its evidence; without a pinned set it never unlocks.
\<close>

subsection \<open>Build configuration\<close>

text \<open>\<open>import.meta.env\<close>.\<close>

record vite_env =
  VITE_CALADON_PINNED :: "jsstring option"
  VITE_CALADON_ATTESTATION :: "jsstring option"
  VITE_CALADON_ALLOW_INSECURE :: "jsstring option"
  VITE_CALADON_SHIM_BASE :: "jsstring option"
  DEV :: bool

definition readPinned :: "runtime \<Rightarrow> vite_env \<Rightarrow> json option" where
  "readPinned rte ve =
     (case VITE_CALADON_PINNED ve of
        None \<Rightarrow> None
      | Some raw \<Rightarrow> if raw = [] then None else p_parse (plat rte) raw)"

definition readPolicy :: "vite_env \<Rightarrow> cerror + policy" where
  "readPolicy ve =
     (let raw = VITE_CALADON_ATTESTATION ve in
      if raw \<noteq> Some (js ''skip'') \<and> raw \<noteq> Some (js ''observe'') \<and> raw \<noteq> Some (js ''strict'')
      then Inr Strict
      else if raw = Some (js ''strict'') then Inr Strict
      else
        let allowInsecure = (VITE_CALADON_ALLOW_INSECURE ve = Some (js ''1'')) in
        if DEV ve \<or> allowInsecure
        then Inr (if raw = Some (js ''skip'') then Skip else Observe)
        else Inl InsecurePolicy)"

subsection \<open>State\<close>

text \<open>The module's variables. The client instance consists of its configuration \<open>l_client\<close> and its
  in-memory state \<open>l_sdk\<close>, which also carries the requests sent so far.\<close>

record lib_state =
  l_sdk :: client_state
  l_client :: "client_cfg option"
  l_wasm :: bool
  l_identity :: "Identity option"
  l_handshake :: "HandshakeResult option"

type_synonym 'a lib = "(lib_state, cerror, 'a) exc"

definition new_lib_state :: lib_state where
  "new_lib_state = \<lparr>l_sdk = new_client_state, l_client = None, l_wasm = False,
     l_identity = None, l_handshake = None\<rparr>"

text \<open>Running an operation of the client instance.\<close>

definition on_client :: "'a client \<Rightarrow> 'a lib" where
  "on_client m = (\<lambda>s. let (r, c) = m (l_sdk s) in (r, s\<lparr>l_sdk := c\<rparr>))"

text \<open>The options the singleton is built with; an empty shim base counts as absent (\<open>||\<close>).\<close>

definition lib_options :: "runtime \<Rightarrow> vite_env \<Rightarrow> policy \<Rightarrow> client_options" where
  "lib_options rte ve pol =
     \<lparr>o_shimBase = Some (case VITE_CALADON_SHIM_BASE ve of
          Some b \<Rightarrow> if b = [] then js ''/api/caladon'' else b | None \<Rightarrow> js ''/api/caladon''),
      o_pcsCollateralBase = Some (js ''/pcs-collateral''), o_fetchImpl = None,
      o_argon2idOpslimit = None, o_argon2idMemlimitBytes = None, o_salt = None,
      o_pinned = readPinned rte ve, o_attestationPolicy = Some pol,
      o_collateralProvider = None, o_nowSecs = None\<rparr>"

definition getCaladonClient :: "runtime \<Rightarrow> vite_env \<Rightarrow> client_cfg lib" where
  "getCaladonClient rte ve = (\<lambda>s.
     case l_client s of
       Some c \<Rightarrow> ret c s
     | None \<Rightarrow>
         (case readPolicy ve of
            Inl e \<Rightarrow> throw e s
          | Inr pol \<Rightarrow>
              (case new_CaladonClient rte (lib_options rte ve pol) of
                 Inl e \<Rightarrow> throw e s
               | Inr c \<Rightarrow> ret c (s\<lparr>l_client := Some c,
                   l_sdk := (l_sdk s)\<lparr>wasm_ready := False, c_identity := None, c_sessionKey := None\<rparr>\<rparr>))))"

definition getWasm :: "runtime \<Rightarrow> caladon_wasm lib" where
  "getWasm rte = (\<lambda>s. if l_wasm s then ret (wasm rte) s
     else if wasm_loads rte then ret (wasm rte) (s\<lparr>l_wasm := True\<rparr>)
     else throw WasmThrow s)"

subsection \<open>Operations\<close>

definition caladonUnlock :: "runtime \<Rightarrow> vite_env \<Rightarrow> bytes \<Rightarrow> HandshakeResult lib" where
  "caladonUnlock rte ve seed =
     andThen (getCaladonClient rte ve) (\<lambda>c.
     andThen (on_client (handshake \<lparr>cfg = c, rt = rte\<rparr> seed)) (\<lambda>result s.
       ret result (s\<lparr>l_identity := Some (hs_identity result), l_handshake := Some result\<rparr>)))"

definition caladonIdentity :: "lib_state \<Rightarrow> Identity option" where
  "caladonIdentity s = l_identity s"

definition isUnlocked :: "lib_state \<Rightarrow> bool" where
  "isUnlocked s = (l_identity s \<noteq> None \<and> l_handshake s \<noteq> None)"

definition caladonLock :: "lib_state \<Rightarrow> lib_state" where
  "caladonLock s = s\<lparr>l_identity := None, l_handshake := None, l_client := None\<rparr>"

definition lib_clock :: "runtime \<Rightarrow> int lib" where
  "lib_clock rte = andThen (on_client draw) (\<lambda>k. ret (date_now rte k div 1000))"

definition signRequest :: "runtime \<Rightarrow> rmethod \<Rightarrow> jsstring \<Rightarrow> jsstring lib" where
  "signRequest rte m gatewayPath = (\<lambda>s.
     case l_identity s of
       None \<Rightarrow> throw NoIdentity s
     | Some i \<Rightarrow>
         andThen (getWasm rte) (\<lambda>w.
         andThen (lib_clock rte) (\<lambda>ts.
           lift_opt WasmThrow (authorization_header w (root i) (accountId i) ts
             (method_name m) (sign_path gatewayPath)))) s)"

definition requireSession :: "(bytes \<times> jsstring) lib" where
  "requireSession = (\<lambda>s.
     case (l_handshake s, l_identity s) of
       (Some h, Some i) \<Rightarrow> ret (hs_sessionKey h, accountId i) s
     | _ \<Rightarrow> throw NoSessionKey s)"

text \<open>The tool flags are attached only when on.\<close>

definition sealChat_body :: "json \<Rightarrow> jsstring option \<Rightarrow> bool \<Rightarrow> bool \<Rightarrow> json" where
  "sealChat_body envelope model tools toolsYolo =
     JObj ((js ''envelope'', envelope)
       # (case model of Some m \<Rightarrow> if m \<noteq> [] then [(js ''model'', JStr m)] else [] | None \<Rightarrow> [])
       @ (if tools then (js ''tools'', JBool True)
            # (if toolsYolo then [(js ''tools_yolo'', JBool True)] else []) else []))"

definition sealChat :: "runtime \<Rightarrow> jsstring \<Rightarrow> jsstring option \<Rightarrow> bool \<Rightarrow> bool \<Rightarrow> json lib" where
  "sealChat rte prompt model tools toolsYolo =
     andThen requireSession (\<lambda>(sk, acct).
     andThen (getWasm rte) (\<lambda>w.
     andThen (on_client draw) (\<lambda>k.
     andThen (lift_opt WasmThrow (seal_chat w k sk (utf8 prompt) acct 1)) (\<lambda>sealed.
     andThen (lift (toWireEnvelope (plat rte) sealed acct (js ''chat'') 1 (js ''chat''))) (\<lambda>envelope.
     ret (sealChat_body envelope model tools toolsYolo))))))"

definition openDelta :: "runtime \<Rightarrow> json \<Rightarrow> jsstring lib" where
  "openDelta rte wireEnvelope =
     andThen requireSession (\<lambda>(sk, acct).
     andThen (getWasm rte) (\<lambda>w.
     andThen (lift (fromWireEnvelope (plat rte) (Some wireEnvelope))) (\<lambda>nonceCt.
     andThen (lift (toBigInt (plat rte) (getProp wireEnvelope (js ''v'')))) (\<lambda>v.
     andThen (lift_opt WasmThrow (open_chat w sk nonceCt acct v)) (\<lambda>pt.
     ret (fromUtf8 pt))))))"

subsection \<open>Reachable states\<close>

text \<open>The states the module goes through: any sequence of its operations, each as it ends whether
  it returns or throws.\<close>

inductive lib_reach :: "runtime \<Rightarrow> vite_env \<Rightarrow> lib_state \<Rightarrow> bool" for rte ve where
  start: "lib_reach rte ve new_lib_state"
| get_client: "lib_reach rte ve s \<Longrightarrow> lib_reach rte ve (snd (getCaladonClient rte ve s))"
| unlock: "lib_reach rte ve s \<Longrightarrow> lib_reach rte ve (snd (caladonUnlock rte ve seed s))"
| lock: "lib_reach rte ve s \<Longrightarrow> lib_reach rte ve (caladonLock s)"
| sign_step: "lib_reach rte ve s \<Longrightarrow> lib_reach rte ve (snd (signRequest rte m p s))"
| seal_chat_step: "lib_reach rte ve s \<Longrightarrow> lib_reach rte ve (snd (sealChat rte prompt model t y s))"
| open_delta: "lib_reach rte ve s \<Longrightarrow> lib_reach rte ve (snd (openDelta rte e s))"

text \<open>A hosted build: not a development build, and no escape hatch.\<close>

definition production :: "vite_env \<Rightarrow> bool" where
  "production ve \<longleftrightarrow> \<not> DEV ve \<and> VITE_CALADON_ALLOW_INSECURE ve \<noteq> Some (js ''1'')"

lemma readPolicy_production: "production ve \<Longrightarrow> readPolicy ve = Inr pol \<Longrightarrow> pol = Strict"
  by (auto simp: readPolicy_def production_def Let_def split: if_splits)

text \<open>The invariant: the client is strict and carries the pinned set of the build, and a handshake
  result was verified by such a client.\<close>

definition strict_client :: "runtime \<Rightarrow> vite_env \<Rightarrow> client_cfg \<Rightarrow> bool" where
  "strict_client rte ve c \<longleftrightarrow> attestationPolicy c = Strict \<and> pinned c = readPinned rte ve"

definition verified_result :: "runtime \<Rightarrow> vite_env \<Rightarrow> HandshakeResult \<Rightarrow> bool" where
  "verified_result rte ve h \<longleftrightarrow> (\<exists>c ephPub v. strict_client rte ve c \<and> hs_verdict h = Some v
     \<and> attested \<lparr>cfg = c, rt = rte\<rparr> (hs_evidence h) ephPub v)"

definition lib_inv :: "runtime \<Rightarrow> vite_env \<Rightarrow> lib_state \<Rightarrow> bool" where
  "lib_inv rte ve s \<longleftrightarrow> (case l_client s of None \<Rightarrow> True | Some c \<Rightarrow> strict_client rte ve c)
     \<and> (case l_handshake s of None \<Rightarrow> True | Some h \<Rightarrow> verified_result rte ve h)"

lemma lib_client:
  assumes "new_CaladonClient rte (lib_options rte ve pol) = Inr c"
  shows "attestationPolicy c = pol \<and> pinned c = readPinned rte ve"
proof (cases "global_fetch rte")
  case None
  then show ?thesis using assms by (simp add: new_CaladonClient_def lib_options_def)
next
  case (Some f)
  then show ?thesis using assms by (simp add: new_CaladonClient_def lib_options_def) auto
qed

lemma getCaladonClient_inv:
  assumes "production ve" "lib_inv rte ve s" "getCaladonClient rte ve s = (r, s')"
  shows "lib_inv rte ve s' \<and> (\<forall>c. r = Inr c \<longrightarrow> strict_client rte ve c)"
proof (cases "l_client s")
  case (Some c)
  then show ?thesis using assms by (auto simp: getCaladonClient_def ret_def lib_inv_def)
next
  case None
  show ?thesis
  proof (cases "readPolicy ve")
    case (Inl e)
    then show ?thesis using None assms by (simp add: getCaladonClient_def throw_def) auto
  next
    case (Inr pol)
    show ?thesis
    proof (cases "new_CaladonClient rte (lib_options rte ve pol)")
      case (Inl e)
      then show ?thesis using None Inr assms by (simp add: getCaladonClient_def throw_def) auto
    next
      case c: (Inr c)
      have "strict_client rte ve c"
        using lib_client [OF c] readPolicy_production [OF assms(1) Inr] by (simp add: strict_client_def)
      then show ?thesis using None Inr c assms(2,3)
        by (auto simp: getCaladonClient_def ret_def lib_inv_def)
    qed
  qed
qed

lemma on_client_frame [intro]: "keeps (lib_inv rte ve) (on_client m)"
  by (auto simp: keeps_def on_client_def lib_inv_def split: prod.splits)

lemma getWasm_frame [intro]: "keeps (lib_inv rte ve) (getWasm rte)"
  by (auto simp: keeps_def getWasm_def lib_inv_def ret_def throw_def)

lemma requireSession_frame [intro]: "keeps (lib_inv rte ve) requireSession"
  by (auto simp: keeps_def requireSession_def lib_inv_def ret_def throw_def split: option.splits)

lemma caladonUnlock_inv:
  assumes "production ve" "lib_inv rte ve s"
  shows "lib_inv rte ve (snd (caladonUnlock rte ve seed s))"
proof -
  obtain r t where g: "getCaladonClient rte ve s = (r, t)" by fastforce
  show ?thesis
  proof (cases r)
    case (Inl e)
    then show ?thesis using g getCaladonClient_inv [OF assms g] by (simp add: caladonUnlock_def andThen_def)
  next
    case (Inr c)
    let ?env = "\<lparr>cfg = c, rt = rte\<rparr>"
    have c: "strict_client rte ve c" "lib_inv rte ve t"
      using getCaladonClient_inv [OF assms g] Inr by auto
    obtain q k where h: "handshake ?env seed (l_sdk t) = (q, k)" by fastforce
    have "verified_result rte ve x" if "q = Inr x" for x
      using handshake_ok_verdict [of ?env seed "l_sdk t" x k] h that c(1)
      by (auto simp: verified_result_def strict_client_def)
    then show ?thesis
      using g Inr h c(2)
      by (auto simp: caladonUnlock_def andThen_def on_client_def ret_def lib_inv_def split: sum.splits)
  qed
qed

lemma sign_inv [intro]: "keeps (lib_inv rte ve) (signRequest rte m p)"
proof -
  have "keeps (lib_inv rte ve) (andThen (getWasm rte) (\<lambda>w. andThen (lib_clock rte) (\<lambda>ts.
      lift_opt WasmThrow (authorization_header w (root i) (accountId i) ts (method_name m) (sign_path p)))))" for i :: Identity
    unfolding lib_clock_def by (intro keeps_andThen getWasm_frame on_client_frame keeps_ret keeps_lift_opt)
  then show ?thesis
    unfolding signRequest_def keeps_def by (auto simp: throw_def split: option.splits)
qed

lemma seal_open_inv [intro]:
  "keeps (lib_inv rte ve) (sealChat rte prompt model t y)" "keeps (lib_inv rte ve) (openDelta rte e)"
  unfolding sealChat_def openDelta_def
  by (intro keeps_andThen keeps_case_prod requireSession_frame getWasm_frame on_client_frame keeps_ret
      keeps_lift keeps_lift_opt)+

lemma lib_reach_inv: "lib_reach rte ve s \<Longrightarrow> production ve \<Longrightarrow> lib_inv rte ve s"
proof (induction rule: lib_reach.induct)
  case start
  then show ?case by (simp add: lib_inv_def new_lib_state_def)
next
  case (lock s)
  then show ?case by (simp add: lib_inv_def caladonLock_def)
next
  case (get_client s)
  then show ?case using getCaladonClient_inv [of ve rte s] by (metis prod.collapse)
qed (auto intro: caladonUnlock_inv dest: keepsD [OF sign_inv]
    keepsD [OF seal_open_inv(1)] keepsD [OF seal_open_inv(2)])

subsection \<open>Sealing and opening\<close>

text \<open>What is sealed can be opened again by the other end of the session, and by \<open>openDelta\<close>
  itself, when the WASM module opens what it seals.\<close>

definition seal_law :: "caladon_wasm \<Rightarrow> bool" where
  "seal_law w \<longleftrightarrow> (\<forall>k sk m a v nc. seal_chat w k sk m a v = Some nc \<longrightarrow> open_chat w sk nc a v = Some m)"

lemma sealChat_result:
  assumes "sealChat rte prompt model tools yolo s = (Inr body, s')"
  obtains h i nc k en where "l_handshake s = Some h" "l_identity s = Some i"
    "seal_chat (wasm rte) k (hs_sessionKey h) (utf8 prompt) (accountId i) 1 = Some nc"
    "toWireEnvelope (plat rte) nc (accountId i) (js ''chat'') 1 (js ''chat'') = Inr en"
    "body = sealChat_body en model tools yolo" "l_handshake s' = Some h" "l_identity s' = Some i"
    "l_wasm s'"
  using assms
  by (auto simp: sealChat_def andThen_def requireSession_def getWasm_def on_client_def draw_def lift_def
      lift_opt_def ret_def throw_def split: option.splits sum.splits prod.splits if_splits)

lemma sealChat_openDelta:
  assumes "sealChat rte prompt model tools yolo s = (Inr body, s')"
    and "seal_law (wasm rte)" "b64_inverse (p_base64 (plat rte))"
    and "well_formed (map unat prompt)" "take 1 prompt \<noteq> [0xFEFF]"
  shows "\<exists>en. getProp body (js ''envelope'') = Some en \<and> openDelta rte en s' = (Inr prompt, s')"
proof -
  from assms(1) obtain h i nc k en where r: "l_handshake s = Some h" "l_identity s = Some i"
    "seal_chat (wasm rte) k (hs_sessionKey h) (utf8 prompt) (accountId i) 1 = Some nc"
    "toWireEnvelope (plat rte) nc (accountId i) (js ''chat'') 1 (js ''chat'') = Inr en"
    "body = sealChat_body en model tools yolo" "l_handshake s' = Some h" "l_identity s' = Some i"
    "l_wasm s'" by (rule sealChat_result)
  have o: "open_chat (wasm rte) (hs_sessionKey h) nc (accountId i) 1 = Some (utf8 prompt)"
    using r(3) assms(2) by (auto simp: seal_law_def)
  have v: "toBigInt (plat rte) (getProp en (js ''v'')) = Inr 1"
    by (simp add: envelope_getProp(1) [OF r(4)] toBigInt_def)
  have "openDelta rte en s' = (Inr prompt, s')"
    by (simp add: openDelta_def andThen_def requireSession_def getWasm_def lift_def lift_opt_def ret_def
        r fromWire_toWire [OF r(4) assms(3)] v o utf8_roundtrip [OF assms(4,5)])
  then show ?thesis by (simp add: r(5) sealChat_body_def)
qed

subsection \<open>Properties\<close>

text \<open>C2. In a production build - not a development build, without the escape hatch - whatever the
  requested policy and whatever sequence of operations ran (failing ones included), a state that
  holds a handshake result holds one whose evidence the WASM module accepted for the pinned set
  of the build; in particular a build without a pinned set never unlocks.\<close>

theorem production_unlock_attested:
  assumes "production ve" "lib_reach rte ve s" "l_handshake s = Some h"
  shows "verified_result rte ve h \<and> truthy (readPinned rte ve)"
proof -
  have v: "verified_result rte ve h"
    using lib_reach_inv [OF assms(2,1)] assms(3) by (simp add: lib_inv_def)
  then show ?thesis by (auto simp: verified_result_def strict_client_def attested_def)
qed

text \<open>The policy a build runs under: strict unless skip or observe is asked for by name, and
  those only in a development build or with the escape hatch; otherwise reading it throws.\<close>

theorem readPolicy_branches:
  "readPolicy ve =
     (if VITE_CALADON_ATTESTATION ve \<in> {Some (js ''skip''), Some (js ''observe'')}
      then if production ve then Inl InsecurePolicy
           else Inr (if VITE_CALADON_ATTESTATION ve = Some (js ''skip'') then Skip else Observe)
      else Inr Strict)"
  by (auto simp: readPolicy_def production_def Let_def)

text \<open>Opening inverts sealing at the level of the module: the envelope \<open>sealChat\<close> puts in the
  request body opens, under the same session, to the prompt that was sealed.\<close>

theorem sealChat_opens:
  assumes "sealChat rte prompt model tools yolo s = (Inr body, s')"
    and "seal_law (wasm rte)" "b64_inverse (p_base64 (plat rte))"
    and "well_formed (map unat prompt)" "take 1 prompt \<noteq> [0xFEFF]"
  shows "\<exists>en. getProp body (js ''envelope'') = Some en \<and> openDelta rte en s' = (Inr prompt, s')"
  using assms by (rule sealChat_openDelta)


subsection \<open>A concrete build\<close>

text \<open>A production build with a pinned set: the runtime's platform answers every parse with the
  evidence, its \<open>atob\<close> gives the certificate, and the network serves every request.\<close>

definition lib_evidence :: json where
  "lib_evidence = JObj [(js ''challenge'', JStr (js ''ch'')), (js ''intel_quote'', JStr (toHex sample_quote)),
     (js ''session_pub'', JStr (js ''k''))]"

definition lib_runtime :: runtime where
  "lib_runtime =
     \<lparr>global_fetch = Some (\<lambda>_. Some \<lparr>rs_status = 200, rs_body = [], rs_header = (\<lambda>_. Some [1])\<rparr>),
      date_now = (\<lambda>_. 0), rng = (\<lambda>_ n. Some (replicate n 0)),
      plat = (sample_platform lib_evidence)\<lparr>p_base64 := \<lparr>btoa = Some (\<lambda>s. s), atob = Some (\<lambda>_. Some (map ucast sample_cert))\<rparr>\<rparr>,
      wasm = sample_wasm True, wasm_loads = True\<rparr>"

definition lib_production :: vite_env where
  "lib_production = \<lparr>VITE_CALADON_PINNED = Some (js ''p''), VITE_CALADON_ATTESTATION = None,
     VITE_CALADON_ALLOW_INSECURE = None, VITE_CALADON_SHIM_BASE = None, DEV = False\<rparr>"

lemma lib_cert: "map ucast (map ucast sample_cert :: jsstring) = sample_cert"
proof -
  have "map (\<lambda>b. ucast (ucast b :: jschar)) bs = (bs :: bytes)" for bs
    by (induction bs) (simp_all add: ucast_up_ucast_id is_up)
  then show ?thesis by (simp add: o_def)
qed

lemma lib_ders: "pemChainToDer (plat lib_runtime) (BEGIN_TAG @ END_TAG) = Inr [sample_cert]"
  using lib_cert
  by (simp add: pemChainToDer_def sample_chain_blocks b64ToBytes_def lib_runtime_def sample_platform_def)

lemma lib_collateral:
  "\<exists>col s'. fetchCollateralFromPcs (plat lib_runtime)
     (\<lambda>_. Some \<lparr>rs_status = 200, rs_body = [], rs_header = (\<lambda>_. Some [1])\<rparr>) base sample_quote s
     = (Inr col, s') \<and> s' = s\<lparr>reqs := reqs s'\<rparr>"
  for s :: client_state
proof -
  have p: "p_parse (plat lib_runtime) t = Some lib_evidence" "p_decodeURI (plat lib_runtime) [1] = Some [1]" for t
    by (simp_all add: lib_runtime_def sample_platform_def)
  have g: "get_prop lib_evidence k = Inr (getProp lib_evidence (js k))" for k
    by (simp add: lib_evidence_def)
  show ?thesis
    by (simp add: fetchCollateralFromPcs_def andThen_def lift_def lift_opt_def sample_quote_chain lib_ders
        sample_cert_fmspc pcsGet_def fetch_def rs_ok_def ret_def issuerChain_def p g Let_def
        fetchRootCaCrl_def)
qed

lemma lib_unlock:
  "\<exists>h s'. caladonUnlock lib_runtime lib_production [] new_lib_state = (Inr h, s') \<and> l_handshake s' = Some h"
proof -
  let ?s = "new_client_state\<lparr>wasm_ready := False, c_identity := None, c_sessionKey := None\<rparr>"
  obtain c where c: "getCaladonClient lib_runtime lib_production new_lib_state
      = (Inr c, new_lib_state\<lparr>l_client := Some c, l_sdk := ?s\<rparr>)"
    and cc: "attestationPolicy c = Strict" "truthy (pinned c)" "collateralProvider c = None"
      "fetchImpl c = (\<lambda>_. Some \<lparr>rs_status = 200, rs_body = [], rs_header = (\<lambda>_. Some [1])\<rparr>)"
    by (simp add: getCaladonClient_def new_lib_state_def readPolicy_def lib_production_def
        new_CaladonClient_def lib_options_def lib_runtime_def ret_def Let_def readPinned_def
        sample_platform_def lib_evidence_def)
  have q: "fromHex_value (Some (JStr (toHex sample_quote))) = Inr sample_quote"
    by (simp add: fromHex_value_def fromHex_toHex)
  have ne: "toHex sample_quote \<noteq> []"
    using length_toHex [of sample_quote] by (auto simp: sample_quote_def BEGIN_TAG_def)
  define net where "net = (\<lambda>_ :: request list. Some \<lparr>rs_status = 200, rs_body = [], rs_header = (\<lambda>_ :: jsstring. Some [1 :: jschar])\<rparr>)"
  have "\<forall>s :: client_state. \<exists>col r. fetchCollateralFromPcs (plat lib_runtime) net (pcsCollateralBase c) sample_quote s
      = (Inr col, s\<lparr>reqs := r\<rparr>)"
    unfolding net_def using lib_collateral by metis
  then obtain col r where col: "fetchCollateralFromPcs (plat lib_runtime) net (pcsCollateralBase c) sample_quote s
      = (Inr (col s), s\<lparr>reqs := r s\<rparr>)" for s :: client_state by metis
  have gp: "getProp lib_evidence (js ''challenge'') = Some (JStr (js ''ch''))"
    "getProp lib_evidence (js ''intel_quote'') = Some (JStr (toHex sample_quote))"
    "getProp lib_evidence (js ''session_pub'') = Some (JStr (js ''k''))"
    "get_prop lib_evidence k = Inr (getProp lib_evidence (js k))" for k
    by (simp_all add: lib_evidence_def)
  have parse: "p_parse (plat lib_runtime) t = Some lib_evidence" for t
    by (simp add: lib_runtime_def sample_platform_def)
  have b64: "fromBase64 (p_base64 (plat lib_runtime)) t = Some sample_cert" for t
    using lib_cert by (simp add: fromBase64_def lib_runtime_def)
  have pub: "toBase64 (p_base64 (plat lib_runtime)) [2] \<noteq> []"
    by (simp add: toBase64_def lib_runtime_def)
  have w: "wasm lib_runtime = sample_wasm True" "wasm_loads lib_runtime" "rng lib_runtime k n = Some (replicate n 0)" for k n
    by (simp_all add: lib_runtime_def)
  have fi: "fetchImpl c = net" unfolding net_def by (rule cc(4))
  have netr: "net l = Some \<lparr>rs_status = 200, rs_body = [], rs_header = (\<lambda>_. Some [1])\<rparr>" for l
    by (simp add: net_def)
  have "\<exists>h s'. handshake \<lparr>cfg = c, rt = lib_runtime\<rparr> [] ?s = (Inr h, s')"
    using cc(1-3) fi
    by (simp add: handshake_def init_def unlockSeed_def onboard_def getAttestation_def verifyAttestation_def
        establishSession_def signedFetch_def authHeader_def fetch_def call_wasm_def requireIdentity_def
        readClock_def randomBytes_def draw_def lift_def lift_opt_def getCollateral_def andThen_def ret_def
        throw_def quoteHex_of_def fromBase64_value_def toWireEnvelope_def new_client_state_def NONCE_LEN_def
        Let_def w sample_wasm_def gp parse b64 pub q ne netr col)
  then show ?thesis
    using c by (auto simp: caladonUnlock_def andThen_def on_client_def ret_def)
qed

lemma production_unlock_attested_witness:
  "\<exists>s h. lib_reach lib_runtime lib_production s \<and> l_handshake s = Some h
    \<and> verified_result lib_runtime lib_production h"
proof -
  obtain h s' where u: "caladonUnlock lib_runtime lib_production [] new_lib_state = (Inr h, s')"
    "l_handshake s' = Some h" using lib_unlock by blast
  have "lib_reach lib_runtime lib_production (snd (caladonUnlock lib_runtime lib_production [] new_lib_state))"
    by (intro lib_reach.unlock lib_reach.start)
  then have "lib_reach lib_runtime lib_production s'" using u(1) by simp
  moreover have "production lib_production" by (simp add: production_def lib_production_def)
  ultimately show ?thesis using production_unlock_attested u(2) by blast
qed

lemma sealChat_opens_witness:
  "\<exists>rte s body s' en. sealChat rte (js ''hi'') None False False s = (Inr body, s')
    \<and> getProp body (js ''envelope'') = Some en \<and> openDelta rte en s' = (Inr (js ''hi''), s')"
proof -
  let ?r = "lib_runtime\<lparr>plat := sample_platform JNull\<rparr>"
  let ?i = "\<lparr>root = [1], accountId = js ''acct'', ed25519PubB64 = js ''p''\<rparr>"
  let ?s = "new_lib_state\<lparr>l_identity := Some ?i, l_handshake := Some \<lparr>hs_identity = ?i, hs_evidence = JNull,
    hs_verdict = None, hs_sessionKey = [5]\<rparr>\<rparr>"
  obtain body s' where s: "sealChat ?r (js ''hi'') None False False ?s = (Inr body, s')"
    by (simp add: sealChat_def andThen_def requireSession_def ret_def getWasm_def lib_runtime_def
        on_client_def draw_def lift_opt_def lift_def sample_wasm_def toWireEnvelope_def NONCE_LEN_def
        new_lib_state_def new_client_state_def Let_def)
  have "\<exists>en. getProp body (js ''envelope'') = Some en \<and> openDelta ?r en s' = (Inr (js ''hi''), s')"
  proof (rule sealChat_opens [OF s])
    show "seal_law (wasm ?r)" by (simp add: seal_law_def lib_runtime_def sample_wasm_def)
    show "b64_inverse (p_base64 (plat ?r))" by (simp add: sample_b64_inverse)
  qed (simp_all add: js_def is_high_def is_low_def)
  with s show ?thesis by blast
qed

end
