(* ===== verification/Runs.thy ===== *)
theory Runs
  imports Main
begin

text \<open>
  Runs of an event loop. A component whose state is changed by one event at a time promises that an invariant
  survives every event of a class; its clients rely on whole runs. The components that are event loops interpret the
  locale on their own step functions.
\<close>

locale event_loop =
  fixes step :: "'e \<Rightarrow> 's \<Rightarrow> 's"
    and allowed_event :: "'e \<Rightarrow> bool"
    and inv :: "'s \<Rightarrow> bool"
  assumes step_keeps: "inv s \<Longrightarrow> allowed_event e \<Longrightarrow> inv (step e s)"
begin

lemma run_keeps: "inv s \<Longrightarrow> \<forall>e\<in>set es. allowed_event e \<Longrightarrow> inv (fold step es s)"
  by (induction es arbitrary: s) (simp_all add: step_keeps)

text \<open>Also at every moment of the run.\<close>

lemma run_keeps_always:
  "inv s \<Longrightarrow> \<forall>e\<in>set es. allowed_event e \<Longrightarrow> inv (fold step (take n es) s)"
  by (rule run_keeps) (auto dest: in_set_takeD)

end

end
