(* ===== verification/StoreCalls.thy ===== *)
theory StoreCalls
  imports StoreProxy Runs
begin

text \<open>
  What the store proxy guarantees: no promise is lost or settled twice, a teardown settles all of them
  and separates identities, a failed open rejects everybody, and calls in flight together get each its own
  answer of the worker (\<open>StoreWorker\<close>), whatever the order of the replies.
\<close>

text \<open>Every worker that was sent something has been spawned: a reachable page, seen as a stretch that began
  with nothing.\<close>

definition spawned_ok :: "page \<Rightarrow> bool" where
  "spawned_ok pg \<longleftrightarrow> (\<forall>e\<in>set (posted pg). fst e < spawned pg) \<and> (\<forall>w. worker pg = Some w \<longrightarrow> w < spawned pg)"

lemma spawned_cong:
  "posted q = posted pg \<Longrightarrow> worker q = worker pg \<Longrightarrow> spawned q = spawned pg \<Longrightarrow> spawned_ok q = spawned_ok pg"
  by (simp add: spawned_ok_def)

lemma spawned_send: "spawned_ok pg \<Longrightarrow> spawned_ok (send stamp p k body pg)"
  by (auto simp: spawned_ok_def send_fields ensureWorker_def less_SucI split: option.splits)

lemma spawned_settle: "spawned_ok (settle p out pg) = spawned_ok pg"
  by (rule spawned_cong) simp_all

lemma spawned_adopt: "spawned_ok (adopt p pg) = spawned_ok pg"
  by (rule spawned_cong) (simp_all add: adopt_def split: ready.split)

lemma spawned_wakes: "spawned_ok pg \<Longrightarrow> spawned_ok (fold (wake stamp) ws pg)"
  by (induction ws arbitrary: pg) (simp_all add: wake_def spawned_send spawned_settle split: option.split)

lemma spawned_continue: "spawned_ok pg \<Longrightarrow> spawned_ok (continue stamp out e pg)"
proof -
  assume s: "spawned_ok pg"
  have u: "spawned_ok (pg\<lparr>opened_flag := b, ready_of := r, waiting := ws\<rparr>)"
    "spawned_ok (pg\<lparr>opened_flag := b\<rparr>)" for b r ws
    using s by (simp_all add: spawned_ok_def)
  have "spawned_ok (resolveReady stamp (pg\<lparr>opened_flag := True\<rparr>))"
    using spawned_wakes [OF u(1)] u(2) by (simp add: resolveReady_def)
  moreover have "spawned_ok (rejectReady err q) = spawned_ok q" for err q
    by (rule spawned_cong) (simp_all add: rejectReady_def settle_all_def)
  ultimately show ?thesis using s
    by (simp add: continue_def spawned_settle spawned_adopt split: continuation.split outcome.split)
qed

lemma spawned_step: "spawned_ok pg \<Longrightarrow> spawned_ok (page_step stamp ev pg)"
proof (cases ev)
  case (Open_store k)
  assume "spawned_ok pg"
  then have "spawned_ok (pg\<lparr>next_promise := n\<rparr>)" for n by (simp add: spawned_ok_def)
  then show ?thesis by (simp add: Open_store openStore_def new_promise_def spawned_adopt spawned_send)
next
  case (Call b)
  assume "spawned_ok pg"
  then have "spawned_ok (pg\<lparr>next_promise := n\<rparr>)" "spawned_ok (pg\<lparr>next_promise := n, waiting := ws\<rparr>)" for n ws
    by (simp_all add: spawned_ok_def)
  then show ?thesis by (simp add: Call call_op_def new_promise_def spawned_settle spawned_send split: ready.split)
next
  case (Message res)
  assume "spawned_ok pg"
  moreover from this have "spawned_ok (pg\<lparr>pending := m\<rparr>)" for m by (simp add: spawned_ok_def)
  ultimately show ?thesis by (simp add: Message on_message_def spawned_continue split: option.split)
next
  case (Worker_error m)
  assume "spawned_ok pg"
  then have "spawned_ok (pg\<lparr>pending := []\<rparr>)" by (simp add: spawned_ok_def)
  then have "spawned_ok (reject_pending stamp err es (pg\<lparr>pending := []\<rparr>))" for err es
    unfolding reject_pending_def by (induction es rule: rev_induct) (simp_all add: spawned_continue)
  then show ?thesis by (simp add: Worker_error on_error_def)
qed (simp_all add: spawned_ok_def terminate_fields resetStoreProxy_def)

lemma reach_spawned: "page_reach stamp pg \<Longrightarrow> spawned_ok pg"
  by (induction rule: page_reach.induct) (simp_all add: spawned_step, simp add: spawned_ok_def new_page_def)

lemma reach_run: "page_reach stamp pg \<Longrightarrow> page_reach stamp (run_page stamp evs pg)"
  unfolding run_page_def by (induction evs arbitrary: pg) (simp_all add: page_reach.step)

lemma pages_kept_apart:
  assumes "page_reach stamp pg"
  shows "let pg' = run_page stamp evs (resetStoreProxy stamp pg); new = drop (length (posted pg)) (posted pg')
    in posted pg' = posted pg @ new
      \<and> fst ` set new \<inter> fst ` set (posted pg) = {}
      \<and> (\<forall>(w, q)\<in>set new. \<exists>ev\<in>set evs. sq_body q \<in> event_bodies ev)
      \<and> init_first new"
proof -
  let ?pg = "run_page stamp evs (resetStoreProxy stamp pg)" and ?E = "\<Union> (event_bodies ` set evs)"
  have i: "in_stretch (posted pg) (spawned pg) ?E ?pg"
    by (rule in_run [OF reset_in_stretch]) auto
  note d = in_stretchD [OF i]
  have "fst ` set (drop (length (posted pg)) (posted ?pg)) \<inter> fst ` set (posted pg) = {}"
    using d(3) reach_spawned [OF assms] by (force simp: spawned_ok_def)
  moreover have "posted ?pg = posted pg @ drop (length (posted pg)) (posted ?pg)"
    using d(1) by (metis append_take_drop_id append_eq_conv_conj prefixE)
  ultimately show ?thesis using d(2,3) by (fastforce simp: Let_def)
qed

subsection \<open>Properties\<close>

text \<open>C16. Whatever the page and the worker do and in whatever order, every promise the proxy has handed out
  is in exactly one place: settled once, waiting for the store to open, or pending for one request
  of the worker. No request id is used twice, so no answer can overwrite or settle a promise of
  another operation (below the 2^53-1 ids of the counter).\<close>

theorem every_promise_in_one_place:
  assumes "page_reach stamp pg" and "length (posted pg) < MAX_SAFE_INTEGER"
  shows "distinct (map fst (settled pg) @ map (fst \<circ> snd) (pending pg) @ map fst (waiting pg))
    \<and> set (map fst (settled pg) @ map (fst \<circ> snd) (pending pg) @ map fst (waiting pg)) = {0 ..< next_promise pg}
    \<and> distinct (map fst (pending pg))"
proof -
  let ?ps = "map fst (settled pg) @ map (fst \<circ> snd) (pending pg) @ map fst (waiting pg)"
  have ok: "page_ok stamp {#} pg" by (rule reach_ok [OF assms(1)])
  then have "mset ?ps = mset [0 ..< next_promise pg]"
    using assms(2) by (simp add: page_ok_def held_def ac_simps)
  then have "distinct ?ps" "set ?ps = set [0 ..< next_promise pg]"
    using mset_eq_imp_distinct_iff mset_eq_setD distinct_upt by blast+
  then show ?thesis using ok assms(2) by (simp add: page_ok_def ids_ok_def)
qed

text \<open>C17. A teardown leaves nobody hanging: after \<open>terminate\<close>, and after \<open>resetStoreProxy\<close>, every promise ever
  handed out has been settled, each exactly once, even those of operations that were still waiting
  for the store to open.\<close>

theorem teardown_settles_everything:
  assumes "page_reach stamp pg" and "length (posted pg) < MAX_SAFE_INTEGER"
    and "pg' = terminate stamp pg \<or> pg' = resetStoreProxy stamp pg"
  shows "distinct (map fst (settled pg')) \<and> set (map fst (settled pg')) = {0 ..< next_promise pg'}
    \<and> worker pg' = None \<and> \<not> isOpen pg'"
proof -
  have f: "pending pg' = []" "waiting pg' = []" "posted pg' = posted pg" "worker pg' = None" "opened_flag pg' = False"
    using assms(3) by (auto simp: terminate_fields resetStoreProxy_def)
  have ok: "page_ok stamp {#} pg'" using assms(3) ok_terminate ok_reset reach_ok [OF assms(1)] by blast
  then have "mset (map fst (settled pg')) = mset [0 ..< next_promise pg']"
    using assms(2) f by (simp add: page_ok_def held_def)
  then have "distinct (map fst (settled pg'))" "set (map fst (settled pg')) = set [0 ..< next_promise pg']"
    using mset_eq_imp_distinct_iff mset_eq_setD distinct_upt by blast+
  then show ?thesis using f by (simp add: isOpen_def)
qed

text \<open>Identities are kept apart: whatever happens after \<open>resetStoreProxy\<close>, the requests that are posted from
  then on go to workers no earlier request went to, are only those the page asked for since, and the
  first request any of these workers gets is an INIT, with a key given to \<open>openStore\<close> since.\<close>

theorem reset_separates_identities:
  assumes "page_reach stamp pg"
  shows "let pg' = run_page stamp evs (resetStoreProxy stamp pg); new = drop (length (posted pg)) (posted pg')
    in posted pg' = posted pg @ new
      \<and> fst ` set new \<inter> fst ` set (posted pg) = {}
      \<and> (\<forall>(w, q)\<in>set new. \<exists>ev\<in>set evs. sq_body q \<in> event_bodies ev)
      \<and> init_first new"
  using assms by (rule pages_kept_apart)

subsection \<open>A failed open\<close>

lemma rejected_ready:
  assumes "ready_of pg = Failed e"
  shows "ready_of (send stamp p k b pg) = Failed e" "ready_of (adopt p pg) = Failed e"
    "resolveReady stamp pg = pg" "rejectReady err pg = pg"
  using assms by (simp_all add: send_fields adopt_def resolveReady_def rejectReady_def)

lemma continue_failed:
  assumes "ready_of pg = Failed e"
  shows "ready_of (continue stamp out c pg) = Failed e"
proof -
  have "ready_of (pg\<lparr>opened_flag := True\<rparr>) = Failed e" using assms by simp
  note r = rejected_ready(2,3) [OF this]
  show ?thesis using assms by (simp add: continue_def r rejected_ready split: continuation.split outcome.split)
qed

lemma step_failed:
  assumes "ready_of pg = Failed e" "ev \<noteq> Terminate" "ev \<noteq> Reset"
  shows "ready_of (page_step stamp ev pg) = Failed e"
proof (cases ev)
  case (Worker_error m)
  have "ready_of (fold (\<lambda>c. continue stamp (Rejected err) (snd c)) es q) = Failed e"
    if "ready_of q = Failed e" for err q and es :: "(jsstring \<times> nat \<times> continuation) list"
    using that by (induction es arbitrary: q) (simp_all add: continue_failed)
  then show ?thesis using assms(1) by (simp add: Worker_error on_error_def reject_pending_def)
qed (use assms in \<open>simp_all add: openStore_def call_op_def new_promise_def on_message_def rejected_ready
  continue_failed split: option.split\<close>)

text \<open>What the code does when the page opens again without a teardown: the first rejection stays, even though the
  second open succeeds and \<open>isOpen\<close> says true.\<close>

lemma second_open_stays_rejected:
  assumes "ready_of pg = Failed e" and "\<forall>ev\<in>set evs. ev \<noteq> Terminate \<and> ev \<noteq> Reset"
  shows "let pg' = run_page stamp evs pg in
    settled (call_op stamp body pg') = settled pg' @ [(next_promise pg', Rejected e)]
    \<and> posted (call_op stamp body pg') = posted pg'"
proof -
  have "ready_of (run_page stamp evs pg) = Failed e"
    using assms unfolding run_page_def by (induction evs arbitrary: pg) (simp_all add: step_failed)
  then show ?thesis by (simp add: call_op_def new_promise_def settle_def)
qed

text \<open>A proxy whose open has failed and that nobody has opened again.\<close>

definition refused :: "proxy_error \<Rightarrow> (nat \<times> StoreRequest) list \<Rightarrow> page \<Rightarrow> bool" where
  "refused e posts pg \<longleftrightarrow> ready_of pg = Failed e \<and> pending pg = [] \<and> \<not> opened_flag pg \<and> posted pg = posts"

definition opens_nothing :: "page_event \<Rightarrow> bool" where
  "opens_nothing ev \<longleftrightarrow> (\<forall>k. ev \<noteq> Open_store k) \<and> ev \<noteq> Terminate \<and> ev \<noteq> Reset"

lemma refused_step: "refused e posts pg \<Longrightarrow> opens_nothing ev \<Longrightarrow> refused e posts (page_step stamp ev pg)"
  by (cases ev) (simp_all add: refused_def opens_nothing_def call_op_def new_promise_def settle_def on_message_def on_error_def
      reject_pending_def)

interpretation refusal: event_loop "page_step stamp" opens_nothing "refused e posts" for stamp e posts
  by unfold_locales (rule refused_step)

lemma refused_run: "refused e posts pg \<Longrightarrow> list_all opens_nothing evs \<Longrightarrow> refused e posts (run_page stamp evs pg)"
  unfolding run_page_def by (rule refusal.run_keeps) (simp_all add: list_all_iff)

lemma open_fails:
  assumes "ready_of pg = Waiting" "pending pg = [(rid, p, KInit)]" "\<not> opened_flag pg"
    and "pg1 = on_message stamp \<lparr>sr_requestId = rid, sr_body = ERROR se\<rparr> pg"
  shows "refused (WorkerSaid se) (posted pg) pg1"
    "settled pg1 = settled pg @ (p, Rejected (WorkerSaid se)) # map (\<lambda>w. (fst w, Rejected (WorkerSaid se))) (waiting pg)"
  using assms by (simp_all add: refused_def on_message_def outcome_of_def continue_def map_delete_def rejectReady_def
      settle_def settle_all_def)

text \<open>A proxy that has been reset opens as a new one does.\<close>

lemma reset_opens:
  assumes "q = openStore stamp k (resetStoreProxy stamp pg)"
  shows "\<exists>w rid. posted q = posted pg @ [(w, \<lparr>sq_requestId = rid, sq_body = INIT k\<rparr>)]
    \<and> (let q' = on_message stamp \<lparr>sr_requestId = rid, sr_body = OK r\<rparr> q in
         isOpen q' \<and> ready_of q' = Opened \<and> settled q' = settled q @ [(next_promise (resetStoreProxy stamp pg), Resolved (OK None))])"
proof -
  let ?p = "resetStoreProxy stamp pg"
  obtain rid where rid: "fst (nextRequestId stamp (snd (new_promise ?p))) = rid" by blast
  have f: "worker ?p = None" "pending ?p = []" "opened_flag ?p = False" "ready_of ?p = Waiting" "waiting ?p = []" "posted ?p = posted pg"
    by (simp_all add: resetStoreProxy_def terminate_fields)
  show ?thesis
    unfolding assms
    by (rule exI [of _ "spawned ?p"], rule exI [of _ rid])
      (use f rid in \<open>auto simp: openStore_def new_promise_def send_def nextRequestId_def ensureWorker_def map_set_def Let_def
        on_message_def outcome_of_def continue_def map_delete_def resolveReady_def adopt_def settle_def isOpen_def\<close>)
qed

text \<open>C20. A failed open is an error for everybody and never a hang: when the worker answers the INIT with an error, the
  promise of \<open>openStore\<close> and every operation that was waiting are rejected with it; while nobody opens the store
  again, every later operation is rejected with it at once and nothing at all is posted; and after a reset a new
  open posts its INIT, and once that is acknowledged the store is open and \<open>ready\<close> and \<open>openStore\<close> resolve.\<close>

theorem failed_open_rejects_all:
  assumes "ready_of pg = Waiting" "pending pg = [(rid, p, KInit)]" "\<not> opened_flag pg"
    and "pg1 = on_message stamp \<lparr>sr_requestId = rid, sr_body = ERROR se\<rparr> pg"
    and "list_all opens_nothing evs" "pg2 = run_page stamp evs pg1" "q = openStore stamp k (resetStoreProxy stamp pg2)"
  shows "settled pg1 = settled pg @ (p, Rejected (WorkerSaid se)) # map (\<lambda>w. (fst w, Rejected (WorkerSaid se))) (waiting pg)
    \<and> \<not> isOpen pg2 \<and> posted pg2 = posted pg
    \<and> settled (call_op stamp body pg2) = settled pg2 @ [(next_promise pg2, Rejected (WorkerSaid se))]
    \<and> posted (call_op stamp body pg2) = posted pg
    \<and> (\<exists>w new. posted q = posted pg @ [(w, \<lparr>sq_requestId = new, sq_body = INIT k\<rparr>)]
        \<and> (let q' = on_message stamp \<lparr>sr_requestId = new, sr_body = OK r\<rparr> q in
             isOpen q' \<and> ready_of q' = Opened \<and> settled q' = settled q @ [(next_promise (resetStoreProxy stamp pg2), Resolved (OK None))]))"
proof -
  have r: "refused (WorkerSaid se) (posted pg) pg2"
    unfolding assms(6) by (rule refused_run [OF open_fails(1) [OF assms(1-4)] assms(5)])
  then have c: "settled (call_op stamp body pg2) = settled pg2 @ [(next_promise pg2, Rejected (WorkerSaid se))]"
    "posted (call_op stamp body pg2) = posted pg" "posted pg2 = posted pg" "\<not> isOpen pg2"
    by (simp_all add: refused_def call_op_def new_promise_def settle_def isOpen_def)
  show ?thesis
    using open_fails(2) [OF assms(1-4)] c reset_opens [OF assms(7), of r] by simp
qed

definition no_stamp :: "nat \<Rightarrow> jsstring" where "no_stamp n = []"

definition ack :: "nat \<Rightarrow> response_body \<Rightarrow> page_event" where
  "ack n b = Message \<lparr>sr_requestId = request_id no_stamp n, sr_body = b\<rparr>"

definition failed_page :: page where
  "failed_page = run_page no_stamp [Open_store (js ''k''), ack 1 (ERROR NotADatabase)] new_page"

lemma request_id_eq [simp]: "request_id stamp m = request_id stamp n \<longleftrightarrow> m = n"
  using request_id_inject by blast

lemma failed_page_ready: "ready_of failed_page = Failed (WorkerSaid NotADatabase)" "counter failed_page = 1"
  "pending failed_page = []" "opened_flag failed_page = False"
  by (simp_all add: failed_page_def run_page_def ack_def new_page_def openStore_def new_promise_def send_def
      nextRequestId_def ensureWorker_def map_set_def on_message_def outcome_of_def continue_def map_delete_def
      settle_def rejectReady_def settle_all_def MAX_SAFE_INTEGER_def)

lemma second_open_example:
  "let pg' = run_page no_stamp [Open_store (js ''k''), ack 2 (OK None)] failed_page in
    isOpen pg' \<and> settled (call_op no_stamp LIST_AGENTS pg')
      = settled pg' @ [(next_promise pg', Rejected (WorkerSaid NotADatabase))]"
proof -
  let ?evs = "[Open_store (js ''k''), ack 2 (OK None)]"
  have "isOpen (run_page no_stamp ?evs failed_page)"
    by (simp add: isOpen_def run_page_def ack_def openStore_def new_promise_def failed_page_ready send_fields
        on_message_def map_set_def MAX_SAFE_INTEGER_def outcome_of_def continue_def adopt_def resolveReady_def settle_def
        split: ready.split)
  then show ?thesis
    using second_open_stays_rejected [OF failed_page_ready(1), of ?evs no_stamp LIST_AGENTS] by (simp add: ack_def Let_def)
qed

lemma failed_open_rejects_all_witness:
  "let pg = run_page no_stamp [Open_store (js ''k''), Call LIST_AGENTS] new_page;
       pg1 = on_message no_stamp \<lparr>sr_requestId = request_id no_stamp 1, sr_body = ERROR NotADatabase\<rparr> pg;
       pg2 = run_page no_stamp [Call LIST_SKILLS, Worker_error []] pg1
   in settled pg1 = [(0, Rejected (WorkerSaid NotADatabase)), (1, Rejected (WorkerSaid NotADatabase))]
     \<and> \<not> isOpen pg2 \<and> length (posted (call_op no_stamp LIST_AGENTS pg2)) = 1"
proof -
  let ?pg = "run_page no_stamp [Open_store (js ''k''), Call LIST_AGENTS] new_page"
  have pg: "ready_of ?pg = Waiting" "pending ?pg = [(request_id no_stamp 1, 0, KInit)]" "\<not> opened_flag ?pg"
    "settled ?pg = []" "waiting ?pg = [(1, Some LIST_AGENTS)]" "length (posted ?pg) = 1"
    by (simp_all add: run_page_def new_page_def openStore_def call_op_def new_promise_def send_def
      nextRequestId_def ensureWorker_def map_set_def MAX_SAFE_INTEGER_def)
  have "list_all opens_nothing [Call LIST_SKILLS, Worker_error []]" by (simp add: opens_nothing_def)
  from failed_open_rejects_all [where se = NotADatabase and stamp = no_stamp and body = LIST_AGENTS, OF pg(1-3) refl this refl refl]
  show ?thesis using pg(4-6) by (simp add: Let_def)
qed

text \<open>A teardown while the INIT is still in flight rejects the \<open>ready\<close> it has just installed.\<close>

lemma terminate_during_open:
  assumes "pending pg = [(rid, p, KInit)]"
  shows "ready_of (terminate stamp pg) = Failed ProxyTerminated"
  using assms by (simp add: terminate_def reject_pending_def continue_def rejectReady_def settle_all_def)

subsection \<open>The proxy and the worker together\<close>

lemma call_opened:
  assumes "page_ok stamp {#} pg" "ready_of pg = Opened" "Suc (length (posted pg)) < MAX_SAFE_INTEGER"
  shows "\<exists>w. posted (call_op stamp b pg)
      = posted pg @ [(w, \<lparr>sq_requestId = request_id stamp (Suc (length (posted pg))), sq_body = b\<rparr>)]"
    "pending (call_op stamp b pg) = pending pg @ [(request_id stamp (Suc (length (posted pg))), next_promise pg, KOp)]"
    "ready_of (call_op stamp b pg) = Opened" "settled (call_op stamp b pg) = settled pg"
    "next_promise (call_op stamp b pg) = Suc (next_promise pg)"
proof -
  let ?q = "pg\<lparr>next_promise := Suc (next_promise pg)\<rparr>"
  have ok: "counter pg = length (posted pg)" "ids_ok stamp (length (posted pg)) (pending pg)"
    using assms(1,3) by (simp_all add: page_ok_def)
  have c: "(counter ?q + 1) mod MAX_SAFE_INTEGER = Suc (length (posted pg))" using assms(3) ok(1) by simp
  have e: "call_op stamp b pg = send stamp (next_promise pg) KOp b ?q"
    using assms(2) by (simp add: call_op_def new_promise_def)
  show "\<exists>w. posted (call_op stamp b pg)
      = posted pg @ [(w, \<lparr>sq_requestId = request_id stamp (Suc (length (posted pg))), sq_body = b\<rparr>)]"
    unfolding e send_fields(5) c by simp
  show "pending (call_op stamp b pg) = pending pg @ [(request_id stamp (Suc (length (posted pg))), next_promise pg, KOp)]"
    unfolding e send_fields(1) c using ids_ok_new(1) [OF ok(2)] by simp
  show "ready_of (call_op stamp b pg) = Opened" "settled (call_op stamp b pg) = settled pg"
    "next_promise (call_op stamp b pg) = Suc (next_promise pg)"
    unfolding e send_fields using assms(2) by simp_all
qed

text \<open>The requests of a run of calls.\<close>

definition nth_id :: "(nat \<Rightarrow> jsstring) \<Rightarrow> page \<Rightarrow> nat \<Rightarrow> jsstring" where
  "nth_id stamp pg i = request_id stamp (Suc (length (posted pg) + i))"

definition requests_of :: "(nat \<Rightarrow> jsstring) \<Rightarrow> page \<Rightarrow> request_body list \<Rightarrow> StoreRequest list" where
  "requests_of stamp pg bs =
     map (\<lambda>i. \<lparr>sq_requestId = nth_id stamp pg i, sq_body = bs ! i\<rparr>) [0 ..< length bs]"

definition promises_of :: "(nat \<Rightarrow> jsstring) \<Rightarrow> page \<Rightarrow> nat \<Rightarrow> (jsstring \<times> nat \<times> continuation) list" where
  "promises_of stamp pg n = map (\<lambda>i. (nth_id stamp pg i, next_promise pg + i, KOp)) [0 ..< n]"

lemma requests_of_snoc:
  "requests_of stamp pg (bs @ [b]) = requests_of stamp pg bs @ [\<lparr>sq_requestId = nth_id stamp pg (length bs), sq_body = b\<rparr>]"
  by (simp add: requests_of_def nth_append)

lemma calls_opened:
  assumes "page_ok stamp {#} pg" "ready_of pg = Opened" "length (posted pg) + length bs < MAX_SAFE_INTEGER"
  shows "\<exists>es. posted (fold (call_op stamp) bs pg) = posted pg @ es \<and> map snd es = requests_of stamp pg bs
    \<and> pending (fold (call_op stamp) bs pg) = pending pg @ promises_of stamp pg (length bs)
    \<and> ready_of (fold (call_op stamp) bs pg) = Opened \<and> settled (fold (call_op stamp) bs pg) = settled pg
    \<and> next_promise (fold (call_op stamp) bs pg) = next_promise pg + length bs
    \<and> page_ok stamp {#} (fold (call_op stamp) bs pg)"
  using assms(3)
proof (induction bs rule: rev_induct)
  case Nil
  then show ?case using assms(1,2) by (simp add: requests_of_def promises_of_def)
next
  case (snoc b bs)
  let ?q = "fold (call_op stamp) bs pg"
  obtain es where q: "posted ?q = posted pg @ es" "map snd es = requests_of stamp pg bs"
    "pending ?q = pending pg @ promises_of stamp pg (length bs)" "ready_of ?q = Opened" "settled ?q = settled pg"
    "next_promise ?q = next_promise pg + length bs" "page_ok stamp {#} ?q"
    using snoc by auto
  have l: "length es = length bs" using arg_cong [OF q(2), of length] by (simp add: requests_of_def)
  have id: "request_id stamp (Suc (length (posted ?q))) = nth_id stamp pg (length bs)"
    by (simp add: q(1) l nth_id_def)
  have "Suc (length (posted ?q)) < MAX_SAFE_INTEGER" using snoc.prems by (simp add: q(1) l)
  note c = call_opened [OF q(7,4) this, of b, unfolded id]
  then obtain w where w: "posted (call_op stamp b ?q)
      = posted ?q @ [(w, \<lparr>sq_requestId = nth_id stamp pg (length bs), sq_body = b\<rparr>)]" by blast
  have "page_ok stamp {#} (call_op stamp b ?q)" using ok_step [OF q(7), of "Call b"] by simp
  then show ?case using c(2-) w q
    by (simp add: requests_of_snoc promises_of_def)
qed

lemma map_of_delete: "map_of (map_delete k m) k' = (if k' = k then None else map_of m k')"
  by (induction m) (auto simp: map_delete_def)

lemma deliver:
  assumes "distinct (map sr_requestId rs)"
    and "\<forall>r\<in>set rs. \<exists>p. map_of (pending pg) (sr_requestId r) = Some (p, KOp)"
  shows "settled (fold (on_message stamp) rs pg)
    = settled pg @ map (\<lambda>r. (fst (the (map_of (pending pg) (sr_requestId r))), outcome_of (sr_body r))) rs"
  using assms
proof (induction rs arbitrary: pg)
  case (Cons r rs)
  obtain p where p: "map_of (pending pg) (sr_requestId r) = Some (p, KOp)" using Cons.prems(2) by auto
  let ?q = "on_message stamp r pg"
  have q: "pending ?q = map_delete (sr_requestId r) (pending pg)" "settled ?q = settled pg @ [(p, outcome_of (sr_body r))]"
    by (simp_all add: on_message_def p continue_def settle_def)
  have other: "\<And>x. x \<in> set rs \<Longrightarrow> map_of (pending ?q) (sr_requestId x) = map_of (pending pg) (sr_requestId x)"
    using Cons.prems(1) by (auto simp: q(1) map_of_delete) (metis image_eqI)
  have "settled (fold (on_message stamp) rs ?q)
    = settled ?q @ map (\<lambda>r. (fst (the (map_of (pending ?q) (sr_requestId r))), outcome_of (sr_body r))) rs"
    by (rule Cons.IH) (use Cons.prems other in auto)
  also have "map (\<lambda>r. (fst (the (map_of (pending ?q) (sr_requestId r))), outcome_of (sr_body r))) rs
    = map (\<lambda>r. (fst (the (map_of (pending pg) (sr_requestId r))), outcome_of (sr_body r))) rs"
    using other by (intro map_cong) auto
  finally show ?case by (simp add: p q(2))
qed simp

lemma calls_answered:
  assumes "page_reach stamp pg" and "ready_of pg = Opened"
    and "length (posted pg) + length bs < MAX_SAFE_INTEGER"
    and "mset rs = mset (fst (run_queue env (map snd (drop (length (posted pg)) (posted (fold (call_op stamp) bs pg)))) s))"
  shows "let pg' = fold (on_message stamp) rs (fold (call_op stamp) bs pg) in
    length (settled pg') = length (settled pg) + length bs
    \<and> (\<forall>i<length bs. (next_promise pg + i,
         outcome_of (answer env (bs ! i) (snd (run_queue env (requests_of stamp pg (take i bs)) s)))) \<in> set (settled pg'))"
proof -
  let ?q = "fold (call_op stamp) bs pg" and ?reqs = "requests_of stamp pg bs"
  obtain es where q: "posted ?q = posted pg @ es" "map snd es = ?reqs"
    "pending ?q = pending pg @ promises_of stamp pg (length bs)" "settled ?q = settled pg" "page_ok stamp {#} ?q"
    using calls_opened [OF reach_ok [OF assms(1)] assms(2,3)] by blast
  let ?reps = "fst (run_queue env ?reqs s)"
  have m: "mset rs = mset ?reps" using assms(4) by (simp add: q(1,2))
  have ids: "map sr_requestId ?reps = map (nth_id stamp pg) [0 ..< length bs]"
    by (simp add: worker.serve_ids) (simp add: requests_of_def)
  have "distinct (map sr_requestId ?reps)" unfolding ids by (simp add: distinct_map inj_on_def nth_id_def)
  then have d: "distinct (map sr_requestId rs)"
    using mset_eq_imp_distinct_iff [OF arg_cong [OF m, of "image_mset sr_requestId", folded mset_map]] by blast
  have len: "length es = length bs" using arg_cong [OF q(2), of length] by (simp add: requests_of_def)
  have dist: "distinct (map fst (pending ?q))"
    using q(5) assms(3) by (simp add: page_ok_def ids_ok_def q(1) len)
  have entry: "map_of (pending ?q) (nth_id stamp pg i) = Some (next_promise pg + i, KOp)" if "i < length bs" for i
    by (rule map_of_is_SomeI [OF dist]) (use that in \<open>auto simp: q(3) promises_of_def\<close>)
  have rep: "?reps ! i \<in> set rs \<and> sr_requestId (?reps ! i) = nth_id stamp pg i" if "i < length bs" for i
  proof -
    have "i < length ?reps" using arg_cong [OF ids, of length] that by simp
    then show ?thesis using mset_eq_setD [OF m] nth_mem arg_cong [OF ids, of "\<lambda>xs. xs ! i"] that by fastforce
  qed
  have known: "\<exists>p. map_of (pending ?q) (sr_requestId r) = Some (p, KOp)" if "r \<in> set rs" for r
  proof -
    have "sr_requestId r \<in> set (map sr_requestId ?reps)" using that mset_eq_setD [OF m] by auto
    then show ?thesis using entry unfolding ids by auto
  qed
  have dl: "settled (fold (on_message stamp) rs ?q) = settled pg
      @ map (\<lambda>r. (fst (the (map_of (pending ?q) (sr_requestId r))), outcome_of (sr_body r))) rs"
    using deliver [OF d, of ?q stamp] known q(4) by auto
  have body: "sr_body (?reps ! i) = answer env (bs ! i) (snd (run_queue env (requests_of stamp pg (take i bs)) s))"
    if "i < length bs" for i
  proof -
    have t: "take i ?reqs = requests_of stamp pg (take i bs)" "?reqs ! i = \<lparr>sq_requestId = nth_id stamp pg i, sq_body = bs ! i\<rparr>"
      using that by (auto simp: requests_of_def take_map intro!: map_cong)
    have "i < length ?reqs" using that by (simp add: requests_of_def)
    then show ?thesis using worker.serve_nth [of i ?reqs env s] by (simp add: t handle_parts)
  qed
  have "(next_promise pg + i, outcome_of (sr_body (?reps ! i))) \<in> set (settled (fold (on_message stamp) rs ?q))"
    if "i < length bs" for i
    using rep [OF that] entry [OF that] unfolding dl by force
  moreover have "length rs = length bs"
    using arg_cong [OF ids, of length] mset_eq_length [OF m] by simp
  ultimately show ?thesis using body by (simp add: Let_def dl)
qed

text \<open>C18. Operations may be in flight together and be answered in any order: for any calls issued on an open
  store, when the worker has served their requests and its replies have arrived in whatever order,
  the promise of the i-th call has been settled with the answer the worker gave to the i-th request
  in its turn, and nothing else has been settled.\<close>

theorem calls_get_their_own_answers:
  assumes "page_reach stamp pg" and "ready_of pg = Opened"
    and "length (posted pg) + length bs < MAX_SAFE_INTEGER"
    and "mset rs = mset (fst (run_queue env (map snd (drop (length (posted pg)) (posted (fold (call_op stamp) bs pg)))) s))"
  shows "let pg' = fold (on_message stamp) rs (fold (call_op stamp) bs pg) in
    length (settled pg') = length (settled pg) + length bs
    \<and> (\<forall>i<length bs. (next_promise pg + i,
         outcome_of (answer env (bs ! i) (snd (run_queue env (requests_of stamp pg (take i bs)) s)))) \<in> set (settled pg'))"
  using assms by (rule calls_answered)

text \<open>The contract of \<open>types.ts\<close>: the reply each request has, an error apart. The methods of the proxy cast what they are
  answered with to it (\<open>Extract<StoreResponse, ...>\<close>) without a check.\<close>

fun reply_fits :: "request_body \<Rightarrow> response_body \<Rightarrow> bool" where
  "reply_fits (HYDRATE_CONVO cid) r = (\<exists>c ms. r = HYDRATE c ms)"
| "reply_fits (LIST_CONVOS limit cursor) r = (\<exists>cs n. r = CONVOS cs n)"
| "reply_fits (SEARCH q limit cursor) r = (\<exists>hs n. r = HITS hs n)"
| "reply_fits (FORK cid mid) r = (\<exists>i. r = OK (Some i))"
| "reply_fits HYDRATE_VECTORS r = (\<exists>vs. r = VECTORS vs)"
| "reply_fits LIST_MEMORIES r = (\<exists>ms. r = MEMORIES ms)"
| "reply_fits (GET_AGENT k) r = (\<exists>a. r = AGENT a)"
| "reply_fits LIST_AGENTS r = (\<exists>as. r = AGENTS as)"
| "reply_fits (GET_SKILL k) r = (\<exists>a. r = SKILL a)"
| "reply_fits LIST_SKILLS r = (\<exists>as. r = SKILLS as)"
| "reply_fits b r = (r = OK None)"

definition outcome_fits :: "request_body \<Rightarrow> outcome \<Rightarrow> bool" where
  "outcome_fits b out = (case out of Resolved r \<Rightarrow> reply_fits b r | Rejected e \<Rightarrow> (\<exists>se. e = WorkerSaid se))"

lemma answer_fits: "outcome_fits b (outcome_of (answer env b s))"
  unfolding answer_eq(1)
  by (cases b) (auto simp: andThen_def reply_def ret_def outcome_fits_def outcome_of_def split: prod.splits sum.splits)

text \<open>C19. The proxy's casts are sound: for any calls issued on an open store, in whatever order the worker's replies
  arrive, the promise of each call is rejected with the worker's error or resolved with a reply of the kind
  its method declares - with an id for a fork, a page of conversations for a listing, and so on.\<close>

theorem calls_settle_by_type:
  assumes "page_reach stamp pg" and "ready_of pg = Opened"
    and "length (posted pg) + length bs < MAX_SAFE_INTEGER"
    and "mset rs = mset (fst (run_queue env (map snd (drop (length (posted pg)) (posted (fold (call_op stamp) bs pg)))) s))"
    and "i < length bs"
  shows "\<exists>out. (next_promise pg + i, out) \<in> set (settled (fold (on_message stamp) rs (fold (call_op stamp) bs pg)))
    \<and> outcome_fits (bs ! i) out"
proof -
  have "(next_promise pg + i, outcome_of (answer env (bs ! i) (snd (run_queue env (requests_of stamp pg (take i bs)) s))))
      \<in> set (settled (fold (on_message stamp) rs (fold (call_op stamp) bs pg)))"
    using calls_answered [OF assms(1-4)] assms(5) by (simp add: Let_def)
  then show ?thesis using answer_fits by blast
qed

definition opened_page :: page where
  "opened_page = run_page no_stamp [Open_store (js ''k''), ack 1 (OK None)] new_page"

lemma opened_page_fields: "ready_of opened_page = Opened" "length (posted opened_page) = 1" "next_promise opened_page = 1"
  "settled opened_page = [(0, Resolved (OK None))]"
  by (simp_all add: opened_page_def run_page_def ack_def new_page_def openStore_def new_promise_def send_def
      nextRequestId_def ensureWorker_def map_set_def on_message_def outcome_of_def continue_def map_delete_def
      settle_def adopt_def resolveReady_def MAX_SAFE_INTEGER_def)

lemma opened_page_reach: "page_reach no_stamp opened_page"
  unfolding opened_page_def by (intro reach_run page_reach.start)

lemma every_promise_in_one_place_witness:
  "let pg = call_op no_stamp LIST_AGENTS opened_page in
    distinct (map fst (settled pg) @ map (fst \<circ> snd) (pending pg) @ map fst (waiting pg))"
proof -
  have "page_reach no_stamp (call_op no_stamp LIST_AGENTS opened_page)"
    using page_reach.step [OF opened_page_reach, of "Call LIST_AGENTS"] by simp
  moreover have "length (posted (call_op no_stamp LIST_AGENTS opened_page)) < MAX_SAFE_INTEGER"
    by (simp add: call_op_def new_promise_def opened_page_fields send_fields MAX_SAFE_INTEGER_def)
  ultimately show ?thesis using every_promise_in_one_place by (simp add: Let_def)
qed

lemma teardown_settles_everything_witness:
  "distinct (map fst (settled (terminate no_stamp opened_page))) \<and> worker (terminate no_stamp opened_page) = None"
proof -
  have l: "length (posted opened_page) < MAX_SAFE_INTEGER" by (simp add: opened_page_fields MAX_SAFE_INTEGER_def)
  show ?thesis using teardown_settles_everything [OF opened_page_reach l disjI1 [OF refl]] by blast
qed

lemma reset_separates_identities_witness:
  "let pg' = run_page no_stamp [Open_store (js ''l''), Call LIST_AGENTS] (resetStoreProxy no_stamp opened_page)
    in init_first (drop (length (posted opened_page)) (posted pg'))"
  using reset_separates_identities [OF opened_page_reach, of "[Open_store (js ''l''), Call LIST_AGENTS]"]
  by (simp add: Let_def)

lemma calls_get_their_own_answers_witness:
  "let bs = [LIST_AGENTS, LIST_SKILLS];
       rs = fst (run_queue sample_env (map snd (drop (length (posted opened_page)) (posted (fold (call_op no_stamp) bs opened_page)))) sample_state);
       pg' = fold (on_message no_stamp) (rev rs) (fold (call_op no_stamp) bs opened_page)
   in length (settled pg') = 3"
proof -
  have "length (posted opened_page) + length [LIST_AGENTS, LIST_SKILLS] < MAX_SAFE_INTEGER"
    by (simp add: opened_page_fields MAX_SAFE_INTEGER_def)
  from calls_get_their_own_answers [OF opened_page_reach opened_page_fields(1) this, of "rev _" sample_env sample_state,
      OF mset_rev]
  show ?thesis by (simp add: Let_def opened_page_fields)
qed

lemma calls_settle_by_type_witness:
  "let bs = [LIST_AGENTS, LIST_SKILLS];
       rs = fst (run_queue sample_env (map snd (drop (length (posted opened_page)) (posted (fold (call_op no_stamp) bs opened_page)))) sample_state)
   in \<exists>out. (2, out) \<in> set (settled (fold (on_message no_stamp) (rev rs) (fold (call_op no_stamp) bs opened_page)))
     \<and> outcome_fits LIST_SKILLS out"
proof -
  have "length (posted opened_page) + length [LIST_AGENTS, LIST_SKILLS] < MAX_SAFE_INTEGER"
    by (simp add: opened_page_fields MAX_SAFE_INTEGER_def)
  from calls_settle_by_type [OF opened_page_reach opened_page_fields(1) this, of "rev _" sample_env sample_state 1,
      OF mset_rev]
  show ?thesis by (simp add: Let_def opened_page_fields numeral_2_eq_2)
qed

end
