(* ===== verification/EmbedWorker.thy ===== *)
theory EmbedWorker
  imports StoreProxy
begin

text \<open>
  Embeddings: the worker \<open>lib/store/worker/embed.worker.ts\<close> (model load, the slicing of the output
  tensor, dispatch and queue) and the client half in \<open>lib/rag/retrieval.ts\<close> (the pending map). The library
  \<open>@huggingface/transformers\<close> is a parameter: what its import gives, and what \<open>pipeline\<close> returns for a
  configuration and a device. Vectors are lists of 32-bit floats. Texts are strings, as their type says.
\<close>

subsection \<open>The model\<close>

datatype backend = WebGpu | Wasm

record wasm_backend =
  proxy_flag :: bool
  wasmPaths :: "jsstring option"

record transformers_env =
  allowRemoteModels :: bool
  allowLocalModels :: bool
  localModelPath :: jsstring
  onnx_wasm :: "wasm_backend option"

record tensor =
  t_data :: "f32 list"
  t_dims :: "nat list"

type_synonym extractor = "jsstring list \<Rightarrow> jsstring + tensor"

record embed_platform =
  import_transformers :: "jsstring + transformers_env"
  has_webgpu :: bool
  pipeline :: "transformers_env \<Rightarrow> jsstring \<Rightarrow> backend \<Rightarrow> jsstring \<Rightarrow> jsstring + extractor"

definition MODEL_ID :: jsstring where "MODEL_ID = js ''Xenova/all-MiniLM-L6-v2''"
definition EMBED_DIM :: nat where "EMBED_DIM = 384"
definition LOCAL_MODEL_PATH :: jsstring where "LOCAL_MODEL_PATH = js ''/models/''"

definition lock_env :: "transformers_env \<Rightarrow> transformers_env" where
  "lock_env e = e\<lparr>allowRemoteModels := False, allowLocalModels := True, localModelPath := LOCAL_MODEL_PATH,
     onnx_wasm := map_option (\<lambda>w. w\<lparr>proxy_flag := False, wasmPaths := Some (js ''/ort/'')\<rparr>) (onnx_wasm e)\<rparr>"

text \<open>The cached promise: None until a load has succeeded, and again after one has failed.\<close>

type_synonym embed_state = "(extractor \<times> backend) option"
type_synonym 'a embed_op = "(embed_state, jsstring, 'a) exc"

definition load_pipeline :: "embed_platform \<Rightarrow> jsstring + (extractor \<times> backend)" where
  "load_pipeline plat =
     (case import_transformers plat of
        Inl e \<Rightarrow> Inl e
      | Inr env0 \<Rightarrow>
          let env = lock_env env0; load = (\<lambda>d. pipeline plat env MODEL_ID d (js ''q8''));
              wasm = (case load Wasm of Inl e \<Rightarrow> Inl e | Inr x \<Rightarrow> Inr (x, Wasm))
          in if has_webgpu plat
             then (case load WebGpu of Inr x \<Rightarrow> Inr (x, WebGpu) | Inl e \<Rightarrow> wasm)
             else wasm)"

definition getPipeline :: "embed_platform \<Rightarrow> (extractor \<times> backend) embed_op" where
  "getPipeline plat = (\<lambda>s.
     case s of
       Some p \<Rightarrow> (Inr p, s)
     | None \<Rightarrow> (case load_pipeline plat of Inr p \<Rightarrow> (Inr p, Some p) | Inl e \<Rightarrow> (Inl e, None)))"

definition last_dim :: "tensor \<Rightarrow> nat" where
  "last_dim t = (if t_dims t = [] then EMBED_DIM else last (t_dims t))"

definition slices :: "nat \<Rightarrow> nat \<Rightarrow> 'a list \<Rightarrow> 'a list list" where
  "slices n dm flat = map (\<lambda>i. slice (i * dm) (i * dm + dm) flat) [0 ..< n]"

definition embed :: "embed_platform \<Rightarrow> jsstring list \<Rightarrow> (f32 list list \<times> backend) embed_op" where
  "embed plat texts =
     (if texts = [] then andThen (getPipeline plat) (\<lambda>(x, b). ret ([], b))
      else andThen (getPipeline plat) (\<lambda>(extract, b).
        case extract texts of
          Inl e \<Rightarrow> throw e
        | Inr out \<Rightarrow> ret (slices (length texts) (last_dim out) (t_data out), b)))"

subsection \<open>Dispatch\<close>

datatype embed_task = EMBED "jsstring list" | WARMUP

record embed_request =
  eq_requestId :: jsstring
  eq_body :: embed_task

datatype embed_reply = EMBEDDED "f32 list list" backend | WARMED backend | EMBED_ERROR jsstring

record embed_response =
  es_requestId :: jsstring
  es_body :: embed_reply

fun embed_body :: "embed_platform \<Rightarrow> embed_task \<Rightarrow> embed_reply embed_op" where
  "embed_body plat WARMUP = andThen (getPipeline plat) (\<lambda>(x, b). ret (WARMED b))"
| "embed_body plat (EMBED texts) = andThen (embed plat texts) (\<lambda>(vs, b). ret (EMBEDDED vs b))"

definition embed_handle :: "embed_platform \<Rightarrow> embed_request \<Rightarrow> embed_state \<Rightarrow> embed_response \<times> embed_state" where
  "embed_handle plat req s =
     (case embed_body plat (eq_body req) s of
        (Inr b, s') \<Rightarrow> (\<lparr>es_requestId = eq_requestId req, es_body = b\<rparr>, s')
      | (Inl e, s') \<Rightarrow> (\<lparr>es_requestId = eq_requestId req, es_body = EMBED_ERROR e\<rparr>, s'))"

fun embed_queue :: "embed_platform \<Rightarrow> embed_request list \<Rightarrow> embed_state \<Rightarrow> embed_response list \<times> embed_state" where
  "embed_queue plat [] s = ([], s)"
| "embed_queue plat (q # qs) s =
     (let (r, s') = embed_handle plat q s; (rs, s'') = embed_queue plat qs s' in (r # rs, s''))"

subsection \<open>The client half\<close>

datatype embed_outcome = Vectors "f32 list list" | EmbedFailed jsstring

record embed_client =
  ec_worker :: bool
  ec_pending :: "(jsstring \<times> nat) list"
  lastBackend :: "backend option"
  embedCounter :: nat
  ec_posted :: "embed_request list"
  ec_settled :: "(nat \<times> embed_outcome) list"
  ec_next :: nat

definition nextEmbedId :: "(nat \<Rightarrow> jsstring) \<Rightarrow> nat \<Rightarrow> jsstring" where
  "nextEmbedId stamp n = js ''e'' @ decimal n @ js ''_'' @ stamp n"

definition postEmbed :: "(nat \<Rightarrow> jsstring) \<Rightarrow> embed_task \<Rightarrow> embed_client \<Rightarrow> embed_client" where
  "postEmbed stamp b c =
     (let n = (embedCounter c + 1) mod MAX_SAFE_INTEGER; rid = nextEmbedId stamp n
      in c\<lparr>embedCounter := n, ec_worker := True, ec_pending := map_set rid (ec_next c) (ec_pending c),
           ec_posted := ec_posted c @ [\<lparr>eq_requestId = rid, eq_body = b\<rparr>], ec_next := Suc (ec_next c)\<rparr>)"

definition embed_settle :: "nat \<Rightarrow> embed_outcome \<Rightarrow> embed_client \<Rightarrow> embed_client" where
  "embed_settle p v c = c\<lparr>ec_settled := ec_settled c @ [(p, v)]\<rparr>"

definition embedTexts :: "(nat \<Rightarrow> jsstring) \<Rightarrow> jsstring list \<Rightarrow> embed_client \<Rightarrow> embed_client" where
  "embedTexts stamp texts c =
     (if texts = [] then embed_settle (ec_next c) (Vectors []) (c\<lparr>ec_next := Suc (ec_next c)\<rparr>)
      else postEmbed stamp (EMBED texts) c)"

definition warmupEmbedder :: "(nat \<Rightarrow> jsstring) \<Rightarrow> embed_client \<Rightarrow> embed_client" where
  "warmupEmbedder stamp = postEmbed stamp WARMUP"

definition embedBackend :: "embed_client \<Rightarrow> backend option" where
  "embedBackend c = lastBackend c"

definition embed_onmessage :: "embed_response \<Rightarrow> embed_client \<Rightarrow> embed_client" where
  "embed_onmessage res c =
     (let p = map_of (ec_pending c) (es_requestId res);
          take_it = (\<lambda>v c. case p of None \<Rightarrow> c
             | Some q \<Rightarrow> embed_settle q v (c\<lparr>ec_pending := map_delete (es_requestId res) (ec_pending c)\<rparr>))
      in case es_body res of
           WARMED b \<Rightarrow> take_it (Vectors []) (c\<lparr>lastBackend := Some b\<rparr>)
         | EMBED_ERROR e \<Rightarrow> take_it (EmbedFailed e) c
         | EMBEDDED vs b \<Rightarrow> if p = None then c else take_it (Vectors vs) (c\<lparr>lastBackend := Some b\<rparr>))"

definition embed_onerror :: "jsstring \<Rightarrow> embed_client \<Rightarrow> embed_client" where
  "embed_onerror m c =
     c\<lparr>ec_settled := ec_settled c @ map (\<lambda>e. (snd e, EmbedFailed (js ''embed worker error: '' @ m))) (ec_pending c),
       ec_pending := []\<rparr>"

subsection \<open>Laws\<close>

lemma embed_queue_Cons:
  "embed_queue plat (q # qs) s =
    (fst (embed_handle plat q s) # fst (embed_queue plat qs (snd (embed_handle plat q s))),
     snd (embed_queue plat qs (snd (embed_handle plat q s))))"
  by (simp add: Let_def split: prod.splits)

text \<open>The cache holds what a load of the locked configuration gave.\<close>

definition cache_ok :: "embed_platform \<Rightarrow> embed_state \<Rightarrow> bool" where
  "cache_ok plat s \<longleftrightarrow> (\<forall>p. s = Some p \<longrightarrow> load_pipeline plat = Inr p)"

lemma keeps_getPipeline: "keeps (cache_ok plat) (getPipeline plat)"
  by (auto simp: keeps_def cache_ok_def getPipeline_def split: option.splits sum.splits)

lemma keeps_embed_body: "keeps (cache_ok plat) (embed_body plat b)"
proof (cases b)
  case (EMBED ts)
  have "keeps (cache_ok plat) (case x ts of Inl e \<Rightarrow> throw e | Inr out \<Rightarrow> ret (g out))" for g and x :: "extractor"
    by (auto split: sum.split)
  then have "keeps (cache_ok plat) (embed plat ts)"
    unfolding embed_def by (auto intro!: keeps_andThen keeps_getPipeline)
  then show ?thesis by (auto simp: EMBED intro!: keeps_andThen)
qed (auto intro!: keeps_andThen keeps_getPipeline)

lemma embed_handle_id: "es_requestId (fst (embed_handle plat q s)) = eq_requestId q"
  by (simp add: embed_handle_def split: prod.split sum.split)

lemma embed_handle_ok: "cache_ok plat s \<Longrightarrow> cache_ok plat (snd (embed_handle plat q s))"
  using keepsD [OF keeps_embed_body, of plat s "eq_body q"]
  by (auto simp: embed_handle_def split: prod.splits sum.splits)

interpretation embedder: request_queue "embed_handle plat" "embed_queue plat" eq_requestId es_requestId "cache_ok plat" for plat
  by unfold_locales (simp_all add: embed_handle_id embed_queue_Cons embed_handle_ok del: embed_queue.simps(2))

lemma cache_ok_None [simp]: "cache_ok plat None"
  by (simp add: cache_ok_def)

text \<open>With a load that succeeds, a request is answered as if the model had just been loaded.\<close>

lemma getPipeline_loaded: "cache_ok plat s \<Longrightarrow> load_pipeline plat = Inr p \<Longrightarrow> getPipeline plat s = (Inr p, Some p)"
  by (auto simp: getPipeline_def cache_ok_def split: option.splits)

lemma concat_slices: "length flat = n * d \<Longrightarrow> concat (slices n d flat) = flat"
proof (induction n arbitrary: flat)
  case (Suc n)
  have c: "slices (Suc n) d flat = take d flat # slices n d (drop d flat)"
    by (simp add: slices_def upt_conv_Cons map_Suc_upt [symmetric] slice_def del: upt_Suc) (simp add: o_def ac_simps)
  have "length (drop d flat) = n * d" using Suc.prems by simp
  then show ?case using Suc.IH by (simp add: c)
qed (simp add: slices_def)

lemma length_slices: "length flat = n * d \<Longrightarrow> v \<in> set (slices n d flat) \<Longrightarrow> length v = d"
proof -
  assume l: "length flat = n * d" and "v \<in> set (slices n d flat)"
  then obtain i where i: "i < n" "v = slice (i * d) (i * d + d) flat" by (auto simp: slices_def)
  from i(1) have "Suc i * d \<le> n * d" by (intro mult_le_mono1) simp
  then show ?thesis using l i(2) by (simp add: slice_def)
qed

subsection \<open>Properties\<close>

text \<open>No model byte can come from elsewhere: what the embedding worker answers to any requests depends on
  the library only through loads with remote models forbidden, the local path \<open>/models/\<close> and the
  runtime path \<open>/ort/\<close>; two platforms that agree on those loads give the same answers, whatever the
  library would do in any other configuration.\<close>

theorem model_load_is_locked:
  assumes "import_transformers plat' = import_transformers plat" and "has_webgpu plat' = has_webgpu plat"
    and "\<forall>env m d q. \<not> allowRemoteModels env \<and> localModelPath env = js ''/models/''
        \<and> (\<forall>w. onnx_wasm env = Some w \<longrightarrow> wasmPaths w = Some (js ''/ort/'')) \<longrightarrow> pipeline plat' env m d q = pipeline plat env m d q"
  shows "embed_queue plat' qs s = embed_queue plat qs s"
proof -
  have lock: "pipeline plat' (lock_env e) m d q = pipeline plat (lock_env e) m d q" for e m d q
  proof -
    have "\<not> allowRemoteModels (lock_env e) \<and> localModelPath (lock_env e) = js ''/models/''
        \<and> (\<forall>w. onnx_wasm (lock_env e) = Some w \<longrightarrow> wasmPaths w = Some (js ''/ort/''))"
      by (auto simp: lock_env_def LOCAL_MODEL_PATH_def)
    then show ?thesis using assms(3) by blast
  qed
  have l: "load_pipeline plat' = load_pipeline plat"
    unfolding load_pipeline_def Let_def assms(1,2) lock by simp
  then have g: "getPipeline plat' = getPipeline plat" by (simp only: getPipeline_def l)
  have "embed_body plat' b = embed_body plat b" for b
    by (cases b) (simp_all add: embed_def g)
  then have h: "embed_handle plat' q s = embed_handle plat q s" for q s by (simp add: embed_handle_def)
  show ?thesis by (induction qs arbitrary: s) (simp_all add: h del: embed_queue.simps(2) add: embed_queue_Cons)
qed

definition constant_platform :: "jsstring + extractor \<Rightarrow> embed_platform" where
  "constant_platform r = \<lparr>import_transformers = Inr \<lparr>allowRemoteModels = True, allowLocalModels = False,
       localModelPath = [], onnx_wasm = Some \<lparr>proxy_flag = True, wasmPaths = None\<rparr>\<rparr>,
     has_webgpu = True,
     pipeline = (\<lambda>env m d q. if allowRemoteModels env then r else Inr (\<lambda>ts. Inr \<lparr>t_data = replicate (2 * length ts) 1, t_dims = [length ts, 2]\<rparr>))\<rparr>"

lemma model_load_is_locked_witness:
  "embed_queue (constant_platform (Inl (js ''remote''))) [\<lparr>eq_requestId = js ''e1'', eq_body = EMBED [js ''a'']\<rparr>] None
   = embed_queue (constant_platform (Inr (\<lambda>ts. Inl []))) [\<lparr>eq_requestId = js ''e1'', eq_body = EMBED [js ''a'']\<rparr>] None"
  by (rule model_load_is_locked) (simp_all add: constant_platform_def)

text \<open>One vector per text, whatever came before: after any requests, if the model loads and answers a batch
  with a flat buffer of batch times dim floats, the worker answers with as many vectors as texts, each of
  the tensor's last dimension, and the vectors put together are the buffer.\<close>

theorem embeds_one_vector_per_text:
  assumes "load_pipeline plat = Inr (extract, b)" and "texts \<noteq> []" and "extract texts = Inr out"
    and "t_dims out = [length texts, dm]" and "length (t_data out) = length texts * dm"
  shows "\<exists>vs. es_body (fst (embed_handle plat \<lparr>eq_requestId = rid, eq_body = EMBED texts\<rparr> (snd (embed_queue plat qs None))))
      = EMBEDDED vs b
    \<and> length vs = length texts \<and> (\<forall>v\<in>set vs. length v = dm) \<and> concat vs = t_data out"
proof -
  let ?s = "snd (embed_queue plat qs None)" and ?vs = "slices (length texts) dm (t_data out)"
  have "cache_ok plat ?s" by (rule embedder.serve_inv) simp
  note g = getPipeline_loaded [OF this assms(1)]
  have "last_dim out = dm" using assms(4) by (simp add: last_dim_def)
  then have "es_body (fst (embed_handle plat \<lparr>eq_requestId = rid, eq_body = EMBED texts\<rparr> ?s)) = EMBEDDED ?vs b"
    using assms(2,3) by (simp add: embed_handle_def embed_def monad_simps g)
  moreover have "length ?vs = length texts" by (simp add: slices_def)
  ultimately show ?thesis using concat_slices [OF assms(5)] length_slices [OF assms(5)] by blast
qed

lemma constant_loads:
  "load_pipeline (constant_platform r) = Inr (\<lambda>ts. Inr \<lparr>t_data = replicate (2 * length ts) 1, t_dims = [length ts, 2]\<rparr>, WebGpu)"
  by (simp add: load_pipeline_def constant_platform_def lock_env_def)

lemma embeds_one_vector_per_text_witness:
  "\<exists>vs. es_body (fst (embed_handle (constant_platform (Inl [])) \<lparr>eq_requestId = js ''e2'', eq_body = EMBED [js ''a'', js ''b'']\<rparr>
      (snd (embed_queue (constant_platform (Inl [])) [\<lparr>eq_requestId = js ''e1'', eq_body = WARMUP\<rparr>] None)))) = EMBEDDED vs WebGpu
    \<and> length vs = 2"
proof -
  have "\<exists>vs. es_body (fst (embed_handle (constant_platform (Inl [])) \<lparr>eq_requestId = js ''e2'', eq_body = EMBED [js ''a'', js ''b'']\<rparr>
      (snd (embed_queue (constant_platform (Inl [])) [\<lparr>eq_requestId = js ''e1'', eq_body = WARMUP\<rparr>] None)))) = EMBEDDED vs WebGpu
    \<and> length vs = length [js ''a'', js ''b''] \<and> (\<forall>v\<in>set vs. length v = 2)
    \<and> concat vs = t_data \<lparr>t_data = replicate (2 * length [js ''a'', js ''b'']) 1, t_dims = [length [js ''a'', js ''b''], 2]\<rparr>"
    by (rule embeds_one_vector_per_text [OF constant_loads]) simp_all
  then show ?thesis by (auto simp del: embed_queue.simps)
qed

end
