(* ===== verification/Chunker.thy ===== *)
theory Chunker
  imports Bytes
begin

text \<open>
  Documents for retrieval, the chunker: \<open>lib/rag/chunker.ts\<close> (segmentation and
  overlapping chunks).
  Token counts are integers. The loop that cuts an over-long buffer is a partial
  function, so that its termination is a theorem.
\<close>

subsection \<open>Splitting\<close>

text \<open>\<open>split(re)\<close>: \<open>m\<close> gives the length of the match at a position, from the character before it and
  the rest of the text (0 for none).\<close>

function split_match :: "(jschar option \<Rightarrow> jsstring \<Rightarrow> nat) \<Rightarrow> jschar option \<Rightarrow> jsstring \<Rightarrow> jsstring \<Rightarrow> jsstring list" where
  "split_match m p acc [] = [rev acc]"
| "split_match m p acc (c # cs) =
     (let n = m p (c # cs) in
      if n = 0 then split_match m (Some c) (c # acc) cs
      else rev acc # split_match m (Some (last (take n (c # cs)))) [] (drop (n - 1) cs))"
  by pat_completeness auto
termination by (relation "measure (\<lambda>(m, p, acc, s). length s)") (auto simp: le_imp_less_Suc)

definition is_newline :: "jschar \<Rightarrow> bool" where "is_newline c = (c = 10)"

text \<open>\<open>replace(/\r\n?/g, '\n')\<close>: the flag says that the character before was a carriage return.\<close>

fun crlf_to_lf :: "bool \<Rightarrow> jsstring \<Rightarrow> jsstring" where
  "crlf_to_lf cr [] = []"
| "crlf_to_lf cr (c # cs) =
     (if c = 13 then 10 # crlf_to_lf True cs
      else if c = 10 \<and> cr then crlf_to_lf False cs
      else c # crlf_to_lf False cs)"

definition blank_lines :: "jschar option \<Rightarrow> jsstring \<Rightarrow> nat" where
  "blank_lines p s = (let n = length (takeWhile is_newline s) in if 2 \<le> n then n else 0)"

text \<open>\<open>/(?<=[.?!])\s+|\n+/\<close>\<close>

definition sentence_end :: "jschar option \<Rightarrow> jsstring \<Rightarrow> nat" where
  "sentence_end p s =
     (let w = length (takeWhile is_ws s) in
      if p \<in> {Some (of_char (CHR ''.'')), Some (of_char (CHR ''?'')), Some (of_char (CHR ''!''))} \<and> 0 < w then w
      else length (takeWhile is_newline s))"

definition splitSentences :: "jsstring \<Rightarrow> jsstring list" where
  "splitSentences text = filter (\<lambda>s. s \<noteq> []) (map trim (split_match sentence_end None [] text))"

text \<open>The pieces of a word cut every \<open>n\<close> characters.\<close>

definition hard_cut :: "nat \<Rightarrow> jsstring \<Rightarrow> jsstring list" where
  "hard_cut n w = map (\<lambda>i. slice (i * n) (i * n + n) w) [0 ..< (length w + n - 1) div n]"

fun pack_words :: "nat \<Rightarrow> jsstring \<Rightarrow> jsstring list \<Rightarrow> jsstring list" where
  "pack_words n line [] = (if line = [] then [] else [line])"
| "pack_words n line (w # ws) =
     (if n < length w then (if line = [] then [] else [line]) @ hard_cut n w @ pack_words n [] ws
      else if line \<noteq> [] \<and> n < length line + length w + 1 then line # pack_words n w ws
      else pack_words n (if line = [] then w else line @ [32] @ w) ws)"

definition splitWords :: "jsstring \<Rightarrow> nat \<Rightarrow> jsstring list" where
  "splitWords text n = pack_words n [] (split_runs is_ws [] text)"

definition segments_of :: "nat \<Rightarrow> jsstring \<Rightarrow> jsstring list" where
  "segments_of n para =
     (let p = trim para in
      if p = [] then []
      else if length p \<le> n then [p]
      else concat (map (\<lambda>s. if length s \<le> n then [s] else splitWords s n) (splitSentences p)))"

definition paragraphs :: "jsstring \<Rightarrow> jsstring list" where
  "paragraphs text = split_match blank_lines None [] text"

definition splitIntoSegments :: "jsstring \<Rightarrow> nat \<Rightarrow> jsstring list" where
  "splitIntoSegments text n = concat (map (segments_of n) (paragraphs text))"

subsection \<open>Chunks\<close>

definition CHARS_PER_TOKEN :: nat where "CHARS_PER_TOKEN = 4"
definition DEFAULT_CHUNK_TOKENS :: int where "DEFAULT_CHUNK_TOKENS = 200"
definition DEFAULT_OVERLAP_TOKENS :: int where "DEFAULT_OVERLAP_TOKENS = 40"
definition MIN_CHUNK_CHARS :: nat where "MIN_CHUNK_CHARS = 16"

record ChunkOptions =
  chunkTokens :: "int option"
  overlapTokens :: "int option"

definition chunk_tail :: "jsstring \<Rightarrow> nat \<Rightarrow> jsstring" where
  "chunk_tail s n =
     (if length s \<le> n then s
      else
        let slc = drop (length s - n) s in
        case index_of [32] slc of
          Some i \<Rightarrow> if 0 < i \<and> 2 * i < n then drop (i + 1) slc else slc
        | None \<Rightarrow> slc)"

definition overlap_of :: "jsstring \<Rightarrow> nat \<Rightarrow> jsstring" where
  "overlap_of s ov = (if 0 < ov then chunk_tail s ov else [])"

text \<open>Pushing a piece that is long enough.\<close>

definition push_chunk :: "jsstring list \<Rightarrow> jsstring \<Rightarrow> jsstring list" where
  "push_chunk chunks piece = (if MIN_CHUNK_CHARS \<le> length piece then chunks @ [piece] else chunks)"

definition flush :: "nat \<Rightarrow> jsstring list \<Rightarrow> jsstring \<Rightarrow> jsstring list \<times> jsstring" where
  "flush ov chunks current = (push_chunk chunks (trim current), overlap_of (trim current) ov)"

partial_function (option) hard_split ::
    "nat \<Rightarrow> nat \<Rightarrow> jsstring list \<Rightarrow> jsstring \<Rightarrow> (jsstring list \<times> jsstring) option" where
  "hard_split mx ov chunks current =
     (if length current \<le> mx then Some (chunks, current)
      else hard_split mx ov (push_chunk chunks (trim (take mx current)))
             (overlap_of (trim (take mx current)) ov @ drop mx current))"

definition add_segment :: "nat \<Rightarrow> nat \<Rightarrow> jsstring list \<times> jsstring \<Rightarrow> jsstring \<Rightarrow> (jsstring list \<times> jsstring) option" where
  "add_segment mx ov st seg =
     (let (chunks, current) = st;
          (chunks', current') =
            (if current \<noteq> [] \<and> mx < length current + length seg + 1 then flush ov chunks current
             else (chunks, current))
      in hard_split mx ov chunks' (if current' = [] then seg else current' @ [10] @ seg))"

fun add_segments :: "nat \<Rightarrow> nat \<Rightarrow> jsstring list \<Rightarrow> jsstring list \<times> jsstring \<Rightarrow> (jsstring list \<times> jsstring) option" where
  "add_segments mx ov [] st = Some st"
| "add_segments mx ov (s # ss) st = Option.bind (add_segment mx ov st s) (add_segments mx ov ss)"

definition chunk_tokens :: "ChunkOptions \<Rightarrow> int" where
  "chunk_tokens opts = max 32 (nullish (chunkTokens opts) DEFAULT_CHUNK_TOKENS)"

definition overlap_tokens :: "ChunkOptions \<Rightarrow> int" where
  "overlap_tokens opts = max 0 (min (nullish (overlapTokens opts) DEFAULT_OVERLAP_TOKENS) (chunk_tokens opts - 1))"

definition max_chars :: "ChunkOptions \<Rightarrow> nat" where
  "max_chars opts = nat (chunk_tokens opts) * CHARS_PER_TOKEN"

definition overlap_chars :: "ChunkOptions \<Rightarrow> nat" where
  "overlap_chars opts = nat (overlap_tokens opts) * CHARS_PER_TOKEN"

definition normalized :: "jsstring \<Rightarrow> jsstring" where
  "normalized text = trim (crlf_to_lf False text)"

definition chunkText :: "jsstring \<Rightarrow> ChunkOptions \<Rightarrow> jsstring list option" where
  "chunkText text opts =
     (if normalized text = [] then Some []
      else
        map_option (\<lambda>(chunks, current). push_chunk chunks (trim current))
          (add_segments (max_chars opts) (overlap_chars opts)
             (splitIntoSegments (normalized text) (max_chars opts)) ([], [])))"

definition chunk_estimateTokens :: "jsstring \<Rightarrow> nat" where
  "chunk_estimateTokens text = (length text + CHARS_PER_TOKEN - 1) div CHARS_PER_TOKEN"

subsection \<open>Bounds and termination\<close>

lemma max_overlap: "overlap_chars opts < max_chars opts" "0 < max_chars opts"
  by (auto simp: overlap_chars_def max_chars_def overlap_tokens_def chunk_tokens_def CHARS_PER_TOKEN_def nat_less_iff)

lemma length_chunk_tail: "length (chunk_tail s n) \<le> n"
  by (auto simp: chunk_tail_def Let_def split: option.splits)

lemma length_overlap: "length (overlap_of s n) \<le> n"
  by (simp add: overlap_of_def length_chunk_tail)

definition sized :: "nat \<Rightarrow> jsstring list \<Rightarrow> bool" where
  "sized mx chunks \<longleftrightarrow> (\<forall>c\<in>set chunks. MIN_CHUNK_CHARS \<le> length c \<and> length c \<le> mx)"

lemma sized_push: "sized mx chunks \<Longrightarrow> length p \<le> mx \<Longrightarrow> sized mx (push_chunk chunks p)"
  by (auto simp: sized_def push_chunk_def)

lemma length_trim_take: "length (trim (take n s)) \<le> n"
  by (metis length_trim_le le_trans length_take min.cobounded2)

text \<open>The cutting loop returns when the overlap is smaller than the budget: every round removes at
  least their difference.\<close>

lemma hard_split_returns:
  assumes "ov < mx" "sized mx chunks"
  shows "\<exists>chunks' rest. hard_split mx ov chunks current = Some (chunks @ chunks', rest)
    \<and> length rest \<le> mx \<and> sized mx (chunks @ chunks')"
  using assms(2)
proof (induction "length current" arbitrary: chunks current rule: less_induct)
  case less
  show ?case
  proof (cases "length current \<le> mx")
    case True
    then show ?thesis using less.prems by (intro exI [of _ "[]"] exI [of _ current]) (simp add: hard_split.simps)
  next
    case False
    let ?h = "trim (take mx current)"
    let ?c = "overlap_of ?h ov @ drop mx current"
    have "length ?c < length current"
      using length_overlap [of ?h ov] False assms(1) by simp
    from less.hyps [OF this sized_push [OF less.prems length_trim_take]]
    obtain chunks' rest where r: "hard_split mx ov (push_chunk chunks ?h) ?c = Some (push_chunk chunks ?h @ chunks', rest)"
      "length rest \<le> mx" "sized mx (push_chunk chunks ?h @ chunks')" by blast
    have e: "hard_split mx ov chunks current = Some (push_chunk chunks ?h @ chunks', rest)"
      using False r(1) by (subst hard_split.simps) simp
    show ?thesis
    proof (cases "MIN_CHUNK_CHARS \<le> length ?h")
      case True
      then show ?thesis using e r by (intro exI [of _ "?h # chunks'"]) (auto simp: push_chunk_def)
    next
      case False
      then show ?thesis using e r by (auto simp: push_chunk_def)
    qed
  qed
qed

lemma add_segment_returns:
  assumes "ov < mx" "sized mx chunks" "length current \<le> mx"
  shows "\<exists>chunks' rest. add_segment mx ov (chunks, current) seg = Some (chunks @ chunks', rest)
    \<and> length rest \<le> mx \<and> sized mx (chunks @ chunks')"
proof (cases "current \<noteq> [] \<and> mx < length current + length seg + 1")
  case False
  then have "add_segment mx ov (chunks, current) seg
      = hard_split mx ov chunks (if current = [] then seg else current @ [10] @ seg)"
    by (simp only: add_segment_def Let_def prod.case if_False)
  then show ?thesis using hard_split_returns [OF assms(1,2)] by (simp only: )
next
  case True
  let ?p = "push_chunk chunks (trim current)"
  have "length (trim current) \<le> mx" using length_trim_le le_trans assms(3) by blast
  then have s: "sized mx ?p" using sized_push assms(2) by blast
  have "\<exists>cs. ?p = chunks @ cs" by (simp add: push_chunk_def)
  then obtain cs where cs: "?p = chunks @ cs" by blast
  define cur where "cur = (if overlap_of (trim current) ov = [] then seg else overlap_of (trim current) ov @ [10] @ seg)"
  obtain c2 rest where "hard_split mx ov ?p cur = Some (?p @ c2, rest)" "length rest \<le> mx" "sized mx (?p @ c2)"
    using hard_split_returns [OF assms(1) s] by blast
  then show ?thesis using True
    by (intro exI [of _ "cs @ c2"] exI [of _ rest]) (simp add: add_segment_def flush_def cur_def [symmetric] cs)
qed

lemma add_segments_returns:
  assumes "ov < mx" "sized mx chunks" "length current \<le> mx"
  shows "\<exists>chunks' rest. add_segments mx ov ss (chunks, current) = Some (chunks @ chunks', rest)
    \<and> length rest \<le> mx \<and> sized mx (chunks @ chunks')"
  using assms(2,3)
proof (induction ss arbitrary: chunks current)
  case Nil
  then show ?case by (intro exI [of _ "[]"] exI [of _ current]) simp
next
  case (Cons s ss)
  obtain c1 r1 where 1: "add_segment mx ov (chunks, current) s = Some (chunks @ c1, r1)" "length r1 \<le> mx"
    "sized mx (chunks @ c1)" using add_segment_returns [OF assms(1) Cons.prems] by blast
  obtain c2 r2 where "add_segments mx ov ss (chunks @ c1, r1) = Some ((chunks @ c1) @ c2, r2)" "length r2 \<le> mx"
    "sized mx ((chunks @ c1) @ c2)" using Cons.IH [OF 1(3,2)] by blast
  then show ?case using 1(1) by (intro exI [of _ "c1 @ c2"]) simp
qed

text \<open>A text with no white space at its ends survives the trimming of what surrounds it.\<close>

definition tight :: "jsstring \<Rightarrow> bool" where
  "tight p \<longleftrightarrow> p \<noteq> [] \<and> \<not> is_ws (hd p) \<and> \<not> is_ws (last p)"

lemma sublist_dropWhile:
  assumes "sublist p s" "p \<noteq> []" "\<not> f (hd p)"
  shows "sublist p (dropWhile f s)"
proof -
  obtain a b where s: "s = a @ p @ b" using assms(1) by (auto simp: sublist_def)
  show ?thesis
  proof (cases "\<forall>x\<in>set a. f x")
    case True
    then have "dropWhile f s = p @ b"
      using assms(2,3) by (cases p) (auto simp: s dropWhile_append2)
    then show ?thesis by simp
  next
    case False
    then have "dropWhile f s = dropWhile f a @ p @ b" by (auto simp: s dropWhile_append1)
    then show ?thesis by (simp add: sublist_appendI)
  qed
qed

lemma sublist_trim_tight:
  assumes "sublist p s" "tight p"
  shows "sublist p (trim s)"
proof -
  have "sublist p (dropWhile is_ws s)" using assms by (auto simp: tight_def intro: sublist_dropWhile)
  then have "sublist (rev p) (rev (dropWhile is_ws s))" by (simp add: sublist_rev)
  then have "sublist (rev p) (dropWhile is_ws (rev (dropWhile is_ws s)))"
    using assms(2) by (auto simp: tight_def hd_rev intro: sublist_dropWhile)
  then have "sublist (rev (rev p)) (rev (dropWhile is_ws (rev (dropWhile is_ws s))))"
    by (subst sublist_rev)
  then show ?thesis by (simp add: trim_def trim_end_def)
qed

lemma tight_trim: "trim s \<noteq> [] \<Longrightarrow> tight (trim s)"
proof -
  assume n: "trim s \<noteq> []"
  let ?u = "dropWhile is_ws s"
  have u: "?u \<noteq> []" using n unfolding trim_def trim_end_def by (metis dropWhile.simps(1) rev.simps(1))
  have l: "\<not> is_ws (last (trim s))"
    using n hd_dropWhile [of is_ws "rev ?u"]
    by (simp add: trim_def trim_end_def last_rev del: dropWhile_eq_Nil_conv set_rev)
  have "prefix (trim s) ?u"
    unfolding trim_def trim_end_def by (metis suffix_dropWhile suffix_to_prefix rev_rev_ident)
  then have "hd (trim s) = hd ?u" using n by (auto simp: prefix_def)
  then show ?thesis using n u l hd_dropWhile [OF u] by (simp add: tight_def)
qed

text \<open>What has been added is in a chunk or still in the buffer.\<close>

definition holds :: "jsstring list \<times> jsstring \<Rightarrow> jsstring \<Rightarrow> bool" where
  "holds st p \<longleftrightarrow> (\<exists>c\<in>set (fst st). sublist p c) \<or> sublist p (snd st)"

definition small :: "nat \<Rightarrow> nat \<Rightarrow> jsstring \<Rightarrow> bool" where
  "small mx ov p \<longleftrightarrow> tight p \<and> MIN_CHUNK_CHARS \<le> length p \<and> length p + ov + 1 \<le> mx"

lemma sublist_length: "sublist p s \<Longrightarrow> length p \<le> length s"
  by (auto simp: sublist_def)

lemma pushed_in: "sublist p c \<Longrightarrow> MIN_CHUNK_CHARS \<le> length p \<Longrightarrow> \<exists>d\<in>set (push_chunk chunks c). sublist p d"
  using sublist_length [of p c] by (auto simp: push_chunk_def)

lemma pushed_mono: "c \<in> set chunks \<Longrightarrow> c \<in> set (push_chunk chunks d)"
  by (simp add: push_chunk_def)

lemma hard_split_extends:
  assumes "ov < mx" "sized mx chunks" "hard_split mx ov chunks cur = Some (chunks', cur')"
  shows "set chunks \<subseteq> set chunks'"
  using hard_split_returns [OF assms(1,2), of cur] assms(3) by auto

lemma hard_split_short: "length cur \<le> mx \<Longrightarrow> hard_split mx ov chunks cur = Some (chunks, cur)"
  by (simp add: hard_split.simps)

lemma add_segment_flushes:
  assumes "current \<noteq> []" "mx < length current + length seg + 1"
  shows "add_segment mx ov (chunks, current) seg
    = hard_split mx ov (push_chunk chunks (trim current))
        (if overlap_of (trim current) ov = [] then seg else overlap_of (trim current) ov @ [10] @ seg)"
  using assms by (simp add: add_segment_def flush_def)

lemma add_segment_appends:
  assumes "current \<noteq> []" "\<not> mx < length current + length seg + 1"
  shows "add_segment mx ov (chunks, current) seg = Some (chunks, current @ [10] @ seg)"
  using assms by (simp add: add_segment_def hard_split_short)

lemma add_segment_fresh: "add_segment mx ov (chunks, []) seg = hard_split mx ov chunks seg"
  by (simp add: add_segment_def)

lemma add_segment_keeps:
  assumes "ov < mx" "sized mx chunks" "length current \<le> mx"
    "add_segment mx ov (chunks, current) seg = Some st'" "holds (chunks, current) p" "small mx ov p"
  shows "holds st' p"
proof (cases "current = []")
  case True
  then have "\<exists>c\<in>set chunks. sublist p c"
    using assms(5,6) by (auto simp: holds_def small_def tight_def)
  then show ?thesis using assms(4) hard_split_extends [OF assms(1,2)]
    by (cases st') (auto simp: True add_segment_fresh holds_def dest!: subsetD)
next
  case False
  show ?thesis
  proof (cases "mx < length current + length seg + 1")
    case full: True
    let ?p = "push_chunk chunks (trim current)"
    have "\<exists>c\<in>set ?p. sublist p c"
    proof (cases "\<exists>c\<in>set chunks. sublist p c")
      case True
      then show ?thesis using pushed_mono by blast
    next
      case False
      then have "sublist p (trim current)"
        using assms(5,6) sublist_trim_tight by (auto simp: holds_def small_def)
      then show ?thesis using pushed_in assms(6) by (auto simp: small_def)
    qed
    moreover have "sized mx ?p" using sized_push [OF assms(2)] length_trim_le le_trans assms(3) by blast
    moreover have "set ?p \<subseteq> set (fst st')"
      using assms(4) hard_split_extends [OF assms(1) calculation(2)]
      unfolding add_segment_flushes [OF False full] by (cases st') fastforce
    ultimately show ?thesis by (auto simp: holds_def)
  next
    case room: False
    have "sublist p current \<Longrightarrow> sublist p (current @ [10] @ seg)"
      by (auto simp: sublist_def) (metis append.assoc)
    then show ?thesis using assms(4,5) by (auto simp: add_segment_appends [OF False room] holds_def)
  qed
qed

lemma add_segment_takes:
  assumes "add_segment mx ov (chunks, current) seg = Some st'" "small mx ov seg"
  shows "holds st' seg"
proof (cases "current = []")
  case True
  then show ?thesis using assms by (auto simp: add_segment_fresh hard_split_short small_def holds_def)
next
  case False
  show ?thesis
  proof (cases "mx < length current + length seg + 1")
    case full: True
    have l: "length (overlap_of (trim current) ov @ [10] @ seg) \<le> mx" "length seg \<le> mx"
      using assms(2) length_overlap [of "trim current" ov] by (auto simp: small_def)
    have "sublist seg (a @ [10] @ seg)" for a :: jsstring
      by (metis append.assoc append_Nil2 sublist_appendI)
    then show ?thesis using assms(1) l
      by (auto simp: add_segment_flushes [OF False full] hard_split_short holds_def split: if_splits)
  next
    case room: False
    have "sublist seg (current @ [10] @ seg)" by (metis append.assoc append_Nil2 sublist_appendI)
    then show ?thesis using assms(1) by (auto simp: add_segment_appends [OF False room] holds_def)
  qed
qed

lemma add_segments_keep:
  assumes "ov < mx" "sized mx chunks" "length current \<le> mx"
    "add_segments mx ov ss (chunks, current) = Some st'" "small mx ov p"
    "holds (chunks, current) p \<or> p \<in> set ss"
  shows "holds st' p"
  using assms(2,3,4,6)
proof (induction ss arbitrary: chunks current)
  case Nil
  then show ?case by simp
next
  case (Cons s ss)
  obtain c1 r1 where 1: "add_segment mx ov (chunks, current) s = Some (c1, r1)" "length r1 \<le> mx" "sized mx c1"
    using add_segment_returns [OF assms(1) Cons.prems(1,2)] by blast
  have "add_segments mx ov ss (c1, r1) = Some st'" using Cons.prems(3) 1(1) by simp
  moreover have "holds (c1, r1) p \<or> p \<in> set ss"
    using Cons.prems(4) add_segment_keeps [OF assms(1) Cons.prems(1,2) 1(1) _ assms(5)]
      add_segment_takes [OF 1(1)] assms(5) by auto
  ultimately show ?case using Cons.IH [OF 1(3,2)] by blast
qed

text \<open>C21. The chunker returns on every text and every option, however the overlap relates to the
  chunk size: the loop that cuts an over-long buffer always ends, and every chunk it gives has at
  least sixteen characters and at most the budget.\<close>

theorem chunkText_returns_within_budget:
  "\<exists>cs. chunkText text opts = Some cs
     \<and> (\<forall>c\<in>set cs. 16 \<le> length c \<and> length c \<le> max_chars opts)"
proof (cases "normalized text = []")
  case True
  then show ?thesis by (simp add: chunkText_def)
next
  case False
  have "sized (max_chars opts) []" by (simp add: sized_def)
  from add_segments_returns [OF max_overlap(1) this, of "[]"]
  obtain cs rest where r: "add_segments (max_chars opts) (overlap_chars opts)
      (splitIntoSegments (normalized text) (max_chars opts)) ([], []) = Some (cs, rest)"
    "length rest \<le> max_chars opts" "sized (max_chars opts) cs" by fastforce
  have "sized (max_chars opts) (push_chunk cs (trim rest))"
    by (rule sized_push [OF r(3)]) (rule le_trans [OF length_trim_le r(2)])
  then show ?thesis using False r(1) by (auto simp: chunkText_def sized_def MIN_CHUNK_CHARS_def)
qed

text \<open>No paragraph of ordinary size is lost or cut: a paragraph of at least sixteen characters
  that fits in a chunk beside the overlap is a contiguous part of some chunk, so a retrieval can
  return it whole.\<close>

theorem paragraph_in_one_chunk:
  assumes "q \<in> set (paragraphs (normalized text))"
    and "16 \<le> length (trim q)"
    and "length (trim q) + overlap_chars opts < max_chars opts"
  shows "\<exists>cs. chunkText text opts = Some cs \<and> (\<exists>c\<in>set cs. sublist (trim q) c)"
proof -
  let ?mx = "max_chars opts" and ?ov = "overlap_chars opts"
  have s: "small ?mx ?ov (trim q)"
    using assms(2,3) by (auto simp: small_def MIN_CHUNK_CHARS_def intro: tight_trim)
  have ne: "normalized text \<noteq> []"
    using assms(1,2) by (auto simp: paragraphs_def)
  have "trim q \<in> set (segments_of ?mx q)" using assms(2,3) by (auto simp: segments_of_def Let_def)
  then have m: "trim q \<in> set (splitIntoSegments (normalized text) ?mx)"
    using assms(1) by (auto simp: splitIntoSegments_def)
  have z: "sized ?mx []" by (simp add: sized_def)
  from add_segments_returns [OF max_overlap(1) z, of "[]"]
  obtain cs rest where r: "add_segments ?mx ?ov (splitIntoSegments (normalized text) ?mx) ([], []) = Some (cs, rest)"
    by fastforce
  have "holds (cs, rest) (trim q)"
    using add_segments_keep [OF max_overlap(1) z _ r s] m by simp
  then have "\<exists>c\<in>set (push_chunk cs (trim rest)). sublist (trim q) c"
    using s pushed_in pushed_mono sublist_trim_tight by (fastforce simp: holds_def small_def)
  then show ?thesis using ne r by (simp add: chunkText_def)
qed

lemma two_paragraphs_normalized: "normalized (js ''ABCDEFGHIJKLMNOP'' @ [13, 10, 13, 10] @ js ''abcdefghijklmnop'')
  = js ''ABCDEFGHIJKLMNOP'' @ [10, 10] @ js ''abcdefghijklmnop''"
  by (simp add: normalized_def js_def trim_def trim_end_def is_ws_def ws_codes_def)

lemma two_paragraphs_split: "js ''abcdefghijklmnop'' \<in> set (paragraphs (js ''ABCDEFGHIJKLMNOP'' @ [10, 10] @ js ''abcdefghijklmnop''))"
  by (simp add: paragraphs_def js_def blank_lines_def is_newline_def Let_def)

lemma paragraph_in_one_chunk_witness:
  "\<exists>cs. chunkText (js ''ABCDEFGHIJKLMNOP'' @ [13, 10, 13, 10] @ js ''abcdefghijklmnop'') \<lparr>chunkTokens = None, overlapTokens = Some 5\<rparr>
      = Some cs \<and> (\<exists>c\<in>set cs. sublist (trim (js ''abcdefghijklmnop'')) c)"
proof (rule paragraph_in_one_chunk)
  have t: "trim (js ''abcdefghijklmnop'') = js ''abcdefghijklmnop''"
    by (simp add: js_def trim_def trim_end_def is_ws_def ws_codes_def)
  show "js ''abcdefghijklmnop'' \<in> set (paragraphs (normalized
      (js ''ABCDEFGHIJKLMNOP'' @ [13, 10, 13, 10] @ js ''abcdefghijklmnop'')))"
    by (simp only: two_paragraphs_normalized two_paragraphs_split)
  show "16 \<le> length (trim (js ''abcdefghijklmnop''))" by (simp add: t)
  show "length (trim (js ''abcdefghijklmnop'')) + overlap_chars \<lparr>chunkTokens = None, overlapTokens = Some 5\<rparr>
      < max_chars \<lparr>chunkTokens = None, overlapTokens = Some 5\<rparr>"
    by (simp add: t overlap_chars_def max_chars_def overlap_tokens_def chunk_tokens_def CHARS_PER_TOKEN_def
        DEFAULT_CHUNK_TOKENS_def)
qed

lemma chunkText_returns_within_budget_witness:
  "\<exists>cs. chunkText (replicate 200 97) \<lparr>chunkTokens = Some 1, overlapTokens = Some 90\<rparr> = Some cs
     \<and> list_all (\<lambda>c. 16 \<le> length c \<and> length c \<le> 128) cs"
proof -
  have b: "max_chars \<lparr>chunkTokens = Some 1, overlapTokens = Some 90\<rparr> = 128"
    by (simp add: max_chars_def chunk_tokens_def nullish_def CHARS_PER_TOKEN_def)
  show ?thesis
    using chunkText_returns_within_budget [of "replicate 200 97" "\<lparr>chunkTokens = Some 1, overlapTokens = Some 90\<rparr>"]
    unfolding b list_all_iff .
qed

end
