(* ===== verification/Retrieval.thy ===== *)
theory Retrieval
  imports EmbedWorker Chunker
begin

text \<open>
  On-device retrieval: the packed cosine index of \<open>lib/rag/retrieval.ts\<close>, its life cycle, the
  augmentation of a prompt and the context block. The numeric value of a 32-bit float and the rounding of
  a double are parameters (of finite values). Hydrations are taken one at a time: the coalescing of callers
  that overlap is not modelled.
\<close>

subsection \<open>The index\<close>

record float_platform =
  f32_value :: "f32 \<Rightarrow> rat"
  rnd :: "rat \<Rightarrow> rat"

record IndexEntry =
  ie_messageId :: jsstring
  ie_ord :: nat
  ie_text :: jsstring

record RagHit =
  h_messageId :: jsstring
  h_ord :: nat
  h_text :: jsstring
  h_score :: rat

record RagIndex =
  ri_entries :: "IndexEntry list"
  ri_matrix :: "f32 list"
  ri_dim :: nat

definition new_index :: RagIndex where
  "new_index = \<lparr>ri_entries = [], ri_matrix = [], ri_dim = 0\<rparr>"

text \<open>\<open>matrix.set(vec, off)\<close>\<close>

definition array_set :: "'a list \<Rightarrow> 'a list \<Rightarrow> nat \<Rightarrow> 'a list" where
  "array_set m v off = take off m @ v @ drop (off + length v) m"

definition load_row :: "StoredVector \<Rightarrow> RagIndex \<times> nat \<Rightarrow> RagIndex \<times> nat" where
  "load_row v st =
     (let (ix, row) = st in
      if length (sv_vec v) \<noteq> ri_dim ix then (ix, row)
      else (ix\<lparr>ri_matrix := array_set (ri_matrix ix) (sv_vec v) (row * ri_dim ix),
               ri_entries := ri_entries ix @ [\<lparr>ie_messageId = sv_messageId v, ie_ord = sv_ord v, ie_text = sv_text v\<rparr>]\<rparr>,
            Suc row))"

definition index_load :: "StoredVector list \<Rightarrow> RagIndex" where
  "index_load vectors =
     (let usable = filter (\<lambda>v. 0 < length (sv_vec v)) vectors;
          d = (case usable of [] \<Rightarrow> 0 | v # _ \<Rightarrow> length (sv_vec v));
          (ix, row) = fold load_row usable (\<lparr>ri_entries = [], ri_matrix = replicate (length usable * d) 0, ri_dim = d\<rparr>, 0)
      in if row \<noteq> length usable then ix\<lparr>ri_matrix := take (row * d) (ri_matrix ix)\<rparr> else ix)"

definition isReady :: "RagIndex \<Rightarrow> bool" where
  "isReady ix \<longleftrightarrow> 0 < length (ri_entries ix) \<and> 0 < ri_dim ix"

text \<open>The inner loop, over the row of the matrix that starts at \<open>base\<close>.\<close>

definition row_dot :: "float_platform \<Rightarrow> f32 list \<Rightarrow> nat \<Rightarrow> f32 list \<Rightarrow> nat \<Rightarrow> rat" where
  "row_dot fp m base qv d =
     fold (\<lambda>i acc. rnd fp (acc + rnd fp (f32_value fp (m ! (base + i)) * f32_value fp (qv ! i)))) [0 ..< d] 0"

definition search_index :: "float_platform \<Rightarrow> RagIndex \<Rightarrow> f32 list \<Rightarrow> nat \<Rightarrow> rat \<Rightarrow> RagHit list" where
  "search_index fp ix qv k minScore =
     (if \<not> isReady ix \<or> length qv \<noteq> ri_dim ix then []
      else
        let scored = concat (map (\<lambda>i.
              let d = row_dot fp (ri_matrix ix) (i * ri_dim ix) qv (ri_dim ix); e = ri_entries ix ! i
              in if minScore \<le> d
                 then [\<lparr>h_messageId = ie_messageId e, h_ord = ie_ord e, h_text = ie_text e, h_score = d\<rparr>] else [])
              [0 ..< length (ri_entries ix)])
        in take k (sort_desc h_score scored))"

subsection \<open>Life cycle\<close>

text \<open>The shared index and whether \<open>hydratePromise\<close> is set. A null shared index is a new one.\<close>

record rag_state =
  shared :: RagIndex
  hydrated :: bool

definition new_rag :: rag_state where "new_rag = \<lparr>shared = new_index, hydrated = False\<rparr>"

definition hydrateRagIndex :: "bool \<Rightarrow> bool \<Rightarrow> jsstring + StoredVector list \<Rightarrow> rag_state \<Rightarrow> rag_state" where
  "hydrateRagIndex force store_open vectors s =
     (if \<not> store_open then (if \<not> hydrated s then s\<lparr>shared := index_load []\<rparr> else s)
      else if hydrated s \<and> \<not> force then s
      else \<lparr>shared = index_load (case vectors of Inl e \<Rightarrow> [] | Inr vs \<Rightarrow> vs), hydrated = \<not> force\<rparr>)"

definition resetRagIndex :: "rag_state \<Rightarrow> rag_state" where
  "resetRagIndex s = new_rag"

subsection \<open>The context block\<close>

definition escape_char :: "jschar \<Rightarrow> jsstring" where
  "escape_char c =
     (if c = of_char (CHR ''&'') then js ''&amp;''
      else if c = of_char (CHR ''<'') then js ''&lt;''
      else if c = of_char (CHR ''>'') then js ''&gt;''
      else if c = of_char (CHR 0x22) then js ''&quot;''
      else [c])"

definition escapeAttr :: "jsstring \<Rightarrow> jsstring" where
  "escapeAttr s = concat (map escape_char s)"

definition chunk_open :: "RagHit \<Rightarrow> jsstring" where
  "chunk_open h = js ''<chunk source='' @ [34] @ js ''msg:'' @ escapeAttr (h_messageId h) @ js ''#'' @ decimal (h_ord h)
     @ [34] @ js ''>'' @ [10]"

definition chunk_piece :: "RagHit \<Rightarrow> jsstring \<Rightarrow> jsstring" where
  "chunk_piece h text = chunk_open h @ text @ [10] @ js ''</chunk>''"

definition cut_piece :: "RagHit \<Rightarrow> jsstring \<Rightarrow> nat \<Rightarrow> jsstring" where
  "cut_piece h text room = chunk_open h @ take (room - 120) text @ [0x2026, 10] @ js ''</chunk>''"

fun context_parts :: "int \<Rightarrow> jsstring list \<Rightarrow> nat \<Rightarrow> RagHit list \<Rightarrow> jsstring list" where
  "context_parts maxChars seen tot [] = []"
| "context_parts maxChars seen tot (h # hs) =
     (let text = trim (h_text h); key = take 200 text; piece = chunk_piece h text in
      if text = [] then context_parts maxChars seen tot hs
      else if key \<in> set seen then context_parts maxChars seen tot hs
      else if maxChars < int (tot + length piece) then
        (if 400 < maxChars - int tot then [cut_piece h text (nat (maxChars - int tot))] else [])
      else piece # context_parts maxChars (key # seen) (tot + length piece + 1) hs)"

definition context_intro :: jsstring where
  "context_intro = js ''The following excerpts were retrieved from the user'' @ [39]
     @ js ''s own documents/history on their device. Use them to ground your answer when relevant; cite nothing that is not present here.''"

definition buildContextBlock :: "RagHit list \<Rightarrow> int \<Rightarrow> jsstring" where
  "buildContextBlock hits maxChars =
     (let parts = context_parts maxChars [] 0 hits in
      if parts = [] then []
      else join [10] ([js ''<context>'', context_intro] @ parts @ [js ''</context>'']))"

subsection \<open>Augmenting a prompt\<close>

definition DEFAULT_TOP_K :: nat where "DEFAULT_TOP_K = 4"
definition DEFAULT_MIN_SCORE :: rat where "DEFAULT_MIN_SCORE = 35 / 100"
definition MAX_CONTEXT_CHARS :: int where "MAX_CONTEXT_CHARS = 6000"

record RagAugmentOptions =
  opt_topK :: "nat option"
  opt_minScore :: "rat option"
  opt_maxContextChars :: "int option"

text \<open>\<open>embed_q\<close> is what \<open>embedTexts\<close> resolves or rejects with; the store's side is as in \<open>hydrateRagIndex\<close>.\<close>

definition augmentPromptWithRAG ::
    "float_platform \<Rightarrow> (jsstring list \<Rightarrow> jsstring + f32 list list) \<Rightarrow> bool \<Rightarrow> jsstring + StoredVector list \<Rightarrow>
     RagAugmentOptions \<Rightarrow> jsstring \<Rightarrow> rag_state \<Rightarrow> jsstring \<times> rag_state" where
  "augmentPromptWithRAG fp embed_q store_open vectors opts promptText s =
     (let q = trim promptText in
      if q = [] then (promptText, s)
      else
        let s' = hydrateRagIndex False store_open vectors s; ix = shared s' in
        if \<not> isReady ix then (promptText, s')
        else
          case embed_q [q] of
            Inr (queryVec # _) \<Rightarrow>
              if length queryVec \<noteq> ri_dim ix then (promptText, s')
              else
                let hits = search_index fp ix queryVec (nullish (opt_topK opts) DEFAULT_TOP_K) (nullish (opt_minScore opts) DEFAULT_MIN_SCORE);
                    block = buildContextBlock hits (nullish (opt_maxContextChars opts) MAX_CONTEXT_CHARS)
                in if hits = [] \<or> block = [] then (promptText, s') else (block @ [10, 10] @ promptText, s')
          | _ \<Rightarrow> (promptText, s'))"

subsection \<open>The packed index and the list of vectors\<close>

text \<open>The reference: the stored vectors of the first dimension found, scored one by one.\<close>

definition usable_vectors :: "StoredVector list \<Rightarrow> StoredVector list" where
  "usable_vectors vs =
     (case filter (\<lambda>v. sv_vec v \<noteq> []) vs of
        [] \<Rightarrow> []
      | v # us \<Rightarrow> filter (\<lambda>u. length (sv_vec u) = length (sv_vec v)) (v # us))"

definition dot :: "float_platform \<Rightarrow> f32 list \<Rightarrow> f32 list \<Rightarrow> rat" where
  "dot fp u w = fold (\<lambda>(a, b) acc. rnd fp (acc + rnd fp (f32_value fp a * f32_value fp b))) (zip u w) 0"

definition hit_of :: "float_platform \<Rightarrow> f32 list \<Rightarrow> StoredVector \<Rightarrow> RagHit" where
  "hit_of fp qv v = \<lparr>h_messageId = sv_messageId v, h_ord = sv_ord v, h_text = sv_text v, h_score = dot fp (sv_vec v) qv\<rparr>"

definition top_hits :: "float_platform \<Rightarrow> StoredVector list \<Rightarrow> f32 list \<Rightarrow> nat \<Rightarrow> rat \<Rightarrow> RagHit list" where
  "top_hits fp vs qv k minScore =
     take k (sort_desc h_score (filter (\<lambda>h. minScore \<le> h_score h)
       (map (hit_of fp qv) (filter (\<lambda>v. length (sv_vec v) = length qv) (usable_vectors vs)))))"

definition entry_of :: "StoredVector \<Rightarrow> IndexEntry" where
  "entry_of v = \<lparr>ie_messageId = sv_messageId v, ie_ord = sv_ord v, ie_text = sv_text v\<rparr>"

text \<open>The matrix in the middle of a load: the rows kept so far, then the room that is left.\<close>

lemma array_set_rows:
  assumes "length rows = n * d" "length v = d" "d \<le> length rest"
  shows "array_set (rows @ rest) v (n * d) = (rows @ v) @ drop d rest"
  using assms by (simp add: array_set_def)

lemma load_rows:
  assumes "\<forall>v\<in>set kept. length (sv_vec v) = d" "length rest = length us * d + m"
    "ri_dim ix = d" "ri_entries ix = map entry_of kept" "ri_matrix ix = concat (map sv_vec kept) @ rest"
  shows "\<exists>rest'. fold load_row us (ix, length kept) =
      (ix\<lparr>ri_entries := map entry_of (kept @ filter (\<lambda>v. length (sv_vec v) = d) us),
          ri_matrix := concat (map sv_vec (kept @ filter (\<lambda>v. length (sv_vec v) = d) us)) @ rest'\<rparr>,
       length (kept @ filter (\<lambda>v. length (sv_vec v) = d) us))
    \<and> length rest' = (length us - length (filter (\<lambda>v. length (sv_vec v) = d) us)) * d + m"
  using assms
proof (induction us arbitrary: kept rest ix m)
  case Nil
  then have "ix = ix\<lparr>ri_entries := map entry_of kept, ri_matrix := concat (map sv_vec kept) @ rest\<rparr>" by simp
  then show ?case using Nil by (intro exI [of _ rest]) simp
next
  case (Cons v us)
  show ?case
  proof (cases "length (sv_vec v) = d")
    case True
    have len: "length (concat (map sv_vec kept)) = length kept * d"
      using Cons.prems(1) by (induction kept) simp_all
    have set: "array_set (ri_matrix ix) (sv_vec v) (length kept * d) = concat (map sv_vec (kept @ [v])) @ drop d rest"
      using array_set_rows [OF len True, of rest] Cons.prems(2,5) by simp
    let ?ix = "ix\<lparr>ri_matrix := concat (map sv_vec (kept @ [v])) @ drop d rest, ri_entries := map entry_of (kept @ [v])\<rparr>"
    have step: "load_row v (ix, length kept) = (?ix, length (kept @ [v]))"
      using True Cons.prems(3,4) set by (simp add: load_row_def entry_of_def)
    have "\<exists>rest'. fold load_row us (?ix, length (kept @ [v])) =
      (?ix\<lparr>ri_entries := map entry_of ((kept @ [v]) @ filter (\<lambda>v. length (sv_vec v) = d) us),
          ri_matrix := concat (map sv_vec ((kept @ [v]) @ filter (\<lambda>v. length (sv_vec v) = d) us)) @ rest'\<rparr>,
       length ((kept @ [v]) @ filter (\<lambda>v. length (sv_vec v) = d) us))
      \<and> length rest' = (length us - length (filter (\<lambda>v. length (sv_vec v) = d) us)) * d + m"
      by (rule Cons.IH) (use Cons.prems True in auto)
    then show ?thesis using True by (simp add: step del: fold.simps add: fold_Cons)
  next
    case False
    have step: "load_row v (ix, length kept) = (ix, length kept)"
      using False Cons.prems(3) by (simp add: load_row_def)
    have "\<exists>rest'. fold load_row us (ix, length kept) =
      (ix\<lparr>ri_entries := map entry_of (kept @ filter (\<lambda>v. length (sv_vec v) = d) us),
          ri_matrix := concat (map sv_vec (kept @ filter (\<lambda>v. length (sv_vec v) = d) us)) @ rest'\<rparr>,
       length (kept @ filter (\<lambda>v. length (sv_vec v) = d) us))
      \<and> length rest' = (length us - length (filter (\<lambda>v. length (sv_vec v) = d) us)) * d + (d + m)"
      by (rule Cons.IH) (use Cons.prems in auto)
    moreover have "length (filter (\<lambda>v. length (sv_vec v) = d) us) \<le> length us" by simp
    ultimately show ?thesis using False
      by (simp add: step Suc_diff_le ac_simps)
  qed
qed

lemma length_rows: "\<forall>v\<in>set vs. length (sv_vec v) = d \<Longrightarrow> length (concat (map sv_vec vs)) = length vs * d"
  by (induction vs) simp_all

lemma index_load_rows:
  "ri_entries (index_load vs) = map entry_of (usable_vectors vs)
   \<and> ri_matrix (index_load vs) = concat (map sv_vec (usable_vectors vs))
   \<and> (usable_vectors vs \<noteq> [] \<longrightarrow> ri_dim (index_load vs) = length (sv_vec (hd (usable_vectors vs))))"
proof -
  let ?us = "filter (\<lambda>v. sv_vec v \<noteq> []) vs"
  show ?thesis
  proof (cases ?us)
    case Nil
    then show ?thesis by (simp add: index_load_def usable_vectors_def)
  next
    case (Cons v us)
    let ?d = "length (sv_vec v)" and ?k = "filter (\<lambda>u. length (sv_vec u) = length (sv_vec v)) (v # us)"
    let ?ix0 = "\<lparr>ri_entries = [], ri_matrix = replicate (length (v # us) * ?d) 0, ri_dim = ?d\<rparr>"
    obtain rest' where f: "fold load_row (v # us) (?ix0, 0) =
        (?ix0\<lparr>ri_entries := map entry_of ?k, ri_matrix := concat (map sv_vec ?k) @ rest'\<rparr>, length ?k)"
      "length rest' = (length (v # us) - length ?k) * ?d"
      using load_rows [of "[]" ?d "replicate (length (v # us) * ?d) 0" "v # us" 0 ?ix0] by auto
    have u: "usable_vectors vs = ?k" by (simp add: usable_vectors_def Cons)
    have len: "length (concat (map sv_vec ?k)) = length ?k * ?d" by (rule length_rows) simp
    have nz: "(\<lambda>v. 0 < length (sv_vec v)) = (\<lambda>v. sv_vec v \<noteq> [])" by auto
    have e: "index_load vs = (let (ix, row) = fold load_row (v # us) (?ix0, 0)
        in if row \<noteq> length (v # us) then ix\<lparr>ri_matrix := take (row * ?d) (ri_matrix ix)\<rparr> else ix)"
      by (simp only: index_load_def nz Cons Let_def list.case)
    have "rest' = []" if "length ?k = length (v # us)" using f(2) that by simp
    moreover have "hd ?k = v" by simp
    ultimately show ?thesis using f(1) len unfolding e u by (simp del: fold.simps filter.simps)
  qed
qed

lemma nth_concat_rows:
  "\<forall>r\<in>set rows. length r = d \<Longrightarrow> i < length rows \<Longrightarrow> j < d \<Longrightarrow> concat rows ! (i * d + j) = rows ! i ! j"
proof (induction rows arbitrary: i)
  case (Cons r rows)
  then show ?case by (cases i) (auto simp: nth_append)
qed simp

lemma row_dot_row:
  assumes "\<forall>r\<in>set rows. length r = d" "i < length rows" "length qv = d"
  shows "row_dot fp (concat rows) (i * d) qv d = dot fp (rows ! i) qv"
proof -
  have l: "length (rows ! i) = d" using assms(1,2) by simp
  have z: "zip (rows ! i) qv = map (\<lambda>j. (rows ! i ! j, qv ! j)) [0 ..< d]"
    using l assms(3) by (intro nth_equalityI) simp_all
  show ?thesis unfolding row_dot_def dot_def z fold_map o_def
    by (rule fold_cong) (auto simp: nth_concat_rows [OF assms(1,2)])
qed

lemma concat_guard: "concat (map (\<lambda>i. if P (f i) then [f i] else []) xs) = filter P (map f xs)"
  by (induction xs) auto

lemma usable_same_length: "v \<in> set (usable_vectors vs) \<Longrightarrow> length (sv_vec v) = length (sv_vec (hd (usable_vectors vs)))"
  by (auto simp: usable_vectors_def split: list.splits)

lemma usable_nonempty: "v \<in> set (usable_vectors vs) \<Longrightarrow> sv_vec v \<noteq> []"
proof -
  assume "v \<in> set (usable_vectors vs)"
  then have "v \<in> set (filter (\<lambda>v. sv_vec v \<noteq> []) vs)"
    unfolding usable_vectors_def by (cases "filter (\<lambda>v. sv_vec v \<noteq> []) vs") auto
  then show ?thesis by simp
qed

text \<open>C24. The packed index ranks as the plain definition does: loading the stored vectors into the flat matrix,
  with the rows of another dimension skipped and the matrix trimmed, and searching it row by row gives
  exactly the k best of the usable vectors, best first and ties in storage order.\<close>

theorem search_is_top_hits:
  "search_index fp (index_load vs) qv k minScore = top_hits fp vs qv k minScore"
proof -
  let ?us = "usable_vectors vs" and ?ix = "index_load vs"
  have ix: "ri_entries ?ix = map entry_of ?us" "ri_matrix ?ix = concat (map sv_vec ?us)"
    "?us \<noteq> [] \<Longrightarrow> ri_dim ?ix = length (sv_vec (hd ?us))"
    using index_load_rows [of vs] by auto
  show ?thesis
  proof (cases "?us = []")
    case True
    then show ?thesis by (simp add: search_index_def isReady_def ix top_hits_def sort_desc_def)
  next
    case False
    have d: "ri_dim ?ix = length (sv_vec (hd ?us))" "0 < length (sv_vec (hd ?us))"
      using ix(3) False usable_nonempty [of "hd ?us" vs] by auto
    show ?thesis
    proof (cases "length qv = length (sv_vec (hd ?us))")
      case True
      have same: "\<forall>r\<in>set (map sv_vec ?us). length r = length (sv_vec (hd ?us))"
        using usable_same_length by auto
      have all: "filter (\<lambda>v. length (sv_vec v) = length qv) ?us = ?us"
        using usable_same_length True by (simp add: filter_id_conv)
      let ?hit = "\<lambda>i. \<lparr>h_messageId = ie_messageId (ri_entries ?ix ! i), h_ord = ie_ord (ri_entries ?ix ! i),
          h_text = ie_text (ri_entries ?ix ! i), h_score = row_dot fp (ri_matrix ?ix) (i * ri_dim ?ix) qv (ri_dim ?ix)\<rparr>"
      have "map ?hit [0 ..< length (ri_entries ?ix)] = map (hit_of fp qv) ?us"
        using row_dot_row [OF same _ True] d
        by (intro nth_equalityI) (simp_all add: ix hit_of_def entry_of_def)
      then have "concat (map (\<lambda>i. if minScore \<le> h_score (?hit i) then [?hit i] else []) [0 ..< length (ri_entries ?ix)])
          = filter (\<lambda>h. minScore \<le> h_score h) (map (hit_of fp qv) ?us)"
        by (simp only: concat_guard [of "\<lambda>h. minScore \<le> h_score h"])
      then show ?thesis using True False d
        by (simp add: search_index_def isReady_def top_hits_def all [unfolded True] ix(1) Let_def cong: if_cong)
    next
      case dim: False
      then have "filter (\<lambda>v. length (sv_vec v) = length qv) ?us = []"
        using usable_same_length by (fastforce simp: filter_empty_conv)
      then show ?thesis using dim d(1) by (simp add: search_index_def top_hits_def sort_desc_def)
    qed
  qed
qed

subsection \<open>The context block\<close>

lemma escape_char_nonempty [simp]: "escape_char c \<noteq> []"
  by (simp add: escape_char_def)

lemma escape_prefix_free: "escape_char c @ a = escape_char d @ b \<Longrightarrow> c = d \<and> a = b"
  by (auto simp: escape_char_def js_def split: if_splits)

lemma escape_safe: "of_char (CHR ''<'') \<notin> set (escape_char c) \<and> of_char (CHR ''>'') \<notin> set (escape_char c)
    \<and> of_char (CHR 0x22) \<notin> set (escape_char c)"
  by (auto simp: escape_char_def js_def)

text \<open>An attribute cannot be broken out of, and says which message it names: whatever the message id, its
  escaped form has no angle bracket and no double quote, and different ids have different escaped forms.\<close>

theorem escapeAttr_safe_and_injective:
  "of_char (CHR ''<'') \<notin> set (escapeAttr s) \<and> of_char (CHR ''>'') \<notin> set (escapeAttr s)
   \<and> of_char (CHR 0x22) \<notin> set (escapeAttr s) \<and> (escapeAttr s = escapeAttr t \<longleftrightarrow> s = t)"
proof -
  have "escapeAttr s = escapeAttr t \<Longrightarrow> s = t"
  proof (induction s arbitrary: t)
    case Nil
    then show ?case by (cases t) (simp_all add: escapeAttr_def)
  next
    case (Cons c s)
    then obtain d u where "t = d # u" by (cases t) (simp_all add: escapeAttr_def)
    then show ?case using Cons escape_prefix_free [of c "escapeAttr s" d "escapeAttr u"]
      by (simp add: escapeAttr_def)
  qed
  then show ?thesis using escape_safe by (auto simp: escapeAttr_def)
qed

definition cost :: "jsstring list \<Rightarrow> nat" where
  "cost ps = sum_list (map (\<lambda>p. length p + 1) ps)"

lemma length_join: "ps \<noteq> [] \<Longrightarrow> length (join [10] ps) + 1 = cost ps"
proof (induction ps rule: induct_list012)
  case (3 x y zs)
  then show ?case by (simp add: cost_def)
qed (simp_all add: cost_def)

definition short_ids :: "RagHit list \<Rightarrow> bool" where
  "short_ids hs \<longleftrightarrow> (\<forall>h\<in>set hs. length (escapeAttr (h_messageId h)) + length (decimal (h_ord h)) \<le> 86)"

lemma length_cut:
  assumes "length (escapeAttr (h_messageId h)) + length (decimal (h_ord h)) \<le> 86" "400 < room"
  shows "length (cut_piece h text room) + 1 \<le> room"
proof -
  have "length (take (room - 120) text) \<le> room - 120" by simp
  then show ?thesis using assms unfolding cut_piece_def chunk_open_def by (simp del: length_take)
qed

lemma cost_parts:
  "short_ids hs \<Longrightarrow> int (cost (context_parts m seen tot hs)) \<le> max 0 (m + 1 - int tot)"
proof (induction m seen tot hs rule: context_parts.induct)
  case (2 m seen tot h hs)
  let ?t = "trim (h_text h)" and ?room = "nat (m - int tot)"
  have s: "short_ids hs" "length (escapeAttr (h_messageId h)) + length (decimal (h_ord h)) \<le> 86"
    using 2(4) by (auto simp: short_ids_def)
  consider (skip) "?t = [] \<or> take 200 ?t \<in> set seen"
    | (cut) "?t \<noteq> []" "take 200 ?t \<notin> set seen" "m < int (tot + length (chunk_piece h ?t))"
    | (whole) "?t \<noteq> []" "take 200 ?t \<notin> set seen" "\<not> m < int (tot + length (chunk_piece h ?t))"
    by blast
  then show ?case
  proof cases
    case skip
    then show ?thesis using 2(1,2) s(1) by (auto simp: Let_def)
  next
    case cut
    show ?thesis
    proof (cases "400 < m - int tot")
      case True
      then have "400 < ?room" by simp
      then show ?thesis using cut True length_cut [OF s(2), of ?room ?t]
        by (simp add: cost_def del: of_nat_add)
    next
      case False
      then show ?thesis using cut by (simp add: cost_def)
    qed
  next
    case whole
    then show ?thesis using 2(3) [OF refl refl refl _ _ _ s(1)] by (simp add: cost_def Let_def)
  qed
qed (simp add: cost_def)

text \<open>C25. The context stays within its budget when ids are ordinary: with message ids and ordinals of at most 86
  characters together (a UUID has 36), the block is at most the cap and a constant frame of 200
  characters long, the cut last chunk included.\<close>

theorem context_block_bounded:
  assumes "short_ids hits"
  shows "int (length (buildContextBlock hits maxChars)) \<le> max 0 maxChars + 200"
proof -
  let ?ps = "context_parts maxChars [] 0 hits"
  have "length context_intro = 177" by (simp add: context_intro_def)
  then have "int (length (buildContextBlock hits maxChars)) + 1 \<le> int (cost ?ps) + 199" if "?ps \<noteq> []"
    using that length_join [of "[js ''<context>'', context_intro] @ ?ps @ [js ''</context>'']"]
    by (simp add: buildContextBlock_def cost_def)
  then show ?thesis using cost_parts [OF assms, of maxChars "[]" 0]
    by (cases "?ps = []") (auto simp: buildContextBlock_def)
qed

definition sample_hit :: RagHit where
  "sample_hit = \<lparr>h_messageId = js ''m'', h_ord = 0, h_text = js ''Paris is the capital of France.'', h_score = 1\<rparr>"

lemma context_block_bounded_witness:
  "int (length (buildContextBlock [sample_hit] 6000)) \<le> max 0 6000 + 200"
  by (rule context_block_bounded)
    (simp add: short_ids_def sample_hit_def escapeAttr_def escape_char_def js_def decimal.simps)

subsection \<open>Augmentation\<close>

text \<open>Retrieval only ever prepends: the augmented prompt is either the prompt as it was, or the context block
  of hits the index really gave for the embedded query, a blank line and the prompt; so an
  embedding that fails and an index without hits leave the prompt unchanged.\<close>

theorem augmentation_only_prepends:
  "let (r, s') = augmentPromptWithRAG fp embed_q store_open vectors opts promptText s in
    r = promptText
    \<or> (\<exists>v vs hits. embed_q [trim promptText] = Inr (v # vs)
        \<and> hits = search_index fp (shared s') v (nullish (opt_topK opts) 4) (nullish (opt_minScore opts) (35 / 100)) \<and> hits \<noteq> []
        \<and> r = buildContextBlock hits (nullish (opt_maxContextChars opts) 6000) @ [10, 10] @ promptText)"
  by (auto simp: augmentPromptWithRAG_def Let_def DEFAULT_TOP_K_def DEFAULT_MIN_SCORE_def MAX_CONTEXT_CHARS_def
      split: sum.splits list.splits)

text \<open>What the hydrate leaves behind.\<close>

lemma hydrate_again:
  "hydrated s \<Longrightarrow> hydrateRagIndex False b v s = s"
  by (simp add: hydrateRagIndex_def)

text \<open>A failed hydration is not retried by the calls that follow it: after a read of the vectors that failed,
  however often the send path hydrates again, with the store open and the vectors readable, the index
  stays empty, until a forced hydration or a reset.\<close>

theorem failed_hydration_sticks:
  assumes "\<not> hydrated s"
  shows "\<not> isReady (shared (fold (\<lambda>(b, v). hydrateRagIndex False b v) calls (hydrateRagIndex False True (Inl e) s)))"
proof -
  let ?s = "hydrateRagIndex False True (Inl e) s"
  have s: "hydrated ?s" "shared ?s = index_load []" using assms by (simp_all add: hydrateRagIndex_def)
  have "fold (\<lambda>(b, v). hydrateRagIndex False b v) calls ?s = ?s"
    using s(1) by (induction calls) (auto simp: hydrate_again)
  then show ?thesis by (simp add: s(2) index_load_def isReady_def)
qed

lemma failed_hydration_sticks_witness:
  "\<not> isReady (shared (hydrateRagIndex False True (Inr [\<lparr>sv_messageId = js ''m'', sv_ord = 0, sv_text = js ''t'', sv_vec = [1]\<rparr>])
     (hydrateRagIndex False True (Inl (js ''worker error'')) new_rag)))"
  using failed_hydration_sticks [of new_rag "[(True, Inr [\<lparr>sv_messageId = js ''m'', sv_ord = 0, sv_text = js ''t'', sv_vec = [1]\<rparr>])]" "js ''worker error''"]
  by (simp add: new_rag_def)

end
