(* ===== verification/Session.thy ===== *)
theory Session
  imports UnlockScreen CaladonLib StoreCalls Retrieval Runs
begin

text \<open>
  The session of the page, \<open>hooks/AuthContext.tsx\<close>: unlocking, locking, logging out, over the SDK singletons
  (\<open>CaladonLib\<close>), the store proxy (\<open>StoreProxy\<close>) and the retrieval index (\<open>Retrieval\<close>). A step is what runs up to the
  next await, so that an unlock is four steps with anything in between. The handshake itself is taken at the
  moment it ends. A lock replaces the proxy object and the index object; \<open>se_gen\<close> counts the replacements, and a
  continuation that still holds an older object is known by the count it started with.
\<close>

subsection \<open>State\<close>

record session_env =
  sn_rt :: runtime
  sn_build :: vite_env
  sn_stamp :: "nat \<Rightarrow> jsstring"
  sn_store_key :: "jsstring + (bytes \<Rightarrow> bytes)"
  sn_USER :: jsstring

text \<open>An unlock in flight: in the handshake, deriving the store key with the proxy object already read (the receiver
  of \<open>openStore\<close> is evaluated before its awaited argument), or opening the store: with a promise of the
  proxy, or on a proxy that has been replaced.\<close>

datatype unlock_stage =
    Handshaking client_cfg
  | Deriving HandshakeResult nat
  | Opening HandshakeResult "nat option"

record session =
  se_lib :: lib_state
  se_page :: page
  se_rag :: rag_state
  se_gen :: nat
  se_auth :: bool
  se_user :: "json option"
  se_account :: "jsstring option"
  se_error :: "jsstring option"
  se_queries :: bool
  se_redirects :: "jsstring list"
  se_unlocks :: "(bytes \<times> unlock_stage) list"
  se_ends :: "(bytes \<times> unlock_end) list"
  se_hydrating :: "(nat \<times> nat \<times> bool) list"
  se_detached :: "jsstring list"
  se_warmups :: nat

definition new_session :: session where
  "new_session = \<lparr>se_lib = new_lib_state, se_page = new_page, se_rag = new_rag, se_gen = 0,
     se_auth = isUnlocked new_lib_state, se_user = None, se_account = map_option accountId (caladonIdentity new_lib_state),
     se_error = None, se_queries = False, se_redirects = [], se_unlocks = [], se_ends = [], se_hydrating = [],
     se_detached = [], se_warmups = 0\<rparr>"

subsection \<open>The two halves of caladonUnlock\<close>

definition unlock_with :: "runtime \<Rightarrow> client_cfg \<Rightarrow> bytes \<Rightarrow> HandshakeResult lib" where
  "unlock_with rte c seed =
     andThen (on_client (handshake \<lparr>cfg = c, rt = rte\<rparr> seed)) (\<lambda>result s.
       ret result (s\<lparr>l_identity := Some (hs_identity result), l_handshake := Some result\<rparr>))"

lemma caladonUnlock_halves:
  "caladonUnlock rte ve seed = andThen (getCaladonClient rte ve) (\<lambda>c. unlock_with rte c seed)"
  by (simp add: caladonUnlock_def unlock_with_def)

definition end_of :: "cerror \<Rightarrow> unlock_end" where
  "end_of e = (case e of AttestationFailed v \<Rightarrow> NotAttested | _ \<Rightarrow> FailedOtherwise)"

subsection \<open>Operations\<close>

definition applyUserContext :: "bool \<Rightarrow> json option \<Rightarrow> jsstring option \<Rightarrow> session \<Rightarrow> session" where
  "applyUserContext authed nextUser redirect s =
     s\<lparr>se_user := nextUser, se_auth := authed, se_queries := (if authed then True else se_queries s),
       se_redirects := se_redirects s @ (case redirect of Some r \<Rightarrow> [r] | None \<Rightarrow> [])\<rparr>"

definition caladon_user :: "session_env \<Rightarrow> jsstring \<Rightarrow> json" where
  "caladon_user env account =
     JObj [(js ''id'', JStr account), (js ''username'', JStr (take 12 account)), (js ''name'', JStr (js ''Caladon'')),
       (js ''email'', JStr []), (js ''avatar'', JStr []), (js ''role'', JStr (sn_USER env)),
       (js ''provider'', JStr (js ''caladon''))]"

text \<open>\<open>hydrateRagIndex\<close> up to its await, and its end: it loads the index object it has read, and a forced one drops
  \<open>hydratePromise\<close>, whoever has set it since.\<close>

definition start_hydrate :: "session_env \<Rightarrow> bool \<Rightarrow> session \<Rightarrow> session" where
  "start_hydrate env force s =
     (if \<not> isOpen (se_page s)
      then (if \<not> hydrated (se_rag s) then s\<lparr>se_rag := (se_rag s)\<lparr>shared := index_load []\<rparr>\<rparr> else s)
      else if hydrated (se_rag s) \<and> \<not> force then s
      else s\<lparr>se_page := proxy_hydrateVectors (sn_stamp env) (se_page s),
             se_hydrating := se_hydrating s @ [(next_promise (se_page s), se_gen s, force)],
             se_rag := (se_rag s)\<lparr>hydrated := True\<rparr>\<rparr>)"

definition vectors_in :: "outcome \<Rightarrow> StoredVector list" where
  "vectors_in out = (case out of Resolved (VECTORS vs) \<Rightarrow> vs | _ \<Rightarrow> [])"

definition end_hydrate :: "nat \<Rightarrow> session \<Rightarrow> session" where
  "end_hydrate j s =
     (if length (se_hydrating s) \<le> j then s
      else let (p, g, force) = se_hydrating s ! j in
        case map_of (settled (se_page s)) p of
          None \<Rightarrow> s
        | Some out \<Rightarrow>
            s\<lparr>se_hydrating := take j (se_hydrating s) @ drop (Suc j) (se_hydrating s),
              se_rag := \<lparr>shared = (if g = se_gen s then index_load (vectors_in out) else shared (se_rag s)),
                         hydrated = (if force then False else hydrated (se_rag s))\<rparr>\<rparr>)"

definition unlock_settles :: "nat \<Rightarrow> unlock_end \<Rightarrow> session \<Rightarrow> session" where
  "unlock_settles i r s =
     s\<lparr>se_ends := se_ends s @ [(fst (se_unlocks s ! i), r)],
       se_unlocks := take i (se_unlocks s) @ drop (Suc i) (se_unlocks s)\<rparr>"

text \<open>The four parts of \<open>unlock\<close>.\<close>

definition start_unlock :: "session_env \<Rightarrow> bytes \<Rightarrow> session \<Rightarrow> session" where
  "start_unlock env seed s =
     (case getCaladonClient (sn_rt env) (sn_build env) (se_lib s) of
        (Inl e, l) \<Rightarrow> s\<lparr>se_error := None, se_lib := l, se_ends := se_ends s @ [(seed, end_of e)]\<rparr>
      | (Inr c, l) \<Rightarrow> s\<lparr>se_error := None, se_lib := l, se_unlocks := se_unlocks s @ [(seed, Handshaking c)]\<rparr>)"

definition handshake_done :: "session_env \<Rightarrow> nat \<Rightarrow> bytes \<Rightarrow> client_cfg \<Rightarrow> session \<Rightarrow> session" where
  "handshake_done env i seed c s =
     (case unlock_with (sn_rt env) c seed (se_lib s) of
        (Inl e, l) \<Rightarrow> unlock_settles i (end_of e) (s\<lparr>se_lib := l\<rparr>)
      | (Inr h, l) \<Rightarrow>
          s\<lparr>se_lib := l, se_account := Some (accountId (hs_identity h)),
            se_unlocks := (se_unlocks s)[i := (seed, Deriving h (se_gen s))]\<rparr>)"

definition finish_unlock :: "session_env \<Rightarrow> nat \<Rightarrow> HandshakeResult \<Rightarrow> session \<Rightarrow> session" where
  "finish_unlock env i h s =
     (let s1 = applyUserContext True (Some (caladon_user env (accountId (hs_identity h)))) (Some (js ''/c/new'')) s;
          s2 = start_hydrate env True (s1\<lparr>se_warmups := Suc (se_warmups s1)\<rparr>)
      in unlock_settles i Unlocked s2)"

definition key_derived :: "session_env \<Rightarrow> nat \<Rightarrow> bytes \<Rightarrow> HandshakeResult \<Rightarrow> nat \<Rightarrow> session \<Rightarrow> session" where
  "key_derived env i seed h g s =
     (case deriveStoreKeyHex (sn_store_key env) (root (hs_identity h)) of
        Inl e \<Rightarrow> finish_unlock env i h s
      | Inr k \<Rightarrow>
          if g = se_gen s
          then s\<lparr>se_page := openStore (sn_stamp env) k (se_page s),
                 se_unlocks := (se_unlocks s)[i := (seed, Opening h (Some (next_promise (se_page s))))]\<rparr>
          else s\<lparr>se_detached := se_detached s @ [k], se_unlocks := (se_unlocks s)[i := (seed, Opening h None)]\<rparr>)"

text \<open>The store has opened, or failed to: the error is swallowed.\<close>

definition store_opened :: "session_env \<Rightarrow> nat \<Rightarrow> HandshakeResult \<Rightarrow> nat option \<Rightarrow> session \<Rightarrow> session" where
  "store_opened env i h p s =
     (case p of
        None \<Rightarrow> finish_unlock env i h s
      | Some q \<Rightarrow> if q \<in> fst ` set (settled (se_page s)) then finish_unlock env i h s else s)"

text \<open>\<open>lock\<close>, and \<open>logout\<close> with its redirect.\<close>

definition leave :: "session_env \<Rightarrow> jsstring \<Rightarrow> session \<Rightarrow> session" where
  "leave env redirect s =
     applyUserContext False None (Some redirect)
       (s\<lparr>se_lib := caladonLock (se_lib s), se_account := None, se_page := resetStoreProxy (sn_stamp env) (se_page s),
          se_rag := resetRagIndex (se_rag s), se_gen := Suc (se_gen s)\<rparr>)"

definition lock_session :: "session_env \<Rightarrow> session \<Rightarrow> session" where
  "lock_session env s = leave env (js ''/login'') s"

definition logout_session :: "session_env \<Rightarrow> jsstring option \<Rightarrow> session \<Rightarrow> session" where
  "logout_session env redirect s = leave env (nullish redirect (js ''/login'')) s"

definition legacy_login :: "session \<Rightarrow> session" where
  "legacy_login s = s\<lparr>se_error := Some (js ''Caladon uses a local seed, not a password. Unlock your seed to continue.'')\<rparr>"

definition mount_effect :: "bool \<Rightarrow> session \<Rightarrow> session" where
  "mount_effect test s = (if test then s else if \<not> isUnlocked (se_lib s) then s\<lparr>se_auth := False\<rparr> else s)"

subsection \<open>Steps\<close>

text \<open>The operations of the proxy other than opening are its requests other than INIT.\<close>

datatype session_event =
    Unlock bytes
  | Unlock_proceeds nat
  | Hydrate bool
  | Hydrate_ends nat
  | Operation request_body
  | Worker_replies StoreResponse
  | Worker_fails jsstring
  | Lock
  | Logout "jsstring option"
  | Login_form
  | Mounted bool

definition is_INIT :: "request_body \<Rightarrow> bool" where
  "is_INIT b = (case b of INIT k \<Rightarrow> True | _ \<Rightarrow> False)"

definition proceed :: "session_env \<Rightarrow> nat \<Rightarrow> session \<Rightarrow> session" where
  "proceed env i s =
     (if length (se_unlocks s) \<le> i then s
      else case se_unlocks s ! i of
        (seed, Handshaking c) \<Rightarrow> handshake_done env i seed c s
      | (seed, Deriving h g) \<Rightarrow> key_derived env i seed h g s
      | (seed, Opening h p) \<Rightarrow> store_opened env i h p s)"

fun session_step :: "session_env \<Rightarrow> session_event \<Rightarrow> session \<Rightarrow> session" where
  "session_step env (Unlock seed) s = start_unlock env seed s"
| "session_step env (Unlock_proceeds i) s = proceed env i s"
| "session_step env (Hydrate force) s = start_hydrate env force s"
| "session_step env (Hydrate_ends j) s = end_hydrate j s"
| "session_step env (Operation b) s =
     (if is_INIT b then s else s\<lparr>se_page := call_op (sn_stamp env) b (se_page s)\<rparr>)"
| "session_step env (Worker_replies r) s = s\<lparr>se_page := on_message (sn_stamp env) r (se_page s)\<rparr>"
| "session_step env (Worker_fails m) s = s\<lparr>se_page := on_error (sn_stamp env) m (se_page s)\<rparr>"
| "session_step env Lock s = lock_session env s"
| "session_step env (Logout r) s = logout_session env r s"
| "session_step env Login_form s = legacy_login s"
| "session_step env (Mounted test) s = mount_effect test s"

definition run_session :: "session_env \<Rightarrow> session_event list \<Rightarrow> session \<Rightarrow> session" where
  "run_session env evs s = fold (session_step env) evs s"

subsection \<open>Who is signed in, and whose keys are used\<close>

text \<open>In a production build: the client of a handshake in flight is strict, its result verified, and so are the
  identity of a user who is signed in and the identities whose keys opened a store.\<close>

abbreviation verified :: "session_env \<Rightarrow> HandshakeResult \<Rightarrow> bool" where
  "verified env h \<equiv> verified_result (sn_rt env) (sn_build env) h"

definition verified_key :: "session_env \<Rightarrow> jsstring \<Rightarrow> bool" where
  "verified_key env k \<longleftrightarrow> (\<exists>h. verified env h \<and> deriveStoreKeyHex (sn_store_key env) (root (hs_identity h)) = Inr k)"

definition stage_ok :: "session_env \<Rightarrow> unlock_stage \<Rightarrow> bool" where
  "stage_ok env st =
     (case st of
        Handshaking c \<Rightarrow> strict_client (sn_rt env) (sn_build env) c
      | Deriving h g \<Rightarrow> verified env h
      | Opening h p \<Rightarrow> verified env h)"

definition signed_in_ok :: "session_env \<Rightarrow> session \<Rightarrow> bool" where
  "signed_in_ok env s \<longleftrightarrow>
     (se_auth s \<longrightarrow> (\<exists>h. verified env h \<and> se_user s = Some (caladon_user env (accountId (hs_identity h)))))"

definition allowed :: "session_env \<Rightarrow> request_body set" where
  "allowed env = {b. \<forall>k. b = INIT k \<longrightarrow> verified_key env k}"

definition session_ok :: "session_env \<Rightarrow> session \<Rightarrow> bool" where
  "session_ok env s \<longleftrightarrow>
     lib_inv (sn_rt env) (sn_build env) (se_lib s)
   \<and> (\<forall>u\<in>set (se_unlocks s). stage_ok env (snd u))
   \<and> signed_in_ok env s
   \<and> in_stretch [] 0 (allowed env) (se_page s)
   \<and> (\<forall>k\<in>set (se_detached s). verified_key env k)"

lemma session_okI [intro?]:
  assumes "lib_inv (sn_rt env) (sn_build env) (se_lib s)" "\<forall>u\<in>set (se_unlocks s). stage_ok env (snd u)"
    "signed_in_ok env s" "in_stretch [] 0 (allowed env) (se_page s)" "\<forall>k\<in>set (se_detached s). verified_key env k"
  shows "session_ok env s"
  using assms by (simp add: session_ok_def)

lemma session_okD:
  assumes "session_ok env s"
  shows "lib_inv (sn_rt env) (sn_build env) (se_lib s)" "\<And>u. u \<in> set (se_unlocks s) \<Longrightarrow> stage_ok env (snd u)"
    "signed_in_ok env s" "in_stretch [] 0 (allowed env) (se_page s)" "\<And>k. k \<in> set (se_detached s) \<Longrightarrow> verified_key env k"
  using assms by (simp_all add: session_ok_def)

text \<open>A change that leaves alone the fields the invariant reads.\<close>

lemma ok_frame:
  assumes "session_ok env s" "se_lib t = se_lib s" "se_unlocks t = se_unlocks s" "se_auth t = se_auth s"
    "se_user t = se_user s" "se_page t = se_page s" "se_detached t = se_detached s"
  shows "session_ok env t"
  using assms by (simp add: session_ok_def signed_in_ok_def)

lemma ok_page: "session_ok env s \<Longrightarrow> event_bodies pe \<subseteq> allowed env \<Longrightarrow>
    session_ok env (s\<lparr>se_page := page_step (sn_stamp env) pe (se_page s)\<rparr>)"
  by (simp add: session_ok_def signed_in_ok_def in_step)

lemma in_shrunk: "u \<in> set (take i xs @ drop (Suc i) xs) \<Longrightarrow> u \<in> set xs"
  by (auto dest: in_set_takeD in_set_dropD)

lemma ok_settles:
  assumes "session_ok env s"
  shows "session_ok env (unlock_settles i r s)"
proof -
  have "stage_ok env (snd u)" if "u \<in> set (take i (se_unlocks s) @ drop (Suc i) (se_unlocks s))" for u
    by (rule session_okD(2) [OF assms in_shrunk [OF that]])
  then show ?thesis using assms by (simp add: session_ok_def signed_in_ok_def unlock_settles_def del: set_append)
qed

lemma ok_stage:
  assumes "session_ok env s" "stage_ok env st"
  shows "session_ok env (s\<lparr>se_unlocks := (se_unlocks s)[i := (seed, st)]\<rparr>)"
  using assms by (auto simp: session_ok_def signed_in_ok_def dest!: set_update_subset_insert [THEN subsetD])

lemma ok_lib: "session_ok env s \<Longrightarrow> lib_inv (sn_rt env) (sn_build env) l \<Longrightarrow> session_ok env (s\<lparr>se_lib := l\<rparr>)"
  by (simp add: session_ok_def signed_in_ok_def)

lemma ok_start_hydrate:
  assumes "session_ok env s"
  shows "session_ok env (start_hydrate env force s)"
proof -
  have "session_ok env (s\<lparr>se_page := page_step (sn_stamp env) (Call HYDRATE_VECTORS) (se_page s)\<rparr>)"
    by (rule ok_page [OF assms]) (simp add: allowed_def)
  then have "session_ok env (s\<lparr>se_page := proxy_hydrateVectors (sn_stamp env) (se_page s), se_hydrating := hs, se_rag := rg\<rparr>)" for hs rg
    by (rule ok_frame) (simp_all add: proxy_hydrateVectors_def)
  moreover have "session_ok env (s\<lparr>se_rag := rg\<rparr>)" for rg by (rule ok_frame [OF assms]) simp_all
  ultimately show ?thesis using assms by (simp add: start_hydrate_def)
qed

lemma ok_apply:
  assumes "session_ok env s" "authed \<longrightarrow> (\<exists>h. verified env h \<and> u = Some (caladon_user env (accountId (hs_identity h))))"
  shows "session_ok env (applyUserContext authed u r s)"
  using assms by (simp add: session_ok_def signed_in_ok_def applyUserContext_def)

lemma ok_finish:
  assumes "session_ok env s" "verified env h"
  shows "session_ok env (finish_unlock env i h s)"
proof -
  let ?s = "applyUserContext True (Some (caladon_user env (accountId (hs_identity h)))) (Some (js ''/c/new'')) s"
  have "session_ok env ?s" by (rule ok_apply [OF assms(1)]) (use assms(2) in blast)
  then have "session_ok env (?s\<lparr>se_warmups := n\<rparr>)" for n by (rule ok_frame) simp_all
  then show ?thesis unfolding finish_unlock_def Let_def by (intro ok_settles ok_start_hydrate)
qed

lemma unlock_with_ok:
  assumes "strict_client rte ve c" "lib_inv rte ve l" "unlock_with rte c seed l = (r, l')"
  shows "lib_inv rte ve l' \<and> (\<forall>h. r = Inr h \<longrightarrow> verified_result rte ve h)"
proof -
  let ?env = "\<lparr>cfg = c, rt = rte\<rparr>"
  obtain q k where h: "handshake ?env seed (l_sdk l) = (q, k)" by fastforce
  have "verified_result rte ve x" if "q = Inr x" for x
    using handshake_ok_verdict [of ?env seed "l_sdk l" x k] h that assms(1)
    by (auto simp: verified_result_def strict_client_def)
  then show ?thesis using h assms(2,3)
    by (auto simp: unlock_with_def andThen_def on_client_def ret_def lib_inv_def split: sum.splits)
qed

lemma ok_start_unlock:
  assumes "production (sn_build env)" "session_ok env s"
  shows "session_ok env (start_unlock env seed s)"
proof -
  obtain r l where g: "getCaladonClient (sn_rt env) (sn_build env) (se_lib s) = (r, l)" by fastforce
  note i = getCaladonClient_inv [OF assms(1) session_okD(1) [OF assms(2)] g]
  have "session_ok env (s\<lparr>se_lib := l\<rparr>)" by (rule ok_lib [OF assms(2)]) (use i in blast)
  then have "session_ok env (s\<lparr>se_lib := l, se_error := e, se_ends := es\<rparr>)" for e es by (rule ok_frame) simp_all
  then show ?thesis using i g
    by (auto simp: start_unlock_def session_ok_def signed_in_ok_def stage_ok_def split: sum.splits)
qed

lemma ok_handshake_done:
  assumes "session_ok env s" "strict_client (sn_rt env) (sn_build env) c"
  shows "session_ok env (handshake_done env i seed c s)"
proof -
  obtain r l where u: "unlock_with (sn_rt env) c seed (se_lib s) = (r, l)" by fastforce
  note w = unlock_with_ok [OF assms(2) session_okD(1) [OF assms(1)] u]
  have l: "session_ok env (s\<lparr>se_lib := l\<rparr>)" by (rule ok_lib [OF assms(1)]) (use w in blast)
  show ?thesis
  proof (cases r)
    case (Inl e)
    then show ?thesis using u ok_settles [OF l] by (simp add: handshake_done_def)
  next
    case (Inr h)
    then have "stage_ok env (Deriving h (se_gen s))" using w by (simp add: stage_ok_def)
    from ok_stage [OF l this, of i seed] show ?thesis
      by (rule ok_frame) (simp_all add: handshake_done_def u Inr)
  qed
qed

lemma ok_key_derived:
  assumes "session_ok env s" "verified env h"
  shows "session_ok env (key_derived env i seed h g s)"
proof (cases "deriveStoreKeyHex (sn_store_key env) (root (hs_identity h))")
  case (Inl e)
  then show ?thesis using ok_finish [OF assms] by (simp add: key_derived_def)
next
  case (Inr k)
  have k: "verified_key env k" using assms(2) Inr by (auto simp: verified_key_def)
  have "session_ok env (s\<lparr>se_page := page_step (sn_stamp env) (Open_store k) (se_page s)\<rparr>)"
    by (rule ok_page [OF assms(1)]) (simp add: allowed_def k)
  moreover have "stage_ok env (Opening h p)" for p using assms(2) by (simp add: stage_ok_def)
  ultimately have "session_ok env (s\<lparr>se_page := openStore (sn_stamp env) k (se_page s),
      se_unlocks := (se_unlocks s)[i := (seed, Opening h p)]\<rparr>)" for p
    using ok_stage [where s = "s\<lparr>se_page := openStore (sn_stamp env) k (se_page s)\<rparr>"] by simp
  moreover have "session_ok env (s\<lparr>se_detached := se_detached s @ [k], se_unlocks := (se_unlocks s)[i := (seed, Opening h p)]\<rparr>)" for p
    using ok_stage [OF assms(1) \<open>stage_ok env (Opening h p)\<close>] k by (auto simp: session_ok_def signed_in_ok_def)
  ultimately show ?thesis by (simp add: key_derived_def Inr)
qed

lemma ok_proceed:
  assumes "session_ok env s"
  shows "session_ok env (proceed env i s)"
proof (cases "i < length (se_unlocks s)")
  case True
  obtain seed st where u: "se_unlocks s ! i = (seed, st)" by fastforce
  have "(seed, st) \<in> set (se_unlocks s)" using nth_mem [OF True] u by simp
  then have "stage_ok env st" using session_okD(2) [OF assms] by fastforce
  then show ?thesis using True u
    by (cases st) (auto simp: proceed_def stage_ok_def store_opened_def assms
        intro: ok_handshake_done ok_key_derived ok_finish split: option.split)
qed (simp add: proceed_def assms)

lemma ok_leave:
  assumes "session_ok env s"
  shows "session_ok env (leave env r s)"
proof -
  have "session_ok env (s\<lparr>se_lib := caladonLock (se_lib s)\<rparr>)"
    by (rule ok_lib [OF assms]) (simp add: lib_inv_def caladonLock_def)
  from ok_page [OF this, of Reset]
  have "session_ok env (s\<lparr>se_lib := caladonLock (se_lib s), se_page := resetStoreProxy (sn_stamp env) (se_page s)\<rparr>)"
    by simp
  then have "session_ok env (s\<lparr>se_lib := caladonLock (se_lib s), se_account := None,
      se_page := resetStoreProxy (sn_stamp env) (se_page s), se_rag := resetRagIndex (se_rag s), se_gen := Suc (se_gen s)\<rparr>)"
    by (rule ok_frame) simp_all
  then show ?thesis unfolding leave_def by (rule ok_apply) simp
qed

lemma ok_session_step:
  assumes "production (sn_build env)" "session_ok env s"
  shows "session_ok env (session_step env ev s)"
proof (cases ev)
  case (Hydrate_ends j)
  have "session_ok env (s\<lparr>se_hydrating := hs, se_rag := rg\<rparr>)" for hs rg
    by (rule ok_frame [OF assms(2)]) simp_all
  then show ?thesis using assms(2)
    by (simp add: Hydrate_ends end_hydrate_def Let_def case_prod_beta split: option.split)
next
  case (Operation b)
  have "event_bodies (Call b) \<subseteq> allowed env" if "\<not> is_INIT b"
    using that by (auto simp: is_INIT_def allowed_def)
  from ok_page [OF assms(2) this] show ?thesis using assms(2) by (auto simp: Operation)
next
  case (Worker_replies r)
  then show ?thesis using ok_page [OF assms(2), of "Message r"] by simp
next
  case (Worker_fails m)
  then show ?thesis using ok_page [OF assms(2), of "Worker_error m"] by simp
next
  case Login_form
  show ?thesis by (rule ok_frame [OF assms(2)]) (simp_all add: Login_form legacy_login_def)
next
  case (Mounted test)
  then show ?thesis using assms(2)
    by (auto simp: mount_effect_def session_ok_def signed_in_ok_def)
qed (use assms in \<open>simp_all add: ok_start_unlock ok_proceed ok_start_hydrate ok_leave lock_session_def logout_session_def\<close>)

lemma ok_new_session: "session_ok env new_session"
  by (simp add: session_ok_def new_session_def lib_inv_def new_lib_state_def signed_in_ok_def isUnlocked_def
      in_stretch_def new_page_def)

interpretation attested: event_loop "session_step env" "\<lambda>_. True" "\<lambda>s. production (sn_build env) \<longrightarrow> session_ok env s" for env
  by unfold_locales (simp add: ok_session_step)

lemma ok_run_session:
  assumes "production (sn_build env)"
  shows "session_ok env (run_session env evs new_session)"
  using attested.run_keeps [of env new_session evs] assms ok_new_session by (simp add: run_session_def)

subsection \<open>What a lock leaves\<close>

text \<open>Every step moves the proxy by at most one of its own steps.\<close>

lemma hydrate_page:
  "se_page (start_hydrate env force s) \<in> {se_page s, page_step (sn_stamp env) (Call HYDRATE_VECTORS) (se_page s)}"
  by (simp add: start_hydrate_def proxy_hydrateVectors_def)

lemma frame_pages:
  "se_page (unlock_settles i fin s) = se_page s" "se_page (applyUserContext a u r s) = se_page s"
  "se_page (start_unlock env seed s) = se_page s" "se_page (handshake_done env i seed c s) = se_page s"
  "se_page (end_hydrate j s) = se_page s" "se_page (mount_effect test s) = se_page s"
  "se_page (legacy_login s) = se_page s"
  "se_page (leave env rd s) = page_step (sn_stamp env) Reset (se_page s)"
  by (simp_all add: unlock_settles_def applyUserContext_def start_unlock_def handshake_done_def end_hydrate_def
      mount_effect_def legacy_login_def leave_def Let_def case_prod_beta split: sum.split option.split)

lemma finish_page:
  "se_page (finish_unlock env i h s) \<in> {se_page s, page_step (sn_stamp env) (Call HYDRATE_VECTORS) (se_page s)}"
  using hydrate_page [of env True "applyUserContext a u r s\<lparr>se_warmups := n\<rparr>" for a u r n]
  by (simp add: finish_unlock_def Let_def frame_pages)

lemma step_page: "\<exists>pes. se_page (session_step env ev s) = run_page (sn_stamp env) pes (se_page s)"
proof -
  define stays where "stays q \<longleftrightarrow> (\<exists>pes. q = run_page (sn_stamp env) pes (se_page s))" for q
  have base: "stays (se_page s)" "stays (page_step (sn_stamp env) pe (se_page s))" for pe
    unfolding stays_def run_page_def
    by (rule exI [of _ "[]"], simp, rule exI [of _ "[pe]"], simp)
  have hyd: "stays (se_page (start_hydrate env f s))" "stays (se_page (finish_unlock env i h s))" for f i h
    using hydrate_page [of env f s] finish_page [of env i h s] base(1) base(2) [of "Call HYDRATE_VECTORS"] by auto
  have "stays (se_page (proceed env i s))" for i
    using base(2) [of "Open_store _"] base(1) hyd(2)
    by (simp add: proceed_def key_derived_def store_opened_def frame_pages case_prod_beta
        split: unlock_stage.split sum.split option.split)
  then have "stays (se_page (session_step env ev s))"
    using base(1) hyd(1) base(2) [of "Call _"] base(2) [of "Message _"] base(2) [of "Worker_error _"] base(2) [of Reset]
    by (cases ev) (simp_all add: frame_pages lock_session_def logout_session_def)
  then show ?thesis by (simp add: stays_def)
qed

lemma run_page_append: "run_page stamp (xs @ ys) pg = run_page stamp ys (run_page stamp xs pg)"
  by (simp add: run_page_def)

lemma run_session_append: "run_session env (xs @ ys) s = run_session env ys (run_session env xs s)"
  by (simp add: run_session_def)

lemma run_session_page: "\<exists>pes. se_page (run_session env evs s) = run_page (sn_stamp env) pes (se_page s)"
proof (induction evs rule: rev_induct)
  case Nil
  show ?case by (rule exI [of _ "[]"]) (simp add: run_session_def run_page_def)
next
  case (snoc ev evs)
  then obtain pes where "se_page (run_session env evs s) = run_page (sn_stamp env) pes (se_page s)" by blast
  moreover obtain qs where "se_page (session_step env ev (run_session env evs s))
      = run_page (sn_stamp env) qs (se_page (run_session env evs s))" using step_page by blast
  moreover have "run_session env (evs @ [ev]) s = session_step env ev (run_session env evs s)"
    by (simp add: run_session_def)
  ultimately show ?case using run_page_append by metis
qed

lemma session_page_reach: "page_reach (sn_stamp env) (se_page (run_session env evs new_session))"
proof -
  obtain pes where "se_page (run_session env evs new_session) = run_page (sn_stamp env) pes new_page"
    using run_session_page [of env evs new_session] by (auto simp: new_session_def)
  then show ?thesis using reach_run page_reach.start by metis
qed

text \<open>A proxy that is closed for good: nothing is posted until it is opened.\<close>

definition proxy_closed :: "page \<Rightarrow> bool" where
  "proxy_closed pg \<longleftrightarrow> worker pg = None \<and> pending pg = [] \<and> \<not> opened_flag pg \<and> ready_of pg = Waiting"

lemma proxy_closed_steps:
  assumes "proxy_closed pg"
  shows "proxy_closed (call_op stamp b pg)" "posted (call_op stamp b pg) = posted pg"
    "proxy_closed (on_message stamp r pg)" "posted (on_message stamp r pg) = posted pg"
    "proxy_closed (on_error stamp m pg)" "posted (on_error stamp m pg) = posted pg"
  using assms by (simp_all add: proxy_closed_def call_op_def new_promise_def on_message_def on_error_def reject_pending_def)

lemma proxy_closed_reset: "proxy_closed (resetStoreProxy stamp pg)" "posted (resetStoreProxy stamp pg) = posted pg"
  by (simp_all add: proxy_closed_def resetStoreProxy_def terminate_fields)

text \<open>A hydration in flight began with the present index object or an older one.\<close>

definition gens_ok :: "session \<Rightarrow> bool" where
  "gens_ok s \<longleftrightarrow> (\<forall>(p, g, f)\<in>set (se_hydrating s). g \<le> se_gen s)"

lemma gens_hydrate: "gens_ok s \<Longrightarrow> gens_ok (start_hydrate env f s)"
  by (auto simp: gens_ok_def start_hydrate_def)

lemma gens_finish: "gens_ok s \<Longrightarrow> gens_ok (finish_unlock env i h s)"
proof -
  assume g: "gens_ok s"
  have "gens_ok (start_hydrate env True (applyUserContext a u r s\<lparr>se_warmups := n\<rparr>))" for a u r n
    by (rule gens_hydrate) (use g in \<open>simp add: gens_ok_def applyUserContext_def\<close>)
  then show ?thesis by (simp add: finish_unlock_def Let_def unlock_settles_def gens_ok_def)
qed

lemma gens_step: "gens_ok s \<Longrightarrow> gens_ok (session_step env ev s)"
proof (cases ev)
  case (Unlock_proceeds i)
  assume g: "gens_ok s"
  then have "gens_ok (s\<lparr>se_page := q, se_unlocks := u\<rparr>)" "gens_ok (s\<lparr>se_detached := d, se_unlocks := u\<rparr>)" for u q d
    by (simp_all add: gens_ok_def)
  moreover have "gens_ok (handshake_done env i seed c s)" for seed c
    using g by (simp add: handshake_done_def gens_ok_def unlock_settles_def split: sum.split prod.split)
  moreover have "gens_ok (finish_unlock env i h s)" for h using g by (rule gens_finish)
  ultimately have "gens_ok (proceed env i s)" using g
    by (simp add: proceed_def key_derived_def store_opened_def case_prod_beta
        split: unlock_stage.split sum.split option.split)
  then show ?thesis by (simp add: Unlock_proceeds)
next
  case (Hydrate_ends j)
  assume "gens_ok s"
  then have old: "\<forall>e\<in>set (se_hydrating s). fst (snd e) \<le> se_gen s" by (auto simp: gens_ok_def)
  then have "\<forall>e\<in>set (take j (se_hydrating s) @ drop (Suc j) (se_hydrating s)). fst (snd e) \<le> se_gen s"
    using in_shrunk [of _ j "se_hydrating s"] by blast
  then show ?thesis using old
    by (simp add: Hydrate_ends end_hydrate_def Let_def gens_ok_def case_prod_beta del: set_append split: option.split)
next
  case (Hydrate f)
  assume "gens_ok s"
  then show ?thesis by (simp add: Hydrate gens_hydrate)
qed (auto simp: start_unlock_def lock_session_def logout_session_def leave_def applyUserContext_def
    legacy_login_def mount_effect_def gens_ok_def split: sum.split prod.split intro: le_SucI)

interpretation generations: event_loop "session_step env" "\<lambda>_. True" gens_ok for env
  by unfold_locales (rule gens_step)

lemma gens_run: "gens_ok (run_session env evs new_session)"
  unfolding run_session_def by (rule generations.run_keeps) (simp_all add: gens_ok_def new_session_def)

text \<open>Locked, with the posts as they were: what every later event but an unlock preserves.\<close>

definition shut :: "(nat \<times> StoreRequest) list \<Rightarrow> session \<Rightarrow> bool" where
  "shut posts s \<longleftrightarrow> \<not> se_auth s \<and> se_user s = None \<and> se_account s = None \<and> \<not> isUnlocked (se_lib s)
     \<and> se_unlocks s = [] \<and> proxy_closed (se_page s) \<and> posted (se_page s) = posts
     \<and> ri_entries (shared (se_rag s)) = [] \<and> (\<forall>(p, g, f)\<in>set (se_hydrating s). g < se_gen s)"

lemma shut_leave:
  assumes "se_unlocks s = []" "gens_ok s"
  shows "shut (posted (se_page s)) (leave env r s)"
  using assms proxy_closed_reset
  by (auto simp: shut_def leave_def applyUserContext_def isUnlocked_def caladonLock_def resetRagIndex_def
      new_rag_def new_index_def gens_ok_def)

lemma shut_step:
  assumes "shut posts s" "\<And>seed. ev \<noteq> Unlock seed"
  shows "shut posts (session_step env ev s)"
proof -
  have l: "shut posts (leave env r s)" for r
  proof -
    have "gens_ok s" using assms(1) by (fastforce simp: shut_def gens_ok_def)
    from shut_leave [OF _ this] show ?thesis using assms(1) by (simp add: shut_def)
  qed
  show ?thesis
  proof (cases ev)
    case (Hydrate f)
    then show ?thesis using assms(1)
      by (auto simp: start_hydrate_def shut_def proxy_closed_def isOpen_def index_load_def)
  next
    case (Hydrate_ends j)
    show ?thesis
    proof (cases "j < length (se_hydrating s)")
      case True
      obtain p g f where h: "se_hydrating s ! j = (p, g, f)" by (cases "se_hydrating s ! j") auto
      have old: "\<forall>e\<in>set (se_hydrating s). fst (snd e) < se_gen s" using assms(1) by (auto simp: shut_def)
      then have "g < se_gen s" using nth_mem [OF True] h by fastforce
      moreover have "\<forall>e\<in>set (take j (se_hydrating s) @ drop (Suc j) (se_hydrating s)). fst (snd e) < se_gen s"
        using old in_shrunk [of _ j "se_hydrating s"] by blast
      ultimately show ?thesis using assms(1) True
        by (simp add: Hydrate_ends end_hydrate_def h shut_def case_prod_beta del: set_append split: option.split)
    qed (use assms(1) in \<open>simp add: Hydrate_ends end_hydrate_def\<close>)
  next
    case (Unlock_proceeds i)
    then show ?thesis using assms(1) by (simp add: proceed_def shut_def)
  qed (use assms l in \<open>simp_all add: proxy_closed_steps shut_def lock_session_def logout_session_def legacy_login_def
    mount_effect_def\<close>)
qed

interpretation locked: event_loop "session_step env" "\<lambda>e. \<forall>seed. e \<noteq> Unlock seed" "shut posts" for env posts
  by unfold_locales (blast intro: shut_step)

lemma shut_run:
  assumes "shut posts s" "\<forall>seed. Unlock seed \<notin> set evs"
  shows "shut posts (run_session env evs s)"
  unfolding run_session_def by (rule locked.run_keeps) (use assms in auto)

subsection \<open>Properties\<close>

text \<open>Who is signed in, traced to the handshake: the history of the page is kept beside the invariant.
  \<open>shook env evs seed h\<close>: in the run of \<open>evs\<close> an unlock asked for with \<open>seed\<close> went through its handshake, and \<open>h\<close> is
  what came out of it.\<close>

definition shook :: "session_env \<Rightarrow> session_event list \<Rightarrow> bytes \<Rightarrow> HandshakeResult \<Rightarrow> bool" where
  "shook env evs seed h \<longleftrightarrow> (\<exists>pre i post c l. evs = pre @ Unlock_proceeds i # post
     \<and> Unlock seed \<in> set pre \<and> i < length (se_unlocks (run_session env pre new_session))
     \<and> se_unlocks (run_session env pre new_session) ! i = (seed, Handshaking c)
     \<and> unlock_with (sn_rt env) c seed (se_lib (run_session env pre new_session)) = (Inr h, l))"

definition traced :: "session_env \<Rightarrow> session_event list \<Rightarrow> bytes \<times> unlock_stage \<Rightarrow> bool" where
  "traced env evs u \<longleftrightarrow> (case u of
       (seed, Handshaking c) \<Rightarrow> Unlock seed \<in> set evs
     | (seed, Deriving h g) \<Rightarrow> shook env evs seed h
     | (seed, Opening h p) \<Rightarrow> shook env evs seed h)"

text \<open>The unlock that ended last with the user signed in.\<close>

definition last_unlocked :: "session \<Rightarrow> bytes option" where
  "last_unlocked s = (let es = filter (\<lambda>e. snd e = Unlocked) (se_ends s) in if es = [] then None else Some (fst (last es)))"

definition signed_by :: "session_env \<Rightarrow> session_event list \<Rightarrow> session \<Rightarrow> bool" where
  "signed_by env evs s \<longleftrightarrow> (se_auth s \<longrightarrow> (\<exists>seed h. last_unlocked s = Some seed \<and> shook env evs seed h
     \<and> se_user s = Some (caladon_user env (accountId (hs_identity h)))))"

definition history_ok :: "session_env \<Rightarrow> session_event list \<Rightarrow> session \<Rightarrow> bool" where
  "history_ok env evs s \<longleftrightarrow> (\<forall>u\<in>set (se_unlocks s). traced env evs u) \<and> signed_by env evs s"

lemma shook_later: "shook env evs seed h \<Longrightarrow> shook env (evs @ [e]) seed h"
  by (fastforce simp: shook_def)

lemma history_later: "history_ok env evs s \<Longrightarrow> history_ok env (evs @ [e]) s"
  using shook_later by (fastforce simp: history_ok_def traced_def signed_by_def split: unlock_stage.splits)

lemma shook_verified:
  assumes "production (sn_build env)" "shook env evs seed h"
  shows "verified env h"
proof -
  obtain pre i c l where s: "i < length (se_unlocks (run_session env pre new_session))"
    "se_unlocks (run_session env pre new_session) ! i = (seed, Handshaking c)"
    "unlock_with (sn_rt env) c seed (se_lib (run_session env pre new_session)) = (Inr h, l)"
    using assms(2) by (auto simp: shook_def)
  note ok = ok_run_session [OF assms(1), of pre]
  have "stage_ok env (Handshaking c)" using session_okD(2) [OF ok nth_mem [OF s(1)]] s(2) by simp
  then show ?thesis using unlock_with_ok [OF _ session_okD(1) [OF ok] s(3)] by (simp add: stage_ok_def)
qed

text \<open>A step that leaves the unlocks in flight, the ones that ended and the user alone.\<close>

lemma history_frame:
  assumes "history_ok env evs s" "se_unlocks t = se_unlocks s" "se_ends t = se_ends s" "se_auth t = se_auth s" "se_user t = se_user s"
  shows "history_ok env evs t"
  using assms by (simp add: history_ok_def signed_by_def last_unlocked_def)

lemma history_settles:
  assumes "history_ok env evs s" "i < length (se_unlocks s)" "r \<noteq> Unlocked"
  shows "history_ok env evs (unlock_settles i r s)"
  using assms in_shrunk [of _ i "se_unlocks s"]
  by (auto simp: history_ok_def signed_by_def last_unlocked_def unlock_settles_def simp del: set_append)

lemma finish_fields:
  "se_auth (finish_unlock env i h s)" "se_user (finish_unlock env i h s) = Some (caladon_user env (accountId (hs_identity h)))"
  "se_ends (finish_unlock env i h s) = se_ends s @ [(fst (se_unlocks s ! i), Unlocked)]"
  "se_unlocks (finish_unlock env i h s) = take i (se_unlocks s) @ drop (Suc i) (se_unlocks s)"
  by (simp_all add: finish_unlock_def unlock_settles_def start_hydrate_def applyUserContext_def Let_def)

lemma history_finish:
  assumes "history_ok env evs s" "fst (se_unlocks s ! i) = seed" "shook env evs seed h"
  shows "history_ok env evs (finish_unlock env i h s)"
proof -
  have "last_unlocked (finish_unlock env i h s) = Some seed"
    using assms(2) by (simp add: last_unlocked_def finish_fields)
  moreover have "\<forall>u\<in>set (take i (se_unlocks s) @ drop (Suc i) (se_unlocks s)). traced env evs u"
    using assms(1) in_shrunk unfolding history_ok_def by metis
  ultimately show ?thesis using assms(3) by (auto simp: history_ok_def signed_by_def finish_fields)
qed

lemma history_stage:
  assumes "history_ok env evs s" "traced env evs (seed, st)"
    and "se_unlocks t = (se_unlocks s)[i := (seed, st)]" "se_ends t = se_ends s" "se_auth t = se_auth s" "se_user t = se_user s"
  shows "history_ok env evs t"
  using assms by (auto simp: history_ok_def signed_by_def last_unlocked_def dest!: set_update_subset_insert [THEN subsetD])

lemma history_proceed:
  assumes "s = run_session env evs new_session" "history_ok env evs s"
  shows "history_ok env (evs @ [Unlock_proceeds i]) (proceed env i s)"
proof (cases "i < length (se_unlocks s)")
  case True
  obtain seed st where u: "se_unlocks s ! i = (seed, st)" by fastforce
  have tr: "traced env evs (seed, st)" using assms(2) nth_mem [OF True] u unfolding history_ok_def by metis
  let ?evs = "evs @ [Unlock_proceeds i]"
  have h: "history_ok env ?evs s" by (rule history_later [OF assms(2)])
  show ?thesis
  proof (cases st)
    case (Handshaking c)
    obtain r l where w: "unlock_with (sn_rt env) c seed (se_lib s) = (r, l)" by fastforce
    show ?thesis
    proof (cases r)
      case (Inl e)
      have "end_of e \<noteq> Unlocked" by (simp add: end_of_def split: cerror.split)
      moreover have "history_ok env ?evs (s\<lparr>se_lib := l\<rparr>)" by (rule history_frame [OF h]) simp_all
      ultimately show ?thesis using True u w Inl Handshaking history_settles [where s = "s\<lparr>se_lib := l\<rparr>"]
        by (simp add: proceed_def handshake_done_def)
    next
      case (Inr x)
      have "shook env ?evs seed x" using True u w Inr Handshaking tr assms(1)
        unfolding shook_def traced_def by (intro exI [of _ evs] exI [of _ i] exI [of _ "[]"] exI [of _ c] exI [of _ l]) simp
      then have "traced env ?evs (seed, Deriving x (se_gen s))" by (simp add: traced_def)
      from history_stage [OF h this] show ?thesis using True u w Inr Handshaking
        by (simp add: proceed_def handshake_done_def)
    qed
  next
    case (Deriving x g)
    have sh: "shook env ?evs seed x" using tr Deriving shook_later by (simp add: traced_def)
    then have o: "traced env ?evs (seed, Opening x p)" for p by (simp add: traced_def)
    show ?thesis using True u Deriving history_finish [OF h _ sh, of i] history_stage [OF h o]
      by (auto simp: proceed_def key_derived_def split: sum.split)
  next
    case (Opening x p)
    have sh: "shook env ?evs seed x" using tr Opening shook_later by (simp add: traced_def)
    show ?thesis using True u Opening history_finish [OF h _ sh, of i] h
      by (auto simp: proceed_def store_opened_def split: option.split)
  qed
qed (use history_later [OF assms(2)] in \<open>simp add: proceed_def\<close>)

lemma history_run: "history_ok env evs (run_session env evs new_session)"
proof (induction evs rule: rev_induct)
  case Nil
  show ?case by (simp add: run_session_def history_ok_def new_session_def signed_by_def isUnlocked_def new_lib_state_def)
next
  case (snoc ev evs)
  let ?s = "run_session env evs new_session"
  have later: "history_ok env (evs @ [ev]) ?s" by (rule history_later [OF snoc])
  have "history_ok env (evs @ [ev]) (session_step env ev ?s)"
  proof (cases ev)
    case (Unlock seed)
    obtain r l where g: "getCaladonClient (sn_rt env) (sn_build env) (se_lib ?s) = (r, l)" by fastforce
    have "end_of e \<noteq> Unlocked" for e by (simp add: end_of_def split: cerror.split)
    then show ?thesis using later g Unlock
      by (auto simp: start_unlock_def history_ok_def signed_by_def last_unlocked_def traced_def split: sum.splits)
  next
    case (Unlock_proceeds i)
    then show ?thesis using history_proceed [OF refl snoc] by simp
  next
    case (Hydrate f)
    show ?thesis by (rule history_frame [OF later]) (simp_all add: Hydrate start_hydrate_def)
  next
    case (Hydrate_ends j)
    show ?thesis by (rule history_frame [OF later])
      (simp_all add: Hydrate_ends end_hydrate_def Let_def case_prod_beta split: option.split)
  next
    case (Mounted test)
    then show ?thesis using later by (auto simp: mount_effect_def history_ok_def signed_by_def last_unlocked_def)
  qed (use later in \<open>simp_all add: lock_session_def logout_session_def leave_def applyUserContext_def legacy_login_def
    history_ok_def signed_by_def last_unlocked_def\<close>)
  then show ?case by (simp add: run_session_def)
qed

text \<open>C3. Whoever is signed in has been attested: in a production build, after any events in any order - unlocks that
  overlap, locks in the middle of one, failing stores - a page that shows itself signed in shows the account of
  the unlock that ended last: the user asked for it with its seed, its handshake was run with that seed by the
  client of the page at one of the events, and what came out of that very handshake is the account shown and was
  verified for the pinned set of the build.\<close>

theorem signed_in_is_attested:
  assumes "production (sn_build env)" "se_auth (run_session env evs new_session)"
  shows "\<exists>seed h pre i post c l. last_unlocked (run_session env evs new_session) = Some seed
    \<and> evs = pre @ Unlock_proceeds i # post \<and> Unlock seed \<in> set pre
    \<and> i < length (se_unlocks (run_session env pre new_session))
    \<and> se_unlocks (run_session env pre new_session) ! i = (seed, Handshaking c)
    \<and> unlock_with (sn_rt env) c seed (se_lib (run_session env pre new_session)) = (Inr h, l)
    \<and> verified_result (sn_rt env) (sn_build env) h
    \<and> se_user (run_session env evs new_session) = Some (caladon_user env (accountId (hs_identity h)))"
proof -
  obtain seed h where s: "last_unlocked (run_session env evs new_session) = Some seed" "shook env evs seed h"
    "se_user (run_session env evs new_session) = Some (caladon_user env (accountId (hs_identity h)))"
    using history_run [of env evs] assms(2) by (auto simp: history_ok_def signed_by_def)
  then show ?thesis using shook_verified [OF assms(1) s(2)] unfolding shook_def by blast
qed

text \<open>C4. A lock is final: once the page has locked or logged out with no unlock in flight, then whatever follows except
  a new unlock - operations of every kind, late replies of the old worker, hydrations that were in flight -
  nobody is signed in, there is no identity, the index is empty, and not one request is posted to any worker.\<close>

theorem locked_stays_locked:
  assumes "se_unlocks (run_session env evs new_session) = []" "ev = Lock \<or> (\<exists>r. ev = Logout r)"
    and "\<forall>seed. Unlock seed \<notin> set later"
  shows "let s = run_session env (evs @ ev # later) new_session in
    \<not> se_auth s \<and> se_user s = None \<and> \<not> isUnlocked (se_lib s) \<and> worker (se_page s) = None
    \<and> posted (se_page s) = posted (se_page (run_session env evs new_session)) \<and> \<not> isReady (shared (se_rag s))"
proof -
  let ?s = "run_session env evs new_session"
  have "shut (posted (se_page ?s)) (session_step env ev ?s)"
    using shut_leave [OF assms(1) gens_run] assms(2) by (auto simp: lock_session_def logout_session_def)
  then have "shut (posted (se_page ?s)) (run_session env later (session_step env ev ?s))"
    by (rule shut_run) (rule assms(3))
  moreover have "run_session env (evs @ ev # later) new_session = run_session env later (session_step env ev ?s)"
    by (simp add: run_session_def)
  ultimately show ?thesis by (simp add: shut_def proxy_closed_def Let_def isReady_def)
qed

text \<open>C5. The databases of two identities do not meet: what is posted after a lock goes to workers nothing was posted
  to before, the first request each of them gets is an INIT, and in a production build every key given to
  any worker is the store key of an identity whose handshake was verified.\<close>

theorem sessions_kept_apart:
  assumes "ev = Lock \<or> (\<exists>r. ev = Logout r)" "production (sn_build env)"
  shows "let before = posted (se_page (run_session env evs new_session));
             after_all = posted (se_page (run_session env (evs @ ev # later) new_session));
             new = drop (length before) after_all
    in after_all = before @ new \<and> fst ` set new \<inter> fst ` set before = {} \<and> init_first new
      \<and> (\<forall>(w, q)\<in>set after_all. \<forall>k. sq_body q = INIT k \<longrightarrow> (\<exists>h. verified_result (sn_rt env) (sn_build env) h
            \<and> deriveStoreKeyHex (sn_store_key env) (root (hs_identity h)) = Inr k))"
proof -
  let ?s = "run_session env evs new_session" and ?t = "run_session env (evs @ ev # later) new_session"
  let ?pg = "se_page ?s"
  have t: "?t = run_session env later (session_step env ev ?s)" by (simp add: run_session_def)
  have "se_page (session_step env ev ?s) = resetStoreProxy (sn_stamp env) ?pg"
    using assms(1) by (auto simp: lock_session_def logout_session_def frame_pages)
  moreover obtain pes where "se_page ?t = run_page (sn_stamp env) pes (se_page (session_step env ev ?s))"
    using run_session_page t by metis
  ultimately have p: "se_page ?t = run_page (sn_stamp env) pes (resetStoreProxy (sn_stamp env) ?pg)" by simp
  note apart = pages_kept_apart [OF session_page_reach [of env evs], of pes, folded p]
  have "in_stretch [] 0 (allowed env) (se_page ?t)"
    by (rule session_okD(4) [OF ok_run_session [OF assms(2)]])
  then have "\<forall>(w, q)\<in>set (posted (se_page ?t)). sq_body q \<in> allowed env"
    using in_stretchD(3) by fastforce
  then show ?thesis using apart by (auto simp: Let_def allowed_def verified_key_def)
qed

subsection \<open>An unlock from the click to the chat\<close>

lemma open_closed:
  assumes "page_ok stamp {#} pg" "proxy_closed pg" "waiting pg = []" "Suc (length (posted pg)) < MAX_SAFE_INTEGER"
    and "pg' = on_message stamp \<lparr>sr_requestId = request_id stamp (Suc (length (posted pg))), sr_body = OK None\<rparr> (openStore stamp k pg)"
  shows "ready_of pg' = Opened" "isOpen pg'" "pending pg' = []" "length (posted pg') = Suc (length (posted pg))"
    "settled pg' = settled pg @ [(next_promise pg, Resolved (OK None))]" "next_promise pg' = Suc (next_promise pg)"
    "sq_body (snd (last (posted pg'))) = INIT k"
proof -
  have c: "(counter pg + 1) mod MAX_SAFE_INTEGER = Suc (length (posted pg))"
    using assms(1,4) by (simp add: page_ok_def)
  have "pending (openStore stamp k pg) = [(request_id stamp (Suc (length (posted pg))), next_promise pg, KInit)]"
    using assms(2) c [unfolded Suc_eq_plus1]
    by (simp add: openStore_def new_promise_def send_fields map_set_def proxy_closed_def)
  then have p: "pg' = adopt (next_promise pg) (resolveReady stamp ((openStore stamp k pg)\<lparr>pending := [], opened_flag := True\<rparr>))"
    unfolding assms(5) by (simp add: on_message_def outcome_of_def continue_def map_delete_def)
  show "ready_of pg' = Opened" "isOpen pg'" "pending pg' = []" "length (posted pg') = Suc (length (posted pg))"
    "settled pg' = settled pg @ [(next_promise pg, Resolved (OK None))]" "next_promise pg' = Suc (next_promise pg)"
    "sq_body (snd (last (posted pg'))) = INIT k"
    using assms(2,3) unfolding p
    by (simp_all add: openStore_def new_promise_def proxy_closed_def resolveReady_def adopt_def settle_def send_fields isOpen_def)
qed

lemma fresh_unsettled:
  assumes "page_ok stamp {#} pg" "length (posted pg) < MAX_SAFE_INTEGER"
  shows "map_of (settled pg @ [(next_promise pg, out)]) (next_promise pg) = Some out"
proof -
  have "held pg = mset [0 ..< next_promise pg]" using assms by (simp add: page_ok_def)
  then have "set_mset (held pg) = {0 ..< next_promise pg}" by simp
  then have "fst ` set (settled pg) \<subseteq> {0 ..< next_promise pg}" by (auto simp: held_def)
  then have "next_promise pg \<notin> fst ` set (settled pg)" by auto
  then have "map_of (settled pg) (next_promise pg) = None" by (simp add: map_of_eq_None_iff)
  then show ?thesis by (simp add: map_add_def)
qed

lemma unlocked_lib: "caladonUnlock rte ve seed s = (Inr h, l) \<Longrightarrow> isUnlocked l"
  by (auto simp: caladonUnlock_def andThen_def on_client_def ret_def isUnlocked_def split: prod.splits sum.splits)

text \<open>The four parts of an unlock that meets no error.\<close>

lemma unlock_run:
  assumes "caladonUnlock (sn_rt env) (sn_build env) seed (se_lib s) = (Inr h, l)"
    and "deriveStoreKeyHex (sn_store_key env) (root (hs_identity h)) = Inr k" and "se_unlocks s = []"
  shows "run_session env [Unlock seed, Unlock_proceeds 0, Unlock_proceeds 0] s =
    s\<lparr>se_error := None, se_lib := l, se_account := Some (accountId (hs_identity h)),
      se_page := openStore (sn_stamp env) k (se_page s),
      se_unlocks := [(seed, Opening h (Some (next_promise (se_page s))))]\<rparr>"
proof -
  obtain c t where c: "getCaladonClient (sn_rt env) (sn_build env) (se_lib s) = (Inr c, t)"
      "unlock_with (sn_rt env) c seed t = (Inr h, l)"
    using assms(1) by (auto simp: caladonUnlock_halves andThen_def split: prod.splits sum.splits)
  show ?thesis
    using assms(2,3) by (simp add: run_session_def start_unlock_def c proceed_def handshake_done_def key_derived_def)
qed

lemma unlock_reaches:
  assumes "caladonUnlock (sn_rt env) (sn_build env) seed (se_lib s) = (Inr h, l)"
    and "deriveStoreKeyHex (sn_store_key env) (root (hs_identity h)) = Inr k"
    and "se_unlocks s = []" and "proxy_closed (se_page s)" and "waiting (se_page s) = []"
    and "page_reach (sn_stamp env) (se_page s)" and "length (posted (se_page s)) + 2 < MAX_SAFE_INTEGER"
    and "n = length (posted (se_page s))"
  shows "let s' = run_session env
      [Unlock seed, Unlock_proceeds 0, Unlock_proceeds 0,
       Worker_replies \<lparr>sr_requestId = request_id (sn_stamp env) (Suc n), sr_body = OK None\<rparr>, Unlock_proceeds 0,
       Worker_replies \<lparr>sr_requestId = request_id (sn_stamp env) (Suc (Suc n)), sr_body = VECTORS vs\<rparr>,
       Hydrate_ends (length (se_hydrating s))] s
    in se_auth s' \<and> se_user s' = Some (caladon_user env (accountId (hs_identity h))) \<and> isUnlocked (se_lib s')
     \<and> se_redirects s' = se_redirects s @ [js ''/c/new''] \<and> isOpen (se_page s') \<and> shared (se_rag s') = index_load vs
     \<and> se_ends s' = se_ends s @ [(seed, Unlocked)] \<and> se_unlocks s' = []"
proof -
  let ?st = "sn_stamp env" and ?pg = "se_page s"
  let ?ack = "\<lparr>sr_requestId = request_id ?st (Suc n), sr_body = OK None\<rparr>"
  let ?vec = "\<lparr>sr_requestId = request_id ?st (Suc (Suc n)), sr_body = VECTORS vs\<rparr>"
  have ok: "page_ok ?st {#} ?pg" by (rule reach_ok [OF assms(6)])
  define p1 where "p1 = on_message ?st ?ack (openStore ?st k ?pg)"
  have "Suc (length (posted ?pg)) < MAX_SAFE_INTEGER" using assms(7) by simp
  note o = open_closed [OF ok assms(4,5) this p1_def [unfolded assms(8)]]
  have ok1: "page_ok ?st {#} p1"
    using ok_step [OF ok_step [OF ok, of "Open_store k"], of "Message ?ack"] by (simp add: p1_def)
  have len: "Suc (length (posted p1)) < MAX_SAFE_INTEGER" using assms(7) o(4) by simp
  define p2 where "p2 = call_op ?st HYDRATE_VECTORS p1"
  note c = call_opened [OF ok1 o(1) len, of HYDRATE_VECTORS, folded p2_def]
  have open2: "opened_flag p2" using o(1,2) by (simp add: p2_def call_op_def new_promise_def send_fields isOpen_def)
  define p3 where "p3 = on_message ?st ?vec p2"
  have p3: "settled p3 = settled p1 @ [(next_promise p1, Resolved (VECTORS vs))]" "opened_flag p3"
    using c o(3,4) open2 assms(8)
    by (simp_all add: p3_def on_message_def continue_def outcome_of_def settle_def)
  have look: "map_of (settled p3) (next_promise p1) = Some (Resolved (VECTORS vs))"
    unfolding p3(1) by (rule fresh_unsettled [OF ok1]) (use len in simp)
  have settled1: "next_promise ?pg \<in> fst ` set (settled p1)" by (simp add: o(5))
  define u where "u = applyUserContext True (Some (caladon_user env (accountId (hs_identity h)))) (Some (js ''/c/new''))
     (s\<lparr>se_error := None, se_lib := l, se_account := Some (accountId (hs_identity h)),
        se_unlocks := [(seed, Opening h (Some (next_promise ?pg)))], se_page := p1\<rparr>)"
  have split: "[Unlock seed, Unlock_proceeds 0, Unlock_proceeds 0, Worker_replies ?ack, Unlock_proceeds 0]
    = [Unlock seed, Unlock_proceeds 0, Unlock_proceeds 0] @ [Worker_replies ?ack, Unlock_proceeds 0]" by simp
  have r: "run_session env [Unlock seed, Unlock_proceeds 0, Unlock_proceeds 0, Worker_replies ?ack, Unlock_proceeds 0] s
    = unlock_settles 0 Unlocked (start_hydrate env True (u\<lparr>se_warmups := Suc (se_warmups u)\<rparr>))"
    unfolding split using settled1
    by (simp add: run_session_append unlock_run [OF assms(1-3)] del: append.simps)
      (simp add: run_session_def p1_def [symmetric] proceed_def store_opened_def finish_unlock_def u_def Let_def)
  have u: "se_page u = p1" "se_hydrating u = se_hydrating s" "se_gen u = se_gen s"
    by (simp_all add: u_def applyUserContext_def)
  have "run_session env [Unlock seed, Unlock_proceeds 0, Unlock_proceeds 0, Worker_replies ?ack, Unlock_proceeds 0,
      Worker_replies ?vec, Hydrate_ends (length (se_hydrating s))] s
    = end_hydrate (length (se_hydrating s)) (session_step env (Worker_replies ?vec)
        (unlock_settles 0 Unlocked (start_hydrate env True (u\<lparr>se_warmups := Suc (se_warmups u)\<rparr>))))"
    using r by (simp add: run_session_def)
  then show ?thesis
    using o(2) look p3(2) unlocked_lib [OF assms(1)]
    by (simp add: start_hydrate_def u proxy_hydrateVectors_def p2_def [symmetric] p3_def [symmetric] unlock_settles_def
        end_hydrate_def vectors_in_def isOpen_def Let_def) (simp add: u_def applyUserContext_def)
qed

text \<open>C6. An unlock reaches the chat: from a locked page, when the handshake succeeds, the worker acknowledges the key and
  answers with its vectors, the user is signed in under the account of the handshake and sent to a new chat,
  the store is open, and the index holds exactly the vectors the worker has stored.\<close>

theorem unlock_reaches_chat:
  assumes "caladonUnlock (sn_rt env) (sn_build env) seed (se_lib s) = (Inr h, l)"
    and "deriveStoreKeyHex (sn_store_key env) (root (hs_identity h)) = Inr k"
    and "se_unlocks s = []" and "proxy_closed (se_page s)" and "waiting (se_page s) = []"
    and "page_reach (sn_stamp env) (se_page s)" and "length (posted (se_page s)) + 2 < MAX_SAFE_INTEGER"
    and "n = length (posted (se_page s))"
  shows "let s' = run_session env
      [Unlock seed, Unlock_proceeds 0, Unlock_proceeds 0,
       Worker_replies \<lparr>sr_requestId = request_id (sn_stamp env) (Suc n), sr_body = OK None\<rparr>, Unlock_proceeds 0,
       Worker_replies \<lparr>sr_requestId = request_id (sn_stamp env) (Suc (Suc n)), sr_body = VECTORS vs\<rparr>,
       Hydrate_ends (length (se_hydrating s))] s
    in se_auth s' \<and> se_user s' = Some (caladon_user env (accountId (hs_identity h))) \<and> isUnlocked (se_lib s')
     \<and> se_redirects s' = se_redirects s @ [js ''/c/new''] \<and> isOpen (se_page s') \<and> shared (se_rag s') = index_load vs
     \<and> se_ends s' = se_ends s @ [(seed, Unlocked)] \<and> se_unlocks s' = []"
  using assms by (rule unlock_reaches)

text \<open>Nothing cancels an unlock that is in flight: one that a lock overtakes after its handshake still opens a store with the
  locked identity's key, on a proxy object nothing refers to any more, and then shows its user as signed
  in, while the SDK has no session.\<close>

lemma lock_does_not_cancel:
  assumes "se_unlocks s = [(seed, Deriving h (se_gen s))]"
    and "deriveStoreKeyHex (sn_store_key env) (root (hs_identity h)) = Inr k"
  shows "let s' = run_session env [Lock, Unlock_proceeds 0, Unlock_proceeds 0] s in
    se_auth s' \<and> se_user s' = Some (caladon_user env (accountId (hs_identity h)))
    \<and> \<not> isUnlocked (se_lib s') \<and> \<not> isOpen (se_page s') \<and> se_detached s' = se_detached s @ [k]"
proof -
  have "\<not> opened_flag (resetStoreProxy (sn_stamp env) (se_page s))" by (simp add: resetStoreProxy_def terminate_fields)
  then show ?thesis using assms
    by (simp add: run_session_def lock_session_def leave_def applyUserContext_def proceed_def key_derived_def
        store_opened_def finish_unlock_def start_hydrate_def unlock_settles_def isUnlocked_def caladonLock_def isOpen_def Let_def
        resetRagIndex_def new_rag_def)
qed

subsection \<open>A session on the concrete build\<close>

definition sample_session :: session_env where
  "sample_session = \<lparr>sn_rt = lib_runtime, sn_build = lib_production, sn_stamp = no_stamp, sn_store_key = Inr id,
     sn_USER = js ''USER''\<rparr>"

definition sample_unlock :: "session_event list" where
  "sample_unlock = [Unlock [], Unlock_proceeds 0, Unlock_proceeds 0,
     Worker_replies \<lparr>sr_requestId = request_id no_stamp 1, sr_body = OK None\<rparr>, Unlock_proceeds 0,
     Worker_replies \<lparr>sr_requestId = request_id no_stamp 2, sr_body = VECTORS []\<rparr>, Hydrate_ends 0]"

lemma sample_reaches:
  "\<exists>h l. caladonUnlock (sn_rt sample_session) (sn_build sample_session) [] (se_lib new_session) = (Inr h, l)
     \<and> deriveStoreKeyHex (sn_store_key sample_session) (root (hs_identity h)) = Inr (toHex (root (hs_identity h)))"
  using lib_unlock by (fastforce simp: sample_session_def new_session_def deriveStoreKeyHex_def deriveStoreKeyHexFrom_def Let_def)

lemma new_session_page: "proxy_closed (se_page new_session)" "waiting (se_page new_session) = []"
  "page_reach no_stamp (se_page new_session)" "posted (se_page new_session) = []" "se_unlocks new_session = []"
  "se_hydrating new_session = []"
  by (simp_all add: new_session_def proxy_closed_def) (simp_all add: new_page_def, metis new_page_def page_reach.start)

lemma sample_fits:
  "length (posted (se_page new_session)) + 2 < MAX_SAFE_INTEGER" "sn_stamp sample_session = no_stamp"
  "page_reach (sn_stamp sample_session) (se_page new_session)"
  by (simp_all add: new_session_page MAX_SAFE_INTEGER_def sample_session_def)

lemma unlock_reaches_chat_witness:
  "let s = run_session sample_session sample_unlock new_session in se_auth s \<and> isOpen (se_page s) \<and> shared (se_rag s) = index_load []"
proof -
  obtain h l where u: "caladonUnlock (sn_rt sample_session) (sn_build sample_session) [] (se_lib new_session) = (Inr h, l)"
    "deriveStoreKeyHex (sn_store_key sample_session) (root (hs_identity h)) = Inr (toHex (root (hs_identity h)))"
    using sample_reaches by blast
  from unlock_reaches_chat [OF u new_session_page(5,1,2) sample_fits(3,1) refl, of "[]"] show ?thesis
    using new_session_page by (simp add: sample_fits sample_unlock_def Let_def numeral_2_eq_2)
qed

lemma sample_signed_in:
  "se_auth (run_session sample_session sample_unlock new_session)"
  "se_unlocks (run_session sample_session sample_unlock new_session) = []"
proof -
  obtain h l where u: "caladonUnlock (sn_rt sample_session) (sn_build sample_session) [] (se_lib new_session) = (Inr h, l)"
    "deriveStoreKeyHex (sn_store_key sample_session) (root (hs_identity h)) = Inr (toHex (root (hs_identity h)))"
    using sample_reaches by blast
  from unlock_reaches [OF u new_session_page(5,1,2) sample_fits(3,1) refl, of "[]"]
  show "se_auth (run_session sample_session sample_unlock new_session)"
    "se_unlocks (run_session sample_session sample_unlock new_session) = []"
    using new_session_page by (simp_all add: sample_fits sample_unlock_def Let_def numeral_2_eq_2)
qed

lemma sample_production: "production (sn_build sample_session)"
  by (simp add: sample_session_def production_def lib_production_def)

lemma signed_in_is_attested_witness:
  "\<exists>seed h. Unlock seed \<in> set sample_unlock \<and> verified_result lib_runtime lib_production h
    \<and> se_user (run_session sample_session sample_unlock new_session) = Some (caladon_user sample_session (accountId (hs_identity h)))"
proof -
  obtain seed h pre i post where "sample_unlock = pre @ Unlock_proceeds i # post" "Unlock seed \<in> set pre"
    "verified_result (sn_rt sample_session) (sn_build sample_session) h"
    "se_user (run_session sample_session sample_unlock new_session) = Some (caladon_user sample_session (accountId (hs_identity h)))"
    using signed_in_is_attested [OF sample_production sample_signed_in(1)] by blast
  moreover from this(1,2) have "Unlock seed \<in> set sample_unlock" by (metis Un_iff set_append)
  ultimately show ?thesis by (intro exI [of _ seed] exI [of _ h]) (simp add: sample_session_def)
qed

lemma locked_stays_locked_witness:
  "let s = run_session sample_session (sample_unlock @ Lock # [Operation LIST_AGENTS, Hydrate True]) new_session
    in \<not> se_auth s \<and> \<not> isUnlocked (se_lib s) \<and> \<not> isReady (shared (se_rag s))"
  using locked_stays_locked [OF sample_signed_in(2), of Lock "[Operation LIST_AGENTS, Hydrate True]"]
  by (simp add: Let_def)

lemma sessions_kept_apart_witness:
  "let before = posted (se_page (run_session sample_session sample_unlock new_session));
       after_all = posted (se_page (run_session sample_session (sample_unlock @ Lock # sample_unlock) new_session))
   in init_first (drop (length before) after_all)"
  using sessions_kept_apart [OF disjI1 [OF refl] sample_production, of sample_unlock sample_unlock]
  by (simp add: Let_def)

end
