(* ===== verification/Parsers.thy ===== *)
theory Parsers
  imports Chunker
begin

text \<open>
  Documents for retrieval, the parsers: \<open>lib/rag/parsers.ts\<close> (kind detection, the decoders and the
  parse of a file). The PDF and DOCX engines and their import are parameters; the state is the pair of
  cached import promises and the number of PDF documents that are open. The case table of
  \<open>toLowerCase\<close> beyond ASCII is a parameter too (the final sigma rule is not modelled).
\<close>

subsection \<open>Kinds\<close>

datatype DocKind = KText | KPdf | KDocx | KUnsupported

record FileInput =
  fi_name :: jsstring
  fi_mime :: "jsstring option"
  fi_bytes :: bytes

record ParsedDocument =
  pd_name :: jsstring
  pd_kind :: DocKind
  pd_text :: jsstring

definition TEXT_EXTENSIONS :: "jsstring list" where
  "TEXT_EXTENSIONS = map js [
    ''txt'', ''md'', ''markdown'', ''mdx'', ''rst'', ''csv'', ''tsv'', ''log'', ''json'', ''jsonl'', ''yaml'', ''yml'',
    ''toml'', ''ini'', ''env'', ''xml'', ''html'', ''htm'', ''css'', ''scss'', ''less'',
    ''js'', ''jsx'', ''ts'', ''tsx'', ''mjs'', ''cjs'', ''py'', ''rb'', ''go'', ''rs'', ''java'', ''kt'', ''kts'', ''c'', ''h'',
    ''cc'', ''cpp'', ''hpp'', ''cs'', ''swift'', ''m'', ''mm'', ''php'', ''pl'', ''lua'', ''sh'', ''bash'', ''zsh'', ''fish'',
    ''sql'', ''r'', ''jl'', ''scala'', ''clj'', ''ex'', ''exs'', ''erl'', ''hs'', ''dart'', ''vue'', ''svelte'', ''gradle'',
    ''dockerfile'', ''makefile'', ''cmake'', ''proto'', ''graphql'', ''gql'']"

definition extOf :: "(jschar \<Rightarrow> jsstring) \<Rightarrow> jsstring \<Rightarrow> jsstring" where
  "extOf tbl name =
     (case last_index_of (js ''.'') name of
        None \<Rightarrow> toLowerCase tbl name
      | Some dot \<Rightarrow>
          if Suc dot = length name then toLowerCase tbl name
          else toLowerCase tbl (drop (Suc dot) name))"

definition ends_with :: "jsstring \<Rightarrow> jsstring \<Rightarrow> bool" where
  "ends_with s p = suffix p s"

definition detectKind :: "(jschar \<Rightarrow> jsstring) \<Rightarrow> jsstring \<Rightarrow> jsstring option \<Rightarrow> DocKind" where
  "detectKind tbl name mime =
     (let ext = extOf tbl name; m = toLowerCase tbl (nullish mime []) in
      if ext = js ''pdf'' \<or> m = js ''application/pdf'' then KPdf
      else if ext = js ''docx'' \<or> m = js ''application/vnd.openxmlformats-officedocument.wordprocessingml.document'' then KDocx
      else if ext \<in> set TEXT_EXTENSIONS then KText
      else if prefix (js ''text/'') m then KText
      else if m = js ''application/json'' \<or> m = js ''application/xml'' \<or> ends_with m (js ''+json'') \<or> ends_with m (js ''+xml'')
        then KText
      else KUnsupported)"

definition ACCEPTED_DESCRIPTION :: jsstring where
  "ACCEPTED_DESCRIPTION = js ''Plain text, Markdown, source code, PDF, and Word (.docx) documents''"

subsection \<open>Engines\<close>

text \<open>\<open>Inl\<close> is a rejected promise and its reason.\<close>

record PdfTextItem =
  it_str :: "jsstring option"
  it_eol :: bool

record PdfDocument =
  numPages :: nat
  page_text :: "nat \<Rightarrow> jsstring + PdfTextItem list"

record pdfjs_module =
  getDocument :: "bytes \<Rightarrow> jsstring + PdfDocument"

record mammoth_module =
  extractRawText :: "bytes \<Rightarrow> jsstring + jsstring option"

record engines =
  import_pdfjs :: "jsstring + pdfjs_module"
  import_mammoth :: "jsstring + mammoth_module"
  lower_table :: "jschar \<Rightarrow> jsstring"

datatype parse_error = ParseError jsstring | Rejected jsstring

record parser_state =
  pdfjsPromise :: "(jsstring + pdfjs_module) option"
  mammothPromise :: "(jsstring + mammoth_module) option"
  open_docs :: nat

type_synonym 'a parse = "(parser_state, parse_error, 'a) exc"

definition settled :: "jsstring + 'a \<Rightarrow> 'a parse" where
  "settled r = (case r of Inl e \<Rightarrow> throw (Rejected e) | Inr a \<Rightarrow> ret a)"

definition loadPdfjs :: "engines \<Rightarrow> pdfjs_module parse" where
  "loadPdfjs env = (\<lambda>s.
     case pdfjsPromise s of
       Some r \<Rightarrow> settled r s
     | None \<Rightarrow> settled (import_pdfjs env) (s\<lparr>pdfjsPromise := Some (import_pdfjs env)\<rparr>))"

definition loadMammoth :: "engines \<Rightarrow> mammoth_module parse" where
  "loadMammoth env = (\<lambda>s.
     case mammothPromise s of
       Some r \<Rightarrow> settled r s
     | None \<Rightarrow> settled (import_mammoth env) (s\<lparr>mammothPromise := Some (import_mammoth env)\<rparr>))"

fun page_lines :: "jsstring \<Rightarrow> PdfTextItem list \<Rightarrow> jsstring list" where
  "page_lines line [] = (if line \<noteq> [] then [line] else [])"
| "page_lines line (i # items) =
     (let line' = line @ nullish (it_str i) [] in
      if it_eol i then line' # page_lines [] items else page_lines line' items)"

fun pdf_pages :: "(nat \<Rightarrow> jsstring + PdfTextItem list) \<Rightarrow> nat list \<Rightarrow> jsstring list parse" where
  "pdf_pages page [] = ret []"
| "pdf_pages page (p # ps) =
     andThen (settled (page p)) (\<lambda>items.
       andThen (pdf_pages page ps) (\<lambda>rest. ret (join [10] (page_lines [] items) # rest)))"

text \<open>\<open>try { m } finally { await doc.destroy().catch(...) }\<close>\<close>

definition finally_destroy :: "'a parse \<Rightarrow> 'a parse" where
  "finally_destroy m = (\<lambda>s. let (r, s') = m s in (r, s'\<lparr>open_docs := open_docs s' - 1\<rparr>))"

definition opened_doc :: "unit parse" where
  "opened_doc = (\<lambda>s. (Inr (), s\<lparr>open_docs := open_docs s + 1\<rparr>))"

definition parsePdf :: "engines \<Rightarrow> bytes \<Rightarrow> jsstring parse" where
  "parsePdf env bs =
     andThen (loadPdfjs env) (\<lambda>pdfjs.
     andThen (settled (getDocument pdfjs bs)) (\<lambda>doc.
     andThen opened_doc (\<lambda>_.
       finally_destroy
         (andThen (pdf_pages (page_text doc) [1 ..< Suc (numPages doc)]) (\<lambda>pages. ret (join [10, 10] pages))))))"

definition parseDocx :: "engines \<Rightarrow> bytes \<Rightarrow> jsstring parse" where
  "parseDocx env bs =
     andThen (loadMammoth env) (\<lambda>mammoth.
     andThen (settled (extractRawText mammoth bs)) (\<lambda>v. ret (nullish v [])))"

definition decodeText :: "bytes \<Rightarrow> jsstring" where
  "decodeText = fromUtf8"

subsection \<open>The parse of a file\<close>

definition MAX_PARSE_BYTES :: nat where "MAX_PARSE_BYTES = 25 * 1024 * 1024"

text \<open>\<open>Math.round(n / d)\<close>\<close>

definition math_round_div :: "nat \<Rightarrow> nat \<Rightarrow> nat" where
  "math_round_div n d = (2 * n + d) div (2 * d)"

text \<open>\<open>replace(/\n{3,}/g, '\n\n')\<close>: the counter is the number of line feeds just written.\<close>

fun collapse :: "nat \<Rightarrow> jsstring \<Rightarrow> jsstring" where
  "collapse k [] = []"
| "collapse k (c # cs) =
     (if c = 10 then if k < 2 then c # collapse (Suc k) cs else collapse k cs
      else c # collapse 0 cs)"

definition normalizeText :: "jsstring \<Rightarrow> jsstring" where
  "normalizeText text = trim (collapse 0 (crlf_to_lf False text))"

definition too_large :: "nat \<Rightarrow> jsstring" where
  "too_large n = js ''File is too large to process on-device ('' @ decimal (math_round_div n (1024 * 1024))
     @ js '' MB; max '' @ decimal (math_round_div MAX_PARSE_BYTES (1024 * 1024)) @ js '' MB).''"

definition unsupported :: jsstring where
  "unsupported = js ''Unsupported file type. '' @ ACCEPTED_DESCRIPTION @ js ''.''"

text \<open>The switch on the kind, then the whole parse.\<close>

definition kind_text :: "engines \<Rightarrow> DocKind \<Rightarrow> bytes \<Rightarrow> jsstring parse" where
  "kind_text env kind bs =
     (case kind of
        KText \<Rightarrow> ret (decodeText bs)
      | KPdf \<Rightarrow> parsePdf env bs
      | KDocx \<Rightarrow> parseDocx env bs
      | KUnsupported \<Rightarrow> throw (ParseError unsupported))"

definition parseFile :: "engines \<Rightarrow> FileInput \<Rightarrow> ParsedDocument parse" where
  "parseFile env input =
     (if MAX_PARSE_BYTES < length (fi_bytes input) then throw (ParseError (too_large (length (fi_bytes input))))
      else
        let kind = detectKind (lower_table env) (fi_name input) (fi_mime input) in
        andThen (kind_text env kind (fi_bytes input))
          (\<lambda>text. ret \<lparr>pd_name = fi_name input, pd_kind = kind, pd_text = normalizeText text\<rparr>))"

text \<open>A browser file: its read, its own name (None for a \<open>Blob\<close>) and its type (empty when unknown).\<close>

record BrowserFile =
  bf_read :: "jsstring + bytes"
  bf_name :: "jsstring option"
  bf_type :: jsstring

definition or_empty :: "jsstring option \<Rightarrow> jsstring \<Rightarrow> jsstring" where
  "or_empty a b = (case a of Some x \<Rightarrow> if x = [] then b else x | None \<Rightarrow> b)"

definition parseBlob :: "engines \<Rightarrow> BrowserFile \<Rightarrow> jsstring option \<Rightarrow> ParsedDocument parse" where
  "parseBlob env f name =
     andThen (settled (bf_read f)) (\<lambda>bs.
       parseFile env
         \<lparr>fi_name = nullish name (or_empty (bf_name f) (js ''document'')),
          fi_mime = (if bf_type f = [] then None else Some (bf_type f)),
          fi_bytes = bs\<rparr>)"

subsection \<open>The text of a parsed document\<close>

lemma crlf_no_cr: "13 \<notin> set (crlf_to_lf cr s)"
  by (induction cr s rule: crlf_to_lf.induct) auto

lemma crlf_id: "13 \<notin> set s \<Longrightarrow> crlf_to_lf False s = s"
  by (induction s) auto

lemma set_collapse: "set (collapse k s) \<subseteq> set s"
  by (induction k s rule: collapse.induct) auto

text \<open>Line feeds come at most two in a row, after \<open>k\<close> that have been written.\<close>

fun two_at_most :: "nat \<Rightarrow> jsstring \<Rightarrow> bool" where
  "two_at_most k [] = True"
| "two_at_most k (c # cs) = (if c = 10 then k < 2 \<and> two_at_most (Suc k) cs else two_at_most 0 cs)"

lemma two_at_most_collapse: "k \<le> 2 \<Longrightarrow> two_at_most k (collapse k s)"
  by (induction k s rule: collapse.induct) auto

lemma two_at_most_mono: "two_at_most k s \<Longrightarrow> j \<le> k \<Longrightarrow> two_at_most j s"
  by (induction k s arbitrary: j rule: two_at_most.induct) auto

lemma two_at_most_sublist: "two_at_most k (a @ b) \<Longrightarrow> two_at_most 0 b"
  by (induction k a rule: two_at_most.induct) (auto split: if_splits intro: two_at_most_mono)

lemma two_at_most_prefix: "two_at_most k (a @ b) \<Longrightarrow> two_at_most k a"
  by (induction k a rule: two_at_most.induct) (auto split: if_splits)

lemma two_at_most_no_three: "two_at_most k s \<Longrightarrow> \<not> sublist [10, 10, 10] s"
proof
  assume "two_at_most k s" "sublist [10, 10, 10] s"
  then obtain a b where "two_at_most k (a @ [10, 10, 10] @ b)" by (auto simp: sublist_def)
  then show False using two_at_most_sublist by fastforce
qed

lemma two_at_most_replicate:
  "k \<le> 2 \<Longrightarrow> \<not> sublist [10, 10, 10] (replicate k 10 @ s) \<Longrightarrow> two_at_most k s"
proof (induction s arbitrary: k)
  case (Cons c cs)
  show ?case
  proof (cases "c = 10")
    case True
    have r: "10 # replicate k 10 @ cs = replicate k 10 @ c # cs" by (simp add: True replicate_app_Cons_same)
    have "k \<noteq> 2"
    proof
      assume "k = 2"
      then have "replicate k 10 @ c # cs = [] @ [10, 10, 10] @ cs" by (simp add: True numeral_2_eq_2)
      then show False using Cons.prems(2) unfolding sublist_def by blast
    qed
    then show ?thesis using Cons.IH [of "Suc k"] Cons.prems r True by simp
  next
    case False
    have "\<not> sublist [10, 10, 10] cs"
    proof
      assume "sublist [10, 10, 10] cs"
      then have "sublist [10, 10, 10] ((replicate k 10 @ [c]) @ cs)" using sublist_append by blast
      then show False using Cons.prems(2) by simp
    qed
    then show ?thesis using Cons.IH [of 0] False by simp
  qed
qed simp

lemma two_at_most_iff: "two_at_most 0 s \<longleftrightarrow> \<not> sublist [10, 10, 10] s"
  using two_at_most_replicate [of 0 s] two_at_most_no_three by auto

lemma collapse_id: "two_at_most k s \<Longrightarrow> collapse k s = s"
  by (induction k s rule: collapse.induct) (auto split: if_splits)

lemma trim_tight_id: "tight s \<or> s = [] \<Longrightarrow> trim s = s"
proof (elim disjE)
  assume t: "tight s"
  then obtain c cs where s: "s = c # cs" by (cases s) (auto simp: tight_def)
  have "dropWhile is_ws s = s" using t by (simp add: s tight_def)
  moreover have "dropWhile is_ws (rev s) = rev s"
    using t by (cases s rule: rev_cases) (auto simp: tight_def)
  ultimately show "trim s = s" by (simp add: trim_def trim_end_def)
qed simp

lemma trim_trim [simp]: "trim (trim s) = trim s"
  using tight_trim [of s] trim_tight_id by blast

definition clean_text :: "jsstring \<Rightarrow> bool" where
  "clean_text t \<longleftrightarrow> 13 \<notin> set t \<and> \<not> sublist [10, 10, 10] t \<and> trim t = t"

lemma clean_normalizeText: "clean_text (normalizeText t)"
proof -
  let ?c = "collapse 0 (crlf_to_lf False t)"
  have "13 \<notin> set ?c" using set_collapse crlf_no_cr by blast
  then have "13 \<notin> set (trim ?c)" using set_trim by blast
  moreover have "\<not> sublist [10, 10, 10] ?c" by (rule two_at_most_no_three [OF two_at_most_collapse]) simp
  then have "\<not> sublist [10, 10, 10] (trim ?c)"
    using sublist_trim sublist_order.order_trans by blast
  ultimately show ?thesis by (simp add: clean_text_def normalizeText_def)
qed

lemma clean_chunker: "clean_text t \<Longrightarrow> normalized t = t"
  by (simp add: clean_text_def normalized_def crlf_id)

subsection \<open>Properties\<close>

lemma settled_state: "snd (settled r s) = s"
  by (cases r) (simp_all add: settled_def monad_simps)

lemma keeps_settled [intro]: "keeps P (settled r)"
  by (simp add: keeps_def settled_state)

lemma keeps_pdf_pages: "keeps P (pdf_pages page ps)"
  by (induction ps) (auto intro!: keeps_andThen)

lemma keeps_loads:
  "keeps (\<lambda>s. open_docs s = n) (loadPdfjs env)" "keeps (\<lambda>s. open_docs s = n) (loadMammoth env)"
  by (auto simp: keeps_def loadPdfjs_def loadMammoth_def settled_state split: option.splits)

lemma keeps_document:
  "keeps (\<lambda>s. open_docs s = n)
     (andThen opened_doc (\<lambda>_. finally_destroy (andThen (pdf_pages page ps) (\<lambda>pages. ret (g pages)))))"
proof -
  let ?m = "andThen (pdf_pages page ps) (\<lambda>pages. ret (g pages))"
  have "keeps (\<lambda>s. open_docs s = Suc n) ?m" by (intro keeps_andThen keeps_pdf_pages keeps_ret)
  then have k: "open_docs (snd (?m s)) = Suc n" if "open_docs s = Suc n" for s
    using that by (simp add: keeps_def)
  then show ?thesis
  proof -
    have "open_docs (snd (finally_destroy ?m s)) = n" if "open_docs s = Suc n" for s
      using k [OF that] by (simp add: finally_destroy_def case_prod_beta Let_def)
    then show ?thesis by (simp add: keeps_def opened_doc_def andThen_def del: snd_conv fst_conv)
  qed
qed

lemma keeps_parsers:
  "keeps (\<lambda>s. open_docs s = n) (parsePdf env bs)" "keeps (\<lambda>s. open_docs s = n) (parseDocx env bs)"
  unfolding parsePdf_def parseDocx_def
  by (intro keeps_andThen keeps_loads keeps_settled keeps_document keeps_ret)+

text \<open>Every parse releases what it opened: whether it succeeds, is refused or is rejected by an
  engine in the middle of a page, a parse leaves exactly as many PDF documents open as before.\<close>

theorem parse_releases_documents:
  "open_docs (snd (parseBlob env f name s)) = open_docs s"
proof -
  have "keeps (\<lambda>t. open_docs t = open_docs s) (kind_text env k bs)" for k bs
    unfolding kind_text_def by (cases k; simp only: DocKind.case; rule keeps_parsers keeps_ret keeps_throw)
  then have "keeps (\<lambda>t. open_docs t = open_docs s) (parseFile env inp)" for inp
    unfolding parseFile_def Let_def by (intro keeps_if keeps_throw keeps_andThen keeps_ret)
  then have "keeps (\<lambda>t. open_docs t = open_docs s) (parseBlob env f name)"
    unfolding parseBlob_def by (intro keeps_andThen keeps_settled)
  then show ?thesis by (simp add: keeps_def)
qed

text \<open>The result of a parse that succeeds.\<close>

lemma parseFile_success:
  assumes "parseFile env inp s = (Inr d, s')"
  shows "length (fi_bytes inp) \<le> MAX_PARSE_BYTES"
    "pd_kind d = detectKind (lower_table env) (fi_name inp) (fi_mime inp)" "pd_kind d \<noteq> KUnsupported"
    "\<exists>t. pd_text d = normalizeText t"
proof -
  let ?k = "detectKind (lower_table env) (fi_name inp) (fi_mime inp)"
  show l: "length (fi_bytes inp) \<le> MAX_PARSE_BYTES"
    using assms by (auto simp: parseFile_def monad_simps split: if_splits)
  then have "andThen (kind_text env ?k (fi_bytes inp))
      (\<lambda>text. ret \<lparr>pd_name = fi_name inp, pd_kind = ?k, pd_text = normalizeText text\<rparr>) s = (Inr d, s')"
    using assms by (simp add: parseFile_def Let_def)
  then obtain t s1 where m: "kind_text env ?k (fi_bytes inp) s = (Inr t, s1)"
    and d: "d = \<lparr>pd_name = fi_name inp, pd_kind = ?k, pd_text = normalizeText t\<rparr>"
    by (elim andThen_Inr) (simp add: monad_simps)
  have "?k \<noteq> KUnsupported" using m by (auto simp: kind_text_def monad_simps)
  then show "pd_kind d = ?k" "pd_kind d \<noteq> KUnsupported" "\<exists>t. pd_text d = normalizeText t"
    by (auto simp: d)
qed

text \<open>A parsed document is in the form the chunker expects: its input was within the 25 MiB bound and
  of a supported kind, and its text has no carriage return, no three line feeds in a row and no white
  space at its ends, so that the chunker's own normalisation changes nothing.\<close>

theorem parsed_text_is_normal:
  assumes "parseFile env inp s = (Inr d, s')"
  shows "length (fi_bytes inp) \<le> 26214400 \<and> pd_kind d \<noteq> KUnsupported
    \<and> 13 \<notin> set (pd_text d) \<and> \<not> sublist [10, 10, 10] (pd_text d) \<and> normalized (pd_text d) = pd_text d"
proof -
  note p = parseFile_success [OF assms]
  then have c: "clean_text (pd_text d)" using clean_normalizeText by auto
  then show ?thesis using p(1,3) clean_chunker [OF c] by (simp add: clean_text_def MAX_PARSE_BYTES_def)
qed

definition sample_engines :: engines where
  "sample_engines = \<lparr>import_pdfjs = Inl (js ''offline''), import_mammoth = Inl (js ''offline''), lower_table = (\<lambda>c. [c])\<rparr>"

definition fresh_parser :: parser_state where
  "fresh_parser = \<lparr>pdfjsPromise = None, mammothPromise = None, open_docs = 0\<rparr>"

definition note_file :: "jsstring \<Rightarrow> bytes \<Rightarrow> FileInput" where
  "note_file name bs = \<lparr>fi_name = name, fi_mime = None, fi_bytes = bs\<rparr>"

lemma note_kind: "detectKind tbl (js ''a.md'') None = KText"
  by (simp add: detectKind_def extOf_def js_def toLowerCase_def TEXT_EXTENSIONS_def)

lemma pdf_kind: "detectKind tbl (js ''a.pdf'') None = KPdf"
  by (simp add: detectKind_def extOf_def js_def toLowerCase_def)

lemma parsed_text_is_normal_witness:
  "\<exists>d. parseFile sample_engines (note_file (js ''a.md'') [65, 13, 10, 66]) fresh_parser = (Inr d, fresh_parser)
     \<and> 13 \<notin> set (pd_text d)"
proof -
  let ?t = "normalizeText (decodeText [65, 13, 10, 66])"
  have e: "parseFile sample_engines (note_file (js ''a.md'') [65, 13, 10, 66]) fresh_parser
    = (Inr \<lparr>pd_name = js ''a.md'', pd_kind = KText, pd_text = ?t\<rparr>, fresh_parser)"
    by (simp add: parseFile_def kind_text_def note_file_def note_kind MAX_PARSE_BYTES_def monad_simps)
  show ?thesis using parsed_text_is_normal [OF e] e by auto
qed

text \<open>A text document is read back as it was written: the UTF-8 bytes of a well-formed text that is
  already in normal form, under a name or a type of the text kind, parse to exactly that text.\<close>

theorem text_document_roundtrip:
  assumes "well_formed (map unat t)" and "take 1 t \<noteq> [0xFEFF]"
    and "clean_text t"
    and "detectKind (lower_table env) name mime = KText" and "length (utf8 t) \<le> MAX_PARSE_BYTES"
  shows "parseFile env \<lparr>fi_name = name, fi_mime = mime, fi_bytes = utf8 t\<rparr> s
     = (Inr \<lparr>pd_name = name, pd_kind = KText, pd_text = t\<rparr>, s)"
proof -
  have "normalizeText t = t"
    using assms(3) by (simp add: normalizeText_def clean_text_def crlf_id collapse_id two_at_most_iff)
  then show ?thesis using assms(4,5)
    by (simp add: parseFile_def kind_text_def decodeText_def utf8_roundtrip [OF assms(1,2)] monad_simps)
qed

lemma text_document_roundtrip_witness:
  "parseFile sample_engines \<lparr>fi_name = js ''a.md'', fi_mime = None, fi_bytes = utf8 (js ''Hi'' @ [10, 10] @ js ''you'')\<rparr> fresh_parser
     = (Inr \<lparr>pd_name = js ''a.md'', pd_kind = KText, pd_text = js ''Hi'' @ [10, 10] @ js ''you''\<rparr>, fresh_parser)"
proof (rule text_document_roundtrip)
  show "clean_text (js ''Hi'' @ [10, 10] @ js ''you'')"
    by (simp add: clean_text_def js_def trim_def trim_end_def is_ws_def ws_codes_def sublist_Cons_right)
  show "length (utf8 (js ''Hi'' @ [10, 10] @ js ''you'')) \<le> MAX_PARSE_BYTES"
    by (simp add: js_def utf8_def utf8_bytes_def MAX_PARSE_BYTES_def is_high_def is_low_def)
  show "well_formed (map unat (js ''Hi'' @ [10, 10] @ js ''you''))"
    by (simp add: js_def is_high_def is_low_def)
  show "detectKind (lower_table sample_engines) (js ''a.md'') None = KText" by (rule note_kind)
qed (simp_all add: js_def)

text \<open>An engine that fails to load stays failed: the import promise of the PDF engine is cached even when
  it is rejected, so after one parse of a PDF whose import was refused, every later PDF is refused with
  that same reason, although the import would now succeed.\<close>

theorem failed_engine_import_is_permanent:
  assumes "pdfjsPromise s = None" and "import_pdfjs env = Inl e"
    and "length (fi_bytes inp) \<le> MAX_PARSE_BYTES" and "length (fi_bytes inp') \<le> MAX_PARSE_BYTES"
    and "detectKind (lower_table env) (fi_name inp) (fi_mime inp) = KPdf"
    and "detectKind (lower_table env') (fi_name inp') (fi_mime inp') = KPdf"
  shows "fst (parseFile env' inp' (snd (parseFile env inp s))) = Inl (Rejected e)"
proof -
  have "snd (parseFile env inp s) = s\<lparr>pdfjsPromise := Some (Inl e)\<rparr>"
    using assms(1,2,3,5)
    by (simp add: parseFile_def kind_text_def parsePdf_def loadPdfjs_def settled_def monad_simps)
  then show ?thesis using assms(4,6)
    by (simp add: parseFile_def kind_text_def parsePdf_def loadPdfjs_def settled_def monad_simps)
qed

definition working_engines :: engines where
  "working_engines = sample_engines\<lparr>import_pdfjs := Inr \<lparr>getDocument = (\<lambda>_. Inr \<lparr>numPages = 1,
     page_text = (\<lambda>_. Inr [\<lparr>it_str = Some (js ''page''), it_eol = True\<rparr>])\<rparr>)\<rparr>\<rparr>"

lemma failed_engine_import_is_permanent_witness:
  "fst (parseFile working_engines (note_file (js ''a.pdf'') [])
      (snd (parseFile sample_engines (note_file (js ''a.pdf'') []) fresh_parser)))
    = Inl (Rejected (js ''offline''))"
  by (rule failed_engine_import_is_permanent)
    (simp_all add: sample_engines_def fresh_parser_def note_file_def pdf_kind)

end
