(* ===== verification/Ingest.thy ===== *)
theory Ingest
  imports Retrieval Parsers StoreProps
begin

text \<open>
  Attaching documents, \<open>web-client/overlay/client/src/store/useRag.ts\<close>: a file is parsed, cut into
  chunks, embedded in batches, written to the device store and loaded into the cosine index. The
  steps are those of the components themselves: \<open>parseBlob\<close>, \<open>chunkText\<close>, the worker of the store and
  \<open>hydrateRagIndex\<close>; the embedder is an argument. A promise that is awaited may reject, and it may never settle: the
  store's \<open>ready\<close> on a proxy that nobody opens, a reply of a worker that never comes. The main results: every attached file
  settles, as done or with an error, unless an await never ends, and then exactly that file stays in flight; embedding in
  batches is embedding at once; a file that is done is stored and indexed, chunk by chunk, each with its own vector.
\<close>

subsection \<open>State\<close>

datatype rag_status = RParsing | RChunking | REmbedding | RStoring | RDone | RError

record rag_file =
  rf_id :: jsstring
  rf_name :: jsstring
  rf_status :: rag_status
  rf_chunks :: nat
  rf_error :: "jsstring option"

text \<open>How an awaited step can fail to give a value: it rejects, or it never settles and what follows never runs.\<close>

datatype interrupt = Threw jsstring | Hung

text \<open>\<open>ig_reads f\<close> tells whether parsing \<open>f\<close> settles at all; \<open>ig_embed k\<close> is what the k-th call of \<open>embedTexts\<close>
  resolves or rejects with, None when it never settles. The proxy of the store has its flag, its \<open>ready\<close> while the files
  are ingested, and its worker, which replies to the k-th request or never does; \<open>ig_message\<close> and \<open>ig_refusal\<close> are
  the messages of the errors. A toast is its text and whether it is a warning.\<close>

record ingest_env =
  ig_engines :: engines
  ig_ids :: "nat \<Rightarrow> jsstring"
  ig_reads :: "BrowserFile \<Rightarrow> bool"
  ig_embed :: "nat \<Rightarrow> jsstring list \<Rightarrow> (jsstring + f32 list list) option"
  ig_isOpen :: bool
  ig_ready :: ready
  ig_replies :: "nat \<Rightarrow> bool"
  ig_senv :: store_env
  ig_message :: "serror \<Rightarrow> jsstring"
  ig_refusal :: "proxy_error \<Rightarrow> jsstring"

record ingest_state =
  ig_files :: "rag_file list"
  ig_inFlight :: nat
  ig_mounted :: bool
  ig_parser :: parser_state
  ig_rag :: rag_state
  ig_store :: wstate
  ig_drawn :: nat
  ig_calls :: nat
  ig_requests :: nat
  ig_toasts :: "(jsstring \<times> bool) list"

type_synonym 'a ingest = "(ingest_state, interrupt, 'a) exc"

definition EMBED_BATCH :: nat where "EMBED_BATCH = 16"

definition docMessageId :: "jsstring \<Rightarrow> jsstring" where
  "docMessageId fileId = js ''doc:'' @ fileId"

definition set_files :: "(rag_file list \<Rightarrow> rag_file list) \<Rightarrow> unit ingest" where
  "set_files f = (\<lambda>s. (Inr (), s\<lparr>ig_files := f (ig_files s)\<rparr>))"

definition setFileState :: "jsstring \<Rightarrow> (rag_file \<Rightarrow> rag_file) \<Rightarrow> unit ingest" where
  "setFileState fid patch = set_files (map (\<lambda>f. if rf_id f = fid then patch f else f))"

subsection \<open>The steps\<close>

definition in_parser :: "bool \<Rightarrow> 'a parse \<Rightarrow> 'a ingest" where
  "in_parser settles m = (\<lambda>s. if \<not> settles then (Inl Hung, s) else case m (ig_parser s) of
       (Inl (ParseError e), p) \<Rightarrow> (Inl (Threw e), s\<lparr>ig_parser := p\<rparr>)
     | (Inl (Parsers.Rejected e), p) \<Rightarrow> (Inl (Threw e), s\<lparr>ig_parser := p\<rparr>)
     | (Inr a, p) \<Rightarrow> (Inr a, s\<lparr>ig_parser := p\<rparr>))"

definition embed_call :: "ingest_env \<Rightarrow> jsstring list \<Rightarrow> f32 list list ingest" where
  "embed_call env ts = (\<lambda>s. (case ig_embed env (ig_calls s) ts of
       None \<Rightarrow> Inl Hung | Some (Inl e) \<Rightarrow> Inl (Threw e) | Some (Inr vs) \<Rightarrow> Inr vs, s\<lparr>ig_calls := Suc (ig_calls s)\<rparr>))"

text \<open>The loop over \<open>i += EMBED_BATCH\<close>.\<close>

function embed_batches :: "ingest_env \<Rightarrow> jsstring list \<Rightarrow> f32 list list \<Rightarrow> f32 list list ingest" where
  "embed_batches env [] vectors = ret vectors"
| "embed_batches env (c # cs) vectors =
     andThen (embed_call env (take EMBED_BATCH (c # cs)))
       (\<lambda>embedded. embed_batches env (drop EMBED_BATCH (c # cs)) (vectors @ embedded))"
  by pat_completeness auto
termination
  by (relation "measure (\<lambda>(env, cs, v). length cs)") (auto simp: EMBED_BATCH_def)

text \<open>A method of the proxy: it awaits \<open>ready\<close>, posts its request and awaits the reply; an error becomes its message.\<close>

definition store_call :: "ingest_env \<Rightarrow> request_body \<Rightarrow> response_body ingest" where
  "store_call env b = (\<lambda>s.
     (case ig_ready env of
        Waiting \<Rightarrow> (Inl Hung, s)
      | Failed e \<Rightarrow> (Inl (Threw (ig_refusal env e)), s)
      | Opened \<Rightarrow>
          let s' = s\<lparr>ig_requests := Suc (ig_requests s), ig_store := after (ig_senv env) b (ig_store s)\<rparr> in
          (if \<not> ig_replies env (ig_requests s) then (Inl Hung, s')
           else (case answer (ig_senv env) b (ig_store s) of ERROR e \<Rightarrow> Inl (Threw (ig_message env e)) | r \<Rightarrow> Inr r, s'))))"

definition vectors_of :: "response_body \<Rightarrow> StoredVector list" where
  "vectors_of r = (case r of VECTORS vs \<Rightarrow> vs | _ \<Rightarrow> [])"

text \<open>\<open>hydrateRagIndex(true)\<close>: on a store that is not open it does not ask; an error of the store is swallowed; while the
  store does not answer, the promise of the hydration stays.\<close>

definition rehydrate :: "ingest_env \<Rightarrow> unit ingest" where
  "rehydrate env = (\<lambda>s.
     if \<not> ig_isOpen env then (Inr (), s\<lparr>ig_rag := hydrateRagIndex True False (Inr []) (ig_rag s)\<rparr>)
     else case store_call env HYDRATE_VECTORS s of
       (Inl Hung, s') \<Rightarrow> (Inl Hung, s'\<lparr>ig_rag := (ig_rag s')\<lparr>hydrated := True\<rparr>\<rparr>)
     | (Inl (Threw e), s') \<Rightarrow> (Inr (), s'\<lparr>ig_rag := hydrateRagIndex True True (Inl e) (ig_rag s')\<rparr>)
     | (Inr r, s') \<Rightarrow> (Inr (), s'\<lparr>ig_rag := hydrateRagIndex True True (Inr (vectors_of r)) (ig_rag s')\<rparr>))"

definition vector_chunks :: "jsstring list \<Rightarrow> f32 list list \<Rightarrow> VectorChunk list" where
  "vector_chunks cks vectors = map (\<lambda>(t, v). \<lparr>vc_text = t, vc_vec = v\<rparr>) (zip cks vectors)"

definition guard_step :: "bool \<Rightarrow> jsstring \<Rightarrow> unit ingest" where
  "guard_step bad msg = (if bad then throw (Threw msg) else ret ())"

text \<open>The \<open>try\<close> block. \<open>chunkText\<close> returns for every text (theory \<open>Chunker\<close>).\<close>

definition ingest_body :: "ingest_env \<Rightarrow> BrowserFile \<Rightarrow> jsstring \<Rightarrow> unit ingest" where
  "ingest_body env f fid =
     andThen (in_parser (ig_reads env f) (parseBlob (ig_engines env) f None)) (\<lambda>parsed.
     andThen (guard_step (Prelude.trim (pd_text parsed) = []) (js ''No extractable text found in the document.'')) (\<lambda>_.
     andThen (setFileState fid (rf_status_update (\<lambda>_. RChunking))) (\<lambda>_.
     let cks = the (chunkText (pd_text parsed) \<lparr>chunkTokens = None, overlapTokens = None\<rparr>) in
     andThen (guard_step (cks = []) (js ''Document produced no indexable chunks.'')) (\<lambda>_.
     andThen (setFileState fid (rf_chunks_update (\<lambda>_. length cks))) (\<lambda>_.
     andThen (setFileState fid (rf_status_update (\<lambda>_. REmbedding))) (\<lambda>_.
     andThen (embed_batches env cks []) (\<lambda>vectors.
     andThen (guard_step (length vectors \<noteq> length cks) (js ''Embedding produced an unexpected vector count.'')) (\<lambda>_.
     andThen (setFileState fid (rf_status_update (\<lambda>_. RStoring))) (\<lambda>_.
     andThen (store_call env (STORE_VECTORS (docMessageId fid) (vector_chunks cks vectors))) (\<lambda>_.
     andThen (rehydrate env) (\<lambda>_.
     setFileState fid (rf_status_update (\<lambda>_. RDone)))))))))))))"

definition in_quotes :: "jsstring \<Rightarrow> jsstring" where
  "in_quotes s = [34] @ s @ [34]"

definition toast :: "jsstring \<Rightarrow> bool \<Rightarrow> unit ingest" where
  "toast msg warning = (\<lambda>s. (Inr (), s\<lparr>ig_toasts := ig_toasts s @ [(msg, warning)]\<rparr>))"

definition on_ingest_error :: "jsstring \<Rightarrow> jsstring \<Rightarrow> jsstring \<Rightarrow> unit ingest" where
  "on_ingest_error fid name msg =
     andThen (setFileState fid (\<lambda>f. f\<lparr>rf_status := RError, rf_error := Some msg\<rparr>)) (\<lambda>_.
     toast (js ''Couldn'' @ [39] @ js ''t index '' @ in_quotes name @ js '': '' @ msg) False)"

text \<open>\<open>try { m } catch (e) { h e } finally { fin }\<close>: nothing of it runs after a promise that never settles.\<close>

definition try_finally :: "unit ingest \<Rightarrow> (jsstring \<Rightarrow> unit ingest) \<Rightarrow> (ingest_state \<Rightarrow> ingest_state) \<Rightarrow> unit ingest" where
  "try_finally m h fin = (\<lambda>s. case (case m s of (Inl (Threw e), s') \<Rightarrow> h e s' | r \<Rightarrow> r) of
       (Inl Hung, s') \<Rightarrow> (Inl Hung, s')
     | (r, s') \<Rightarrow> (r, fin s'))"

definition leave_flight :: "ingest_state \<Rightarrow> ingest_state" where
  "leave_flight s = (if ig_mounted s then s\<lparr>ig_inFlight := ig_inFlight s - 1\<rparr> else s)"

definition ingestOne :: "ingest_env \<Rightarrow> BrowserFile \<Rightarrow> unit ingest" where
  "ingestOne env f = (\<lambda>s0.
     let fid = ig_ids env (ig_drawn s0); s = s0\<lparr>ig_drawn := Suc (ig_drawn s0)\<rparr>; name = nullish (bf_name f) [];
          record0 = \<lparr>rf_id = fid, rf_name = name, rf_status = RParsing, rf_chunks = 0, rf_error = None\<rparr> in
      if detectKind (lower_table (ig_engines env)) name (Some (bf_type f)) = KUnsupported
      then toast (js ''Can'' @ [39] @ js ''t index '' @ in_quotes name @ js '': unsupported file type.'') True
             (s\<lparr>ig_files := ig_files s @ [record0\<lparr>rf_status := RError, rf_error := Some (js ''Unsupported file type for retrieval.'')\<rparr>]\<rparr>)
      else try_finally (ingest_body env f fid) (on_ingest_error fid name) leave_flight
             (s\<lparr>ig_files := ig_files s @ [record0], ig_inFlight := Suc (ig_inFlight s)\<rparr>))"

text \<open>The files one after the other: a file whose ingest does not end keeps the ones after it waiting.\<close>

definition ingestFiles :: "ingest_env \<Rightarrow> BrowserFile list \<Rightarrow> unit ingest" where
  "ingestFiles env fs = forEach (ingestOne env) fs"

definition removeFile :: "ingest_env \<Rightarrow> jsstring \<Rightarrow> unit ingest" where
  "removeFile env fid =
     andThen (set_files (filter (\<lambda>f. rf_id f \<noteq> fid))) (\<lambda>_.
     try_finally (andThen (store_call env (STORE_VECTORS (docMessageId fid) [])) (\<lambda>_. rehydrate env)) (\<lambda>e. ret ()) (\<lambda>s. s))"

definition clear_files :: "ingest_state \<Rightarrow> ingest_state" where
  "clear_files s = s\<lparr>ig_files := []\<rparr>"

definition isIngesting :: "ingest_state \<Rightarrow> bool" where
  "isIngesting s \<longleftrightarrow> 0 < ig_inFlight s"

subsection \<open>Every file settles\<close>

definition settled_file :: "rag_file \<Rightarrow> bool" where
  "settled_file f \<longleftrightarrow> rf_status f = RDone \<or> (rf_status f = RError \<and> rf_error f \<noteq> None)"

text \<open>While a file is being ingested every other file is settled; the steps touch only its own records, and none of its
  records is settled before the last step.\<close>

definition others_settled :: "jsstring \<Rightarrow> nat \<Rightarrow> bool \<Rightarrow> ingest_state \<Rightarrow> bool" where
  "others_settled fid n m s \<longleftrightarrow> (\<forall>f\<in>set (ig_files s). rf_id f \<noteq> fid \<longrightarrow> settled_file f) \<and> ig_inFlight s = n \<and> ig_mounted s = m"

definition under_way :: "jsstring \<Rightarrow> ingest_state \<Rightarrow> bool" where
  "under_way fid s \<longleftrightarrow> (\<exists>f\<in>set (ig_files s). rf_id f = fid \<and> \<not> settled_file f)"

lemma keeps_setFileState: "(\<And>f. rf_id (patch f) = rf_id f) \<Longrightarrow> keeps (others_settled fid n m) (setFileState fid patch)"
  by (auto simp: keeps_def others_settled_def setFileState_def set_files_def)

lemma keeps_patch:
  assumes "\<And>f. rf_id (patch f) = rf_id f" "\<And>f. settled_file (patch f) \<Longrightarrow> settled_file f"
  shows "keeps (under_way fid) (setFileState fid patch)"
  using assms by (fastforce simp: keeps_def under_way_def setFileState_def set_files_def)

text \<open>The steps that are awaited leave the records, the count and the mounted flag alone.\<close>

definition same_records :: "'a ingest \<Rightarrow> bool" where
  "same_records m \<longleftrightarrow> (\<forall>s. ig_files (snd (m s)) = ig_files s \<and> ig_inFlight (snd (m s)) = ig_inFlight s \<and> ig_mounted (snd (m s)) = ig_mounted s)"

lemma same_store: "same_records (store_call env b)"
  by (simp add: same_records_def store_call_def Let_def split: ready.split)

lemma same_steps:
  "same_records (in_parser b p)" "same_records (embed_call env ts)" "same_records (store_call env b')" "same_records (rehydrate env)"
  "same_records (guard_step bad msg)"
proof -
  show "same_records (rehydrate env)"
    unfolding same_records_def
  proof
    fix s
    obtain r t where c: "store_call env HYDRATE_VECTORS s = (r, t)" by fastforce
    then have "ig_files t = ig_files s \<and> ig_inFlight t = ig_inFlight s \<and> ig_mounted t = ig_mounted s"
      using same_store [of env HYDRATE_VECTORS] by (metis same_records_def snd_conv)
    then show "ig_files (snd (rehydrate env s)) = ig_files s \<and> ig_inFlight (snd (rehydrate env s)) = ig_inFlight s
        \<and> ig_mounted (snd (rehydrate env s)) = ig_mounted s"
      by (simp add: rehydrate_def c split: sum.split interrupt.split)
  qed
qed (simp_all add: same_store, auto simp: same_records_def in_parser_def embed_call_def guard_step_def
      ret_def throw_def split: prod.splits sum.splits parse_error.splits)

lemma same_keeps: "same_records m \<Longrightarrow> keeps (others_settled fid n b) m" "same_records m \<Longrightarrow> keeps (under_way fid) m"
  by (simp_all add: same_records_def keeps_def others_settled_def under_way_def)

lemma same_andThen: "same_records m \<Longrightarrow> (\<And>a. same_records (f a)) \<Longrightarrow> same_records (andThen m f)"
  by (auto simp: same_records_def andThen_def split: prod.splits sum.splits) (metis snd_conv)+

lemma same_batches: "same_records (embed_batches env cs vs)"
proof (induction env cs vs rule: embed_batches.induct)
  case (1 env vs)
  then show ?case by (simp add: same_records_def ret_def)
next
  case (2 env c cs vs)
  show ?case unfolding embed_batches.simps by (rule same_andThen [OF same_steps(2)], rule 2)
qed

lemmas keeps_steps = same_keeps(1) [OF same_steps(1)] same_keeps(1) [OF same_steps(2)] same_keeps(1) [OF same_steps(3)]
  same_keeps(1) [OF same_steps(4)] same_keeps(1) [OF same_steps(5)] same_keeps(1) [OF same_batches]

lemmas under_way_steps = same_keeps(2) [OF same_steps(1)] same_keeps(2) [OF same_steps(2)] same_keeps(2) [OF same_steps(3)]
  same_keeps(2) [OF same_steps(4)] same_keeps(2) [OF same_steps(5)] same_keeps(2) [OF same_batches]

lemma keeps_body: "keeps (others_settled fid n m) (ingest_body env f fid)"
  unfolding ingest_body_def Let_def
  by (intro keeps_andThen keeps_steps keeps_setFileState) simp_all

lemma body_done:
  assumes "ingest_body env f fid s = (Inr (), s')" "others_settled fid n m s"
  shows "list_all settled_file (ig_files s')"
proof -
  have h: "hoare (others_settled fid n m) (setFileState fid (rf_status_update (\<lambda>_. RDone))) (\<lambda>_ s. list_all settled_file (ig_files s))"
    by (auto simp: hoare_def others_settled_def setFileState_def set_files_def list_all_iff settled_file_def)
  have "hoare (others_settled fid n m) (ingest_body env f fid) (\<lambda>_ s. list_all settled_file (ig_files s))"
    unfolding ingest_body_def Let_def
    by (intro hoare_pass keeps_steps keeps_setFileState h) simp_all
  then show ?thesis using assms unfolding hoare_def by blast
qed

lemma body_interrupted: "err_keeps (under_way fid) (ingest_body env f fid)"
proof -
  have "err_keeps (under_way fid) (setFileState fid (rf_status_update (\<lambda>_. RDone)))"
    by (simp add: err_keeps_def setFileState_def set_files_def)
  moreover have "keeps (under_way fid) (setFileState fid (rf_status_update (\<lambda>_. RChunking)))"
    "keeps (under_way fid) (setFileState fid (rf_status_update (\<lambda>_. REmbedding)))"
    "keeps (under_way fid) (setFileState fid (rf_status_update (\<lambda>_. RStoring)))"
    "keeps (under_way fid) (setFileState fid (rf_chunks_update (\<lambda>_. k)))" for k
    by (rule keeps_patch; simp add: settled_file_def)+
  ultimately show ?thesis
    unfolding ingest_body_def Let_def by (intro err_keeps_andThen under_way_steps)
qed

text \<open>Where every await settles, nothing hangs.\<close>

definition awaits_settle :: "ingest_env \<Rightarrow> bool" where
  "awaits_settle env \<longleftrightarrow> (\<forall>f. ig_reads env f) \<and> (\<forall>k ts. ig_embed env k ts \<noteq> None) \<and> ig_ready env \<noteq> Waiting \<and> (\<forall>k. ig_replies env k)"

definition never_hangs :: "'a ingest \<Rightarrow> bool" where
  "never_hangs m \<longleftrightarrow> (\<forall>s. fst (m s) \<noteq> Inl Hung)"

lemma never_hangs_andThen: "never_hangs m \<Longrightarrow> (\<And>a. never_hangs (f a)) \<Longrightarrow> never_hangs (andThen m f)"
  by (auto simp: never_hangs_def andThen_def split: prod.splits sum.splits) (metis fst_conv)

lemma never_hangs_steps:
  assumes "awaits_settle env"
  shows "never_hangs (in_parser (ig_reads env f) p)" "never_hangs (embed_call env ts)" "never_hangs (store_call env b)"
    "never_hangs (rehydrate env)" "never_hangs (guard_step bad msg)" "never_hangs (setFileState fid patch)" "never_hangs (ret a)"
proof -
  show s: "never_hangs (store_call env b)" for b
    using assms by (auto simp: never_hangs_def store_call_def awaits_settle_def Let_def split: ready.splits response_body.splits)
  show "never_hangs (rehydrate env)"
    unfolding never_hangs_def
  proof
    fix t
    obtain r u where c: "store_call env HYDRATE_VECTORS t = (r, u)" by fastforce
    then have "r \<noteq> Inl Hung" using s [of HYDRATE_VECTORS] by (metis never_hangs_def fst_conv)
    then show "fst (rehydrate env t) \<noteq> Inl Hung" by (auto simp: rehydrate_def c split: sum.split interrupt.split)
  qed
qed (use assms in \<open>auto simp: never_hangs_def awaits_settle_def in_parser_def embed_call_def guard_step_def ret_def throw_def
    setFileState_def set_files_def split: prod.splits sum.splits parse_error.splits option.splits\<close>)

lemma never_hangs_batches: "awaits_settle env \<Longrightarrow> never_hangs (embed_batches env cs vs)"
  by (induction env cs vs rule: embed_batches.induct) (auto intro: never_hangs_andThen never_hangs_steps)

lemma never_hangs_body: "awaits_settle env \<Longrightarrow> never_hangs (ingest_body env f fid)"
  unfolding ingest_body_def Let_def by (intro never_hangs_andThen never_hangs_steps never_hangs_batches)

lemma error_done:
  "others_settled fid n m s \<Longrightarrow> \<exists>s'. on_ingest_error fid name msg s = (Inr (), s') \<and> list_all settled_file (ig_files s')
     \<and> ig_inFlight s' = n \<and> ig_mounted s' = m"
  by (auto simp: on_ingest_error_def toast_def setFileState_def set_files_def andThen_def others_settled_def list_all_iff settled_file_def)

text \<open>The state in which an ingest that does not end leaves the page.\<close>

definition stuck :: "nat \<Rightarrow> ingest_state \<Rightarrow> bool" where
  "stuck n s \<longleftrightarrow> ig_inFlight s = Suc n \<and> (\<exists>fid. under_way fid s \<and> (\<forall>f\<in>set (ig_files s). rf_id f \<noteq> fid \<longrightarrow> settled_file f))"

lemma one_settles:
  assumes "list_all settled_file (ig_files s)" "ig_mounted s" "ingestOne env f s = (r, s')"
  shows "(r = Inr () \<and> list_all settled_file (ig_files s') \<and> ig_mounted s' \<and> ig_inFlight s' = ig_inFlight s)
    \<or> (r = Inl Hung \<and> \<not> awaits_settle env \<and> stuck (ig_inFlight s) s')"
proof (cases "detectKind (lower_table (ig_engines env)) (nullish (bf_name f) []) (Some (bf_type f)) = KUnsupported")
  case True
  then show ?thesis using assms by (auto simp: ingestOne_def Let_def toast_def settled_file_def)
next
  case False
  let ?fid = "ig_ids env (ig_drawn s)" and ?name = "nullish (bf_name f) []"
  let ?s = "s\<lparr>ig_drawn := Suc (ig_drawn s), ig_files := ig_files s @ [\<lparr>rf_id = ?fid, rf_name = ?name, rf_status = RParsing, rf_chunks = 0, rf_error = None\<rparr>],
      ig_inFlight := Suc (ig_inFlight s)\<rparr>"
  have o: "others_settled ?fid (Suc (ig_inFlight s)) True ?s"
    using assms(1,2) by (auto simp: others_settled_def list_all_iff)
  have w: "under_way ?fid ?s" by (simp add: under_way_def settled_file_def)
  obtain x t where b: "ingest_body env f ?fid ?s = (x, t)" by fastforce
  have k: "others_settled ?fid (Suc (ig_inFlight s)) True t"
    using keepsD [OF keeps_body o, of env f] b by simp
  have one: "ingestOne env f s = try_finally (ingest_body env f ?fid) (on_ingest_error ?fid ?name) leave_flight ?s"
    using False by (simp add: ingestOne_def Let_def)
  show ?thesis
  proof (cases x)
    case (Inl e)
    show ?thesis
    proof (cases e)
      case (Threw msg)
      then show ?thesis using error_done [OF k, of ?name msg] b Inl assms(3) unfolding one
        by (auto simp: try_finally_def leave_flight_def)
    next
      case Hung
      have "under_way ?fid t" using body_interrupted [of ?fid env f] w b Inl unfolding err_keeps_def by blast
      moreover have "\<not> awaits_settle env" using never_hangs_body [of env f ?fid] b Inl Hung by (metis never_hangs_def fst_conv)
      moreover have "r = Inl Hung" "s' = t" using assms(3) b Inl Hung unfolding one by (simp_all add: try_finally_def)
      ultimately show ?thesis using k unfolding stuck_def others_settled_def by blast
    qed
  next
    case (Inr u)
    have "list_all settled_file (ig_files t)" using body_done [OF _ o] b Inr by (cases u) blast
    then show ?thesis using k b Inr assms(3) unfolding one by (auto simp: try_finally_def leave_flight_def others_settled_def)
  qed
qed

lemma all_settle:
  assumes "list_all settled_file (ig_files s)" "ig_mounted s" "ingestFiles env fs s = (r, s')"
  shows "(r = Inr () \<and> list_all settled_file (ig_files s') \<and> ig_inFlight s' = ig_inFlight s)
    \<or> (r = Inl Hung \<and> \<not> awaits_settle env \<and> stuck (ig_inFlight s) s')"
  using assms unfolding ingestFiles_def
proof (induction fs arbitrary: s)
  case Nil
  then show ?case by (simp add: ret_def)
next
  case (Cons f fs)
  obtain x t where o: "ingestOne env f s = (x, t)" by fastforce
  from one_settles [OF Cons.prems(1,2) o] consider
      "x = Inr ()" "list_all settled_file (ig_files t)" "ig_mounted t" "ig_inFlight t = ig_inFlight s"
    | "x = Inl Hung" "\<not> awaits_settle env" "stuck (ig_inFlight s) t" by blast
  then show ?case
  proof cases
    case 1
    then have "forEach (ingestOne env) fs t = (r, s')" using Cons.prems(3) o by (simp add: andThen_def)
    from Cons.IH [OF 1(2,3) this] show ?thesis by (simp add: 1(4))
  next
    case 2
    then show ?thesis using Cons.prems(3) o by (simp add: andThen_def)
  qed
qed

text \<open>C22. Attaching files ends with every record settled, as done or as an error that says why, and with no ingest in
  flight, however parsing, embedding and the store fail, as long as each of them settles: \<open>awaits_settle\<close> - the reads,
  the embedder, the \<open>ready\<close> of the proxy and the replies of its worker. Nothing else can go wrong: no error escapes
  the call, and if it does not end it is because one of those never settles; the page then still says that it
  is ingesting, and the records are settled but those of the one file whose await it is.\<close>

theorem every_file_settles:
  assumes "list_all settled_file (ig_files s)" "ig_mounted s" "\<not> isIngesting s" "ingestFiles env fs s = (r, s')"
  shows "(awaits_settle env \<longrightarrow> r = Inr ()) \<and> (r = Inr () \<or> r = Inl Hung)
    \<and> (r = Inr () \<longrightarrow> list_all settled_file (ig_files s') \<and> \<not> isIngesting s')
    \<and> (r = Inl Hung \<longrightarrow> isIngesting s' \<and> (\<exists>fid. (\<exists>f\<in>set (ig_files s'). rf_id f = fid \<and> \<not> settled_file f)
          \<and> (\<forall>f\<in>set (ig_files s'). rf_id f \<noteq> fid \<longrightarrow> settled_file f)))"
  using all_settle [OF assms(1,2,4)] assms(3) by (auto simp: isIngesting_def stuck_def under_way_def)

subsection \<open>What a done file leaves behind\<close>

text \<open>An embedder that maps each text to its vector: embedding in batches is embedding at once.\<close>

lemma batches_are_one:
  assumes "\<forall>k ts. ig_embed env k ts = Some (Inr (map e ts))"
  shows "\<exists>k. embed_batches env cks vs s = (Inr (vs @ map e cks), s\<lparr>ig_calls := k\<rparr>)"
  using assms
proof (induction env cks vs arbitrary: s rule: embed_batches.induct)
  case (1 env vs)
  then show ?case by (intro exI [of _ "ig_calls s"]) (simp add: ret_def)
next
  case (2 env c cs vs)
  obtain k where "embed_batches env (drop EMBED_BATCH (c # cs)) (vs @ map e (take EMBED_BATCH (c # cs))) (s\<lparr>ig_calls := Suc (ig_calls s)\<rparr>)
      = (Inr ((vs @ map e (take EMBED_BATCH (c # cs))) @ map e (drop EMBED_BATCH (c # cs))), s\<lparr>ig_calls := k\<rparr>)"
    using 2(1) [OF 2(2), of "map e (take EMBED_BATCH (c # cs))" "s\<lparr>ig_calls := Suc (ig_calls s)\<rparr>"] by auto
  moreover have "map e (take EMBED_BATCH (c # cs)) @ map e (drop EMBED_BATCH (c # cs)) = map e (c # cs)"
    by (metis append_take_drop_id map_append)
  ultimately show ?case using 2(2) by (auto simp: andThen_def embed_call_def)
qed

lemma usable_same_dim:
  assumes "\<forall>v\<in>set vs. length (sv_vec v) = d" "0 < d"
  shows "usable_vectors vs = vs"
proof -
  have "filter (\<lambda>v. sv_vec v \<noteq> []) vs = vs" using assms by (intro filter_True) auto
  then show ?thesis using assms by (cases vs) (auto simp: usable_vectors_def intro: filter_True)
qed

lemma file_id_kept: "rf_id (rf_status_update g f) = rf_id f" "rf_id (rf_chunks_update h f) = rf_id f"
  by simp_all

lemma set_state_keeps:
  assumes "\<And>f. rf_id (patch f) = rf_id f" "fid \<in> rf_id ` set (ig_files u)"
  shows "\<exists>t. setFileState fid patch u = (Inr (), t) \<and> ig_store t = ig_store u \<and> fid \<in> rf_id ` set (ig_files t)"
proof -
  let ?h = "\<lambda>f. if rf_id f = fid then patch f else f"
  let ?t = "u\<lparr>ig_files := map ?h (ig_files u)\<rparr>"
  have "map rf_id (map ?h (ig_files u)) = map rf_id (ig_files u)" using assms(1) by simp
  then have "set (map rf_id (ig_files ?t)) = set (map rf_id (ig_files u))" by simp
  then have "fid \<in> rf_id ` set (ig_files ?t)" using assms(2) by (simp only: set_map)
  moreover have "setFileState fid patch u = (Inr (), ?t)" by (simp add: setFileState_def set_files_def)
  ultimately show ?thesis by (intro exI [of _ ?t]) simp
qed

text \<open>The rows of a document in the store: chunk, ordinal and the vector of that very chunk.\<close>

definition doc_rows :: "jsstring \<Rightarrow> jsstring list \<Rightarrow> f32 list list \<Rightarrow> StoredVector list" where
  "doc_rows fid cks vectors = map (\<lambda>i. \<lparr>sv_messageId = docMessageId fid, sv_ord = i, sv_text = cks ! i, sv_vec = vectors ! i\<rparr>) [0 ..< length cks]"

lemma stored_rows: "length vectors = length cks \<Longrightarrow>
    map (\<lambda>(i, c). \<lparr>sv_messageId = docMessageId fid, sv_ord = i, sv_text = vc_text c, sv_vec = vc_vec c\<rparr>)
      (zip [0..<length (vector_chunks cks vectors)] (vector_chunks cks vectors)) = doc_rows fid cks vectors"
  by (rule nth_equalityI) (simp_all add: doc_rows_def vector_chunks_def)

text \<open>Reading the vectors changes nothing.\<close>

lemma hydrate_vectors_after: "after env HYDRATE_VECTORS s = s"
  by (simp add: answer_eq hydrateVectors_def query_def prepare_def mustDb_def andThen_def ret_def throw_def reply_def
      split: prod.splits sum.splits option.splits)

text \<open>The end of the body: what is written to the store is what the index is loaded with.\<close>

definition store_works :: "ingest_env \<Rightarrow> bool" where
  "store_works env \<longleftrightarrow> ig_isOpen env \<and> ig_ready env = Opened \<and> (\<forall>k. ig_replies env k)"

lemma stored_chunks_indexed:
  assumes "opened (ig_store s) d" "store_works env" "length vectors = length cks"
  shows "\<exists>r s' vs. store_call env (STORE_VECTORS (docMessageId fid) (vector_chunks cks vectors)) s = (Inr r, s')
     \<and> fst (rehydrate env s') = Inr () \<and> ig_files (snd (rehydrate env s')) = ig_files s
     \<and> answer (ig_senv env) HYDRATE_VECTORS (ig_store (snd (rehydrate env s'))) = VECTORS vs
     \<and> filter (\<lambda>v. sv_messageId v = docMessageId fid) vs = doc_rows fid cks vectors
     \<and> filter (\<lambda>v. sv_messageId v \<noteq> docMessageId fid) vs = filter (\<lambda>v. sv_messageId v \<noteq> docMessageId fid) (select_vectors d)
     \<and> shared (ig_rag (snd (rehydrate env s'))) = index_load vs"
proof -
  let ?cs = "vector_chunks cks vectors" and ?o = "docMessageId fid"
  let ?s = "s\<lparr>ig_requests := Suc (ig_requests s), ig_store := after (ig_senv env) (STORE_VECTORS ?o ?cs) (ig_store s)\<rparr>"
  obtain vs where vs: "answer (ig_senv env) HYDRATE_VECTORS (ig_store ?s) = VECTORS vs"
    "filter (\<lambda>v. sv_messageId v = ?o) vs = doc_rows fid cks vectors"
    "filter (\<lambda>v. sv_messageId v \<noteq> ?o) vs = filter (\<lambda>v. sv_messageId v \<noteq> ?o) (select_vectors d)"
    using vectors_read_back(2) [OF assms(1), of "ig_senv env" ?o ?cs] stored_rows [OF assms(3), of fid] by auto
  have st: "after (ig_senv env) HYDRATE_VECTORS (ig_store ?s) = ig_store ?s" by (rule hydrate_vectors_after)
  have call: "store_call env (STORE_VECTORS ?o ?cs) s = (Inr (OK None), ?s)"
    using vectors_read_back(1) [OF assms(1)] assms(2) by (simp add: store_call_def store_works_def Let_def)
  have "store_call env HYDRATE_VECTORS ?s = (Inr (VECTORS vs), ?s\<lparr>ig_requests := Suc (Suc (ig_requests s))\<rparr>)"
    using vs(1) st assms(2) by (simp add: store_call_def store_works_def Let_def)
  then have "rehydrate env ?s = (Inr (), ?s\<lparr>ig_requests := Suc (Suc (ig_requests s)),
      ig_rag := hydrateRagIndex True True (Inr vs) (ig_rag ?s)\<rparr>)"
    using assms(2) by (simp add: rehydrate_def vectors_of_def store_works_def)
  then show ?thesis using call vs by (intro exI [of _ "OK None"] exI [of _ ?s] exI [of _ vs]) (simp add: hydrateRagIndex_def)
qed

text \<open>The body of a good file, from a page that holds its record.\<close>

lemma good_file_body:
  assumes "opened (ig_store s0) d" "store_works env" "ig_reads env f" "fid \<in> rf_id ` set (ig_files s0)"
    and "\<forall>k ts. ig_embed env k ts = Some (Inr (map e ts))"
    and "fst (parseBlob (ig_engines env) f None (ig_parser s0)) = Inr doc" "Prelude.trim (pd_text doc) \<noteq> []"
    and "chunkText (pd_text doc) \<lparr>chunkTokens = None, overlapTokens = None\<rparr> = Some cks" "cks \<noteq> []"
  shows "\<exists>t vs. ingest_body env f fid s0 = (Inr (), t) \<and> (\<exists>r\<in>set (ig_files t). rf_id r = fid \<and> rf_status r = RDone)
     \<and> answer (ig_senv env) HYDRATE_VECTORS (ig_store t) = VECTORS vs
     \<and> filter (\<lambda>v. sv_messageId v = docMessageId fid) vs = doc_rows fid cks (map e cks)
     \<and> filter (\<lambda>v. sv_messageId v \<noteq> docMessageId fid) vs = filter (\<lambda>v. sv_messageId v \<noteq> docMessageId fid) (select_vectors d)
     \<and> shared (ig_rag t) = index_load vs"
proof -
  obtain p where p: "parseBlob (ig_engines env) f None (ig_parser s0) = (Inr doc, p)" using assms(6) by (metis prod.collapse)
  let ?s1 = "s0\<lparr>ig_parser := p\<rparr>" and ?vecs = "map e cks"
  have one: "in_parser (ig_reads env f) (parseBlob (ig_engines env) f None) s0 = (Inr doc, ?s1)"
    using assms(3) by (simp add: in_parser_def p)
  have "fid \<in> rf_id ` set (ig_files ?s1)" using assms(4) by simp
  from set_state_keeps [where patch = "rf_status_update (\<lambda>_. RChunking)", OF file_id_kept(1) this] obtain s2 where s2: "setFileState fid (rf_status_update (\<lambda>_. RChunking)) ?s1 = (Inr (), s2)"
    "ig_store s2 = ig_store ?s1" "fid \<in> rf_id ` set (ig_files s2)" by blast
  from set_state_keeps [where patch = "rf_chunks_update (\<lambda>_. length cks)", OF file_id_kept(2) s2(3)] obtain s3 where s3: "setFileState fid (rf_chunks_update (\<lambda>_. length cks)) s2 = (Inr (), s3)"
    "ig_store s3 = ig_store s2" "fid \<in> rf_id ` set (ig_files s3)" by blast
  from set_state_keeps [where patch = "rf_status_update (\<lambda>_. REmbedding)", OF file_id_kept(1) s3(3)] obtain s4 where s4: "setFileState fid (rf_status_update (\<lambda>_. REmbedding)) s3 = (Inr (), s4)"
    "ig_store s4 = ig_store s3" "fid \<in> rf_id ` set (ig_files s4)" by blast
  obtain k where k: "embed_batches env cks [] s4 = (Inr ?vecs, s4\<lparr>ig_calls := k\<rparr>)"
    using batches_are_one [OF assms(5), of cks "[]" s4] by auto
  have "fid \<in> rf_id ` set (ig_files (s4\<lparr>ig_calls := k\<rparr>))" using s4(3) by simp
  from set_state_keeps [where patch = "rf_status_update (\<lambda>_. RStoring)", OF file_id_kept(1) this] obtain s5 where s5: "setFileState fid (rf_status_update (\<lambda>_. RStoring)) (s4\<lparr>ig_calls := k\<rparr>) = (Inr (), s5)"
    "ig_store s5 = ig_store (s4\<lparr>ig_calls := k\<rparr>)" "fid \<in> rf_id ` set (ig_files s5)" by blast
  have o5: "opened (ig_store s5) d" using assms(1) s2(2) s3(2) s4(2) s5(2) by simp
  obtain r s6 vs where s6: "store_call env (STORE_VECTORS (docMessageId fid) (vector_chunks cks ?vecs)) s5 = (Inr r, s6)"
    "fst (rehydrate env s6) = Inr ()" "ig_files (snd (rehydrate env s6)) = ig_files s5"
    "answer (ig_senv env) HYDRATE_VECTORS (ig_store (snd (rehydrate env s6))) = VECTORS vs"
    "filter (\<lambda>v. sv_messageId v = docMessageId fid) vs = doc_rows fid cks ?vecs"
    "filter (\<lambda>v. sv_messageId v \<noteq> docMessageId fid) vs = filter (\<lambda>v. sv_messageId v \<noteq> docMessageId fid) (select_vectors d)"
    "shared (ig_rag (snd (rehydrate env s6))) = index_load vs"
    using stored_chunks_indexed [OF o5 assms(2), of ?vecs cks fid] by auto
  obtain s7 where s7: "rehydrate env s6 = (Inr (), s7)" using s6(2) by (metis prod.collapse)
  define t where "t = s7\<lparr>ig_files := map (\<lambda>f. if rf_id f = fid then f\<lparr>rf_status := RDone\<rparr> else f) (ig_files s7)\<rparr>"
  have fin: "setFileState fid (rf_status_update (\<lambda>_. RDone)) s7 = (Inr (), t)"
    by (simp add: setFileState_def set_files_def t_def)
  obtain x where x: "x \<in> set (ig_files s7)" "rf_id x = fid" using s5(3) s6(3) s7 by auto
  then have "x\<lparr>rf_status := RDone\<rparr> \<in> set (ig_files t)" unfolding t_def by (auto intro!: image_eqI [of _ _ x])
  then have ready: "\<exists>r\<in>set (ig_files t). rf_id r = fid \<and> rf_status r = RDone"
    using x(2) by (intro bexI [of _ "x\<lparr>rf_status := RDone\<rparr>"]) simp_all
  have "ingest_body env f fid s0 = (Inr (), t)"
    unfolding ingest_body_def using assms(7-9)
    by (simp add: andThen_def one guard_step_def ret_def s2(1) s3(1) s4(1) k s5(1) s6(1) s7 fin Let_def)
  then show ?thesis using ready s6(4-7) s7 by (intro exI [of _ t] exI [of _ vs]) (simp add: t_def)
qed

text \<open>C23. A file whose text parses and has chunks, over an open store: its record ends as done; the store then holds for the
  document exactly its chunks, in the order of the text, each with the vector the embedder gives to that chunk, and
  for every other owner what it held; and the cosine index is the one loaded from these vectors, so that, when all
  have one dimension, every chunk is an entry of it with its own row of the matrix.\<close>

theorem attached_file_is_retrievable:
  assumes "opened (ig_store s) d" "store_works env" "ig_reads env f"
    and "\<forall>k ts. ig_embed env k ts = Some (Inr (map e ts))"
    and "fst (parseBlob (ig_engines env) f None (ig_parser s)) = Inr doc" "Prelude.trim (pd_text doc) \<noteq> []"
    and "chunkText (pd_text doc) \<lparr>chunkTokens = None, overlapTokens = None\<rparr> = Some cks" "cks \<noteq> []"
    and "detectKind (lower_table (ig_engines env)) (nullish (bf_name f) []) (Some (bf_type f)) \<noteq> KUnsupported"
    and "fid = ig_ids env (ig_drawn s)"
  shows "\<exists>s' vs. ingestOne env f s = (Inr (), s')
     \<and> (\<exists>r\<in>set (ig_files s'). rf_id r = fid \<and> rf_status r = RDone)
     \<and> answer (ig_senv env) HYDRATE_VECTORS (ig_store s') = VECTORS vs
     \<and> filter (\<lambda>v. sv_messageId v = docMessageId fid) vs
         = map (\<lambda>i. \<lparr>sv_messageId = docMessageId fid, sv_ord = i, sv_text = cks ! i, sv_vec = e (cks ! i)\<rparr>) [0 ..< length cks]
     \<and> filter (\<lambda>v. sv_messageId v \<noteq> docMessageId fid) vs
         = filter (\<lambda>v. sv_messageId v \<noteq> docMessageId fid) (select_vectors d)
     \<and> shared (ig_rag s') = index_load vs
     \<and> ((\<exists>n>0. \<forall>v\<in>set vs. length (sv_vec v) = n) \<longrightarrow>
          ri_entries (shared (ig_rag s')) = map entry_of vs \<and> ri_matrix (shared (ig_rag s')) = concat (map sv_vec vs))"
proof -
  let ?name = "nullish (bf_name f) []"
  define s0 where "s0 = s\<lparr>ig_drawn := Suc (ig_drawn s), ig_files := ig_files s @ [\<lparr>rf_id = fid, rf_name = ?name, rf_status = RParsing, rf_chunks = 0, rf_error = None\<rparr>],
      ig_inFlight := Suc (ig_inFlight s)\<rparr>"
  have s0: "ig_store s0 = ig_store s" "ig_parser s0 = ig_parser s" "fid \<in> rf_id ` set (ig_files s0)" by (simp_all add: s0_def)
  obtain t vs where t: "ingest_body env f fid s0 = (Inr (), t)" "\<exists>r\<in>set (ig_files t). rf_id r = fid \<and> rf_status r = RDone"
    "answer (ig_senv env) HYDRATE_VECTORS (ig_store t) = VECTORS vs"
    "filter (\<lambda>v. sv_messageId v = docMessageId fid) vs = doc_rows fid cks (map e cks)"
    "filter (\<lambda>v. sv_messageId v \<noteq> docMessageId fid) vs = filter (\<lambda>v. sv_messageId v \<noteq> docMessageId fid) (select_vectors d)"
    "shared (ig_rag t) = index_load vs"
    using good_file_body [of s0 d env f fid e doc cks] assms(1-8) s0 by auto
  have res: "ingestOne env f s = (Inr (), leave_flight t)"
    using assms(9,10) t(1) by (simp add: ingestOne_def Let_def s0_def try_finally_def)
  have rows: "doc_rows fid cks (map e cks)
      = map (\<lambda>i. \<lparr>sv_messageId = docMessageId fid, sv_ord = i, sv_text = cks ! i, sv_vec = e (cks ! i)\<rparr>) [0 ..< length cks]"
    by (simp add: doc_rows_def)
  have ix: "ri_entries (index_load vs) = map entry_of vs \<and> ri_matrix (index_load vs) = concat (map sv_vec vs)"
    if "0 < n" "\<forall>v\<in>set vs. length (sv_vec v) = n" for n
    using index_load_rows [of vs] usable_same_dim [OF that(2,1)] by simp
  have f: "ig_files (leave_flight t) = ig_files t" "ig_store (leave_flight t) = ig_store t" "ig_rag (leave_flight t) = ig_rag t"
    by (simp_all add: leave_flight_def)
  show ?thesis
    by (intro exI [of _ "leave_flight t"] exI [of _ vs])
      (use res t(2-6) rows ix f in \<open>auto simp del: filter_map\<close>)
qed

text \<open>On a proxy that nobody opens the ingest of a good file never ends: it waits for the store with its record at
  \<open>storing\<close>.\<close>

lemma unopened_store_hangs:
  assumes "ig_ready env = Waiting"
  shows "try_finally (andThen (store_call env b) m) h leave_flight s = (Inl Hung, s)"
  using assms by (simp add: store_call_def try_finally_def andThen_def)

definition note_text :: jsstring where "note_text = js ''abcdefghijklmnopqrst''"

definition note_attachment :: BrowserFile where
  "note_attachment = \<lparr>bf_read = Inr (utf8 note_text), bf_name = Some (js ''a.md''), bf_type = []\<rparr>"

definition sample_ingest :: "ingest_env \<times> ingest_state" where
  "sample_ingest = (\<lparr>ig_engines = sample_engines, ig_ids = (\<lambda>k. js ''f''), ig_reads = (\<lambda>_. True),
       ig_embed = (\<lambda>_ ts. Some (Inr (map (\<lambda>_. [1, 2]) ts))), ig_isOpen = True, ig_ready = Opened, ig_replies = (\<lambda>_. True),
       ig_senv = StoreProps.sample_env, ig_message = (\<lambda>_. []), ig_refusal = (\<lambda>_. [])\<rparr>,
     \<lparr>ig_files = [], ig_inFlight = 0, ig_mounted = True, ig_parser = fresh_parser, ig_rag = new_rag, ig_store = sample_state,
      ig_drawn = 0, ig_calls = 0, ig_requests = 0, ig_toasts = []\<rparr>)"

lemma note_trim: "Prelude.trim note_text = note_text" "normalized note_text = note_text" "normalizeText note_text = note_text"
  by (simp_all add: note_text_def js_def Prelude.trim_def trim_end_def is_ws_def ws_codes_def normalized_def normalizeText_def)

lemma note_chunks: "chunkText note_text \<lparr>chunkTokens = None, overlapTokens = None\<rparr> = Some [note_text]"
proof -
  have b: "max_chars \<lparr>chunkTokens = None, overlapTokens = None\<rparr> = 800"
    by (simp add: max_chars_def chunk_tokens_def DEFAULT_CHUNK_TOKENS_def CHARS_PER_TOKEN_def)
  have n: "length note_text = 20" "note_text \<noteq> []" by (simp_all add: note_text_def)
  have "splitIntoSegments note_text 800 = [note_text]"
    by (simp add: note_text_def js_def splitIntoSegments_def paragraphs_def blank_lines_def is_newline_def Let_def
        segments_of_def trim_def trim_end_def is_ws_def ws_codes_def)
  then show ?thesis using n
    by (simp add: chunkText_def note_trim b add_segment_def hard_split.simps push_chunk_def MIN_CHUNK_CHARS_def)
qed


lemma note_parsed: "parseBlob sample_engines note_attachment None fresh_parser
    = (Inr \<lparr>pd_name = js ''a.md'', pd_kind = KText, pd_text = note_text\<rparr>, fresh_parser)"
proof -
  have "well_formed (map unat note_text)" by (simp add: note_text_def js_def is_high_def is_low_def)
  moreover have "take 1 note_text \<noteq> [0xFEFF]" by (simp add: note_text_def js_def)
  ultimately have "decodeText (utf8 note_text) = note_text" by (simp add: decodeText_def utf8_roundtrip)
  moreover have "length (utf8 note_text) \<le> MAX_PARSE_BYTES"
    by (simp add: note_text_def js_def utf8_def utf8_bytes_def MAX_PARSE_BYTES_def is_high_def is_low_def)
  ultimately show ?thesis
    by (simp add: parseBlob_def note_attachment_def settled_def or_empty_def parseFile_def kind_text_def note_kind note_trim monad_simps)
qed

lemma attached_file_is_retrievable_witness:
  "\<exists>s' vs. ingestOne (fst sample_ingest) note_attachment (snd sample_ingest) = (Inr (), s')
     \<and> answer StoreProps.sample_env HYDRATE_VECTORS (ig_store s') = VECTORS vs
     \<and> filter (\<lambda>v. sv_messageId v = js ''doc:f'') vs
       = [\<lparr>sv_messageId = js ''doc:f'', sv_ord = 0, sv_text = note_text, sv_vec = [1, 2]\<rparr>]"
proof -
  have k: "detectKind tbl (js ''a.md'') (Some []) = KText" for tbl
    by (simp add: detectKind_def extOf_def js_def toLowerCase_def TEXT_EXTENSIONS_def)
  have o: "opened (ig_store (snd sample_ingest)) sample_db" by (simp add: sample_ingest_def sample_opened)
  have w: "store_works (fst sample_ingest)" "ig_reads (fst sample_ingest) note_attachment"
    by (simp_all add: sample_ingest_def store_works_def)
  let ?doc = "\<lparr>pd_name = js ''a.md'', pd_kind = KText, pd_text = note_text\<rparr>"
  have c: "chunkText (pd_text ?doc) \<lparr>chunkTokens = None, overlapTokens = None\<rparr> = Some [note_text]" by (simp add: note_chunks)
  have e: "\<forall>k ts. ig_embed (fst sample_ingest) k ts = Some (Inr (map (\<lambda>_. [1, 2]) ts))" by (simp add: sample_ingest_def)
  have d: "docMessageId (js ''f'') = js ''doc:f''" by (simp add: docMessageId_def js_def)
  have p: "fst (parseBlob (ig_engines (fst sample_ingest)) note_attachment None (ig_parser (snd sample_ingest))) = Inr ?doc"
    using note_parsed by (simp add: sample_ingest_def)
  have u: "detectKind (lower_table (ig_engines (fst sample_ingest))) (nullish (bf_name note_attachment) []) (Some (bf_type note_attachment)) \<noteq> KUnsupported"
    using k by (simp add: note_attachment_def)
  have n: "Prelude.trim (pd_text ?doc) \<noteq> []" by (simp add: note_trim) (simp add: note_text_def js_def)
  from attached_file_is_retrievable [OF o w e p n c _ u refl]
  show ?thesis by (auto simp: d sample_ingest_def)
qed

lemma every_file_settles_witness:
  "\<exists>s'. ingestFiles (fst sample_ingest) [note_attachment, note_attachment\<lparr>bf_name := Some (js ''a.bin'')\<rparr>] (snd sample_ingest) = (Inr (), s')
     \<and> list_all settled_file (ig_files s') \<and> \<not> isIngesting s'"
proof -
  obtain r s' where r: "ingestFiles (fst sample_ingest) [note_attachment, note_attachment\<lparr>bf_name := Some (js ''a.bin'')\<rparr>] (snd sample_ingest) = (r, s')"
    by fastforce
  have "awaits_settle (fst sample_ingest)" by (simp add: awaits_settle_def sample_ingest_def)
  then show ?thesis using every_file_settles [OF _ _ _ r] r by (simp add: sample_ingest_def isIngesting_def)
qed

end
