(* ===== verification/Prompt.thy ===== *)
theory Prompt
  imports CaladonLib StoreProxy Retrieval
begin

text \<open>
  What happens to a prompt between the composer and the seal, in
  \<open>web-client/overlay/client/src/\<close>: \<open>lib/memory/inject.ts\<close>, \<open>lib/skills/inject.ts\<close>,
  \<open>lib/artifacts/inject.ts\<close>, \<open>lib/subagents/{collect,orchestrate}.ts\<close>, the conversion of a stored agent
  (\<open>data-provider/Agents/queries.ts\<close>) and the setup of a turn in \<open>hooks/SSE/useSSE.ts\<close>. Every
  injection prepends text on the device; the result is sealed and posted. The main results: the
  sealed prompt ends with what the user wrote whatever failed on the way, and every request the
  setup sends is a sealed one under the session of the unlock, six of them at most.

  The answers of the device store, of \<open>localStorage\<close> and of the embedding worker are fields of
  \<open>turn_env\<close>: what those calls return or reject with during the setup of one turn.
\<close>

record turn_env =
  t_rt :: runtime
  t_storage :: "jsstring \<Rightarrow> jsstring + jsstring option"
  t_open :: bool
  t_ready :: ready
  t_memories :: "proxy_error + StoredMemory list"
  t_getSkill :: "jsstring \<Rightarrow> proxy_error + StoredSkill option"
  t_getAgent :: "json \<Rightarrow> proxy_error + StoredAgent option"
  t_listAgents :: "proxy_error + StoredAgent list"
  t_vectors :: "jsstring + StoredVector list"
  t_embed :: "jsstring list \<Rightarrow> jsstring + f32 list list"
  t_floats :: float_platform

abbreviation t_plat :: "turn_env \<Rightarrow> platform" where
  "t_plat env \<equiv> plat (t_rt env)"

subsection \<open>Memories, the active skill, artifacts\<close>

definition memoryEnabled :: "turn_env \<Rightarrow> bool" where
  "memoryEnabled env =
     (case t_storage env (js ''caladon:memoryEnabled'') of Inl e \<Rightarrow> True | Inr v \<Rightarrow> v \<noteq> Some (js ''0''))"

definition memory_line :: "StoredMemory \<Rightarrow> jsstring" where
  "memory_line m = js ''- '' @ my_key m @ js '': '' @ my_value m"

definition memory_block :: "StoredMemory list \<Rightarrow> jsstring" where
  "memory_block ms =
     js ''The following are persistent facts the user has asked you to remember about them. ''
     @ js ''Use them when relevant; do not mention this block explicitly.'' @ [10] @ js ''<memory>'' @ [10]
     @ join [10] (map memory_line ms) @ [10] @ js ''</memory>'' @ [10, 10]"

definition injectMemoriesIntoPrompt :: "turn_env \<Rightarrow> jsstring \<Rightarrow> jsstring" where
  "injectMemoriesIntoPrompt env promptText =
     (if \<not> memoryEnabled env \<or> \<not> t_open env then promptText
      else case t_memories env of
        Inl e \<Rightarrow> promptText
      | Inr ms \<Rightarrow> if ms = [] then promptText else memory_block ms @ promptText)"

definition activeSkillId :: "turn_env \<Rightarrow> jsstring option" where
  "activeSkillId env = (case t_storage env (js ''caladon:activeSkillId'') of Inl e \<Rightarrow> None | Inr v \<Rightarrow> v)"

definition injectActiveSkillIntoPrompt :: "turn_env \<Rightarrow> jsstring \<Rightarrow> jsstring" where
  "injectActiveSkillIntoPrompt env promptText =
     (let skillId = nullish (activeSkillId env) [] in
      if skillId = [] \<or> \<not> t_open env then promptText
      else case t_getSkill env skillId of
        Inr (Some sk) \<Rightarrow>
          if trim (sk_body sk) = [] then promptText else trim (sk_body sk) @ [10, 10] @ promptText
      | _ \<Rightarrow> promptText)"

definition ARTIFACT_INSTRUCTIONS :: jsstring where
  "ARTIFACT_INSTRUCTIONS = join [10]
     [js ''# Artifacts'',
      [],
      js ''When the user asks for substantial, self-contained, reusable content (a web page, a diagram, a'',
      js ''drawing, a document), output it as an \"artifact\" so it renders in a side panel. Use this exact'',
      js ''format '' @ [0x2014] @ js '' the triple backticks are required:'',
      [],
      js '':::artifact{identifier=\"kebab-case-id\" type=\"<mime-type>\" title=\"Short Title\"}'',
      js ''```'',
      js ''<the complete content>'',
      js ''```'',
      js '':::'',
      [],
      js ''Reuse the same identifier when updating an existing artifact. Supported types (use ONLY these):'',
      [],
      js ''- \"text/html\" '' @ [0x2014] @ js '' a single self-contained HTML page. Put ALL CSS and JS inline in the one file. It'',
      js ''  runs in a locked-down sandbox with NO network access: do NOT reference external scripts,'',
      js ''  stylesheets, fonts, or images (no CDNs, no <img src=\"http...\">). Inline SVG and data: URIs are fine.'',
      js ''- \"application/vnd.mermaid\" '' @ [0x2014] @ js '' a Mermaid diagram (flowcharts, sequence, etc.). Content is Mermaid syntax.'',
      js ''- \"image/svg+xml\" '' @ [0x2014] @ js '' a self-contained SVG document.'',
      js ''- \"text/markdown\" '' @ [0x2014] @ js '' a Markdown document.'',
      [],
      js ''Do NOT use React/JSX artifacts '' @ [0x2014] @ js '' they are not supported here; build interactive content as a single'',
      js ''\"text/html\" artifact with inline JavaScript instead. Provide complete content with no placeholders or'',
      js ''\"rest of code unchanged\" comments. For short snippets or one-off answers, reply normally instead of'',
      js ''using an artifact.'']"

definition artifactsFlagOn :: "turn_env \<Rightarrow> bool" where
  "artifactsFlagOn env =
     (case t_storage env (js ''caladon:artifactsEnabled'') of Inl e \<Rightarrow> True | Inr v \<Rightarrow> v \<noteq> Some (js ''false''))"

definition artifacts_mode_on :: "json option \<Rightarrow> bool" where
  "artifacts_mode_on mode = (case mode of Some (JStr s) \<Rightarrow> trim s \<noteq> [] | _ \<Rightarrow> False)"

definition injectArtifactsIntoPrompt :: "turn_env \<Rightarrow> jsstring \<Rightarrow> json option \<Rightarrow> jsstring" where
  "injectArtifactsIntoPrompt env promptText mode =
     (if artifacts_mode_on mode \<or> artifactsFlagOn env
      then ARTIFACT_INSTRUCTIONS @ [10, 10] @ promptText else promptText)"

subsection \<open>The chain of an agent\<close>

text \<open>\<open>idOf\<close>: the first of the three keys that holds a string.\<close>

fun first_string :: "json \<Rightarrow> jsstring list \<Rightarrow> jsstring" where
  "first_string v [] = []"
| "first_string v (k # ks) = (case getProp v k of Some (JStr s) \<Rightarrow> s | _ \<Rightarrow> first_string v ks)"

definition idOf :: "json option \<Rightarrow> jsstring" where
  "idOf v = (case v of
       Some (JStr s) \<Rightarrow> s
     | Some w \<Rightarrow> first_string w [js ''id'', js ''agent_id'', js ''agentId'']
     | None \<Rightarrow> [])"

definition array_of :: "json option \<Rightarrow> json list" where
  "array_of v = (case v of Some (JArr xs) \<Rightarrow> xs | _ \<Rightarrow> [])"

text \<open>\<open>Array.from(new Set(xs))\<close>: the first occurrence of each.\<close>

fun uniq :: "'a list \<Rightarrow> 'a list" where
  "uniq [] = []"
| "uniq (x # xs) = x # filter (\<lambda>y. y \<noteq> x) (uniq xs)"

definition sub_ids :: "json option \<Rightarrow> json list" where
  "sub_ids v = (case v of
       Some w \<Rightarrow> if truthy v \<and> getProp w (js ''enabled'') \<noteq> Some (JBool False)
                then array_of (getProp w (js ''agent_ids'')) else []
     | None \<Rightarrow> [])"

definition chain_refs :: "json \<Rightarrow> json option list" where
  "chain_refs c = map Some (array_of (getProp c (js ''agent_ids''))) @ map Some (sub_ids (getProp c (js ''subagents'')))
     @ map (\<lambda>e. getProp e (js ''to'')) (array_of (getProp c (js ''edges'')))"

text \<open>A configuration that parses to null throws: it has no \<open>agent_ids\<close> to read.\<close>

definition collectSubagentIds :: "platform \<Rightarrow> jsstring option \<Rightarrow> jsstring option \<Rightarrow> cerror + jsstring list" where
  "collectSubagentIds p configJson selfId =
     (if nullish configJson [] = [] then Inr []
      else case p_parse p (the configJson) of
        None \<Rightarrow> Inr []
      | Some JNull \<Rightarrow> Inl TypeErr
      | Some c \<Rightarrow> Inr (uniq (filter (\<lambda>i. i \<noteq> [] \<and> Some i \<noteq> selfId) (map idOf (chain_refs c)))))"

subsection \<open>A stored agent as an object\<close>

text \<open>The own properties a spread copies: of an object its own, of an array or string its indices.\<close>

fun spread :: "json \<Rightarrow> (jsstring \<times> json) list" where
  "spread (JObj kvs) = kvs"
| "spread (JArr xs) = zip (map decimal [0..<length xs]) xs"
| "spread (JStr s) = zip (map decimal [0..<length s]) (map (\<lambda>c. JStr [c]) s)"
| "spread _ = []"

definition opt_str :: "jsstring option \<Rightarrow> json" where
  "opt_str v = (case v of None \<Rightarrow> JNull | Some s \<Rightarrow> JStr s)"

text \<open>Later properties of an object literal replace earlier ones; here they stand first, which is
  what a lookup reads. The identity columns thus win over the copy in \<open>configJson\<close>.\<close>

definition storedToAgent :: "platform \<Rightarrow> StoredAgent \<Rightarrow> cerror + json" where
  "storedToAgent p s =
     (let parsed = nullish (p_parse p (ag_configJson s)) (JObj []) in
      case (if nullish (ag_tools s) [] \<noteq> []
            then (case p_parse p (the (ag_tools s)) of None \<Rightarrow> Inl SyntaxErr | Some t \<Rightarrow> Inr (Some t))
            else get_prop parsed ''tools'') of
        Inl e \<Rightarrow> Inl e
      | Inr tls \<Rightarrow> Inr (JObj (
          [(js ''id'', JStr (ag_agentId s)), (js ''name'', JStr (ag_name s)),
           (js ''instructions'', opt_str (ag_instructions s)), (js ''model'', opt_str (ag_model s)),
           (js ''provider'', JStr (nullish (ag_provider s) (js ''caladon'')))]
          @ (case tls of Some t \<Rightarrow> [(js ''tools'', t)] | None \<Rightarrow> [])
          @ spread parsed
          @ [(js ''description'', opt_str (ag_description s)), (js ''model_parameters'', JObj []),
             (js ''avatar'', JNull), (js ''created_at'', JNum (ag_createdAt s))])))"

subsection \<open>Sealed completions\<close>

definition CHAT_PATH :: jsstring where "CHAT_PATH = js ''/api/caladon/chat''"
definition GATEWAY_CHAT_PATH :: jsstring where "GATEWAY_CHAT_PATH = js ''/v1/chat''"

definition post_request :: "runtime \<Rightarrow> json \<Rightarrow> jsstring \<Rightarrow> request" where
  "post_request rte body auth = \<lparr>rq_method = POST, rq_url = CHAT_PATH,
     rq_headers = [(js ''Content-Type'', js ''application/json''), (js ''Authorization'', auth)],
     rq_body = Some (p_stringify (plat rte) body)\<rparr>"

text \<open>The page's own \<open>fetch\<close>; without one the name is not defined and the call throws.\<close>

definition page_fetch :: "runtime \<Rightarrow> request \<Rightarrow> response lib" where
  "page_fetch rte q = (case global_fetch rte of None \<Rightarrow> throw TypeErr | Some net \<Rightarrow> on_client (fetch net q))"

text \<open>\<open>/^event:\s*token/m\<close>: at the start of some line.\<close>

definition token_at :: "jsstring \<Rightarrow> bool" where
  "token_at s \<longleftrightarrow> prefix (js ''event:'') s \<and> prefix (js ''token'') (dropWhile is_ws (drop 6 s))"

fun token_event :: "bool \<Rightarrow> jsstring \<Rightarrow> bool" where
  "token_event line_start [] = False"
| "token_event line_start (c # cs) =
     ((line_start \<and> token_at (c # cs)) \<or> token_event (c \<in> {10, 13, 0x2028, 0x2029}) cs)"

definition data_payload :: "jsstring \<Rightarrow> jsstring option" where
  "data_payload block =
     (if \<not> token_event True block then None
      else map_option (\<lambda>l. trim (drop (Suc (nullish (index_of (js '':'') l) 0)) l))
             (find (\<lambda>l. prefix (js ''data:'') l) (split_str [10] block)))"

text \<open>\<open>openDelta(JSON.parse(data).envelope)\<close>; reading a property of null throws, and so does opening
  \<open>undefined\<close>, once the session and the module are there.\<close>

definition open_payload :: "runtime \<Rightarrow> jsstring \<Rightarrow> jsstring lib" where
  "open_payload rte payload =
     (case p_parse (plat rte) payload of
        None \<Rightarrow> throw SyntaxErr
      | Some obj \<Rightarrow>
          (case get_prop obj ''envelope'' of
             Inl e \<Rightarrow> throw e
           | Inr None \<Rightarrow> andThen requireSession (\<lambda>_. andThen (getWasm rte) (\<lambda>_. throw TypeErr))
           | Inr (Some en) \<Rightarrow> openDelta rte en))"

fun open_blocks :: "runtime \<Rightarrow> jsstring \<Rightarrow> jsstring list \<Rightarrow> jsstring lib" where
  "open_blocks rte txt [] = ret txt"
| "open_blocks rte txt (b # bs) =
     (case data_payload b of
        None \<Rightarrow> open_blocks rte txt bs
      | Some payload \<Rightarrow>
          andThen (catch (andThen (open_payload rte payload) (\<lambda>d. ret (txt @ d))) (\<lambda>_. ret txt))
            (\<lambda>t. open_blocks rte t bs))"

definition runSealedCompletion :: "runtime \<Rightarrow> jsstring \<Rightarrow> jsstring option \<Rightarrow> jsstring lib" where
  "runSealedCompletion rte prompt model =
     andThen (sealChat rte prompt model False False) (\<lambda>body.
     andThen (signRequest rte POST GATEWAY_CHAT_PATH) (\<lambda>auth.
     andThen (page_fetch rte (post_request rte body auth)) (\<lambda>resp.
     if \<not> rs_ok resp then throw (HttpError (js ''subagent completion'') (rs_status resp) [])
     else andThen (open_blocks rte [] (split_str [10, 10] (rs_text resp))) (\<lambda>t. ret (trim t)))))"

subsection \<open>Running the chain\<close>

record SubagentStep =
  ss_name :: jsstring
  ss_output :: jsstring

definition orchestrate_id :: "json \<Rightarrow> json" where
  "orchestrate_id it = (case it of
       JStr s \<Rightarrow> JStr s
     | _ \<Rightarrow> (case defined (getProp it (js ''id'')) of
               Some v \<Rightarrow> v
             | None \<Rightarrow> (case defined (getProp it (js ''agent_id'')) of
                 Some v \<Rightarrow> v
               | None \<Rightarrow> nullish (defined (getProp it (js ''agentId''))) (JStr []))))"

definition str_prop :: "json \<Rightarrow> string \<Rightarrow> jsstring" where
  "str_prop v k = (case getProp v (js k) of Some (JStr s) \<Rightarrow> s | _ \<Rightarrow> [])"

definition subagent_prompt :: "json \<Rightarrow> jsstring \<Rightarrow> jsstring" where
  "subagent_prompt sub userPrompt =
     trim (trim (str_prop sub ''instructions'') @ [10, 10] @ js ''User request:'' @ [10] @ userPrompt)"

definition find_row :: "StoredAgent option \<Rightarrow> StoredAgent list \<Rightarrow> json \<Rightarrow> StoredAgent option" where
  "find_row row all agentId =
     (case row of Some a \<Rightarrow> Some a | None \<Rightarrow> find (\<lambda>a. JStr (ag_agentId a) = agentId) all)"

definition consult :: "turn_env \<Rightarrow> StoredAgent list \<Rightarrow> jsstring \<Rightarrow> json \<Rightarrow> SubagentStep list \<Rightarrow> SubagentStep list lib" where
  "consult env all userPrompt agentId steps =
     catch
       (case t_getAgent env agentId of
          Inl e \<Rightarrow> ret steps
        | Inr row \<Rightarrow>
            (case find_row row all agentId of
               None \<Rightarrow> ret steps
             | Some a \<Rightarrow>
                 andThen (lift (storedToAgent (t_plat env) a)) (\<lambda>sub.
                 andThen (runSealedCompletion (t_rt env) (subagent_prompt sub userPrompt)
                            (case getProp sub (js ''model'') of Some (JStr m) \<Rightarrow> Some m | _ \<Rightarrow> None)) (\<lambda>output.
                 ret (if output \<noteq> []
                      then steps @ [\<lparr>ss_name = (if str_prop sub ''name'' \<noteq> [] then str_prop sub ''name'' else js ''subagent''),
                                     ss_output = output\<rparr>]
                      else steps)))))
       (\<lambda>_. ret steps)"

fun consult_all :: "turn_env \<Rightarrow> StoredAgent list \<Rightarrow> jsstring \<Rightarrow> json list \<Rightarrow> SubagentStep list \<Rightarrow> SubagentStep list lib" where
  "consult_all env all userPrompt [] steps = ret steps"
| "consult_all env all userPrompt (i # is) steps =
     andThen (consult env all userPrompt i steps) (consult_all env all userPrompt is)"

definition subagent_block :: "SubagentStep \<Rightarrow> jsstring" where
  "subagent_block s = js ''<subagent name='' @ [34] @ ss_name s @ [34] @ js ''>'' @ [10] @ ss_output s @ [10] @ js ''</subagent>''"

definition subagent_context :: "SubagentStep list \<Rightarrow> jsstring" where
  "subagent_context steps =
     js ''You coordinate specialist subagents. Their responses to the user request are below '' @ [0x2014]
     @ js '' synthesise them into one cohesive final answer.'' @ [10, 10] @ join [10, 10] (map subagent_block steps)"

definition orchestrateSubagents :: "turn_env \<Rightarrow> json list \<Rightarrow> jsstring \<Rightarrow> (SubagentStep list \<times> jsstring) lib" where
  "orchestrateSubagents env agentIds userPrompt =
     (if \<not> t_open env \<or> agentIds = [] then ret ([], [])
      else
        let ids = filter (\<lambda>i. truthy (Some i)) (map orchestrate_id agentIds);
            all = (case t_listAgents env of Inl e \<Rightarrow> [] | Inr as \<Rightarrow> as)
        in andThen (consult_all env all userPrompt (take 5 ids) []) (\<lambda>steps.
             ret (if steps = [] then ([], []) else (steps, subagent_context steps))))"

subsection \<open>The setup of a turn\<close>

text \<open>The part of the setup that applies an agent. The assignments made before a throw stay, as the
  \<open>catch\<close> around them only goes on. \<open>None\<close>: the store was never opened, so \<open>getAgent\<close> waits for it and
  the setup waits with it.\<close>

definition agent_prefix :: "StoredAgent \<Rightarrow> jsstring \<Rightarrow> jsstring" where
  "agent_prefix a promptText =
     (let i = trim (nullish (ag_instructions a) []) in if i = [] then promptText else i @ [10, 10] @ promptText)"

definition step_line :: "SubagentStep \<Rightarrow> jsstring" where
  "step_line s = js ''> '' @ [0xD83E, 0xDD1D] @ js '' **'' @ ss_name s @ js ''** consulted'' @ [10, 10]"

definition with_chain :: "jsstring \<Rightarrow> SubagentStep list \<times> jsstring \<Rightarrow> jsstring \<times> jsstring" where
  "with_chain promptText r =
     (if snd r = [] then (promptText, []) else (snd r @ [10, 10] @ promptText, concat (map step_line (fst r))))"

definition apply_agent ::
    "turn_env \<Rightarrow> jsstring \<Rightarrow> jsstring \<Rightarrow> jsstring option \<Rightarrow> (jsstring \<times> jsstring option \<times> jsstring) option lib" where
  "apply_agent env agentId promptText model =
     (if agentId = [] then ret (Some (promptText, model, []))
      else if \<not> t_open env \<and> t_ready env = Waiting then ret None
      else case t_getAgent env (JStr agentId) of
        Inl e \<Rightarrow> ret (Some (promptText, model, []))
      | Inr None \<Rightarrow> ret (Some (promptText, model, []))
      | Inr (Some a) \<Rightarrow>
          let model' = (if nullish (ag_model a) [] \<noteq> [] then ag_model a else model) in
          case collectSubagentIds (t_plat env) (Some (ag_configJson a)) (Some agentId) of
            Inl e \<Rightarrow> ret (Some (promptText, model', []))
          | Inr agentIds \<Rightarrow>
              andThen (if agentIds = [] then ret (promptText, [])
                       else catch (andThen (orchestrateSubagents env (map JStr agentIds) promptText)
                                     (\<lambda>r. ret (with_chain promptText r)))
                                  (\<lambda>_. ret (promptText, [])))
                (\<lambda>(p, steps). ret (Some (agent_prefix a p, model', steps))))"

text \<open>\<open>String(payload.text ?? '')\<close>.\<close>

definition raw_text :: "platform \<Rightarrow> json \<Rightarrow> jsstring" where
  "raw_text p payload = (case defined (getProp payload (js ''text'')) of
       None \<Rightarrow> [] | Some (JStr s) \<Rightarrow> s | Some v \<Rightarrow> p_toString p v)"

definition opt_text :: "json \<Rightarrow> string \<Rightarrow> jsstring option" where
  "opt_text payload k = (case getProp payload (js k) of Some (JStr s) \<Rightarrow> Some s | _ \<Rightarrow> None)"

definition flag_on :: "turn_env \<Rightarrow> string \<Rightarrow> bool" where
  "flag_on env k = (t_storage env (js k) = Inr (Some (js ''true'')))"

text \<open>Both flags are read in one \<open>try\<close>: when the second read throws the first stays.\<close>

definition tool_flags :: "turn_env \<Rightarrow> bool \<times> bool" where
  "tool_flags env = (flag_on env ''caladon:toolsEnabled'',
     (case t_storage env (js ''caladon:toolsEnabled'') of Inl e \<Rightarrow> False | Inr v \<Rightarrow> flag_on env ''caladon:toolsYolo''))"

datatype setup_result =
    Locked
  | Blocked
  | SealFailed cerror
  | Abandoned
  | Streaming request jsstring

definition augmented :: "turn_env \<Rightarrow> jsstring \<Rightarrow> rag_state \<Rightarrow> jsstring \<times> rag_state" where
  "augmented env raw rag =
     (let (p, rag') = augmentPromptWithRAG (t_floats env) (t_embed env) (t_open env) (t_vectors env)
            \<lparr>opt_topK = None, opt_minScore = None, opt_maxContextChars = None\<rparr> raw rag
      in (injectActiveSkillIntoPrompt env (injectMemoriesIntoPrompt env p), rag'))"

definition seal_and_sign :: "turn_env \<Rightarrow> jsstring \<Rightarrow> jsstring option \<Rightarrow> (json \<times> jsstring) lib" where
  "seal_and_sign env promptText model =
     andThen (sealChat (t_rt env) promptText model (fst (tool_flags env)) (snd (tool_flags env))) (\<lambda>wireBody.
     andThen (signRequest (t_rt env) POST GATEWAY_CHAT_PATH) (\<lambda>auth. ret (wireBody, auth)))"

definition post_stream :: "request \<Rightarrow> lib_state \<Rightarrow> lib_state" where
  "post_stream q s = s\<lparr>l_sdk := (l_sdk s)\<lparr>reqs := reqs (l_sdk s) @ [q]\<rparr>\<rparr>"

text \<open>The setup up to and including the \<open>stream()\<close> that posts the request. \<open>payload\<close> is what
  \<open>createPayload\<close> leaves, \<open>mode\<close> the artifacts field of the conversation, and \<open>cancelled\<close> whether the
  effect was cleaned up while the setup ran.\<close>

definition turn_setup ::
    "turn_env \<Rightarrow> json \<Rightarrow> json option \<Rightarrow> bool \<Rightarrow> rag_state \<Rightarrow> lib_state \<Rightarrow> setup_result \<times> rag_state \<times> lib_state" where
  "turn_setup env payload mode cancelled rag s =
     (if \<not> isUnlocked s then (Locked, rag, s)
      else
        let (p, rag') = augmented env (raw_text (t_plat env) payload) rag in
        case apply_agent env (nullish (opt_text payload ''agent_id'') []) p (opt_text payload ''model'') s of
          (Inr (Some (p', model, steps)), s1) \<Rightarrow>
            (case seal_and_sign env (injectArtifactsIntoPrompt env p' mode) model s1 of
               (Inl e, s2) \<Rightarrow> (SealFailed e, rag', s2)
             | (Inr (wireBody, auth), s2) \<Rightarrow>
                 if cancelled then (Abandoned, rag', s2)
                 else let q = post_request (t_rt env) wireBody auth
                      in (Streaming q steps, rag', post_stream q s2))
        | (_, s1) \<Rightarrow> (Blocked, rag', s1))"

subsection \<open>What the setup sends\<close>

text \<open>Computations that leave the session and the requests sent as they are.\<close>

definition quiet :: "'a lib \<Rightarrow> bool" where
  "quiet m \<longleftrightarrow> (\<forall>s. l_handshake (snd (m s)) = l_handshake s \<and> l_identity (snd (m s)) = l_identity s
     \<and> reqs (l_sdk (snd (m s))) = reqs (l_sdk s))"

lemma quiet_andThen: "quiet m \<Longrightarrow> (\<And>a. quiet (f a)) \<Longrightarrow> quiet (andThen m f)"
  by (simp add: quiet_def andThen_def split: prod.splits sum.splits) (metis snd_conv)

lemma quiet_catch: "quiet m \<Longrightarrow> (\<And>e. quiet (h e)) \<Longrightarrow> quiet (catch m h)"
  by (simp add: quiet_def catch_def split: prod.splits sum.splits) (metis snd_conv)

lemma quiet_basic: "quiet (ret a)" "quiet (throw e)" "quiet (lift x)" "quiet (lift_opt e y)" "quiet requireSession"
    "quiet (getWasm rte)" "quiet (on_client Client.draw)" "quiet (lib_clock rte)"
  by (auto simp: quiet_def ret_def throw_def lift_def lift_opt_def requireSession_def getWasm_def on_client_def
      Client.draw_def lib_clock_def andThen_def split: sum.splits option.splits prod.splits)

lemma quiet_case_prod: "(\<And>a b. quiet (f a b)) \<Longrightarrow> quiet (case x of (a, b) \<Rightarrow> f a b)"
  by (cases x) simp

lemmas quiet_rules = quiet_andThen quiet_catch quiet_basic quiet_case_prod

lemma quiet_openDelta: "quiet (openDelta rte en)"
  unfolding openDelta_def by (intro quiet_rules)

lemma quiet_sealChat: "quiet (sealChat rte p m t y)"
  unfolding sealChat_def by (intro quiet_rules)

lemma quiet_signRequest: "quiet (signRequest rte m p)"
proof -
  have "quiet (andThen (getWasm rte) (\<lambda>w. andThen (lib_clock rte) (\<lambda>ts.
      lift_opt WasmThrow (authorization_header w (root i) (accountId i) ts (method_name m) (sign_path p)))))" for i :: Identity
    by (intro quiet_rules)
  then show ?thesis unfolding signRequest_def quiet_def by (auto simp: throw_def split: option.splits)
qed

lemma quiet_open_payload: "quiet (open_payload rte d)"
  unfolding open_payload_def
  by (auto split: option.splits sum.splits intro!: quiet_rules quiet_openDelta)

lemma quiet_open_blocks: "quiet (open_blocks rte t bs)"
  by (induction rte t bs rule: open_blocks.induct)
     (auto split: option.splits intro!: quiet_rules quiet_open_payload)

text \<open>A sealed post, and the state in the middle of a turn: the session of the start, and at most
  \<open>n\<close> sealed posts sent since.\<close>

definition sealed_post :: "runtime \<Rightarrow> HandshakeResult \<Rightarrow> Identity \<Rightarrow> request \<Rightarrow> bool" where
  "sealed_post rte h i q \<longleftrightarrow> (\<exists>k p nc en m t y auth.
     seal_chat (wasm rte) k (hs_sessionKey h) (utf8 p) (accountId i) 1 = Some nc
     \<and> toWireEnvelope (plat rte) nc (accountId i) (js ''chat'') 1 (js ''chat'') = Inr en
     \<and> q = post_request rte (sealChat_body en m t y) auth)"

definition turn_log :: "runtime \<Rightarrow> HandshakeResult \<Rightarrow> Identity \<Rightarrow> request list \<Rightarrow> nat \<Rightarrow> lib_state \<Rightarrow> bool" where
  "turn_log rte h i start n s \<longleftrightarrow> l_handshake s = Some h \<and> l_identity s = Some i
     \<and> (\<exists>sent. reqs (l_sdk s) = start @ sent \<and> length sent \<le> n \<and> (\<forall>q\<in>set sent. sealed_post rte h i q))"

lemma turn_log_quiet: "quiet m \<Longrightarrow> turn_log rte h i start n s \<Longrightarrow> turn_log rte h i start n (snd (m s))"
  by (simp add: quiet_def turn_log_def)

lemma turn_log_mono: "turn_log rte h i start n s \<Longrightarrow> n \<le> m \<Longrightarrow> turn_log rte h i start m s"
  unfolding turn_log_def by (meson le_trans)

lemma turn_log_post:
  assumes "turn_log rte h i start n s" "sealed_post rte h i q"
    "l_handshake s' = l_handshake s" "l_identity s' = l_identity s" "reqs (l_sdk s') = reqs (l_sdk s) @ [q]"
  shows "turn_log rte h i start (Suc n) s'"
proof -
  from assms(1) obtain sent where "l_handshake s = Some h" "l_identity s = Some i" "reqs (l_sdk s) = start @ sent"
    "length sent \<le> n" "\<forall>q\<in>set sent. sealed_post rte h i q" by (auto simp: turn_log_def)
  then show ?thesis using assms(2-5) by (auto simp: turn_log_def intro!: exI [of _ "sent @ [q]"])
qed

lemma sealed_post_sealChat:
  assumes "sealChat rte p m t y s = (Inr body, s')" "turn_log rte h i start n s"
  shows "sealed_post rte h i (post_request rte body auth)"
proof -
  from assms(1) obtain h' i' nc k en where "l_handshake s = Some h'" "l_identity s = Some i'"
    "seal_chat (wasm rte) k (hs_sessionKey h') (utf8 p) (accountId i') 1 = Some nc"
    "toWireEnvelope (plat rte) nc (accountId i') (js ''chat'') 1 (js ''chat'') = Inr en"
    "body = sealChat_body en m t y" by (rule sealChat_result)
  then show ?thesis using assms(2) unfolding sealed_post_def turn_log_def by (metis option.inject)
qed

lemma runSealedCompletion_log:
  assumes "turn_log rte h i start n s"
  shows "turn_log rte h i start (Suc n) (snd (runSealedCompletion rte p m s))"
proof -
  obtain b s1 where s1: "sealChat rte p m False False s = (b, s1)" by fastforce
  have l1: "turn_log rte h i start n s1" using turn_log_quiet [OF quiet_sealChat assms] by (metis s1 snd_conv)
  show ?thesis
  proof (cases b)
    case (Inl e)
    then show ?thesis using s1 turn_log_mono [OF l1] by (simp add: runSealedCompletion_def andThen_def)
  next
    case (Inr body)
    obtain a s2 where s2: "signRequest rte POST GATEWAY_CHAT_PATH s1 = (a, s2)" by fastforce
    have l2: "turn_log rte h i start n s2" using turn_log_quiet [OF quiet_signRequest l1] by (metis s2 snd_conv)
    show ?thesis
    proof (cases a)
      case (Inl e)
      then show ?thesis using s1 s2 \<open>b = Inr body\<close> turn_log_mono [OF l2] by (simp add: runSealedCompletion_def andThen_def)
    next
      case a: (Inr auth)
      let ?q = "post_request rte body auth"
      have sp: "sealed_post rte h i ?q" using sealed_post_sealChat s1 Inr assms by blast
      obtain r s3 where s3: "page_fetch rte ?q s2 = (r, s3)" by fastforce
      have l3: "turn_log rte h i start (Suc n) s3"
        using s3 turn_log_mono [OF l2] turn_log_post [OF l2 sp, of s3]
        by (auto simp: page_fetch_def throw_def on_client_def fetch_def Let_def split: option.splits)
      have "quiet (if \<not> rs_ok resp then throw (HttpError (js ''subagent completion'') (rs_status resp) [])
          else andThen (open_blocks rte [] (split_str [10, 10] (rs_text resp))) (\<lambda>t. ret (trim t)))" for resp
        by (auto intro!: quiet_rules quiet_open_blocks)
      note rest = turn_log_quiet [OF this l3]
      show ?thesis using s1 s2 s3 Inr a l3 rest
        by (cases r) (simp_all add: runSealedCompletion_def andThen_def [of "sealChat rte p m False False"]
            andThen_def [of "signRequest rte POST GATEWAY_CHAT_PATH"] andThen_def [of "page_fetch rte q" for q])
    qed
  qed
qed

text \<open>Computations that send at most \<open>k\<close> sealed posts.\<close>

definition posts :: "runtime \<Rightarrow> nat \<Rightarrow> 'a lib \<Rightarrow> bool" where
  "posts rte k m \<longleftrightarrow> (\<forall>h i start n s. turn_log rte h i start n s \<longrightarrow> turn_log rte h i start (n + k) (snd (m s)))"

lemma posts_quiet: "quiet m \<Longrightarrow> posts rte 0 m"
  by (simp add: posts_def turn_log_quiet)

lemma posts_mono: "posts rte j m \<Longrightarrow> j \<le> k \<Longrightarrow> posts rte k m"
  unfolding posts_def by (meson turn_log_mono add_left_mono)

lemma posts_andThen:
  assumes "posts rte j m" "\<And>a. posts rte k (f a)"
  shows "posts rte (j + k) (andThen m f)"
  unfolding posts_def
proof (intro allI impI)
  fix h i start n s assume l: "turn_log rte h i start n s"
  obtain r t where m: "m s = (r, t)" by fastforce
  have t: "turn_log rte h i start (n + j) t" using assms(1) l m by (metis posts_def snd_conv)
  show "turn_log rte h i start (n + (j + k)) (snd (andThen m f s))"
  proof (cases r)
    case (Inl e)
    then show ?thesis using m turn_log_mono [OF t] by (simp add: andThen_def)
  next
    case (Inr a)
    have "turn_log rte h i start (n + j + k) (snd (f a t))" using assms(2) t by (simp add: posts_def)
    then show ?thesis using m Inr by (simp add: andThen_def add.assoc)
  qed
qed

lemma posts_catch_ret:
  assumes "posts rte k m"
  shows "posts rte k (catch m (\<lambda>_. ret a))"
  unfolding posts_def
proof (intro allI impI)
  fix h i start n s assume l: "turn_log rte h i start n s"
  have "turn_log rte h i start (n + k) (snd (m s))" using assms l by (simp add: posts_def)
  moreover have "snd (catch m (\<lambda>_. ret a) s) = snd (m s)"
    by (simp add: catch_def ret_def split: prod.splits sum.splits)
  ultimately show "turn_log rte h i start (n + k) (snd (catch m (\<lambda>_. ret a) s))" by simp
qed

lemma posts_ret: "posts rte k (ret a)"
  by (rule posts_mono [OF posts_quiet [OF quiet_basic(1)]]) simp

lemma posts_completion: "posts rte 1 (runSealedCompletion rte p m)"
  by (simp add: posts_def runSealedCompletion_log)

lemma posts_consult: "posts (t_rt env) 1 (consult env all u i steps)"
proof -
  have "posts (t_rt env) (0 + (1 + 0)) (andThen (lift x) (\<lambda>sub. andThen (runSealedCompletion (t_rt env) (P sub) (M sub)) (\<lambda>out. ret (R sub out))))"
    for x :: "cerror + json" and P M and R :: "json \<Rightarrow> jsstring \<Rightarrow> SubagentStep list"
    by (intro posts_andThen posts_completion posts_quiet quiet_basic)
  then show ?thesis unfolding consult_def
    by (intro posts_catch_ret) (auto split: sum.splits option.splits intro!: posts_ret)
qed

lemma posts_consult_all: "posts (t_rt env) (length is) (consult_all env all u is steps)"
proof (induction "is" arbitrary: steps)
  case (Cons i "is")
  have "posts (t_rt env) (1 + length is) (andThen (consult env all u i steps) (consult_all env all u is))"
    by (rule posts_andThen [OF posts_consult Cons.IH])
  then show ?case by simp
qed (simp add: posts_ret)

lemma posts_orchestrate: "posts (t_rt env) 5 (orchestrateSubagents env ids u)"
proof -
  have "posts (t_rt env) (5 + 0) (andThen (consult_all env all u (take 5 xs) []) (\<lambda>st. ret (F st)))"
    for all xs and F :: "SubagentStep list \<Rightarrow> SubagentStep list \<times> jsstring"
    by (intro posts_andThen posts_mono [OF posts_consult_all] posts_ret) simp
  then show ?thesis by (simp add: orchestrateSubagents_def posts_ret Let_def)
qed

lemma posts_apply_agent: "posts (t_rt env) 5 (apply_agent env a p m)"
proof -
  have "posts (t_rt env) (5 + 0) (andThen (if b then ret x else catch (andThen (orchestrateSubagents env ids p) (\<lambda>r. ret (F r))) (\<lambda>_. ret x)) (\<lambda>(p, steps). ret (G p steps)))"
    for b ids and x :: "jsstring \<times> jsstring" and F and G :: "jsstring \<Rightarrow> jsstring \<Rightarrow> (jsstring \<times> jsstring option \<times> jsstring) option"
    using posts_catch_ret [OF posts_andThen [OF posts_orchestrate [of env ids p] posts_ret [of _ 0]]]
    by (intro posts_andThen) (auto intro: posts_ret)
  then show ?thesis unfolding apply_agent_def
    by (auto simp: Let_def posts_ret split: sum.splits option.splits)
qed

lemma turn_setup_posts:
  assumes "turn_setup env payload mode cancelled rag s = (r, rag', s')"
    and "l_handshake s = Some h" "l_identity s = Some i"
  shows "turn_log (t_rt env) h i (reqs (l_sdk s)) 6 s'"
proof -
  let ?rte = "t_rt env" and ?base = "reqs (l_sdk s)"
  have u: "isUnlocked s" using assms(2,3) by (simp add: isUnlocked_def)
  have l0: "turn_log ?rte h i ?base 0 s" using assms(2,3) by (simp add: turn_log_def)
  obtain p ragA where a: "augmented env (raw_text (t_plat env) payload) rag = (p, ragA)" by fastforce
  obtain x s1 where x: "apply_agent env (nullish (opt_text payload ''agent_id'') []) p (opt_text payload ''model'') s = (x, s1)"
    by fastforce
  have l1: "turn_log ?rte h i ?base 5 s1"
    using posts_apply_agent [of env "nullish (opt_text payload ''agent_id'') []" p "opt_text payload ''model''"] l0 x
    unfolding posts_def by (metis add_0 snd_conv)
  show ?thesis
  proof (cases "\<exists>p' model steps. x = Inr (Some (p', model, steps))")
    case False
    then have "s' = s1" using assms(1) u a x by (auto simp: turn_setup_def split: sum.splits option.splits)
    then show ?thesis using turn_log_mono [OF l1] by simp
  next
    case True
    then obtain p' model steps where xp: "x = Inr (Some (p', model, steps))" by blast
    let ?p = "injectArtifactsIntoPrompt env p' mode"
    obtain w s2 where w: "seal_and_sign env ?p model s1 = (w, s2)" by fastforce
    have q: "quiet (seal_and_sign env ?p model)"
      unfolding seal_and_sign_def by (intro quiet_rules quiet_sealChat quiet_signRequest)
    have l2: "turn_log ?rte h i ?base 5 s2" using turn_log_quiet [OF q l1] w by simp
    show ?thesis
    proof (cases "(\<exists>e. w = Inl e) \<or> cancelled")
      case True
      then have "s' = s2" using assms(1) u a x xp w by (auto simp: turn_setup_def split: sum.splits)
      then show ?thesis using turn_log_mono [OF l2] by simp
    next
      case False
      then obtain b auth where wb: "w = Inr (b, auth)" by (cases w) auto
      let ?q = "post_request ?rte b auth"
      have s': "s' = post_stream ?q s2" using assms(1) u a x xp w wb False by (simp add: turn_setup_def Let_def)
      obtain t where "sealChat ?rte ?p model (fst (tool_flags env)) (snd (tool_flags env)) s1 = (Inr b, t)"
        using w wb unfolding seal_and_sign_def by (auto elim!: andThen_Inr simp: ret_def)
      then have "sealed_post ?rte h i ?q" by (rule sealed_post_sealChat [OF _ l1])
      then have "turn_log ?rte h i ?base (Suc 5) s'"
        by (rule turn_log_post [OF l2]) (simp_all add: s' post_stream_def)
      then show ?thesis by simp
    qed
  qed
qed

subsection \<open>The sealed prompt\<close>

lemma suffix_inject [intro]:
  "suffix r p \<Longrightarrow> suffix r (injectMemoriesIntoPrompt env p)"
  "suffix r p \<Longrightarrow> suffix r (injectActiveSkillIntoPrompt env p)"
  "suffix r p \<Longrightarrow> suffix r (injectArtifactsIntoPrompt env p mode)"
  "suffix r p \<Longrightarrow> suffix r (agent_prefix a p)"
  "suffix r p \<Longrightarrow> suffix r (fst (with_chain p c))"
  by (auto simp: injectMemoriesIntoPrompt_def injectActiveSkillIntoPrompt_def injectArtifactsIntoPrompt_def
      agent_prefix_def with_chain_def Let_def suffix_def split: sum.splits option.splits)

lemma suffix_rag: "suffix p (fst (augmentPromptWithRAG fp emb op vs opts p s))"
  by (auto simp: augmentPromptWithRAG_def Let_def suffix_def split: sum.splits list.splits)

lemma suffix_augmented: "suffix p (fst (augmented env p rag))"
  using suffix_rag unfolding augmented_def by (auto split: prod.splits) (metis fst_conv suffix_inject(1,2))

lemma suffix_apply_agent:
  assumes "apply_agent env a p m s = (Inr (Some (p', m', steps)), s')" "suffix r p"
  shows "suffix r p'"
proof -
  have c: "suffix r y" if "catch (andThen m (\<lambda>r. ret (with_chain p r))) (\<lambda>_. ret (p, [])) s = (Inr (y, st), t)"
    for m :: "(SubagentStep list \<times> jsstring) lib" and y st t
    using that assms(2)
    by (auto simp: catch_def andThen_def ret_def with_chain_def suffix_def split: sum.splits prod.splits if_splits)
  show ?thesis using assms
    by (auto simp: apply_agent_def Let_def ret_apply split: if_splits sum.splits option.splits elim!: andThen_Inr dest!: c)
qed

lemma openDelta_frame:
  assumes "openDelta rte en s = (Inr p, s)" "l_wasm s" "l_wasm t" "l_handshake t = l_handshake s" "l_identity t = l_identity s"
  shows "openDelta rte en t = (Inr p, t)"
  using assms
  by (auto simp: openDelta_def andThen_def requireSession_def getWasm_def lift_def lift_opt_def ret_def throw_def
      split: option.splits sum.splits prod.splits if_splits)

lemma signRequest_wasm: "signRequest rte m p s = (Inr a, t) \<Longrightarrow> l_wasm t"
  by (auto simp: signRequest_def andThen_def getWasm_def lib_clock_def on_client_def Client.draw_def lift_opt_def ret_def throw_def
      split: option.splits sum.splits prod.splits if_splits)

text \<open>C9. Whatever the injections do or fail to do, the prompt that leaves sealed ends with what the user wrote: the
  envelope of the posted body opens, with the key and the account of the session, to exactly the UTF-8 bytes of
  one prompt, and the user's text is the end of it; \<open>openDelta\<close> reads it back when it is well formed.\<close>

theorem sealed_prompt_ends_with_user_text:
  assumes "turn_setup env payload mode cancelled rag s = (Streaming q steps, rag', s')"
    and "seal_law (wasm (t_rt env))" "b64_inverse (p_base64 (t_plat env))"
  shows "\<exists>p body en h i nonceCt. suffix (raw_text (t_plat env) payload) p
     \<and> rq_body q = Some (p_stringify (t_plat env) body) \<and> getProp body (js ''envelope'') = Some en
     \<and> l_handshake s' = Some h \<and> l_identity s' = Some i
     \<and> fromWireEnvelope (t_plat env) (Some en) = Inr nonceCt
     \<and> open_chat (wasm (t_rt env)) (hs_sessionKey h) nonceCt (accountId i) 1 = Some (utf8 p)
     \<and> (well_formed (map unat p) \<and> take 1 p \<noteq> [0xFEFF] \<longrightarrow> openDelta (t_rt env) en s' = (Inr p, s'))"
proof -
  let ?raw = "raw_text (t_plat env) payload" and ?rte = "t_rt env"
  obtain p ragA where a: "augmented env ?raw rag = (p, ragA)" by fastforce
  obtain x s1 where x: "apply_agent env (nullish (opt_text payload ''agent_id'') []) p (opt_text payload ''model'') s = (x, s1)"
    by fastforce
  from assms(1) a x obtain p' model st where xp: "x = Inr (Some (p', model, st))"
    by (auto simp: turn_setup_def split: sum.splits option.splits if_splits)
  let ?p = "injectArtifactsIntoPrompt env p' mode"
  from assms(1) a x xp obtain b auth s2 where w: "seal_and_sign env ?p model s1 = (Inr (b, auth), s2)"
    and q: "q = post_request ?rte b auth" and s': "s' = post_stream q s2"
    by (auto simp: turn_setup_def Let_def split: sum.splits option.splits if_splits prod.splits)
  from w obtain t where sc: "sealChat ?rte ?p model (fst (tool_flags env)) (snd (tool_flags env)) s1 = (Inr b, t)"
    and sg: "signRequest ?rte POST GATEWAY_CHAT_PATH t = (Inr auth, s2)"
    unfolding seal_and_sign_def by (auto elim!: andThen_Inr simp: ret_def)
  from sc obtain h i nc k en where r: "seal_chat (wasm ?rte) k (hs_sessionKey h) (utf8 ?p) (accountId i) 1 = Some nc"
    "toWireEnvelope (plat ?rte) nc (accountId i) (js ''chat'') 1 (js ''chat'') = Inr en"
    "b = sealChat_body en model (fst (tool_flags env)) (snd (tool_flags env))"
    "l_handshake t = Some h" "l_identity t = Some i" and t: "l_wasm t"
    by (rule sealChat_result)
  have "suffix ?raw p" using suffix_augmented [of ?raw env rag] a by simp
  then have suf: "suffix ?raw ?p" using suffix_apply_agent [of env _ p _ s p' model st s1 ?raw] x xp by blast
  have fr: "l_handshake s' = l_handshake t" "l_identity s' = l_identity t" "l_wasm s'"
    using spec [OF quiet_signRequest [of ?rte POST GATEWAY_CHAT_PATH, unfolded quiet_def], of t] signRequest_wasm [OF sg]
    by (simp_all add: sg s' post_stream_def)
  have en: "getProp b (js ''envelope'') = Some en" by (simp add: r(3) sealChat_body_def)
  have fw: "fromWireEnvelope (plat ?rte) (Some en) = Inr nc" by (rule fromWire_toWire [OF r(2) assms(3)])
  have op: "open_chat (wasm ?rte) (hs_sessionKey h) nc (accountId i) 1 = Some (utf8 ?p)"
    using r(1) assms(2) by (auto simp: seal_law_def)
  have dl: "openDelta ?rte en s' = (Inr ?p, s')" if "well_formed (map unat ?p)" "take 1 ?p \<noteq> [0xFEFF]"
    using sealChat_openDelta [OF sc assms(2,3) that] openDelta_frame [OF _ t fr(3,1,2)] en by auto
  show ?thesis
    by (intro exI [of _ ?p] exI [of _ b] exI [of _ en] exI [of _ h] exI [of _ i] exI [of _ nc])
      (use suf q en fr r(4,5) fw op dl in \<open>simp add: post_request_def\<close>)
qed


subsection \<open>A concrete turn\<close>

definition sample_turn :: "runtime \<Rightarrow> turn_env" where
  "sample_turn rte = \<lparr>t_rt = rte, t_storage = (\<lambda>_. Inr (Some (js ''false''))), t_open = True, t_ready = Opened,
     t_memories = Inr [\<lparr>my_key = js ''k'', my_value = js ''v'', my_tokenCount = 1, my_updatedAt = 0\<rparr>],
     t_getSkill = (\<lambda>_. Inr None), t_getAgent = (\<lambda>_. Inr None), t_listAgents = Inr [], t_vectors = Inr [],
     t_embed = (\<lambda>_. Inr []), t_floats = \<lparr>f32_value = (\<lambda>_. 0), rnd = (\<lambda>x. x)\<rparr>\<rparr>"

definition sample_payload :: json where
  "sample_payload = JObj [(js ''text'', JStr (js ''hi''))]"

lemma sample_streams:
  assumes "l_handshake s = Some h" "l_identity s = Some i" "wasm rte = sample_wasm True" "wasm_loads rte"
  shows "\<exists>q rag' s'. turn_setup (sample_turn rte) sample_payload None False new_rag s = (Streaming q [], rag', s')"
proof -
  have "\<exists>b a s'. seal_and_sign (sample_turn rte) p None s = (Inr (b, a), s')" for p
    using assms
    by (simp add: seal_and_sign_def sealChat_def signRequest_def andThen_def requireSession_def getWasm_def lib_clock_def
        on_client_def Client.draw_def lift_opt_def lift_def ret_def throw_def sample_turn_def tool_flags_def flag_on_def
        sample_wasm_def toWireEnvelope_def NONCE_LEN_def Let_def)
  then obtain b a s' where w: "seal_and_sign (sample_turn rte) p None s = (Inr (b p, a p), s' p)" for p by metis
  have r: "raw_text p sample_payload = js ''hi''" "opt_text sample_payload ''agent_id'' = None"
    "opt_text sample_payload ''model'' = None" for p
    by (simp_all add: raw_text_def sample_payload_def opt_text_def)
  obtain pA ragA where aug: "augmented (sample_turn rte) (js ''hi'') new_rag = (pA, ragA)" by fastforce
  show ?thesis using assms(1,2) w
    by (subst turn_setup_def) (simp add: isUnlocked_def r aug apply_agent_def ret_def Let_def split: prod.splits)
qed


lemma sealed_prompt_ends_with_user_text_witness:
  "\<exists>s q rag' s' p body. turn_setup (sample_turn (lib_runtime\<lparr>plat := sample_platform JNull\<rparr>)) sample_payload None False new_rag s
       = (Streaming q [], rag', s')
     \<and> suffix (js ''hi'') p \<and> rq_body q = Some (p_stringify (sample_platform JNull) body)"
proof -
  let ?r = "lib_runtime\<lparr>plat := sample_platform JNull\<rparr>"
  let ?i = "\<lparr>root = [1], accountId = js ''acct'', ed25519PubB64 = js ''p''\<rparr>"
  let ?s = "new_lib_state\<lparr>l_identity := Some ?i, l_handshake := Some \<lparr>hs_identity = ?i, hs_evidence = JNull,
    hs_verdict = None, hs_sessionKey = [5]\<rparr>\<rparr>"
  obtain q rag' s' where t: "turn_setup (sample_turn ?r) sample_payload None False new_rag ?s = (Streaming q [], rag', s')"
    using sample_streams [of ?s _ ?i ?r] by (auto simp: lib_runtime_def)
  have rt: "t_rt (sample_turn ?r) = ?r" by (simp add: sample_turn_def)
  have raw: "raw_text (t_plat (sample_turn ?r)) sample_payload = js ''hi''" by (simp add: raw_text_def sample_payload_def)
  have "seal_law (wasm ?r)" by (simp add: seal_law_def lib_runtime_def sample_wasm_def)
  moreover have "b64_inverse (p_base64 (plat ?r))" by (simp add: sample_b64_inverse)
  ultimately show ?thesis
    using sealed_prompt_ends_with_user_text [OF t, unfolded raw] t by (fastforce simp: rt)
qed

subsection \<open>The ids of a chain\<close>

lemma set_uniq [simp]: "set (uniq xs) = set xs"
  by (induction xs) auto

lemma distinct_uniq [simp]: "distinct (uniq xs)"
  by (induction xs) auto

text \<open>The chain of an agent is the union of the three shapes without duplicates, the agent itself or
  empty ids; an entry with \<open>enabled\<close> false contributes nothing.\<close>

theorem collected_chain:
  assumes "configJson \<noteq> []" "p_parse p configJson = Some c" "c \<noteq> JNull"
  shows "\<exists>ids. collectSubagentIds p (Some configJson) selfId = Inr ids \<and> distinct ids
     \<and> set ids = {i. i \<noteq> [] \<and> Some i \<noteq> selfId
        \<and> (i \<in> (\<lambda>v. idOf (Some v)) ` set (array_of (getProp c (js ''agent_ids'')))
           \<or> i \<in> (\<lambda>v. idOf (Some v)) ` set (sub_ids (getProp c (js ''subagents'')))
           \<or> i \<in> (\<lambda>e. idOf (getProp e (js ''to''))) ` set (array_of (getProp c (js ''edges''))))}"
proof -
  have "collectSubagentIds p (Some configJson) selfId
      = Inr (uniq (filter (\<lambda>i. i \<noteq> [] \<and> Some i \<noteq> selfId) (map idOf (chain_refs c))))"
    using assms by (cases c) (simp_all add: collectSubagentIds_def)
  then show ?thesis by (auto simp: chain_refs_def)
qed

lemma collected_chain_witness:
  "\<exists>ids. collectSubagentIds (sample_platform (JObj [(js ''agent_ids'', JArr [JStr (js ''a''), JStr (js ''self'')]),
       (js ''edges'', JArr [JObj [(js ''to'', JStr (js ''a''))]])])) (Some (js ''c'')) (Some (js ''self'')) = Inr ids
     \<and> distinct ids \<and> set ids = {js ''a''}"
  using collected_chain [of "js ''c''" "sample_platform (JObj [(js ''agent_ids'', JArr [JStr (js ''a''), JStr (js ''self'')]),
       (js ''edges'', JArr [JObj [(js ''to'', JStr (js ''a''))]])])"
       "JObj [(js ''agent_ids'', JArr [JStr (js ''a''), JStr (js ''self'')]), (js ''edges'', JArr [JObj [(js ''to'', JStr (js ''a''))]])]"
       "Some (js ''self'')"]
  by (auto simp: sample_platform_def array_of_def sub_ids_def idOf_def)

subsection \<open>The two readers of the stream\<close>

lemma split_on_two:
  assumes "\<not> sublist [x, x] b" "b = [] \<or> last b \<noteq> x"
  shows "split_on [x, x] acc (b @ x # x # r) 0 = (rev acc @ b) # split_on [x, x] [] r 0"
  using assms
proof (induction b arbitrary: acc)
  case (Cons c cs)
  have "\<not> prefix [x, x] (c # cs @ x # x # r)"
    using Cons.prems by (cases cs) (auto simp: sublist_Cons_right)
  moreover have "\<not> sublist [x, x] cs" "cs = [] \<or> last cs \<noteq> x" using Cons.prems by (auto simp: sublist_Cons_right)
  ultimately show ?case using Cons.IH [of "c # acc"] by simp
qed simp

lemma split_on_one:
  "x \<notin> set b \<Longrightarrow> split_on [x] acc (b @ x # r) 0 = (rev acc @ b) # split_on [x] [] r 0"
  "x \<notin> set b \<Longrightarrow> split_on [x] acc b 0 = [rev acc @ b]"
  by (induction b arbitrary: acc) auto

definition frame_block :: "delta_event \<Rightarrow> jsstring \<Rightarrow> jsstring" where
  "frame_block e p = js ''event: '' @ event_name e @ [10] @ js ''data: '' @ p"

lemma sse_frame_block: "sse_frame e p = frame_block e p @ [10, 10]"
  by (simp add: sse_frame_def frame_block_def newline_def)

lemma no_blank_line:
  assumes "x \<notin> set u" "x \<notin> set v" "v \<noteq> []"
  shows "\<not> sublist [x, x] (u @ x # v)" "last (u @ x # v) \<noteq> x"
proof -
  have "\<not> sublist [x, x] v" using assms(2) set_mono_sublist by fastforce
  then show "\<not> sublist [x, x] (u @ x # v)"
    using assms by (induction u) (auto simp: sublist_Cons_right neq_Nil_conv)
  show "last (u @ x # v) \<noteq> x" using assms(2,3) by (auto simp: last_in_set)
qed

lemma frame_block_lines:
  assumes "10 \<notin> set p" "p \<noteq> []"
  shows "\<not> sublist [10, 10] (frame_block e p)" "last (frame_block e p) \<noteq> 10"
    "split_str [10] (frame_block e p) = [js ''event: '' @ event_name e, js ''data: '' @ p]"
proof -
  have u: "10 \<notin> set (js ''event: '' @ event_name e)" by (cases e) (simp_all add: js_def event_name_def)
  have v: "10 \<notin> set (js ''data: '' @ p)" "js ''data: '' @ p \<noteq> []" using assms by (simp_all add: js_def)
  have b: "frame_block e p = (js ''event: '' @ event_name e) @ 10 # (js ''data: '' @ p)" by (simp add: frame_block_def)
  show "\<not> sublist [10, 10] (frame_block e p)" "last (frame_block e p) \<noteq> 10"
    unfolding b by (rule no_blank_line [OF u v])+
  show "split_str [10] (frame_block e p) = [js ''event: '' @ event_name e, js ''data: '' @ p]"
    unfolding b split_str_def split_on_one(1) [OF u] split_on_one(2) [OF v(1)] by simp
qed

lemma split_frames:
  assumes "10 \<notin> set p" "p \<noteq> []"
  shows "split_str [10, 10] (sse_frame e p @ r) = frame_block e p # split_str [10, 10] r"
  using split_on_two [OF frame_block_lines(1) [OF assms], of e "[]" r] frame_block_lines(2) [OF assms, of e]
  by (simp add: split_str_def sse_frame_block)

definition one_line :: "jsstring \<Rightarrow> bool" where
  "one_line p \<longleftrightarrow> set p \<inter> {10, 13, 0x2028, 0x2029} = {}"

lemma token_event_one_line: "one_line p \<Longrightarrow> \<not> token_event False p"
  by (induction p) (auto simp: one_line_def)

lemma token_event_block:
  assumes "one_line p"
  shows "token_event True (frame_block e p) \<longleftrightarrow> e = Token"
proof (cases e)
  case Token
  have "token_at (frame_block Token p)"
    by (simp add: token_at_def frame_block_def event_name_def js_def is_ws_def ws_codes_def)
  then have "token_event True (frame_block Token p)"
    by (cases "frame_block Token p") (simp_all add: frame_block_def js_def)
  then show ?thesis using Token by simp
next
  case Reasoning
  then show ?thesis using token_event_one_line [OF assms]
    by (simp add: frame_block_def event_name_def js_def token_at_def is_ws_def ws_codes_def)
qed

lemma data_payload_block:
  assumes "one_line p" "p \<noteq> []"
  shows "data_payload (frame_block e p) = (if e = Token then Some (trim (js '' '' @ p)) else None)"
proof -
  have n: "10 \<notin> set p" using assms(1) by (auto simp: one_line_def)
  have "\<not> prefix (js ''data:'') (js ''event: '' @ event_name e)" "prefix (js ''data:'') (js ''data: '' @ p)"
    by (simp_all add: js_def)
  moreover have "index_of (js '':'') (js ''data: '' @ p) = Some 4" by (simp add: js_def)
  moreover have "drop (Suc 4) (js ''data: '' @ p) = js '' '' @ p" by (simp add: js_def)
  ultimately show ?thesis
    by (simp only: data_payload_def token_event_block [OF assms(1)] frame_block_lines(3) [OF n assms(2)] find.simps
        if_False if_True option.map nullish_simps) simp
qed

lemma open_payload_frame:
  assumes "sealed_frame \<lparr>cfg = c, rt = rte\<rparr> (hs_sessionKey h) (accountId i) (e, p, t)" "b64_inverse (p_base64 (plat rte))"
    and "l_handshake s = Some h" "l_identity s = Some i" "l_wasm s"
  shows "open_payload rte (trim (js '' '' @ p)) s = (Inr t, s)"
proof -
  obtain nc en where f: "p_parse (plat rte) (trim (js '' '' @ p)) = Some (JObj [(js ''envelope'', en)])"
    "toWireEnvelope (plat rte) nc (accountId i) CHAT_PURPOSE ENVELOPE_V CHAT_PURPOSE = Inr en"
    "open_chat (wasm rte) (hs_sessionKey h) nc (accountId i) ENVELOPE_V = Some (utf8 t)"
    and t: "well_formed (map unat t)" "take 1 t \<noteq> [0xFEFF]"
    using assms(1) by (auto simp: sealed_frame_def)
  have v: "toBigInt (plat rte) (getProp en (js ''v'')) = Inr ENVELOPE_V"
    by (simp add: envelope_getProp(1) [OF f(2)] toBigInt_def)
  show ?thesis
    by (simp add: open_payload_def f(1) openDelta_def andThen_def requireSession_def getWasm_def lift_def lift_opt_def
        ret_def assms fromWire_toWire [OF f(2) assms(2)] v f(3) utf8_roundtrip [OF t])
qed

lemma open_blocks_frames:
  assumes "\<forall>f\<in>set fs. sealed_frame \<lparr>cfg = c, rt = rte\<rparr> (hs_sessionKey h) (accountId i) f \<and> one_line (fst (snd f))"
    and "b64_inverse (p_base64 (plat rte))" "l_handshake s = Some h" "l_identity s = Some i" "l_wasm s"
  shows "open_blocks rte u (split_str [10, 10] (frames_text fs)) s = (Inr (u @ texts_of Token (frames_deltas fs)), s)"
  using assms(1)
proof (induction fs arbitrary: u)
  case Nil
  have "data_payload [] = None" by (simp add: data_payload_def)
  then show ?case by (simp add: frames_text_def split_str_def frames_deltas_def texts_of_def ret_def)
next
  case (Cons f fs)
  obtain e p t where f: "f = (e, p, t)" by (cases f)
  have sf: "sealed_frame \<lparr>cfg = c, rt = rte\<rparr> (hs_sessionKey h) (accountId i) (e, p, t)" and o: "one_line p"
    using Cons.prems f by auto
  have p: "10 \<notin> set p" "p \<noteq> []" using sf by (auto simp: sealed_frame_def newline_def)
  have sp: "split_str [10, 10] (frames_text (f # fs)) = frame_block e p # split_str [10, 10] (frames_text fs)"
    using split_frames [OF p] by (simp add: frames_text_def f)
  have ih: "open_blocks rte x (split_str [10, 10] (frames_text fs)) s = (Inr (x @ texts_of Token (frames_deltas fs)), s)" for x
    using Cons by simp
  show ?case
    by (simp add: sp data_payload_block [OF o p(2)] ih andThen_def catch_def ret_def
        open_payload_frame [OF sf assms(2-5)])
       (simp add: texts_of_def frames_deltas_def f)
qed

text \<open>The completion of a subagent and the client of the SDK read the stream of the gateway alike:
  on token and reasoning frames sealed under the session both give the concatenated token texts,
  though one splits blocks and matches a regular expression and the other walks lines.\<close>

theorem subagent_reads_as_the_sdk:
  assumes "\<forall>f\<in>set fs. sealed_frame \<lparr>cfg = c, rt = rte\<rparr> (hs_sessionKey h) (accountId i) f \<and> one_line (fst (snd f))"
    and "b64_inverse (p_base64 (plat rte))" "l_handshake s = Some h" "l_identity s = Some i" "l_wasm s"
  shows "\<exists>ds. openDeltas \<lparr>cfg = c, rt = rte\<rparr> (frames_text fs) (hs_sessionKey h) (accountId i) = Inr ds
     \<and> open_blocks rte [] (split_str [10, 10] (frames_text fs)) s = (Inr (texts_of Token ds), s)"
proof -
  have "openDeltas \<lparr>cfg = c, rt = rte\<rparr> (frames_text fs) (hs_sessionKey h) (accountId i) = Inr (frames_deltas fs)"
    by (rule openDeltas_frames) (use assms(1,2) in auto)
  then show ?thesis using open_blocks_frames [OF assms, of "[]"] by simp
qed

definition sample_runtime :: runtime where
  "sample_runtime = lib_runtime\<lparr>plat := sample_platform (JObj [(js ''envelope'', sample_wire sample_nc)])\<rparr>"

definition sample_identity :: Identity where
  "sample_identity = \<lparr>root = [1], accountId = js ''acct'', ed25519PubB64 = js ''p''\<rparr>"

definition sample_session :: HandshakeResult where
  "sample_session = \<lparr>hs_identity = sample_identity, hs_evidence = JNull, hs_verdict = None, hs_sessionKey = [5]\<rparr>"

definition sample_lib :: lib_state where
  "sample_lib = new_lib_state\<lparr>l_identity := Some sample_identity, l_handshake := Some sample_session, l_wasm := True\<rparr>"

lemma sample_lib_simps [simp]:
  "l_handshake sample_lib = Some sample_session" "l_identity sample_lib = Some sample_identity" "l_wasm sample_lib"
  "hs_sessionKey sample_session = [5]" "accountId sample_identity = js ''acct''"
  by (simp_all add: sample_lib_def sample_session_def sample_identity_def)

lemma sample_runtime_b64: "b64_inverse (p_base64 (plat sample_runtime))"
  by (simp add: sample_runtime_def sample_b64_inverse)

lemma sample_sealed_frame:
  "sealed_frame \<lparr>cfg = c, rt = sample_runtime\<rparr> [5] (js ''acct'') (Token, js ''{}'', js ''yes'')"
proof -
  have "toWireEnvelope (plat sample_runtime) sample_nc (js ''acct'') CHAT_PURPOSE ENVELOPE_V CHAT_PURPOSE = Inr (sample_wire sample_nc)"
    unfolding sample_runtime_def by (simp add: sample_wire sample_nc_def)
  moreover have "open_chat (wasm sample_runtime) [5] sample_nc (js ''acct'') ENVELOPE_V = Some (utf8 (js ''yes''))"
    by (simp add: sample_runtime_def lib_runtime_def sample_wasm_def sample_nc_def)
  moreover have "p_parse (plat sample_runtime) x = Some (JObj [(js ''envelope'', sample_wire sample_nc)])" for x
    by (simp add: sample_runtime_def sample_platform_def)
  ultimately show ?thesis
    by (simp add: sealed_frame_def js_def newline_def is_high_def is_low_def) blast
qed

lemma subagent_reads_as_the_sdk_witness:
  "\<exists>ds. openDeltas (Client.sample_env Strict True JNull []\<lparr>rt := sample_runtime\<rparr>) (frames_text [(Token, js ''{}'', js ''yes'')]) [5] (js ''acct'') = Inr ds
     \<and> open_blocks sample_runtime [] (split_str [10, 10] (frames_text [(Token, js ''{}'', js ''yes'')])) sample_lib
         = (Inr (texts_of Token ds), sample_lib)"
proof -
  have e: "Client.sample_env Strict True JNull []\<lparr>rt := sample_runtime\<rparr> = \<lparr>cfg = cfg (Client.sample_env Strict True JNull []), rt = sample_runtime\<rparr>"
    by (simp add: Client.sample_env_def)
  have "one_line (js ''{}'')" by (simp add: one_line_def js_def)
  then show ?thesis unfolding e
    using subagent_reads_as_the_sdk [of "[(Token, js ''{}'', js ''yes'')]" "cfg (Client.sample_env Strict True JNull [])" sample_runtime
        sample_session sample_identity sample_lib] sample_sealed_frame sample_runtime_b64 by simp
qed
end
