(* ===== verification/Turn.thy ===== *)
theory Turn
  imports Prompt
begin

text \<open>
  The stream of a turn, \<open>web-client/overlay/client/src/hooks/SSE/useSSE.ts\<close> from the
  \<open>new SSE\<close> on: the chain of sealed deltas, the finalization on \<open>done\<close> with the write to the device
  store, the bounded retry on 401 and the dispatch of plain messages. Each event listener is a step
  of \<open>on_event\<close>; a task of \<open>deltaChain\<close> runs when the event loop gets to it (\<open>Step\<close>), in whatever
  order with the arrival of further events. The main results: what is persisted is the text of the
  deltas before \<open>done\<close>, in order, under every interleaving; a temporary chat persists nothing; one
  retry at most, and only of the sealed request.

  Messages and conversations are JSON objects here, as the code passes them through spreads. The
  hooks of the upstream \<open>useEventHandlers\<close>, not part of this repository, are recorded as calls.
\<close>

subsection \<open>Messages\<close>

type_synonym message = "(jsstring \<times> json) list"

definition NO_PARENT :: jsstring where "NO_PARENT = js ''00000000-0000-0000-0000-000000000000''"
definition NEW_CONVO :: jsstring where "NEW_CONVO = js ''new''"
definition PENDING_CONVO :: jsstring where "PENDING_CONVO = js ''PENDING''"
definition MAX_401_RETRIES :: nat where "MAX_401_RETRIES = 1"

text \<open>\<open>isTemporary\<close> is the top-level flag; \<open>conversation\<close> is None when undefined.\<close>

record submission =
  sb_userMessage :: message
  sb_conversation :: "message option"
  sb_initialResponse :: message
  sb_messages :: "message list"
  sb_isTemporary :: "json option"

record stream_env = turn_env +
  date_parse :: "jsstring \<Rightarrow> jsnum option"
  now_ms :: jsnum
  uuid :: "nat \<Rightarrow> jsstring"
  final_throws :: "message \<Rightarrow> bool"
  final_data_throws :: "json \<Rightarrow> bool"

subsection \<open>Stored shapes\<close>

definition toEpochMs :: "stream_env \<Rightarrow> json option \<Rightarrow> jsnum" where
  "toEpochMs env v = (case v of
       Some (JNum t) \<Rightarrow> t
     | Some (JStr s) \<Rightarrow> nullish (date_parse env s) (now_ms env)
     | _ \<Rightarrow> now_ms env)"

definition stringify_opt :: "stream_env \<Rightarrow> json option \<Rightarrow> jsstring option" where
  "stringify_opt env v = map_option (p_stringify (plat (t_rt env))) (defined v)"

definition toStoredMessage :: "stream_env \<Rightarrow> message \<Rightarrow> jsstring \<Rightarrow> StoredMessage" where
  "toStoredMessage env m convId =
     \<lparr>ms_messageId = str_prop (JObj m) ''messageId'', ms_conversationId = convId,
      ms_parentMessageId = opt_text (JObj m) ''parentMessageId'',
      ms_isCreatedByUser = (map_of m (js ''isCreatedByUser'') = Some (JBool True)),
      ms_text = str_prop (JObj m) ''text'',
      ms_contentJson = stringify_opt env (map_of m (js ''content'')),
      ms_model = opt_text (JObj m) ''model'',
      ms_createdAt = toEpochMs env (map_of m (js ''createdAt'')),
      ms_updatedAt = toEpochMs env (map_of m (js ''updatedAt''))\<rparr>"

definition toStoredConversation :: "stream_env \<Rightarrow> message \<Rightarrow> jsstring \<Rightarrow> StoredConversation" where
  "toStoredConversation env c convId =
     \<lparr>cv_conversationId = convId, cv_title = opt_text (JObj c) ''title'',
      cv_endpoint = opt_text (JObj c) ''endpoint'', cv_model = opt_text (JObj c) ''model'',
      cv_createdAt = toEpochMs env (map_of c (js ''createdAt'')),
      cv_updatedAt = (let u = toEpochMs env (map_of c (js ''updatedAt'')) in if u = 0 then now_ms env else u),
      cv_convoJson = p_stringify (plat (t_rt env)) (JObj c)\<rparr>"

definition persistTurnToStore :: "stream_env \<Rightarrow> jsstring \<Rightarrow> message \<Rightarrow> message \<Rightarrow> message \<Rightarrow> request_body option" where
  "persistTurnToStore env convId user assistant conv =
     (if \<not> t_open env then None
      else Some (PERSIST_TURN convId (toStoredMessage env user convId) (toStoredMessage env assistant convId)
                   (toStoredConversation env conv convId)))"

subsection \<open>The identifiers and messages of a turn\<close>

definition is_new_convo :: "submission \<Rightarrow> bool" where
  "is_new_convo sub = (let cid = defined (getProp (JObj (nullish (sb_conversation sub) [])) (js ''conversationId'')) in
     cid = None \<or> cid = Some (JStr NEW_CONVO) \<or> cid = Some (JStr PENDING_CONVO))"

definition conversation_id :: "stream_env \<Rightarrow> submission \<Rightarrow> jsstring" where
  "conversation_id env sub =
     (if is_new_convo sub then uuid env 0 else str_prop (JObj (nullish (sb_conversation sub) [])) ''conversationId'')"

definition response_id :: "stream_env \<Rightarrow> submission \<Rightarrow> jsstring" where
  "response_id env sub =
     (let m = str_prop (JObj (sb_initialResponse sub)) ''messageId''
      in if m \<noteq> [] then m else uuid env (if is_new_convo sub then 1 else 0))"

definition parent_id :: "submission \<Rightarrow> json" where
  "parent_id sub =
     (case defined (getProp (JObj (sb_userMessage sub)) (js ''messageId'')) of
        Some v \<Rightarrow> v
      | None \<Rightarrow> nullish (defined (getProp (JObj (sb_initialResponse sub)) (js ''parentMessageId''))) (JStr NO_PARENT))"

definition stampedUserMessage :: "stream_env \<Rightarrow> submission \<Rightarrow> message" where
  "stampedUserMessage env sub = put_prop (sb_userMessage sub) (js ''conversationId'', JStr (conversation_id env sub))"

definition text_content :: "jsstring \<Rightarrow> json" where
  "text_content t = JArr [JObj [(js ''type'', JStr (js ''text'')), (js ''text'', JObj [(js ''value'', JStr t)])]]"

definition buildResponseMessage :: "stream_env \<Rightarrow> submission \<Rightarrow> jsstring \<Rightarrow> message" where
  "buildResponseMessage env sub t = with_props (sb_initialResponse sub)
     [(js ''messageId'', JStr (response_id env sub)), (js ''parentMessageId'', parent_id sub),
      (js ''conversationId'', JStr (conversation_id env sub)), (js ''isCreatedByUser'', JBool False),
      (js ''text'', JStr t), (js ''content'', text_content t), (js ''unfinished'', JBool False), (js ''error'', JBool False)]"

definition finalConversation :: "stream_env \<Rightarrow> submission \<Rightarrow> message" where
  "finalConversation env sub =
     put_prop (nullish (sb_conversation sub) []) (js ''conversationId'', JStr (conversation_id env sub))"

definition isTemporaryChat :: "submission \<Rightarrow> bool" where
  "isTemporaryChat sub = (sb_isTemporary sub = Some (JBool True)
     \<or> getProp (JObj (nullish (sb_conversation sub) [])) (js ''isTemporary'') = Some (JBool True))"

subsection \<open>The state of a stream and its events\<close>

datatype task = OpenDelta jsstring | OpenTool jsstring | Finish

datatype handler_call =
    CallFinalTurn message message message
  | CallFinal json
  | CallCreated json message
  | CallTitle json
  | CallStep json message
  | CallSync json message
  | CallContent json
  | CallAttachment json
  | CallError "json option" message
  | SetMessages "message list"
  | SetSubmitting bool
  | SetStopButton bool
  | SetAbortScroll bool
  | SetCompleted bool
  | CallAbort json message

text \<open>A cancel carries what it finds: whether \<open>completed\<close> has the stream, the conversation id of the last message
  in the cache, and whether \<open>abortConversation\<close> rejects; a clean-up also whether the stream was still open.
  \<open>u_request\<close> is what the SSE object posts, \<open>u_user\<close> the variable \<open>userMessage\<close>, \<open>u_sent\<close> the requests to
  the device store.\<close>

record turn =
  u_text :: jsstring
  u_tools :: jsstring
  u_chain :: "task list"
  u_retries :: nat
  u_request :: request
  u_user :: message
  u_calls :: "handler_call list"
  u_sent :: "request_body list"
  u_lib :: lib_state

datatype stream_event =
    TokenEvent jsstring
  | ReasoningEvent jsstring
  | ToolEvent jsstring
  | ReceiptEvent
  | DoneEvent
  | MessageEvent jsstring
  | AttachmentEvent jsstring
  | ErrorEvent "int option" jsstring
  | OpenEvent
  | CancelEvent bool "json option" bool
  | CleanUp bool bool "json option" bool
  | Step

definition start_turn :: "submission \<Rightarrow> request \<Rightarrow> jsstring \<Rightarrow> lib_state \<Rightarrow> turn" where
  "start_turn sub q steps s = \<lparr>u_text = [], u_tools = steps, u_chain = [], u_retries = 0, u_request = q,
     u_user = sb_userMessage sub, u_calls = [SetSubmitting True], u_sent = [], u_lib = s\<rparr>"

definition call :: "handler_call \<Rightarrow> turn \<Rightarrow> turn" where
  "call c st = st\<lparr>u_calls := u_calls st @ [c]\<rparr>"

definition enqueue :: "task \<Rightarrow> turn \<Rightarrow> turn" where
  "enqueue t st = st\<lparr>u_chain := u_chain st @ [t]\<rparr>"

definition shown_messages :: "stream_env \<Rightarrow> submission \<Rightarrow> turn \<Rightarrow> message list" where
  "shown_messages env sub st =
     sb_messages sub @ [stampedUserMessage env sub, buildResponseMessage env sub (u_tools st @ u_text st)]"

definition render :: "stream_env \<Rightarrow> submission \<Rightarrow> turn \<Rightarrow> turn" where
  "render env sub st = call (SetMessages (shown_messages env sub st)) (call (SetSubmitting True) st)"

subsection \<open>The tasks of the chain\<close>

text \<open>The line of a tool step; \<open>args\<close> is read inside a \<open>try\<close>, \<open>result\<close> and \<open>tool\<close> throw on null.\<close>

definition js_String :: "platform \<Rightarrow> json \<Rightarrow> jsstring" where
  "js_String p v = (case v of JStr s \<Rightarrow> s | _ \<Rightarrow> p_toString p v)"

definition tool_args :: "platform \<Rightarrow> json \<Rightarrow> jsstring" where
  "tool_args p step = (case get_prop step ''args'' of
       Inl e \<Rightarrow> js ''{}''
     | Inr a \<Rightarrow> p_stringify p (nullish (defined a) (JObj [])))"

definition tool_line :: "platform \<Rightarrow> json \<Rightarrow> cerror + jsstring" where
  "tool_line p step = (case get_prop step ''result'' of
       Inl e \<Rightarrow> Inl e
     | Inr r \<Rightarrow> Inr (js ''> '' @ [0xD83D, 0xDD27] @ js '' **''
         @ js_String p (nullish (defined (getProp step (js ''tool''))) (JStr (js ''tool''))) @ js ''**('' @ [96]
         @ tool_args p step @ [96] @ js '') '' @ [0x2192] @ js '' '' @ [96]
         @ take 500 (js_String p (nullish (defined r) (JStr []))) @ [96, 10, 10]))"

definition open_tool :: "runtime \<Rightarrow> jsstring \<Rightarrow> jsstring lib" where
  "open_tool rte d =
     andThen (open_payload rte d) (\<lambda>t.
     case p_parse (plat rte) t of
       None \<Rightarrow> throw SyntaxErr
     | Some step \<Rightarrow> lift (tool_line (plat rte) step))"

definition finish :: "stream_env \<Rightarrow> submission \<Rightarrow> turn \<Rightarrow> turn" where
  "finish env sub st =
     (let resp = buildResponseMessage env sub (u_tools st @ u_text st);
          st1 = call (CallFinalTurn (stampedUserMessage env sub) resp (finalConversation env sub)) st;
          st2 = (if final_throws env resp
                 then call (SetStopButton False) (call (SetSubmitting False) (call (SetMessages (shown_messages env sub st)) st1))
                 else st1)
      in if isTemporaryChat sub then st2
         else case persistTurnToStore env (conversation_id env sub) (stampedUserMessage env sub) resp (finalConversation env sub) of
           None \<Rightarrow> st2
         | Some r \<Rightarrow> st2\<lparr>u_sent := u_sent st2 @ [r]\<rparr>)"

fun run_task :: "stream_env \<Rightarrow> submission \<Rightarrow> task \<Rightarrow> turn \<Rightarrow> turn" where
  "run_task env sub (OpenDelta d) st =
     (case open_payload (t_rt env) d (u_lib st) of
        (Inl e, s) \<Rightarrow> st\<lparr>u_lib := s\<rparr>
      | (Inr t, s) \<Rightarrow> render env sub (st\<lparr>u_lib := s, u_text := u_text st @ t\<rparr>))"
| "run_task env sub (OpenTool d) st =
     (case open_tool (t_rt env) d (u_lib st) of
        (Inl e, s) \<Rightarrow> st\<lparr>u_lib := s\<rparr>
      | (Inr t, s) \<Rightarrow> render env sub (st\<lparr>u_lib := s, u_tools := u_tools st @ t\<rparr>))"
| "run_task env sub Finish st = finish env sub st"

subsection \<open>The listeners\<close>

text \<open>\<open>message\<close>: a frame that does not parse is dropped; one that parses to null throws in the listener,
  which also leaves everything as it is.\<close>

definition created_user :: "message \<Rightarrow> json \<Rightarrow> message" where
  "created_user user m =
     (let u = with_props user (spread m) in
      case map_of user (js ''overrideParentMessageId'') of
        Some v \<Rightarrow> put_prop u (js ''overrideParentMessageId'', v)
      | None \<Rightarrow> filter (\<lambda>p. fst p \<noteq> js ''overrideParentMessageId'') u)"

definition has_prop :: "json \<Rightarrow> string \<Rightarrow> bool" where
  "has_prop v k = (defined (getProp v (js k)) \<noteq> None)"

definition on_message_frame :: "stream_env \<Rightarrow> jsstring \<Rightarrow> turn \<Rightarrow> turn" where
  "on_message_frame env d st =
     (case p_parse (plat (t_rt env)) d of
        None \<Rightarrow> st
      | Some JNull \<Rightarrow> st
      | Some v \<Rightarrow>
          if has_prop v ''final'' then
            (if final_data_throws env v
             then call (SetStopButton False) (call (SetSubmitting False) (call (CallFinal v) st)) else call (CallFinal v) st)
          else if has_prop v ''created'' then
            (let u = created_user (u_user st) (nullish (getProp v (js ''message'')) JNull)
             in call (CallCreated v u) (st\<lparr>u_user := u\<rparr>))
          else if getProp v (js ''event'') = Some (JStr (js ''title'')) then call (CallTitle v) st
          else if has_prop v ''event'' then call (CallStep v (u_user st)) st
          else if has_prop v ''sync'' then call (CallSync v (u_user st)) st
          else if has_prop v ''type'' then call (CallContent v) st
          else st)"

definition resigned :: "request \<Rightarrow> jsstring \<Rightarrow> request" where
  "resigned q auth = q\<lparr>rq_headers := [(js ''Content-Type'', js ''application/json''), (js ''Authorization'', auth)]\<rparr>"

definition surface_error :: "stream_env \<Rightarrow> jsstring \<Rightarrow> turn \<Rightarrow> turn" where
  "surface_error env d st =
     (case p_parse (plat (t_rt env)) d of
        None \<Rightarrow> call (CallError None (u_user st)) (call (SetSubmitting False) st)
      | Some v \<Rightarrow> call (CallError (Some v) (u_user st)) st)"

definition on_error_event :: "stream_env \<Rightarrow> int option \<Rightarrow> jsstring \<Rightarrow> turn \<Rightarrow> turn" where
  "on_error_event env code d st =
     (if code = Some 401 \<and> u_retries st < MAX_401_RETRIES
      then let st1 = st\<lparr>u_retries := Suc (u_retries st)\<rparr> in
        case signRequest (t_rt env) POST GATEWAY_CHAT_PATH (u_lib st1) of
          (Inr auth, s) \<Rightarrow> (let q = resigned (u_request st1) auth in st1\<lparr>u_request := q, u_lib := post_stream q s\<rparr>)
        | (Inl e, s) \<Rightarrow> surface_error env d (st1\<lparr>u_lib := s\<rparr>)
      else surface_error env d st)"

definition abort_id :: "submission \<Rightarrow> json option \<Rightarrow> turn \<Rightarrow> json" where
  "abort_id sub latest st =
     (case defined latest of
        Some v \<Rightarrow> v
      | None \<Rightarrow> (case defined (map_of (u_user st) (js ''conversationId'')) of
          Some v \<Rightarrow> v
        | None \<Rightarrow> nullish (defined (getProp (JObj (nullish (sb_conversation sub) [])) (js ''conversationId''))) (JStr [])))"

definition on_cancel :: "submission \<Rightarrow> bool \<Rightarrow> json option \<Rightarrow> bool \<Rightarrow> turn \<Rightarrow> turn" where
  "on_cancel sub has latest rejects st =
     (if has then call (SetCompleted False) (call (SetSubmitting False) st)
      else
        let st1 = call (CallAbort (abort_id sub latest st) (u_user st)) (call (SetCompleted True) st)
        in if rejects then call (SetStopButton False) (call (SetSubmitting False) st1) else st1)"

fun on_event :: "stream_env \<Rightarrow> submission \<Rightarrow> stream_event \<Rightarrow> turn \<Rightarrow> turn" where
  "on_event env sub (TokenEvent d) st = enqueue (OpenDelta d) st"
| "on_event env sub (ReasoningEvent d) st = enqueue (OpenDelta d) st"
| "on_event env sub (ToolEvent d) st = enqueue (OpenTool d) st"
| "on_event env sub ReceiptEvent st = st"
| "on_event env sub DoneEvent st = enqueue Finish st"
| "on_event env sub (MessageEvent d) st = on_message_frame env d st"
| "on_event env sub (AttachmentEvent d) st =
     (case p_parse (plat (t_rt env)) d of None \<Rightarrow> st | Some v \<Rightarrow> call (CallAttachment v) st)"
| "on_event env sub (ErrorEvent code d) st = on_error_event env code d st"
| "on_event env sub OpenEvent st = call (SetAbortScroll False) st"
| "on_event env sub (CancelEvent has latest rejects) st = on_cancel sub has latest rejects st"
| "on_event env sub (CleanUp still_open has latest rejects) st =
     (if still_open then on_cancel sub has latest rejects st else st)"
| "on_event env sub Step st =
     (case u_chain st of [] \<Rightarrow> st | t # ts \<Rightarrow> run_task env sub t (st\<lparr>u_chain := ts\<rparr>))"

definition run_events :: "stream_env \<Rightarrow> submission \<Rightarrow> stream_event list \<Rightarrow> turn \<Rightarrow> turn" where
  "run_events env sub es st = fold (on_event env sub) es st"

subsection \<open>What a chain of tasks comes to\<close>

definition in_session :: "HandshakeResult \<Rightarrow> Identity \<Rightarrow> lib_state \<Rightarrow> bool" where
  "in_session h i s \<longleftrightarrow> l_handshake s = Some h \<and> l_identity s = Some i \<and> l_wasm s"

definition session_lib :: "HandshakeResult \<Rightarrow> Identity \<Rightarrow> lib_state" where
  "session_lib h i = new_lib_state\<lparr>l_identity := Some i, l_handshake := Some h, l_wasm := True\<rparr>"

definition delta_text :: "runtime \<Rightarrow> HandshakeResult \<Rightarrow> Identity \<Rightarrow> jsstring \<Rightarrow> jsstring" where
  "delta_text rte h i d = (case fst (open_payload rte d (session_lib h i)) of Inl e \<Rightarrow> [] | Inr t \<Rightarrow> t)"

definition tool_text :: "runtime \<Rightarrow> HandshakeResult \<Rightarrow> Identity \<Rightarrow> jsstring \<Rightarrow> jsstring" where
  "tool_text rte h i d = (case fst (open_tool rte d (session_lib h i)) of Inl e \<Rightarrow> [] | Inr t \<Rightarrow> t)"

text \<open>Within a session opening depends on the session only, and changes nothing.\<close>

lemma openDelta_session:
  "in_session h i s \<Longrightarrow> openDelta rte en s = (fst (openDelta rte en (session_lib h i)), s)"
  by (auto simp: in_session_def session_lib_def openDelta_def andThen_def requireSession_def getWasm_def lift_def lift_opt_def
      ret_def throw_def split: option.splits sum.splits)

lemma open_payload_session:
  "in_session h i s \<Longrightarrow> open_payload rte d s = (fst (open_payload rte d (session_lib h i)), s)"
proof -
  assume s: "in_session h i s"
  have n: "andThen requireSession (\<lambda>_. andThen (getWasm rte) (\<lambda>_. throw TypeErr :: jsstring lib)) s
      = (fst (andThen requireSession (\<lambda>_. andThen (getWasm rte) (\<lambda>_. throw TypeErr)) (session_lib h i)), s)"
    using s by (simp add: in_session_def session_lib_def andThen_def requireSession_def getWasm_def ret_def throw_def)
  show ?thesis using openDelta_session [OF s] n
    by (auto simp: open_payload_def throw_apply split: option.splits sum.splits)
qed

lemma open_tool_session:
  "in_session h i s \<Longrightarrow> open_tool rte d s = (fst (open_tool rte d (session_lib h i)), s)"
proof -
  assume s: "in_session h i s"
  have t: "in_session h i (session_lib h i)" by (simp add: in_session_def session_lib_def)
  show ?thesis
    using open_payload_session [OF s, of rte d] open_payload_session [OF t, of rte d]
    by (cases "fst (open_payload rte d (session_lib h i))")
       (auto simp: open_tool_def andThen_def throw_def lift_def ret_def split: option.splits sum.splits)
qed

definition persist_reply :: "stream_env \<Rightarrow> submission \<Rightarrow> jsstring \<Rightarrow> request_body list" where
  "persist_reply env sub t =
     (if isTemporaryChat sub then []
      else case persistTurnToStore env (conversation_id env sub) (stampedUserMessage env sub)
             (buildResponseMessage env sub t) (finalConversation env sub) of
        None \<Rightarrow> [] | Some r \<Rightarrow> [r])"

text \<open>The effect of tasks on the text, the tool lines and the requests to the store.\<close>

fun content_after :: "stream_env \<Rightarrow> submission \<Rightarrow> HandshakeResult \<Rightarrow> Identity \<Rightarrow> task list \<Rightarrow>
    jsstring \<times> jsstring \<times> request_body list \<Rightarrow> jsstring \<times> jsstring \<times> request_body list" where
  "content_after env sub h i [] c = c"
| "content_after env sub h i (OpenDelta d # ts) (x, tls, rs) = content_after env sub h i ts (x @ delta_text (t_rt env) h i d, tls, rs)"
| "content_after env sub h i (OpenTool d # ts) (x, tls, rs) = content_after env sub h i ts (x, tls @ tool_text (t_rt env) h i d, rs)"
| "content_after env sub h i (Finish # ts) (x, tls, rs) = content_after env sub h i ts (x, tls, rs @ persist_reply env sub (tls @ x))"

definition content :: "turn \<Rightarrow> jsstring \<times> jsstring \<times> request_body list" where
  "content st = (u_text st, u_tools st, u_sent st)"

lemma call_simps [simp]:
  "content (call c st) = content st" "u_chain (call c st) = u_chain st" "u_lib (call c st) = u_lib st"
  "u_text (call c st) = u_text st" "u_tools (call c st) = u_tools st" "u_sent (call c st) = u_sent st"
  "u_retries (call c st) = u_retries st" "u_request (call c st) = u_request st" "u_user (call c st) = u_user st"
  by (simp_all add: call_def content_def)

lemma render_simps [simp]:
  "content (render env sub st) = content st" "u_chain (render env sub st) = u_chain st" "u_lib (render env sub st) = u_lib st"
  "u_retries (render env sub st) = u_retries st" "u_request (render env sub st) = u_request st" "u_sent (render env sub st) = u_sent st"
  by (simp_all add: render_def)

lemma finish_content:
  "content (finish env sub st) = (u_text st, u_tools st, u_sent st @ persist_reply env sub (u_tools st @ u_text st))"
  "u_chain (finish env sub st) = u_chain st" "u_lib (finish env sub st) = u_lib st"
  "u_retries (finish env sub st) = u_retries st" "u_request (finish env sub st) = u_request st"
  by (auto simp: finish_def Let_def persist_reply_def content_def split: option.splits)

lemma run_task_content:
  assumes "in_session h i (u_lib st)"
  shows "content (run_task env sub t st) = content_after env sub h i [t] (content st)
     \<and> u_chain (run_task env sub t st) = u_chain st \<and> u_lib (run_task env sub t st) = u_lib st"
proof (cases t)
  case (OpenDelta d)
  then show ?thesis using open_payload_session [OF assms, of "t_rt env" d]
    by (cases "fst (open_payload (t_rt env) d (session_lib h i))") (simp_all add: content_def delta_text_def render_def)
next
  case (OpenTool d)
  then show ?thesis using open_tool_session [OF assms, of "t_rt env" d]
    by (cases "fst (open_tool (t_rt env) d (session_lib h i))") (simp_all add: content_def tool_text_def render_def)
next
  case Finish
  then show ?thesis by (simp add: finish_content) (simp add: content_def)
qed

text \<open>The events that are not tasks leave the chain and its content alone, and the session.\<close>

fun tasks_of :: "stream_event list \<Rightarrow> task list" where
  "tasks_of [] = []"
| "tasks_of (TokenEvent d # es) = OpenDelta d # tasks_of es"
| "tasks_of (ReasoningEvent d # es) = OpenDelta d # tasks_of es"
| "tasks_of (ToolEvent d # es) = OpenTool d # tasks_of es"
| "tasks_of (DoneEvent # es) = Finish # tasks_of es"
| "tasks_of (_ # es) = tasks_of es"

lemma on_message_frame_simps [simp]:
  "content (on_message_frame env d st) = content st" "u_chain (on_message_frame env d st) = u_chain st"
  "u_lib (on_message_frame env d st) = u_lib st" "u_retries (on_message_frame env d st) = u_retries st"
  "u_request (on_message_frame env d st) = u_request st"
  by (auto simp: on_message_frame_def Let_def content_def call_def split: option.splits json.splits)

lemma on_cancel_simps [simp]:
  "content (on_cancel sub has latest rj st) = content st" "u_chain (on_cancel sub has latest rj st) = u_chain st"
  "u_lib (on_cancel sub has latest rj st) = u_lib st" "u_retries (on_cancel sub has latest rj st) = u_retries st"
  "u_request (on_cancel sub has latest rj st) = u_request st"
  by (simp_all add: on_cancel_def Let_def)

lemma surface_error_simps [simp]:
  "content (surface_error env d st) = content st" "u_chain (surface_error env d st) = u_chain st"
  "u_lib (surface_error env d st) = u_lib st" "u_retries (surface_error env d st) = u_retries st"
  "u_request (surface_error env d st) = u_request st"
  by (auto simp: surface_error_def split: option.splits)

lemma on_error_simps:
  "content (on_error_event env code d st) = content st" "u_chain (on_error_event env code d st) = u_chain st"
  by (auto simp: on_error_event_def Let_def content_def surface_error_def call_def split: sum.splits prod.splits option.splits)

lemma on_error_session:
  assumes "in_session h i (u_lib st)"
  shows "in_session h i (u_lib (on_error_event env code d st))"
proof -
  obtain r s where g: "signRequest (t_rt env) POST GATEWAY_CHAT_PATH (u_lib st) = (r, s)" by fastforce
  have "l_handshake s = l_handshake (u_lib st)" "l_identity s = l_identity (u_lib st)"
    using spec [OF quiet_signRequest [of "t_rt env" POST GATEWAY_CHAT_PATH, unfolded quiet_def], of "u_lib st"] g by auto
  moreover have "l_wasm s"
    using g assms by (auto simp: in_session_def signRequest_def andThen_def getWasm_def lib_clock_def on_client_def
        Client.draw_def lift_opt_def ret_def throw_def split: option.splits sum.splits prod.splits)
  ultimately have "in_session h i s" using assms by (simp add: in_session_def)
  then show ?thesis using assms g
    by (auto simp: on_error_event_def Let_def post_stream_def in_session_def split: sum.splits)
qed

subsection \<open>Every interleaving comes to the same\<close>

lemma content_after_append:
  "content_after env sub h i (ts @ us) c = content_after env sub h i us (content_after env sub h i ts c)"
proof (induction ts arbitrary: c)
  case (Cons t ts)
  then show ?case by (cases t; cases c) simp_all
qed simp

text \<open>What the state will come to once its chain is done.\<close>

definition outlook :: "stream_env \<Rightarrow> submission \<Rightarrow> HandshakeResult \<Rightarrow> Identity \<Rightarrow> turn \<Rightarrow> jsstring \<times> jsstring \<times> request_body list" where
  "outlook env sub h i st = content_after env sub h i (u_chain st) (content st)"

lemma outlook_event:
  assumes "in_session h i (u_lib st)"
  shows "outlook env sub h i (on_event env sub e st) = content_after env sub h i (tasks_of [e]) (outlook env sub h i st)
     \<and> in_session h i (u_lib (on_event env sub e st))"
proof (cases e)
  case Step
  show ?thesis
  proof (cases "u_chain st")
    case Nil
    then show ?thesis using assms Step by (simp add: outlook_def)
  next
    case (Cons t ts)
    let ?st = "st\<lparr>u_chain := ts\<rparr>"
    have "in_session h i (u_lib ?st)" using assms by simp
    note r = run_task_content [OF this, of env sub t]
    have "content ?st = content st" by (simp add: content_def)
    then show ?thesis using assms r Step Cons content_after_append [of env sub h i "[t]" ts "content st"]
      by (simp add: outlook_def)
  qed
next
  case (ErrorEvent code d)
  then show ?thesis using assms on_error_session by (simp add: outlook_def on_error_simps)
next
  case (CancelEvent b l r)
  then show ?thesis using assms by (simp add: outlook_def)
next
  case (CleanUp w b l r)
  then show ?thesis using assms by (simp add: outlook_def)
next
  case OpenEvent
  then show ?thesis using assms by (simp add: outlook_def)
next
  case (MessageEvent d)
  then show ?thesis using assms by (simp add: outlook_def)
next
  case (AttachmentEvent d)
  then show ?thesis using assms by (simp add: outlook_def split: option.splits)
qed (use assms in \<open>simp_all add: outlook_def enqueue_def content_def content_after_append\<close>)

lemma outlook_events:
  assumes "in_session h i (u_lib st)"
  shows "outlook env sub h i (run_events env sub es st) = content_after env sub h i (tasks_of es) (outlook env sub h i st)
     \<and> in_session h i (u_lib (run_events env sub es st))"
  using assms
proof (induction es arbitrary: st)
  case (Cons e es)
  have s: "in_session h i (u_lib (on_event env sub e st))" using outlook_event [OF Cons.prems] by blast
  have "tasks_of (e # es) = tasks_of [e] @ tasks_of es" by (cases e) simp_all
  then show ?case using Cons.IH [OF s] outlook_event [OF Cons.prems, of env sub e]
    by (simp add: run_events_def content_after_append)
qed (simp add: run_events_def)

lemma steps_drain: "in_session h i (u_lib st) \<Longrightarrow> u_chain (run_events env sub (replicate n Step) st) = drop n (u_chain st)"
proof (induction n arbitrary: st)
  case (Suc n)
  show ?case
  proof (cases "u_chain st")
    case Nil
    then show ?thesis using Suc by (simp add: run_events_def)
  next
    case (Cons t ts)
    have "in_session h i (u_lib (st\<lparr>u_chain := ts\<rparr>))" using Suc.prems by simp
    note r = run_task_content [OF this, of env sub t]
    then show ?thesis using Suc.IH [of "run_task env sub t (st\<lparr>u_chain := ts\<rparr>)"] Suc.prems Cons
      by (simp add: run_events_def)
  qed
qed (simp add: run_events_def)

lemma chain_length: "length (u_chain (on_event env sub e st)) \<le> Suc (length (u_chain st))"
proof (cases e)
  case Step
  have "u_chain (run_task env sub t st) = u_chain st" for t and st :: turn
    by (cases t) (simp_all add: finish_content render_def split: sum.splits prod.splits)
  then show ?thesis using Step by (auto split: list.splits)
qed (auto simp: enqueue_def on_error_simps split: option.splits)

lemma chain_length_events: "length (u_chain (run_events env sub es st)) \<le> length (u_chain st) + length es"
proof (induction es arbitrary: st)
  case (Cons e es)
  have "length (u_chain (run_events env sub es (on_event env sub e st))) \<le> Suc (length (u_chain st)) + length es"
    using Cons [of "on_event env sub e st"] chain_length [of env sub e st] by linarith
  then show ?case by (simp add: run_events_def)
qed (simp add: run_events_def)

text \<open>The text and the tool lines that the events of a stream carry.\<close>

definition text_of_events :: "runtime \<Rightarrow> HandshakeResult \<Rightarrow> Identity \<Rightarrow> stream_event list \<Rightarrow> jsstring" where
  "text_of_events rte h i es =
     concat (map (\<lambda>e. case e of TokenEvent d \<Rightarrow> delta_text rte h i d | ReasoningEvent d \<Rightarrow> delta_text rte h i d | _ \<Rightarrow> []) es)"

definition tools_of_events :: "runtime \<Rightarrow> HandshakeResult \<Rightarrow> Identity \<Rightarrow> stream_event list \<Rightarrow> jsstring" where
  "tools_of_events rte h i es = concat (map (\<lambda>e. case e of ToolEvent d \<Rightarrow> tool_text rte h i d | _ \<Rightarrow> []) es)"

lemma content_without_done:
  "DoneEvent \<notin> set es \<Longrightarrow> content_after env sub h i (tasks_of es) (x, tls, rs)
     = (x @ text_of_events (t_rt env) h i es, tls @ tools_of_events (t_rt env) h i es, rs)"
proof (induction es arbitrary: x tls)
  case (Cons e es)
  then show ?case by (cases e) (simp_all add: text_of_events_def tools_of_events_def)
qed (simp add: text_of_events_def tools_of_events_def)

lemma tasks_of_append [simp]: "tasks_of (es @ fs) = tasks_of es @ tasks_of fs"
  by (induction es rule: tasks_of.induct) simp_all

lemma tasks_of_steps [simp]: "tasks_of (replicate n Step) = []"
  by (induction n) simp_all

lemma run_events_append: "run_events env sub (es @ fs) st = run_events env sub fs (run_events env sub es st)"
  by (simp add: run_events_def)

lemma sent_after_drain:
  assumes "in_session h i s" "DoneEvent \<notin> set pre" "DoneEvent \<notin> set post" "es = pre @ DoneEvent # post" "length es \<le> n"
  shows "u_sent (run_events env sub (es @ replicate n Step) (start_turn sub q steps s))
     = persist_reply env sub ((steps @ tools_of_events (t_rt env) h i pre) @ text_of_events (t_rt env) h i pre)"
proof -
  let ?st = "start_turn sub q steps s" let ?st1 = "run_events env sub es ?st"
  let ?st2 = "run_events env sub (replicate n Step) ?st1"
  have i0: "in_session h i (u_lib ?st)" using assms(1) by (simp add: start_turn_def)
  have i1: "in_session h i (u_lib ?st1)" using outlook_events [OF i0] by blast
  have "length (u_chain ?st1) \<le> n" using chain_length_events [of env sub es ?st] assms(5) by (simp add: start_turn_def)
  then have c: "u_chain ?st2 = []" using steps_drain [OF i1] by simp
  have "outlook env sub h i ?st2 = content_after env sub h i (tasks_of es) (outlook env sub h i ?st)"
    using outlook_events [OF i1, of env sub "replicate n Step"] outlook_events [OF i0, of env sub es] by simp
  then have "content ?st2 = content_after env sub h i (tasks_of pre @ Finish # tasks_of post) ([], steps, [])"
    using c assms(4) by (simp add: outlook_def start_turn_def content_def)
  then show ?thesis
    using content_without_done [OF assms(2)] content_without_done [OF assms(3)]
    by (simp add: content_after_append run_events_append content_def)
qed

subsection \<open>Properties of a stream\<close>

lemma response_text: "map_of (buildResponseMessage env sub t) (js ''text'') = Some (JStr t)"
  "map_of (buildResponseMessage env sub t) (js ''isCreatedByUser'') = Some (JBool False)"
  by (simp_all add: buildResponseMessage_def with_props_def)

lemma stamped_text:
  "k \<noteq> js ''conversationId'' \<Longrightarrow> map_of (stampedUserMessage env sub) k = map_of (sb_userMessage sub) k"
  by (simp add: stampedUserMessage_def)

text \<open>C8. Whatever the order in which deltas are opened, further events arrive and errors intervene: once
  the chain has run, the stream of a turn with one \<open>done\<close> has sent the store exactly one request, the
  turn with the user's own text and the opened texts of the deltas that came before \<open>done\<close>, in order, after
  the lines of the subagents and tools.\<close>

theorem persisted_reply_in_order:
  assumes "in_session h i s" "es = pre @ DoneEvent # post" "DoneEvent \<notin> set pre" "DoneEvent \<notin> set post" "length es \<le> n"
    and "t_open env" "\<not> isTemporaryChat sub"
  shows "\<exists>cid user reply conv.
     u_sent (run_events env sub (es @ replicate n Step) (start_turn sub q steps s)) = [PERSIST_TURN cid user reply conv]
     \<and> ms_text user = str_prop (JObj (sb_userMessage sub)) ''text''
     \<and> ms_text reply = steps @ tools_of_events (t_rt env) h i pre @ text_of_events (t_rt env) h i pre
     \<and> \<not> ms_isCreatedByUser reply
     \<and> ms_conversationId user = cid \<and> ms_conversationId reply = cid \<and> cv_conversationId conv = cid"
  using sent_after_drain [OF assms(1,3,4,2,5), of env sub q steps] assms(6,7)
  by (simp add: persist_reply_def persistTurnToStore_def toStoredMessage_def toStoredConversation_def str_prop_def
      response_text stamped_text)

lemma sent_nothing:
  assumes "isTemporaryChat sub \<or> \<not> t_open env"
  shows "u_sent (run_events env sub es st) = u_sent st"
proof (induction es arbitrary: st)
  case (Cons e es)
  have f: "u_sent (finish env sub st) = u_sent st" for st :: turn
    using assms by (auto simp: finish_def Let_def persistTurnToStore_def)
  have t: "u_sent (run_task env sub t st) = u_sent st" for t and st :: turn
    by (cases t) (simp_all add: f split: sum.splits prod.splits)
  have m: "u_sent (on_message_frame env d st) = u_sent st" "u_sent (on_error_event env code d st) = u_sent st"
      "u_sent (on_cancel sub b l r st) = u_sent st" for d code b l r and st :: turn
    using on_message_frame_simps(1) [of env d st] on_error_simps(1) [of env code d st] on_cancel_simps(1) [of sub b l r st]
    by (simp_all add: content_def)
  have "u_sent (on_event env sub e st) = u_sent st"
    by (cases e) (simp_all add: enqueue_def m t split: option.splits list.splits)
  then show ?case using Cons by (simp add: run_events_def)
qed (simp add: run_events_def)

text \<open>A temporary chat, and a chat whose store is not open, leaves nothing in the store, whatever events arrive.\<close>

theorem temporary_chat_persists_nothing:
  assumes "isTemporaryChat sub \<or> \<not> t_open env"
  shows "u_sent (run_events env sub es (start_turn sub q steps s)) = []"
  using sent_nothing [OF assms, of es "start_turn sub q steps s"] by (simp add: start_turn_def)

subsection \<open>The retry\<close>

text \<open>The posts of a stream beyond its first: as many as retries used, each of a kind \<open>P\<close>.\<close>

definition retried :: "(request \<Rightarrow> bool) \<Rightarrow> request \<Rightarrow> request list \<Rightarrow> turn \<Rightarrow> bool" where
  "retried P q start st \<longleftrightarrow> u_retries st \<le> MAX_401_RETRIES \<and> (\<exists>a. u_request st = resigned q a \<or> u_request st = q)
     \<and> (\<exists>more. reqs (l_sdk (u_lib st)) = start @ more \<and> length more \<le> u_retries st \<and> (\<forall>r\<in>set more. P r))"

lemma resigned_again [simp]: "resigned (resigned q a) b = resigned q b"
  by (simp add: resigned_def)

lemma retried_same:
  "retried P q start st \<Longrightarrow> u_retries st' = u_retries st \<Longrightarrow> u_request st' = u_request st \<Longrightarrow>
   reqs (l_sdk (u_lib st')) = reqs (l_sdk (u_lib st)) \<Longrightarrow> retried P q start st'"
  by (simp add: retried_def)

lemma quiet_open_tool: "quiet (open_tool rte d)"
proof -
  have "quiet (case p_parse (plat rte) t of None \<Rightarrow> throw SyntaxErr | Some step \<Rightarrow> lift (tool_line (plat rte) step))" for t
    by (auto split: option.splits intro: quiet_basic)
  then show ?thesis unfolding open_tool_def by (intro quiet_andThen quiet_open_payload)
qed

lemma retried_task: "retried P q start st \<Longrightarrow> retried P q start (run_task env sub t st)"
proof (cases t)
  case (OpenDelta d)
  have "reqs (l_sdk (snd (open_payload (t_rt env) d (u_lib st)))) = reqs (l_sdk (u_lib st))"
    using quiet_open_payload [of "t_rt env" d] by (simp add: quiet_def)
  then show "retried P q start st \<Longrightarrow> ?thesis" using OpenDelta
    by (cases "open_payload (t_rt env) d (u_lib st)") (auto elim!: retried_same split: sum.splits)
next
  case (OpenTool d)
  have "reqs (l_sdk (snd (open_tool (t_rt env) d (u_lib st)))) = reqs (l_sdk (u_lib st))"
    using quiet_open_tool [of "t_rt env" d] by (simp add: quiet_def)
  then show "retried P q start st \<Longrightarrow> ?thesis" using OpenTool
    by (cases "open_tool (t_rt env) d (u_lib st)") (auto elim!: retried_same split: sum.splits)
next
  case Finish
  then show "retried P q start st \<Longrightarrow> ?thesis" by (auto elim!: retried_same simp: finish_content)
qed

lemma retried_error:
  assumes "retried P q start st"
    and P: "\<And>auth s. code = Some 401 \<Longrightarrow> signRequest (t_rt env) POST GATEWAY_CHAT_PATH (u_lib st) = (Inr auth, s) \<Longrightarrow> P (resigned q auth)"
  shows "retried P q start (on_error_event env code d st)"
proof (cases "code = Some 401 \<and> u_retries st < MAX_401_RETRIES")
  case True
  obtain r s where g: "signRequest (t_rt env) POST GATEWAY_CHAT_PATH (u_lib st) = (r, s)" by fastforce
  then have l: "reqs (l_sdk s) = reqs (l_sdk (u_lib st))"
    using spec [OF quiet_signRequest [of "t_rt env" POST GATEWAY_CHAT_PATH, unfolded quiet_def], of "u_lib st"] by simp
  from assms(1) obtain more where m: "reqs (l_sdk (u_lib st)) = start @ more" "length more \<le> u_retries st"
    "\<forall>r\<in>set more. P r" and r: "\<exists>a. u_request st = resigned q a \<or> u_request st = q"
    by (auto simp: retried_def)
  show ?thesis
  proof (cases r)
    case (Inl e)
    then show ?thesis using True g l m r
      by (auto simp: on_error_event_def Let_def retried_def)
  next
    case (Inr auth)
    have "resigned (u_request st) auth = resigned q auth" using r by auto
    then show ?thesis using True g l m Inr P [of auth s]
      by (auto simp: on_error_event_def Let_def retried_def post_stream_def intro!: exI [of _ "more @ [resigned q auth]"])
  qed
next
  case False
  then show ?thesis using assms(1) by (auto simp: on_error_event_def elim!: retried_same)
qed

text \<open>A retry as it should be: the first request with a signature made when one of the 401s arrived.\<close>

definition retry_at :: "stream_env \<Rightarrow> submission \<Rightarrow> stream_event list \<Rightarrow> turn \<Rightarrow> request \<Rightarrow> request \<Rightarrow> bool" where
  "retry_at env sub es st q r \<longleftrightarrow> (\<exists>pre d post auth t. es = pre @ ErrorEvent (Some 401) d # post
     \<and> signRequest (t_rt env) POST GATEWAY_CHAT_PATH (u_lib (run_events env sub pre st)) = (Inr auth, t)
     \<and> r = resigned q auth)"

lemma retry_at_later: "retry_at env sub es st q r \<Longrightarrow> retry_at env sub (es @ [e]) st q r"
  by (fastforce simp: retry_at_def)

lemma retried_events:
  assumes "u_retries st = 0" "u_request st = q" "reqs (l_sdk (u_lib st)) = start"
  shows "retried (retry_at env sub es st q) q start (run_events env sub es st)"
proof (induction es rule: rev_induct)
  case Nil
  show ?case using assms by (simp add: run_events_def retried_def)
next
  case (snoc e es)
  let ?P = "retry_at env sub (es @ [e]) st q" and ?st = "run_events env sub es st"
  have r: "retried ?P q start ?st"
    using snoc retry_at_later unfolding retried_def by blast
  have "retried ?P q start (run_task env sub t (?st\<lparr>u_chain := ts\<rparr>))" for t ts
    by (rule retried_task) (rule retried_same [OF r], simp_all)
  moreover have "retried ?P q start (on_error_event env code d ?st)" if "e = ErrorEvent code d" for code d
    by (rule retried_error [OF r]) (use that in \<open>auto simp: retry_at_def\<close>)
  ultimately have "retried ?P q start (on_event env sub e ?st)"
    using r by (cases e) (auto simp: enqueue_def elim!: retried_same split: option.splits list.splits)
  then show ?case by (simp add: run_events_def)
qed

text \<open>C14. However many errors the stream reports, it posts once more at most, and then the request of its first post -
  the same sealed body to the same address - with the headers replaced by a signature that \<open>signRequest\<close> made in
  the state in which the 401 arrived, over the clock as it read then.\<close>

theorem one_retry_of_the_same_body:
  "\<exists>more. reqs (l_sdk (u_lib (run_events env sub es (start_turn sub q steps s)))) = reqs (l_sdk s) @ more
     \<and> length more \<le> 1
     \<and> (\<forall>r\<in>set more. \<exists>pre d post auth t. es = pre @ ErrorEvent (Some 401) d # post
          \<and> signRequest (t_rt env) POST GATEWAY_CHAT_PATH (u_lib (run_events env sub pre (start_turn sub q steps s))) = (Inr auth, t)
          \<and> r = q\<lparr>rq_headers := [(js ''Content-Type'', js ''application/json''), (js ''Authorization'', auth)]\<rparr>)"
proof -
  have "retried (retry_at env sub es (start_turn sub q steps s) q) q (reqs (l_sdk s)) (run_events env sub es (start_turn sub q steps s))"
    by (rule retried_events) (simp_all add: start_turn_def)
  then show ?thesis
    unfolding retried_def MAX_401_RETRIES_def retry_at_def resigned_def by (meson le_trans)
qed

subsection \<open>A concrete stream\<close>

definition sample_stream :: stream_env where
  "sample_stream = turn_env.extend (sample_turn sample_runtime)
     \<lparr>date_parse = (\<lambda>_. None), now_ms = 7, uuid = (\<lambda>_. js ''u''), final_throws = (\<lambda>_. False), final_data_throws = (\<lambda>_. False)\<rparr>"

definition sample_submission :: submission where
  "sample_submission = \<lparr>sb_userMessage = [(js ''messageId'', JStr (js ''m'')), (js ''text'', JStr (js ''hi''))],
     sb_conversation = None, sb_initialResponse = [], sb_messages = [], sb_isTemporary = None\<rparr>"

definition sample_post :: request where
  "sample_post = post_request sample_runtime JNull (js ''auth'')"

lemma sample_stream_simps [simp]: "t_rt sample_stream = sample_runtime" "t_open sample_stream"
  by (simp_all add: sample_stream_def sample_turn_def turn_env.defs)

lemma sample_submission_simps [simp]: "\<not> isTemporaryChat sample_submission"
  by (simp add: isTemporaryChat_def sample_submission_def)

lemma sample_delta: "delta_text sample_runtime sample_session sample_identity (js ''{}'') = js ''yes''"
proof -
  have tr: "trim (js '' '' @ js ''{}'') = js ''{}''"
    by (simp add: js_def trim_def trim_end_def is_ws_def ws_codes_def)
  have "open_payload sample_runtime (trim (js '' '' @ js ''{}'')) (session_lib sample_session sample_identity)
      = (Inr (js ''yes''), session_lib sample_session sample_identity)"
    by (rule open_payload_frame [of undefined _ sample_session sample_identity Token])
       (simp_all add: sample_sealed_frame sample_runtime_b64 session_lib_def)
  then show ?thesis unfolding tr by (simp add: delta_text_def)
qed

text \<open>Two deltas, an error between them, one of them opened before \<open>done\<close> and the other after it.\<close>

lemma persisted_reply_in_order_witness:
  "\<exists>cid user reply conv.
     u_sent (run_events sample_stream sample_submission
       ([TokenEvent (js ''{}''), ErrorEvent (Some 401) [], Step, ReasoningEvent (js ''{}''), DoneEvent, TokenEvent (js ''{}'')] @ replicate 6 Step)
       (start_turn sample_submission sample_post [] sample_lib)) = [PERSIST_TURN cid user reply conv]
     \<and> ms_text user = js ''hi'' \<and> ms_text reply = js ''yesyes''"
proof -
  have s: "in_session sample_session sample_identity sample_lib" by (simp add: in_session_def)
  have t: "text_of_events sample_runtime sample_session sample_identity
       [TokenEvent (js ''{}''), ErrorEvent (Some 401) [], Step, ReasoningEvent (js ''{}'')] = js ''yesyes''"
    "tools_of_events sample_runtime sample_session sample_identity
       [TokenEvent (js ''{}''), ErrorEvent (Some 401) [], Step, ReasoningEvent (js ''{}'')] = []"
    by (simp_all add: text_of_events_def tools_of_events_def sample_delta)
  have u: "str_prop (JObj (sb_userMessage sample_submission)) ''text'' = js ''hi''"
    by (simp add: str_prop_def sample_submission_def)
  show ?thesis
    using persisted_reply_in_order [OF s, of "[TokenEvent (js ''{}''), ErrorEvent (Some 401) [], Step, ReasoningEvent (js ''{}''), DoneEvent, TokenEvent (js ''{}'')]"
        "[TokenEvent (js ''{}''), ErrorEvent (Some 401) [], Step, ReasoningEvent (js ''{}'')]" "[TokenEvent (js ''{}'')]" 6 sample_stream sample_submission sample_post "[]"]
    by (auto simp: t u)
qed

lemma temporary_chat_persists_nothing_witness:
  "u_sent (run_events sample_stream (sample_submission\<lparr>sb_isTemporary := Some (JBool True)\<rparr>) [TokenEvent (js ''{}''), DoneEvent, Step, Step]
     (start_turn (sample_submission\<lparr>sb_isTemporary := Some (JBool True)\<rparr>) sample_post [] sample_lib)) = []"
  by (rule temporary_chat_persists_nothing) (simp add: isTemporaryChat_def)

text \<open>Three 401s: the first one is answered by a post under the signature made for it.\<close>

lemma one_retry_of_the_same_body_witness:
  "\<exists>more. reqs (l_sdk (u_lib (run_events sample_stream sample_submission (replicate 3 (ErrorEvent (Some 401) []))
       (start_turn sample_submission sample_post [] sample_lib)))) = reqs (l_sdk sample_lib) @ more
     \<and> length more \<le> 1 \<and> list_all (\<lambda>r. rq_body r = rq_body sample_post) more"
  using one_retry_of_the_same_body [of sample_stream sample_submission "replicate 3 (ErrorEvent (Some 401) [])" sample_post "[]" sample_lib]
  by (fastforce simp: list_all_iff)

end
