(* ===== verification/Hydration.thy ===== *)
theory Hydration
  imports Turn StoreTurns Runs
begin

text \<open>
  How what is stored comes back on the screen: \<open>web-client/overlay/client/src/store/useHydrateConversation.ts\<close>
  and \<open>useConversationList.ts\<close>. The React Query cache is the state; an effect that awaits the store is a
  pending read, answered by a later event, so anything may happen to the cache in between. The
  main results: what is live in the cache is never overwritten; after a reload the reply of a persisted turn
  is on the screen with its text; the sidebar is filled newest first and never for longer than its window.
\<close>

subsection \<open>Stored rows as messages\<close>

text \<open>\<open>hy_parse\<close> is \<open>JSON.parse\<close>, \<open>hy_iso\<close> is \<open>new Date(ms).toISOString()\<close>, \<open>None\<close> when they throw.\<close>

record hydrate_env =
  hy_parse :: "jsstring \<Rightarrow> json option"
  hy_iso :: "jsnum \<Rightarrow> jsstring option"

definition SEARCH_CONVO :: jsstring where "SEARCH_CONVO = js ''search''"

definition isRealConversationId :: "jsstring option \<Rightarrow> bool" where
  "isRealConversationId cid =
     (case cid of None \<Rightarrow> False | Some k \<Rightarrow> k \<noteq> [] \<and> k \<noteq> NEW_CONVO \<and> k \<noteq> PENDING_CONVO \<and> k \<noteq> SEARCH_CONVO)"

definition safeParse :: "hydrate_env \<Rightarrow> jsstring option \<Rightarrow> json option" where
  "safeParse env t = (case t of None \<Rightarrow> None | Some s \<Rightarrow> if s = [] then None else hy_parse env s)"

definition rich_part :: "json \<Rightarrow> bool" where
  "rich_part p = (case defined (getProp p (js ''type'')) of None \<Rightarrow> False | Some v \<Rightarrow> v \<noteq> JStr (js ''text''))"

fun hasRichContent :: "json option \<Rightarrow> bool" where
  "hasRichContent (Some (JArr ps)) = list_ex rich_part ps"
| "hasRichContent _ = False"

definition opt_prop :: "string \<Rightarrow> json option \<Rightarrow> message" where
  "opt_prop k v = (case v of None \<Rightarrow> [] | Some w \<Rightarrow> [(js k, w)])"

definition columns_message :: "StoredMessage \<Rightarrow> json option \<Rightarrow> jsstring \<Rightarrow> jsstring \<Rightarrow> message" where
  "columns_message row parts createdAt updatedAt =
     [(js ''messageId'', JStr (ms_messageId row)), (js ''conversationId'', JStr (ms_conversationId row)),
      (js ''parentMessageId'', JStr (nullish (ms_parentMessageId row) NO_PARENT)),
      (js ''isCreatedByUser'', JBool (ms_isCreatedByUser row)), (js ''text'', JStr (ms_text row))]
     @ opt_prop ''content'' (if hasRichContent parts then parts else None)
     @ opt_prop ''model'' (map_option JStr (ms_model row))
     @ [(js ''createdAt'', JStr createdAt), (js ''updatedAt'', JStr updatedAt),
        (js ''error'', JBool False), (js ''unfinished'', JBool False)]"

text \<open>Both conversions throw when a date does not format.\<close>

definition toTMessage :: "hydrate_env \<Rightarrow> StoredMessage \<Rightarrow> message option" where
  "toTMessage env row =
     (let parsed = safeParse env (ms_contentJson row) in
      case parsed of
        Some (JObj kvs) \<Rightarrow>
          if map_of kvs (js ''messageId'') \<noteq> None then Some kvs
          else (case (hy_iso env (ms_createdAt row), hy_iso env (ms_updatedAt row)) of
              (Some c, Some u) \<Rightarrow> Some (columns_message row parsed c u) | _ \<Rightarrow> None)
      | _ \<Rightarrow> (case (hy_iso env (ms_createdAt row), hy_iso env (ms_updatedAt row)) of
              (Some c, Some u) \<Rightarrow> Some (columns_message row parsed c u) | _ \<Rightarrow> None))"

definition opt_json :: "jsstring option \<Rightarrow> json" where
  "opt_json s = (case s of None \<Rightarrow> JNull | Some t \<Rightarrow> JStr t)"

text \<open>\<open>typeof v === 'object'\<close> for a value that is not null.\<close>

fun is_object :: "json option \<Rightarrow> bool" where
  "is_object (Some (JObj kvs)) = True"
| "is_object (Some (JArr xs)) = True"
| "is_object _ = False"

definition toTConversation :: "hydrate_env \<Rightarrow> StoredConversation \<Rightarrow> message option" where
  "toTConversation env row =
     (let parsed = safeParse env (Some (cv_convoJson row)) in
      if is_object parsed
      then Some (put_prop (spread (the parsed)) (js ''conversationId'',
             nullish (defined (getProp (the parsed) (js ''conversationId''))) (JStr (cv_conversationId row))))
      else case (hy_iso env (cv_createdAt row), hy_iso env (cv_updatedAt row)) of
        (Some c, Some u) \<Rightarrow> Some [(js ''conversationId'', JStr (cv_conversationId row)),
          (js ''title'', JStr (nullish (cv_title row) (js ''New Chat''))), (js ''endpoint'', opt_json (cv_endpoint row)),
          (js ''model'', opt_json (cv_model row)), (js ''createdAt'', JStr c), (js ''updatedAt'', JStr u)]
      | _ \<Rightarrow> None)"

subsection \<open>The cache and the hydration effect\<close>

record chat_cache =
  qc_messages :: "jsstring \<Rightarrow> message list option"
  qc_convo :: "jsstring \<Rightarrow> message option"

text \<open>A read the effect has started: its conversation and whether the effect was cleaned up.\<close>

record hydration =
  hd_cache :: chat_cache
  hd_reads :: "(jsstring \<times> bool) list"

datatype hydrate_event =
    RunEffect bool "jsstring option" bool
  | CleanEffect nat
  | StoreAnswer nat response_body
  | Live jsstring "message list option"

definition has_messages :: "chat_cache \<Rightarrow> jsstring \<Rightarrow> bool" where
  "has_messages c cid = (nullish (qc_messages c cid) [] \<noteq> [])"

text \<open>The continuation of the read: \<open>setQueryData\<close> for the messages, then for the conversation; an
  exception of a conversion ends it where it is thrown.\<close>

definition seed_cache ::
  "hydrate_env \<Rightarrow> jsstring \<Rightarrow> StoredConversation option \<Rightarrow> StoredMessage list \<Rightarrow> chat_cache \<Rightarrow> chat_cache" where
  "seed_cache env cid conversation ms c =
     (if has_messages c cid then c
      else if ms = [] \<and> conversation = None then c
      else case those (map (toTMessage env) ms) of
        None \<Rightarrow> c
      | Some tMessages \<Rightarrow>
          let c1 = c\<lparr>qc_messages := (qc_messages c)(cid \<mapsto> tMessages)\<rparr> in
          (case conversation of
             None \<Rightarrow> c1
           | Some row \<Rightarrow> (case toTConversation env row of
               None \<Rightarrow> c1
             | Some t \<Rightarrow> c1\<lparr>qc_convo := (qc_convo c1)(cid \<mapsto> t)\<rparr>)))"

fun hydrate_step :: "hydrate_env \<Rightarrow> hydrate_event \<Rightarrow> hydration \<Rightarrow> hydration" where
  "hydrate_step env (RunEffect isAuthenticated cid opn) st =
     (if \<not> isAuthenticated \<or> \<not> isRealConversationId cid then st
      else if \<not> opn then st
      else if has_messages (hd_cache st) (the cid) then st
      else st\<lparr>hd_reads := hd_reads st @ [(the cid, False)]\<rparr>)"
| "hydrate_step env (CleanEffect k) st =
     (if k < length (hd_reads st) then st\<lparr>hd_reads := (hd_reads st)[k := (fst (hd_reads st ! k), True)]\<rparr> else st)"
| "hydrate_step env (StoreAnswer k ans) st =
     (if k < length (hd_reads st) then
        case (hd_reads st ! k, ans) of
          ((cid, False), HYDRATE conversation ms) \<Rightarrow> st\<lparr>hd_cache := seed_cache env cid conversation ms (hd_cache st)\<rparr>
        | _ \<Rightarrow> st
      else st)"
| "hydrate_step env (Live cid ms) st =
     st\<lparr>hd_cache := (hd_cache st)\<lparr>qc_messages := (qc_messages (hd_cache st))(cid := ms)\<rparr>\<rparr>"

definition run_hydration :: "hydrate_env \<Rightarrow> hydrate_event list \<Rightarrow> hydration \<Rightarrow> hydration" where
  "run_hydration env es st = foldl (\<lambda>s e. hydrate_step env e s) st es"

definition fresh_page :: hydration where
  "fresh_page = \<lparr>hd_cache = \<lparr>qc_messages = (\<lambda>_. None), qc_convo = (\<lambda>_. None)\<rparr>, hd_reads = []\<rparr>"

subsection \<open>Live state wins\<close>

lemma seed_other: "k \<noteq> cid \<Longrightarrow> qc_messages (seed_cache env cid conversation ms c) k = qc_messages c k"
  by (auto simp: seed_cache_def Let_def split: option.splits)

lemma seed_live: "has_messages c cid \<Longrightarrow> seed_cache env cid conversation ms c = c"
  by (simp add: seed_cache_def)

lemma live_step:
  assumes "qc_messages (hd_cache st) cid = Some ms" "ms \<noteq> []" "\<forall>new. e \<noteq> Live cid new"
  shows "qc_messages (hd_cache (hydrate_step env e st)) cid = Some ms"
proof (cases e)
  case (StoreAnswer k ans)
  have "qc_messages (seed_cache env i c rows (hd_cache st)) cid = Some ms" for i c rows
    using assms(1,2) seed_other [of cid i] seed_live [of "hd_cache st" i]
    by (cases "i = cid") (auto simp: has_messages_def)
  then show ?thesis using StoreAnswer assms(1)
    by (auto split: response_body.splits prod.splits bool.splits)
qed (use assms in \<open>auto simp: Let_def\<close>)

interpretation live_cache: event_loop "hydrate_step env" "\<lambda>e. \<forall>new. e \<noteq> Live cid new"
    "\<lambda>st. ms \<noteq> [] \<and> qc_messages (hd_cache st) cid = Some ms" for env cid ms
  by unfold_locales (use live_step in blast)

text \<open>C13. Messages that are in the cache stay there, as they are, whatever reads of the store are started,
  answered or cleaned up and in whatever order: only a live write to the same conversation changes them.\<close>

theorem live_messages_survive:
  assumes "qc_messages (hd_cache st) cid = Some ms" "ms \<noteq> []" "\<forall>new. Live cid new \<notin> set es"
  shows "qc_messages (hd_cache (run_hydration env es st)) cid = Some ms"
proof -
  have "\<forall>e\<in>set es. \<forall>new. e \<noteq> Live cid new" using assms(3) by blast
  from live_cache.run_keeps [OF _ this, of ms st env] show ?thesis using assms(1,2) by (simp add: run_hydration_def foldl_conv_fold)
qed

lemma live_messages_survive_witness:
  "qc_messages (hd_cache (run_hydration \<lparr>hy_parse = (\<lambda>_. None), hy_iso = (\<lambda>_. Some [])\<rparr>
       [StoreAnswer 0 (HYDRATE None [sample_message (js ''c'') (js ''u'') None])]
       (run_hydration \<lparr>hy_parse = (\<lambda>_. None), hy_iso = (\<lambda>_. Some [])\<rparr> [RunEffect True (Some (js ''c'')) True, Live (js ''c'') (Some [[]])] fresh_page))) (js ''c'') = Some [[]]"
  by (rule live_messages_survive) (simp_all add: run_hydration_def fresh_page_def has_messages_def)

subsection \<open>A reload shows the reply\<close>

text \<open>The content of a reply, as it is stored, is one text part: the row is shown by its text column.\<close>

lemma reply_row_shown:
  assumes "hy_parse env (p_stringify p (text_content t)) = Some (text_content t)"
    and "hy_iso env (ms_createdAt row) \<noteq> None" "hy_iso env (ms_updatedAt row) \<noteq> None"
    and "ms_contentJson row = Some (p_stringify p (text_content t))"
  shows "\<exists>m. toTMessage env row = Some m \<and> map_of m (js ''messageId'') = Some (JStr (ms_messageId row))
     \<and> map_of m (js ''text'') = Some (JStr (ms_text row)) \<and> map_of m (js ''isCreatedByUser'') = Some (JBool (ms_isCreatedByUser row))"
proof -
  obtain c u where d: "hy_iso env (ms_createdAt row) = Some c" "hy_iso env (ms_updatedAt row) = Some u" using assms(2,3) by auto
  have "safeParse env (ms_contentJson row) = Some (text_content t) \<or> safeParse env (ms_contentJson row) = None"
    using assms(1,4) by (simp add: safeParse_def)
  then have "toTMessage env row = Some (columns_message row (safeParse env (ms_contentJson row)) c u)"
    using d by (auto simp: toTMessage_def text_content_def Let_def)
  then show ?thesis by (auto simp: columns_message_def)
qed

text \<open>A message without content is shown by its text column too.\<close>

lemma plain_row_shown:
  assumes "ms_contentJson row = None" "hy_iso env (ms_createdAt row) \<noteq> None" "hy_iso env (ms_updatedAt row) \<noteq> None"
  shows "\<exists>m. toTMessage env row = Some m \<and> map_of m (js ''messageId'') = Some (JStr (ms_messageId row))
     \<and> map_of m (js ''text'') = Some (JStr (ms_text row)) \<and> map_of m (js ''isCreatedByUser'') = Some (JBool (ms_isCreatedByUser row))"
proof -
  obtain c u where "hy_iso env (ms_createdAt row) = Some c" "hy_iso env (ms_updatedAt row) = Some u" using assms(2,3) by auto
  then have "toTMessage env row = Some (columns_message row None c u)"
    using assms(1) by (simp add: toTMessage_def safeParse_def)
  then show ?thesis by (auto simp: columns_message_def)
qed

text \<open>The times a \<open>Date\<close> can hold; \<open>toISOString\<close> throws for any other.\<close>

definition date_ok :: "jsnum \<Rightarrow> bool" where
  "date_ok t \<longleftrightarrow> \<bar>t\<bar> \<le> 8640000000000000"

definition row_dates :: "StoredMessage \<Rightarrow> bool" where
  "row_dates m \<longleftrightarrow> date_ok (ms_createdAt m) \<and> date_ok (ms_updatedAt m)"

text \<open>The store answers a hydration after the turn with the rows of both messages; every time in the answer is one of
  the database or of the turn.\<close>

lemma turn_rows_answered:
  assumes "opened ws d" "persistTurnToStore env cid user rsp conv = Some r"
    and "str_prop (JObj user) ''messageId'' \<noteq> str_prop (JObj rsp) ''messageId''"
    and "\<forall>m\<in>ran (abs_msgs d). row_dates m" "row_dates (toStoredMessage env user cid)" "row_dates (toStoredMessage env rsp cid)"
  shows "\<exists>c ms t1 t2. answer senv (HYDRATE_CONVO cid) (after senv r ws) = HYDRATE c ms \<and> (\<forall>m\<in>set ms. row_dates m)
     \<and> (toStoredMessage env user cid)\<lparr>ms_createdAt := t1\<rparr> \<in> set ms
     \<and> (toStoredMessage env rsp cid)\<lparr>ms_createdAt := t2\<rparr> \<in> set ms"
proof -
  let ?u = "toStoredMessage env user cid" and ?a = "toStoredMessage env rsp cid"
  have r: "r = PERSIST_TURN cid ?u ?a (toStoredConversation env conv cid)"
    using assms(2) by (simp add: persistTurnToStore_def split: if_splits)
  let ?m = "put_msg ?a (put_msg ?u (abs_msgs d))"
  obtain ms where ms: "answer senv (HYDRATE_CONVO cid) (after senv r ws) = HYDRATE (put_convo (toStoredConversation env conv cid) (abs_convos d) cid) ms"
    "set ms = {m \<in> ran ?m. ms_conversationId m = cid}"
    using turn_hydrates [OF assms(1), of ?u "toStoredConversation env conv cid" ?a senv cid cid]
    unfolding r by (auto simp: toStoredMessage_def toStoredConversation_def)
  have ne: "ms_messageId ?u \<noteq> ms_messageId ?a" using assms(3) by (simp add: toStoredMessage_def)
  obtain t2 where "?m (ms_messageId ?a) = Some (?a\<lparr>ms_createdAt := t2\<rparr>)"
    by (cases "put_msg ?u (abs_msgs d) (ms_messageId ?a)") (auto simp: put_msg_def toStoredMessage_def)
  then have a: "?a\<lparr>ms_createdAt := t2\<rparr> \<in> set ms" unfolding ms(2) by (auto simp: ran_def toStoredMessage_def)
  obtain t1 where "?m (ms_messageId ?u) = Some (?u\<lparr>ms_createdAt := t1\<rparr>)"
    using ne by (cases "abs_msgs d (ms_messageId ?u)") (auto simp: put_msg_def toStoredMessage_def)
  then have u: "?u\<lparr>ms_createdAt := t1\<rparr> \<in> set ms" unfolding ms(2) by (auto simp: ran_def toStoredMessage_def)
  have put: "\<forall>y\<in>ran (put_msg x f). row_dates y" if "row_dates x" "\<forall>y\<in>ran f. row_dates y" for x f
    using that by (auto simp: put_msg_def ran_def row_dates_def split: option.splits if_splits)
  have "\<forall>y\<in>ran ?m. row_dates y" by (intro put assms(4-6))
  then show ?thesis using ms a u by blast
qed

lemma those_all: "\<forall>x\<in>set xs. f x \<noteq> None \<Longrightarrow> those (map f xs) = Some (map (\<lambda>x. the (f x)) xs)"
  by (induction xs) auto

lemma toTMessage_total:
  assumes "hy_iso env (ms_createdAt row) \<noteq> None" "hy_iso env (ms_updatedAt row) \<noteq> None"
  shows "toTMessage env row \<noteq> None"
proof -
  obtain c u where d: "hy_iso env (ms_createdAt row) = Some c" "hy_iso env (ms_updatedAt row) = Some u" using assms by blast
  show ?thesis
  proof (cases "safeParse env (ms_contentJson row)")
    case (Some v)
    then show ?thesis using d by (cases v) (simp_all add: toTMessage_def)
  qed (simp add: toTMessage_def d)
qed

text \<open>C12. From the stream to the screen: the turn a stream persists is stored, and when the page is loaded again and the
  effect runs on its conversation, both its messages are shown: under the id of the user's message, as the user's,
  what the user wrote; under the id of the reply, as the assistant's, the whole text the stream had opened. The
  times of the turn and of the database are in the range of \<open>Date\<close>: one message out of range hides the whole
  conversation.\<close>

theorem reload_shows_the_turn:
  assumes "in_session h i s" "es = pre @ DoneEvent # post" "DoneEvent \<notin> set pre" "DoneEvent \<notin> set post" "length es \<le> n"
    and "t_open env" "\<not> isTemporaryChat sub" "isRealConversationId (Some (conversation_id env sub))"
    and "str_prop (JObj (sb_userMessage sub)) ''messageId'' \<noteq> response_id env sub"
    and "map_of (sb_userMessage sub) (js ''isCreatedByUser'') = Some (JBool True)" "map_of (sb_userMessage sub) (js ''content'') = None"
    and "opened ws d" "\<forall>m\<in>ran (abs_msgs d). row_dates m"
    and "row_dates (toStoredMessage env (sb_userMessage sub) [])" "row_dates (toStoredMessage env (sb_initialResponse sub) [])"
    and "\<forall>t. date_ok t \<longrightarrow> hy_iso hy t \<noteq> None"
    and "\<forall>t. hy_parse hy (p_stringify (plat (t_rt env)) (text_content t)) = Some (text_content t)"
  shows "\<exists>r ts mu mr. u_sent (run_events env sub (es @ replicate n Step) (start_turn sub q steps s)) = [r]
     \<and> qc_messages (hd_cache (run_hydration hy
          [RunEffect True (Some (conversation_id env sub)) True,
           StoreAnswer 0 (answer senv (HYDRATE_CONVO (conversation_id env sub)) (after senv r ws))] fresh_page))
          (conversation_id env sub) = Some ts
     \<and> mu \<in> set ts \<and> map_of mu (js ''messageId'') = Some (JStr (str_prop (JObj (sb_userMessage sub)) ''messageId''))
     \<and> map_of mu (js ''isCreatedByUser'') = Some (JBool True)
     \<and> map_of mu (js ''text'') = Some (JStr (str_prop (JObj (sb_userMessage sub)) ''text''))
     \<and> mr \<in> set ts \<and> map_of mr (js ''messageId'') = Some (JStr (response_id env sub))
     \<and> map_of mr (js ''isCreatedByUser'') = Some (JBool False)
     \<and> map_of mr (js ''text'') = Some (JStr (steps @ tools_of_events (t_rt env) h i pre @ text_of_events (t_rt env) h i pre))"
proof -
  let ?cid = "conversation_id env sub" and ?t = "(steps @ tools_of_events (t_rt env) h i pre) @ text_of_events (t_rt env) h i pre"
  let ?rsp = "buildResponseMessage env sub ?t" and ?usr = "stampedUserMessage env sub"
  let ?a = "\<lambda>x. (toStoredMessage env ?rsp ?cid)\<lparr>ms_createdAt := x\<rparr>" and ?u = "\<lambda>x. (toStoredMessage env ?usr ?cid)\<lparr>ms_createdAt := x\<rparr>"
  obtain r where r: "persistTurnToStore env ?cid ?usr ?rsp (finalConversation env sub) = Some r"
    using assms(6) by (simp add: persistTurnToStore_def)
  have sent: "u_sent (run_events env sub (es @ replicate n Step) (start_turn sub q steps s)) = [r]"
    using sent_after_drain [OF assms(1,3,4,2,5), of env sub q steps] assms(7) r by (simp add: persist_reply_def)
  have ids: "str_prop (JObj ?usr) ''messageId'' \<noteq> str_prop (JObj ?rsp) ''messageId''"
    "ms_messageId (?a x) = response_id env sub" "ms_contentJson (?a x) = Some (p_stringify (plat (t_rt env)) (text_content ?t))"
    "ms_text (?a x) = ?t" "\<not> ms_isCreatedByUser (?a x)" for x
    using assms(9) by (simp_all add: toStoredMessage_def str_prop_def stamped_text buildResponseMessage_def with_props_def
        stringify_opt_def text_content_def)
  have usr: "ms_messageId (?u x) = str_prop (JObj (sb_userMessage sub)) ''messageId''" "ms_contentJson (?u x) = None"
    "ms_text (?u x) = str_prop (JObj (sb_userMessage sub)) ''text''" "ms_isCreatedByUser (?u x)" for x
    using assms(10,11) by (simp_all add: toStoredMessage_def str_prop_def stamped_text stringify_opt_def)
  have dates: "row_dates (toStoredMessage env ?usr ?cid)" "row_dates (toStoredMessage env ?rsp ?cid)"
    using assms(14,15) by (simp_all add: row_dates_def toStoredMessage_def stamped_text buildResponseMessage_def with_props_def)
  obtain c ms x y where ms: "answer senv (HYDRATE_CONVO ?cid) (after senv r ws) = HYDRATE c ms" "\<forall>m\<in>set ms. row_dates m"
    "?u x \<in> set ms" "?a y \<in> set ms"
    using turn_rows_answered [OF assms(12) r ids(1) assms(13) dates, of senv] by blast
  have iso: "hy_iso hy (ms_createdAt m) \<noteq> None" "hy_iso hy (ms_updatedAt m) \<noteq> None" if "m \<in> set ms" for m
    using ms(2) that assms(16) by (simp_all add: row_dates_def)
  obtain mr where mr: "toTMessage hy (?a y) = Some mr" "map_of mr (js ''messageId'') = Some (JStr (response_id env sub))"
    "map_of mr (js ''text'') = Some (JStr ?t)" "map_of mr (js ''isCreatedByUser'') = Some (JBool False)"
    using reply_row_shown [of hy "plat (t_rt env)" ?t "?a y"] iso [OF ms(4)] assms(17) ids(2-5) [of y] by auto
  obtain mu where mu: "toTMessage hy (?u x) = Some mu"
    "map_of mu (js ''messageId'') = Some (JStr (str_prop (JObj (sb_userMessage sub)) ''messageId''))"
    "map_of mu (js ''text'') = Some (JStr (str_prop (JObj (sb_userMessage sub)) ''text''))"
    "map_of mu (js ''isCreatedByUser'') = Some (JBool True)"
    using plain_row_shown [of "?u x" hy] iso [OF ms(3)] usr [of x] by auto
  let ?ts = "map (\<lambda>row. the (toTMessage hy row)) ms"
  have "\<forall>m\<in>set ms. toTMessage hy m \<noteq> None" using toTMessage_total iso by blast
  then have "those (map (toTMessage hy) ms) = Some ?ts" by (rule those_all)
  then have "qc_messages (hd_cache (run_hydration hy [RunEffect True (Some ?cid) True,
       StoreAnswer 0 (HYDRATE c ms)] fresh_page)) ?cid = Some ?ts"
    using assms(8) ms(3) by (auto simp: run_hydration_def fresh_page_def has_messages_def seed_cache_def Let_def split: option.splits)
  moreover have "mr \<in> set ?ts" "mu \<in> set ?ts" using ms(3,4) mr(1) mu(1) by force+
  ultimately show ?thesis using sent mr(2-4) mu(2-4)
    by (intro exI [of _ r] exI [of _ ?ts] exI [of _ mu] exI [of _ mr]) (simp add: ms(1))
qed

text \<open>A runtime whose JSON text of a reply is the reply itself.\<close>

definition reply_json :: "json \<Rightarrow> jsstring" where
  "reply_json v = (case v of JArr [JObj [_, (_, JObj [(_, JStr t)])]] \<Rightarrow> t | _ \<Rightarrow> [])"

definition reload_stream :: stream_env where
  "reload_stream = sample_stream\<lparr>t_rt := sample_runtime\<lparr>plat := (plat sample_runtime)\<lparr>p_stringify := reply_json\<rparr>\<rparr>\<rparr>"

definition sample_hydrate :: hydrate_env where
  "sample_hydrate = \<lparr>hy_parse = (\<lambda>t. Some (text_content t)), hy_iso = (\<lambda>t. if date_ok t then Some (js ''2026'') else None)\<rparr>"

definition reload_submission :: submission where
  "reload_submission = sample_submission\<lparr>sb_userMessage := [(js ''messageId'', JStr (js ''m'')), (js ''text'', JStr (js ''hi'')),
     (js ''isCreatedByUser'', JBool True)]\<rparr>"

lemma reload_shows_the_turn_witness:
  "\<exists>r ts mu mr. u_sent (run_events reload_stream reload_submission [DoneEvent, Step] (start_turn reload_submission sample_post (js ''yes'') sample_lib)) = [r]
     \<and> qc_messages (hd_cache (run_hydration sample_hydrate
          [RunEffect True (Some (js ''u'')) True,
           StoreAnswer 0 (answer StoreProps.sample_env (HYDRATE_CONVO (js ''u'')) (after StoreProps.sample_env r sample_state))] fresh_page)) (js ''u'') = Some ts
     \<and> mu \<in> set ts \<and> map_of mu (js ''text'') = Some (JStr (js ''hi''))
     \<and> mr \<in> set ts \<and> map_of mr (js ''text'') = Some (JStr (js ''yes''))"
proof -
  have s: "in_session sample_session sample_identity sample_lib" by (simp add: in_session_def)
  have e: "t_open reload_stream" "conversation_id reload_stream reload_submission = js ''u''"
    "response_id reload_stream reload_submission = js ''u''" "\<not> isTemporaryChat reload_submission"
    by (simp_all add: reload_stream_def sample_stream_def sample_turn_def turn_env.defs conversation_id_def response_id_def
        is_new_convo_def sample_submission_def str_prop_def Let_def reload_submission_def isTemporaryChat_def)
  have u: "str_prop (JObj (sb_userMessage reload_submission)) ''messageId'' = js ''m''"
    "str_prop (JObj (sb_userMessage reload_submission)) ''text'' = js ''hi''"
    "map_of (sb_userMessage reload_submission) (js ''isCreatedByUser'') = Some (JBool True)"
    "map_of (sb_userMessage reload_submission) (js ''content'') = None"
    by (simp_all add: reload_submission_def str_prop_def)
  have p: "p_stringify (plat (t_rt reload_stream)) (text_content t) = t" for t
    by (simp add: reload_stream_def reply_json_def text_content_def)
  have d: "\<forall>m\<in>ran (abs_msgs sample_db). row_dates m"
    by (auto simp: abs_msgs_def ran_def sample_db_def rowToMessage_def message_row_of_def sample_message_def row_dates_def date_ok_def
        split: if_splits)
  have r: "row_dates (toStoredMessage reload_stream (sb_userMessage reload_submission) [])"
    "row_dates (toStoredMessage reload_stream (sb_initialResponse reload_submission) [])"
    by (simp_all add: row_dates_def toStoredMessage_def toEpochMs_def reload_submission_def sample_submission_def date_ok_def
        reload_stream_def sample_stream_def turn_env.defs)
  have "[DoneEvent] = [] @ DoneEvent # []" by simp
  from reload_shows_the_turn [OF s this _ _ _ e(1,4) _ _ u(3,4) sample_opened d r, of 1 sample_hydrate sample_post "js ''yes''" StoreProps.sample_env]
  show ?thesis
    by (simp add: e u p sample_hydrate_def isRealConversationId_def NEW_CONVO_def PENDING_CONVO_def SEARCH_CONVO_def
        text_of_events_def tools_of_events_def) blast
qed

subsection \<open>The list of conversations\<close>

definition SEED_PAGE_SIZE :: int where "SEED_PAGE_SIZE = 50"
definition OPEN_WAIT_TICKS :: nat where "OPEN_WAIT_TICKS = 50"
definition RESEED_WINDOW_MS :: nat where "RESEED_WINDOW_MS = 4000"
definition RESEED_TICK_MS :: nat where "RESEED_TICK_MS = 200"

text \<open>\<open>Math.ceil(RESEED_WINDOW_MS / RESEED_TICK_MS)\<close>\<close>

definition RESEED_TICKS :: nat where
  "RESEED_TICKS = (RESEED_WINDOW_MS + RESEED_TICK_MS - 1) div RESEED_TICK_MS"

text \<open>Where the asynchronous body of the effect stands: polling for the store, reading it, or in the window with
  the conversations it read. \<open>le_list\<close> is the list under the default key, \<open>None\<close> before anything is written.
  \<open>addConversationToAllConversationsQueries\<close> is not in the repository; \<open>add\<close> is what it does to this list.\<close>

datatype list_phase = WaitOpen nat | ReadingList | Reseeding nat "message list" | ListOver

record list_effect =
  le_phase :: list_phase
  le_cancelled :: bool
  le_requests :: "request_body list"
  le_list :: "message list option"

datatype list_event =
    Poll bool
  | Listed response_body
  | Tick
  | CancelList
  | NetworkList "message list option"

definition start_list :: "bool \<Rightarrow> message list option \<Rightarrow> list_effect" where
  "start_list isAuthenticated cached = \<lparr>le_phase = (if isAuthenticated then WaitOpen 0 else ListOver),
     le_cancelled = False, le_requests = [], le_list = cached\<rparr>"

definition listHasConversations :: "list_effect \<Rightarrow> bool" where
  "listHasConversations le = (nullish (le_list le) [] \<noteq> [])"

definition sidebar_rows :: "hydrate_env \<Rightarrow> StoredConversation list \<Rightarrow> message list option" where
  "sidebar_rows env rows =
     map_option (filter (\<lambda>c. defined (map_of c (js ''conversationId'')) \<noteq> None
         \<and> map_of c (js ''conversationId'') \<noteq> Some (JStr NEW_CONVO)))
       (those (map (toTConversation env) rows))"

definition seed_list :: "(message \<Rightarrow> message list \<Rightarrow> message list) \<Rightarrow> message list \<Rightarrow> message list option \<Rightarrow> message list option" where
  "seed_list add stored old = Some (fold add (rev stored) (nullish old []))"

fun list_step ::
  "hydrate_env \<Rightarrow> (message \<Rightarrow> message list \<Rightarrow> message list) \<Rightarrow> list_event \<Rightarrow> list_effect \<Rightarrow> list_effect" where
  "list_step env add (Poll opn) le =
     (case le_phase le of
        WaitOpen i \<Rightarrow>
          if i < OPEN_WAIT_TICKS \<and> \<not> opn \<and> \<not> le_cancelled le then le\<lparr>le_phase := WaitOpen (Suc i)\<rparr>
          else if le_cancelled le \<or> \<not> opn then le\<lparr>le_phase := ListOver\<rparr>
          else le\<lparr>le_phase := ReadingList, le_requests := le_requests le @ [LIST_CONVOS (Some SEED_PAGE_SIZE) None]\<rparr>
      | _ \<Rightarrow> le)"
| "list_step env add (Listed ans) le =
     (case (le_phase le, ans) of
        (ReadingList, CONVOS rows nextCursor) \<Rightarrow>
          if le_cancelled le then le\<lparr>le_phase := ListOver\<rparr>
          else (case sidebar_rows env rows of
              None \<Rightarrow> le\<lparr>le_phase := ListOver\<rparr>
            | Some stored \<Rightarrow> le\<lparr>le_phase := (if stored = [] then ListOver else Reseeding 0 stored)\<rparr>)
      | (ReadingList, _) \<Rightarrow> le\<lparr>le_phase := ListOver\<rparr>
      | _ \<Rightarrow> le)"
| "list_step env add Tick le =
     (case le_phase le of
        Reseeding t stored \<Rightarrow>
          if t < RESEED_TICKS \<and> \<not> le_cancelled le
          then le\<lparr>le_phase := Reseeding (Suc t) stored,
                  le_list := (if listHasConversations le then le_list le else seed_list add stored (le_list le))\<rparr>
          else le\<lparr>le_phase := ListOver\<rparr>
      | _ \<Rightarrow> le)"
| "list_step env add CancelList le = le\<lparr>le_cancelled := True\<rparr>"
| "list_step env add (NetworkList v) le = le\<lparr>le_list := v\<rparr>"

definition run_list ::
  "hydrate_env \<Rightarrow> (message \<Rightarrow> message list \<Rightarrow> message list) \<Rightarrow> list_event list \<Rightarrow> list_effect \<Rightarrow> list_effect" where
  "run_list env add es le = foldl (\<lambda>s e. list_step env add e s) le es"

definition convo_id :: "message \<Rightarrow> json option" where
  "convo_id c = map_of c (js ''conversationId'')"

text \<open>What the helper is documented to do: put a conversation in front that the list does not hold, and leave a list that
  holds it as it is.\<close>

definition prepends :: "(message \<Rightarrow> message list \<Rightarrow> message list) \<Rightarrow> bool" where
  "prepends add \<longleftrightarrow> (\<forall>c l. add c l = (if convo_id c \<in> convo_id ` set l then l else c # l))"

definition put_in_front :: "message \<Rightarrow> message list \<Rightarrow> message list" where
  "put_in_front c l = (if convo_id c \<in> convo_id ` set l then l else c # l)"

lemma put_in_front_prepends: "prepends put_in_front"
  by (simp add: prepends_def put_in_front_def)

lemma fold_prepend:
  assumes "prepends add" "distinct (map convo_id (xs @ l))"
  shows "fold add (rev xs) l = xs @ l"
  using assms(2)
proof (induction xs)
  case (Cons x xs)
  then have "convo_id x \<notin> convo_id ` set (xs @ l)" by auto
  then show ?case using Cons assms(1) by (simp add: prepends_def)
qed simp

text \<open>The empty answers of the network and the ticks that fight them.\<close>

definition blanking :: "list_event \<Rightarrow> bool" where
  "blanking e \<longleftrightarrow> e \<in> {Tick, NetworkList None, NetworkList (Some [])}"

lemma window_state:
  assumes "prepends add" "distinct (map convo_id stored)" "stored \<noteq> []"
    and "list_all blanking es" "t + length (filter (\<lambda>e. e = Tick) es) \<le> RESEED_TICKS"
    and "le_phase le = Reseeding t stored" "\<not> le_cancelled le" "nullish (le_list le) [] \<in> {[], stored}"
  shows "le_phase (run_list env add es le) = Reseeding (t + length (filter (\<lambda>e. e = Tick) es)) stored
     \<and> \<not> le_cancelled (run_list env add es le) \<and> nullish (le_list (run_list env add es le)) [] \<in> {[], stored}"
  using assms(4-)
proof (induction es arbitrary: le t)
  case (Cons e es)
  have s: "seed_list add stored old = Some stored" if "nullish old [] = []" for old
    using fold_prepend [OF assms(1), of stored "[]"] assms(2) that by (simp add: seed_list_def)
  show ?case
  proof (cases "e = Tick")
    case True
    let ?le = "list_step env add e le"
    have "le_phase ?le = Reseeding (Suc t) stored \<and> \<not> le_cancelled ?le \<and> nullish (le_list ?le) [] \<in> {[], stored}"
      using True Cons.prems assms(3) by (auto simp: listHasConversations_def s)
    then show ?thesis using Cons.IH [of "Suc t" ?le] Cons.prems True by (simp add: run_list_def)
  next
    case False
    then have "le_phase (list_step env add e le) = Reseeding t stored \<and> \<not> le_cancelled (list_step env add e le)
        \<and> nullish (le_list (list_step env add e le)) [] \<in> {[], stored}"
      using Cons.prems by (auto simp: blanking_def)
    then show ?thesis using Cons.IH [of t "list_step env add e le"] Cons.prems False by (simp add: run_list_def)
  qed
qed (simp add: run_list_def)



text \<open>After the window the effect is over and writes nothing more, so a list the user empties stays empty.\<close>

lemma list_over: "le_phase le = ListOver \<Longrightarrow> \<not> (\<exists>v. e = NetworkList v) \<Longrightarrow>
    le_list (list_step env add e le) = le_list le \<and> le_phase (list_step env add e le) = ListOver"
  by (cases e) auto

lemma window_closes:
  assumes "le_phase le = Reseeding t stored"
  shows "le_phase (run_list env add (replicate (Suc RESEED_TICKS) Tick) le) = ListOver"
proof -
  have "le_phase le' = ListOver \<Longrightarrow> le_phase (run_list env add (replicate k Tick) le') = ListOver" for k le'
    by (induction k arbitrary: le') (simp_all add: run_list_def)
  note stays = this
  have "RESEED_TICKS \<le> t + k \<Longrightarrow> le_phase le = Reseeding t stored \<Longrightarrow>
      le_phase (run_list env add (replicate (Suc k) Tick) le) = ListOver" for k t and le :: list_effect
  proof (induction k arbitrary: t le)
    case 0
    then show ?case by (simp add: run_list_def)
  next
    case (Suc k)
    show ?case
    proof (cases "t < RESEED_TICKS \<and> \<not> le_cancelled le")
      case True
      then have "le_phase (list_step env add Tick le) = Reseeding (Suc t) stored" using Suc.prems by simp
      then show ?thesis using Suc.IH [of "Suc t" "list_step env add Tick le"] Suc.prems by (simp add: run_list_def)
    next
      case False
      then have "le_phase (list_step env add Tick le) = ListOver" using Suc.prems by auto
      then show ?thesis using stays [of "list_step env add Tick le" "Suc k"] by (simp add: run_list_def)
    qed
  qed
  from this [of t RESEED_TICKS le] assms show ?thesis by simp
qed

end
