(* ===== verification/ProviderParsers.thy ===== *)
theory ProviderParsers
  imports ProviderConfig Turn
begin

text \<open>
  The rest of \<open>web-client/overlay/packages/data-provider/src/parsers.ts\<close> (conversation parsing with the
  fallback to the custom endpoint, the sender of a response, text parts, separators, special variables,
  the endpoints configuration), and \<open>createPayload.ts\<close> beside it. The zod schemas,
  dayjs and the enumeration of content types are arguments. The main results: a conversation of an endpoint
  that is not built in always parses with some schema, never sees the icon the client sent, and every payload
  goes to the one chat route.
\<close>

subsection \<open>Schemas by endpoint\<close>

datatype zod_schema = openAISchema | openRouterSchema | googleSchema | anthropicSchema | assistantSchema
  | compactAgentsSchema | compactGoogleSchema | compactAssistantSchema | bedrockInputSchema

text \<open>\<open>zod_parse\<close> is \<open>schema.parse\<close>, \<open>None\<close> when it throws; \<open>inherited\<close> tells the names every object literal
  inherits; \<open>ct_text\<close> and \<open>ct_think\<close> are \<open>ContentTypes.TEXT\<close> and \<open>ContentTypes.THINK\<close>.\<close>

record provider_env = endpoint_names +
  e_openrouter :: jsstring
  zod_parse :: "zod_schema \<Rightarrow> json \<Rightarrow> json option"
  inherited :: "jsstring \<Rightarrow> bool"
  ct_text :: jsstring
  ct_think :: jsstring

definition endpointSchemas :: "provider_env \<Rightarrow> (jsstring \<times> zod_schema) list" where
  "endpointSchemas en =
     [(e_value en E_openAI, openAISchema), (e_value en E_azureOpenAI, openAISchema),
      (e_value en E_custom, openAISchema), (e_openrouter en, openRouterSchema),
      (e_value en E_google, googleSchema), (e_value en E_anthropic, anthropicSchema),
      (e_value en E_assistants, assistantSchema), (e_value en E_azureAssistants, assistantSchema),
      (e_value en E_agents, compactAgentsSchema), (e_value en E_bedrock, bedrockInputSchema)]"

definition compactEndpointSchemas :: "provider_env \<Rightarrow> (jsstring \<times> zod_schema) list" where
  "compactEndpointSchemas en =
     [(e_value en E_openAI, openAISchema), (e_value en E_azureOpenAI, openAISchema),
      (e_value en E_custom, openAISchema), (e_openrouter en, openRouterSchema),
      (e_value en E_assistants, compactAssistantSchema), (e_value en E_azureAssistants, compactAssistantSchema),
      (e_value en E_agents, compactAgentsSchema), (e_value en E_google, compactGoogleSchema),
      (e_value en E_bedrock, bedrockInputSchema), (e_value en E_anthropic, anthropicSchema)]"

text \<open>A table is a plain object, so a lookup may also find an inherited property, which has no \<open>parse\<close>.\<close>

datatype schema_ref = OwnSchema zod_schema | InheritedProperty

definition schema_at :: "provider_env \<Rightarrow> (jsstring \<times> zod_schema) list \<Rightarrow> jsstring \<Rightarrow> schema_ref option" where
  "schema_at en schemas k =
     (case own schemas k of
        Some z \<Rightarrow> Some (OwnSchema z)
      | None \<Rightarrow> if inherited en k then Some InheritedProperty else None)"

definition isEndpointSchemaLookupKey :: "provider_env \<Rightarrow> jsstring option \<Rightarrow> bool" where
  "isEndpointSchemaLookupKey en v = (case v of None \<Rightarrow> False | Some k \<Rightarrow> own (endpointSchemas en) k \<noteq> None)"

definition getFallbackEndpointSchema ::
  "provider_env \<Rightarrow> (jsstring \<times> zod_schema) list \<Rightarrow> jsstring option \<Rightarrow> jsstring option \<Rightarrow> schema_ref option" where
  "getFallbackEndpointSchema en schemas endpointType defaultParamsEndpoint =
     (if nullish endpointType [] = [] then None
      else
        let overrideSchema = (if isEndpointSchemaLookupKey en defaultParamsEndpoint
              then schema_at en schemas (the defaultParamsEndpoint) else None)
        in case overrideSchema of Some z \<Rightarrow> Some z | None \<Rightarrow> schema_at en schemas (the endpointType))"

subsection \<open>Parsing a conversation\<close>

datatype convo_error =
    ZodError
  | NotAFunction
  | UndefinedEndpoint
  | UnknownEndpointType "jsstring option"

definition getFirstDefinedValue :: "jsstring list \<Rightarrow> jsstring option" where
  "getFirstDefinedValue possibleValues = List.find (\<lambda>v. v \<noteq> []) possibleValues"

definition getNonEmptyValue :: "jsstring list \<Rightarrow> jsstring option" where
  "getNonEmptyValue possibleValues = List.find (\<lambda>v. v \<noteq> [] \<and> Prelude.trim v \<noteq> []) possibleValues"

text \<open>\<open>convo.model = getFirstDefinedValue(models) ?? convo.model\<close> on the object a schema returned.\<close>

definition set_model :: "jsstring list option \<Rightarrow> json \<Rightarrow> json" where
  "set_model possible convo =
     (case (possible, convo) of
        (Some ms, JObj kvs) \<Rightarrow>
          (case getFirstDefinedValue ms of None \<Rightarrow> convo | Some m \<Rightarrow> JObj (put_prop kvs (js ''model'', JStr m)))
      | _ \<Rightarrow> convo)"

definition effective_type :: "provider_env \<Rightarrow> schema_ref option \<Rightarrow> jsstring option \<Rightarrow> jsstring option" where
  "effective_type en primarySchema endpointType =
     (case endpointType of
        Some k \<Rightarrow> Some k
      | None \<Rightarrow> if primarySchema = None then Some (e_value en E_custom) else None)"

definition chosen_schema ::
  "provider_env \<Rightarrow> (jsstring \<times> zod_schema) list \<Rightarrow> jsstring \<Rightarrow> jsstring option \<Rightarrow> jsstring option \<Rightarrow> schema_ref option" where
  "chosen_schema en schemas endpoint endpointType defaultParamsEndpoint =
     (let primarySchema = schema_at en schemas endpoint in
      case primarySchema of
        Some z \<Rightarrow> Some z
      | None \<Rightarrow> getFallbackEndpointSchema en schemas (effective_type en primarySchema endpointType) defaultParamsEndpoint)"

definition run_schema :: "provider_env \<Rightarrow> schema_ref \<Rightarrow> json \<Rightarrow> convo_error + json" where
  "run_schema en z v =
     (case z of
        InheritedProperty \<Rightarrow> Inl NotAFunction
      | OwnSchema s \<Rightarrow> (case zod_parse en s v of None \<Rightarrow> Inl ZodError | Some w \<Rightarrow> Inr w))"

record convo_args =
  ca_endpointType :: "jsstring option"
  ca_models :: "jsstring list option"
  ca_defaultParamsEndpoint :: "jsstring option"

definition parseConvo :: "provider_env \<Rightarrow> jsstring \<Rightarrow> json \<Rightarrow> convo_args \<Rightarrow> convo_error + json option" where
  "parseConvo en endpoint conversation a =
     (case chosen_schema en (endpointSchemas en) endpoint (ca_endpointType a) (ca_defaultParamsEndpoint a) of
        None \<Rightarrow> Inr None
      | Some z \<Rightarrow>
          (case run_schema en z conversation of
             Inl e \<Rightarrow> Inl e
           | Inr convo \<Rightarrow> Inr (Some (set_model (ca_models a) convo))))"

definition without_iconURL :: "message \<Rightarrow> message" where
  "without_iconURL conversation = filter (\<lambda>p. fst p \<noteq> js ''iconURL'') conversation"

definition parseCompactConvo ::
  "provider_env \<Rightarrow> jsstring option \<Rightarrow> message \<Rightarrow> convo_args \<Rightarrow> convo_error + json" where
  "parseCompactConvo en endpoint conversation a =
     (if nullish endpoint [] = [] then Inl UndefinedEndpoint
      else
        case chosen_schema en (compactEndpointSchemas en) (the endpoint) (ca_endpointType a) (ca_defaultParamsEndpoint a) of
          None \<Rightarrow> Inl (UnknownEndpointType (ca_endpointType a))
        | Some z \<Rightarrow>
            (case run_schema en z (JObj (without_iconURL conversation)) of
               Inl e \<Rightarrow> Inl e
             | Inr convo \<Rightarrow> Inr (set_model (ca_models a) convo)))"

subsection \<open>The sender of a response\<close>

text \<open>\<open>\<d>+(?:\.\<d>+)?\<close> at the head of a string: what it matches and what follows. Only the fraction is optional,
  so the one other match of the same digits is the integer part alone.\<close>

definition read_version :: "jsstring \<Rightarrow> (jsstring \<times> jsstring) option" where
  "read_version s =
     (let ds = takeWhile is_digit s; r = dropWhile is_digit s; fs = takeWhile is_digit (drop 1 r) in
      if ds = [] then None
      else if take 1 r = js ''.'' \<and> fs \<noteq> [] then Some (ds @ js ''.'' @ fs, dropWhile is_digit (drop 1 r))
      else Some (ds, r))"

definition prefix_ci :: "string \<Rightarrow> jsstring \<Rightarrow> bool" where
  "prefix_ci p s = prefix (js p) (map ascii_lower s)"

definition is_letter :: "jschar \<Rightarrow> bool" where
  "is_letter c = (97 \<le> ascii_lower c \<and> ascii_lower c \<le> 122)"

definition is_word_char :: "jschar \<Rightarrow> bool" where
  "is_word_char c = (is_letter c \<or> is_digit c \<or> c = 95)"

fun extractGPTVersion :: "jsstring \<Rightarrow> jsstring" where
  "extractGPTVersion [] = []"
| "extractGPTVersion (c # cs) =
     (if prefix_ci ''gpt-'' (c # cs) \<and> read_version (drop 3 cs) \<noteq> None
      then (case the (read_version (drop 3 cs)) of
              (version, r) \<Rightarrow> js ''GPT-'' @ version @ takeWhile is_letter (take 1 r))
      else extractGPTVersion cs)"

text \<open>A boundary after digits: the end, or a character that is not a word character.\<close>

definition boundary :: "jsstring \<Rightarrow> bool" where
  "boundary r = (list_all (\<lambda>c. \<not> is_word_char c) (take 1 r))"

definition omni_at :: "jsstring \<Rightarrow> jsstring option" where
  "omni_at s =
     (case read_version s of
        None \<Rightarrow> None
      | Some (version, r) \<Rightarrow>
          if boundary r then Some version
          else if boundary (dropWhile is_digit s) then Some (takeWhile is_digit s)
          else None)"

fun find_omni :: "bool \<Rightarrow> jsstring \<Rightarrow> jsstring" where
  "find_omni in_word [] = []"
| "find_omni in_word (c # cs) =
     (if \<not> in_word \<and> ascii_lower c = 111 \<and> omni_at cs \<noteq> None then js ''o'' @ the (omni_at cs)
      else find_omni (is_word_char c) cs)"

definition extractOmniVersion :: "jsstring \<Rightarrow> jsstring" where
  "extractOmniVersion modelStr = find_omni False modelStr"

record endpoint_option =
  eo_model :: "jsstring option"
  eo_endpoint :: "jsstring option"
  eo_endpointType :: "jsstring option"
  eo_modelDisplayLabel :: "jsstring option"
  eo_chatGptLabel :: "jsstring option"
  eo_modelLabel :: "jsstring option"

text \<open>The chain of tests both groups of endpoints share; \<open>None\<close> when none of them applies.\<close>

definition model_sender :: "jsstring \<Rightarrow> jsstring option" where
  "model_sender m =
     (if m \<noteq> [] \<and> extractOmniVersion m \<noteq> [] then Some (extractOmniVersion m)
      else if m \<noteq> [] \<and> (str_includes m (js ''mistral'') \<or> str_includes m (js ''codestral'')) then Some (js ''Mistral'')
      else if m \<noteq> [] \<and> str_includes m (js ''deepseek'') then Some (js ''Deepseek'')
      else if m \<noteq> [] \<and> str_includes m (js ''kimi'') then Some (js ''Kimi'')
      else if m \<noteq> [] \<and> str_includes m (js ''moonshot'') then Some (js ''Moonshot'')
      else if m \<noteq> [] \<and> str_includes m (js ''gpt-'')
           then Some (if extractGPTVersion m = [] then js ''GPT'' else extractGPTVersion m)
      else None)"

definition getResponseSender :: "(jschar \<Rightarrow> jsstring) \<Rightarrow> provider_env \<Rightarrow> endpoint_option \<Rightarrow> jsstring" where
  "getResponseSender fold_of en eo =
     (let endpoint = eo_endpoint eo; m = nullish (eo_model eo) [];
          modelDisplayLabel = nullish (eo_modelDisplayLabel eo) []; chatGptLabel = nullish (eo_chatGptLabel eo) [];
          modelLabel = nullish (eo_modelLabel eo) [] in
      if endpoint \<in> {Some (e_value en E_openAI), Some (e_value en E_bedrock), Some (e_value en E_azureOpenAI)} then
        (if modelLabel \<noteq> [] then modelLabel
         else if chatGptLabel \<noteq> [] then chatGptLabel
         else nullish (model_sender m) (nullish (own (alternateName en) (the endpoint)) (js ''AI'')))
      else if endpoint = Some (e_value en E_anthropic) then
        (if modelLabel \<noteq> [] then modelLabel else js ''Claude'')
      else if endpoint = Some (e_value en E_google) then
        (if modelLabel \<noteq> [] then modelLabel
         else if str_includes (toLowerCase fold_of m) (js ''gemma'') then js ''Gemma'' else js ''Gemini'')
      else if endpoint = Some (e_value en E_custom) \<or> eo_endpointType eo = Some (e_value en E_custom) then
        (if modelLabel \<noteq> [] then modelLabel
         else if chatGptLabel \<noteq> [] then chatGptLabel
         else nullish (model_sender m) (if modelDisplayLabel \<noteq> [] then modelDisplayLabel else js ''AI''))
      else [])"

subsection \<open>Text parts and separators\<close>

text \<open>A part is undefined or an object whose fields have their declared types; a \<open>text\<close> that is not a string
  is an object with an optional \<open>value\<close>.\<close>

definition text_of_part :: "json \<Rightarrow> jsstring" where
  "text_of_part part =
     (case getProp part (js ''text'') of
        Some (JStr t) \<Rightarrow> t
      | v \<Rightarrow> (case chain_prop v ''value'' of Some (JStr t) \<Rightarrow> t | _ \<Rightarrow> []))"

definition think_of_part :: "json \<Rightarrow> jsstring" where
  "think_of_part part = (case getProp part (js ''think'') of Some (JStr t) \<Rightarrow> t | _ \<Rightarrow> [])"

text \<open>\<open>result += textValue\<close>, with a space between two pieces that have none.\<close>

definition append_spaced :: "jsstring \<Rightarrow> jsstring \<Rightarrow> jsstring" where
  "append_spaced result textValue =
     (if result \<noteq> [] \<and> textValue \<noteq> [] \<and> last result \<noteq> 32 \<and> hd textValue \<noteq> 32
      then result @ [32] @ textValue else result @ textValue)"

definition part_value :: "provider_env \<Rightarrow> bool \<Rightarrow> json option \<Rightarrow> jsstring" where
  "part_value en skipReasoning part =
     (let kind = chain_prop part ''type'' in
      if \<not> truthy kind then []
      else if kind = Some (JStr (ct_text en)) then text_of_part (the part)
      else if kind = Some (JStr (ct_think en)) \<and> \<not> skipReasoning then think_of_part (the part)
      else [])"

definition parseTextParts :: "provider_env \<Rightarrow> bool \<Rightarrow> json option list \<Rightarrow> jsstring" where
  "parseTextParts en skipReasoning contentParts =
     foldl (\<lambda>result part. append_spaced result (part_value en skipReasoning part)) [] contentParts"

definition SEPARATORS :: "jsstring list" where
  "SEPARATORS = [js ''.'', js ''?'', js ''!'', [0x6D4], [0x3002], [0x2025], js '';'', [0xA1], [0xBF], [10], [96, 96, 96]]"

text \<open>\<open>None\<close> is -1.\<close>

definition findLastSeparatorIndex :: "jsstring list \<Rightarrow> jsstring \<Rightarrow> nat option" where
  "findLastSeparatorIndex separators t =
     foldl (\<lambda>lastIndex sep. case last_index_of sep t of
         None \<Rightarrow> lastIndex
       | Some i \<Rightarrow> (case lastIndex of None \<Rightarrow> Some i | Some l \<Rightarrow> if l < i then Some i else Some l)) None separators"

subsection \<open>Special variables\<close>

text \<open>What \<open>replace\<close> makes of its replacement: \<open>$$\<close>, \<open>$&\<close>, \<open>$`\<close> and \<open>$'\<close> are expanded; the patterns have no
  groups, so every other dollar stays.\<close>

fun expand :: "jsstring \<Rightarrow> jsstring \<Rightarrow> jsstring \<Rightarrow> jsstring \<Rightarrow> jsstring" where
  "expand pre matched post [] = []"
| "expand pre matched post [c] = [c]"
| "expand pre matched post (c # d # cs) =
     (if c = 36 \<and> d = 36 then 36 # expand pre matched post cs
      else if c = 36 \<and> d = 38 then matched @ expand pre matched post cs
      else if c = 36 \<and> d = 96 then pre @ expand pre matched post cs
      else if c = 36 \<and> d = 39 then post @ expand pre matched post cs
      else c # expand pre matched post (d # cs))"

text \<open>\<open>{{\s*name\s*}}\<close> with the flag \<open>i\<close> at the head of a string: the text after it.\<close>

definition after_var :: "string \<Rightarrow> jsstring \<Rightarrow> jsstring option" where
  "after_var name s =
     (let t = dropWhile is_ws (drop 2 s); u = dropWhile is_ws (drop (length name) t) in
      if take 2 s = js ''{{'' \<and> prefix_ci name t \<and> take 2 u = js ''}}'' then Some (drop 2 u) else None)"

lemma after_var_shorter: "after_var name s = Some r \<Longrightarrow> length r < length s"
proof -
  assume a: "after_var name s = Some r"
  let ?t = "dropWhile is_ws (drop 2 s)" and ?u = "dropWhile is_ws (drop (length name) (dropWhile is_ws (drop 2 s)))"
  have "take 2 s = js ''{{''" "r = drop 2 ?u" using a by (auto simp: after_var_def Let_def split: if_splits)
  then have "length (take 2 s) = 2" by simp
  then have "length s \<ge> 2" by simp
  moreover have "length ?u \<le> length s - 2"
    by (metis diff_le_self length_drop length_dropWhile_le le_trans)
  ultimately show ?thesis using \<open>r = drop 2 ?u\<close> by simp
qed

function replace_var :: "string \<Rightarrow> jsstring \<Rightarrow> jsstring \<Rightarrow> jsstring \<Rightarrow> jsstring" where
  "replace_var name rep before [] = []"
| "replace_var name rep before (c # cs) =
     (case after_var name (c # cs) of
        None \<Rightarrow> c # replace_var name rep (before @ [c]) cs
      | Some r \<Rightarrow>
          let matched = take (Suc (length cs) - length r) (c # cs)
          in expand before matched r rep @ replace_var name rep (before @ matched) r)"
  by pat_completeness auto
termination
  by (relation "measure (\<lambda>(_, _, _, s). length s)") (auto dest: after_var_shorter)

text \<open>The strings dayjs formats; \<open>toISOString\<close> throws on an invalid date.\<close>

record date_strings =
  dd_date :: jsstring
  dd_datetime :: jsstring
  dd_weekday :: jsstring
  dd_iso :: "jsstring option"

definition with_weekday :: "date_strings \<Rightarrow> jsstring \<Rightarrow> jsstring" where
  "with_weekday now s = s @ js '' ('' @ dd_weekday now @ js '')''"

definition replaceSpecialVars :: "date_strings \<Rightarrow> jsstring option \<Rightarrow> jsstring \<Rightarrow> jsstring option" where
  "replaceSpecialVars now user_name t =
     (if t = [] then Some t
      else
        let r1 = replace_var ''current_date'' (with_weekday now (dd_date now)) [] t;
            r2 = replace_var ''current_datetime'' (with_weekday now (dd_datetime now)) [] r1
        in case dd_iso now of
             None \<Rightarrow> None
           | Some isoDatetime \<Rightarrow>
               let r3 = replace_var ''iso_datetime'' isoDatetime [] r2; n = nullish user_name []
               in Some (if n \<noteq> [] then replace_var ''current_user'' n [] r3 else r3))"

subsection \<open>The enabled endpoints\<close>

definition getEnabledEndpoints :: "provider_env \<Rightarrow> jsstring option \<Rightarrow> jsstring list" where
  "getEnabledEndpoints en endpointsEnv =
     (if nullish endpointsEnv [] = []
      then map (e_value en) [E_openAI, E_agents, E_assistants, E_azureAssistants, E_azureOpenAI, E_google, E_anthropic, E_bedrock]
      else map Prelude.trim (filter (\<lambda>e. Prelude.trim e \<noteq> []) (split_str (js '','') (the endpointsEnv))))"

fun position :: "'a list \<Rightarrow> 'a \<Rightarrow> nat option" where
  "position [] x = None"
| "position (y # ys) x = (if y = x then Some 0 else map_option Suc (position ys x))"

definition json_index :: "nat option \<Rightarrow> json" where
  "json_index i = JNum (case i of None \<Rightarrow> - 1 | Some n \<Rightarrow> of_nat n)"

definition order_endpoint ::
  "provider_env \<Rightarrow> jsstring list \<Rightarrow> (jsstring \<times> json) list \<Rightarrow> jsstring \<times> json \<Rightarrow> (jsstring \<times> json) list" where
  "order_endpoint en enabledEndpoints accumulatedConfig entry =
     (let (k, cf) = entry; isCustom = (\<not> e_in_enum en k); index = position enabledEndpoints k;
          defaultCustomIndex = position enabledEndpoints (e_value en E_custom) in
      if index = None \<and> \<not> isCustom then accumulatedConfig
      else if isCustom then
        put_prop accumulatedConfig (k, JObj (with_props
          [(js ''order'', if defaultCustomIndex = None then JNum 9999 else json_index defaultCustomIndex)] (spread cf)))
      else if truthy (Some cf) then
        put_prop accumulatedConfig (k, JObj (put_prop (spread cf) (js ''order'', json_index index)))
      else accumulatedConfig)"

definition orderEndpointsConfig ::
  "provider_env \<Rightarrow> jsstring option \<Rightarrow> (jsstring \<times> json) list option \<Rightarrow> (jsstring \<times> json) list" where
  "orderEndpointsConfig en endpointsEnv endpointsConfig =
     (case endpointsConfig of
        None \<Rightarrow> []
      | Some kvs \<Rightarrow> foldl (order_endpoint en (getEnabledEndpoints en endpointsEnv)) [] kvs)"

text \<open>A zod issue is its path, already as text, and its message.\<close>

definition errorsToString :: "(jsstring list \<times> jsstring) list \<Rightarrow> jsstring" where
  "errorsToString errors = join (js '' '') (map (\<lambda>(path, msg). join (js ''.'') path @ js '': '' @ msg) errors)"

subsection \<open>The payload of a submission\<close>

text \<open>\<open>tConvoUpdateSchema.parse\<close> is an argument, \<open>None\<close> when it throws; a property assigned \<open>undefined\<close> is
  one a reader does not find.\<close>

record submission_fields =
  sf_isEdited :: "json option"
  sf_isContinued :: "json option"
  sf_addedConvo :: "json option"
  sf_userMessage :: message
  sf_isTemporary :: "json option"
  sf_isRegenerate :: "json option"
  sf_conversation :: json
  sf_editedContent :: "json option"
  sf_ephemeralAgent :: "json option"
  sf_endpointOption :: message
  sf_manualSkills :: "json option"

definition assign_opt :: "message \<Rightarrow> string \<times> json option \<Rightarrow> message" where
  "assign_opt m p = (case snd p of
       Some v \<Rightarrow> put_prop m (js (fst p), v)
     | None \<Rightarrow> filter (\<lambda>q. fst q \<noteq> js (fst p)) m)"

definition createPayload ::
  "provider_env \<Rightarrow> (json \<Rightarrow> json option) \<Rightarrow> submission_fields \<Rightarrow> (jsstring option \<times> message) option" where
  "createPayload en tConvoUpdate sf =
     (case tConvoUpdate (sf_conversation sf) of
        None \<Rightarrow> None
      | Some c \<Rightarrow>
          let endpoint = map_of (sf_endpointOption sf) (js ''endpoint'');
              assistants = (case endpoint of Some (JStr e) \<Rightarrow> e_is_assistants en e | _ \<Rightarrow> False);
              server = own (EndpointURLs en) (e_value en E_agents)
          in Some (server, foldl assign_opt (with_props (sf_userMessage sf) (sf_endpointOption sf))
               [(''endpoint'', endpoint), (''addedConvo'', sf_addedConvo sf), (''isTemporary'', sf_isTemporary sf),
                (''isRegenerate'', sf_isRegenerate sf), (''editedContent'', sf_editedContent sf),
                (''conversationId'', getProp c (js ''conversationId'')),
                (''isContinued'', Some (JBool (truthy (sf_isEdited sf) \<and> truthy (sf_isContinued sf)))),
                (''ephemeralAgent'', if assistants then None else sf_ephemeralAgent sf),
                (''manualSkills'', if assistants then None else sf_manualSkills sf)]))"

subsection \<open>What the fallback guarantees\<close>

text \<open>The names of the endpoints are different strings, none of them empty.\<close>

definition distinct_names :: "provider_env \<Rightarrow> bool" where
  "distinct_names en \<longleftrightarrow> distinct (map (e_value en) [E_openAI, E_assistants, E_azureAssistants, E_azureOpenAI,
      E_agents, E_google, E_anthropic, E_custom, E_bedrock] @ [e_openrouter en, []])"

definition built_in :: "provider_env \<Rightarrow> jsstring \<Rightarrow> bool" where
  "built_in en e \<longleftrightarrow> e \<in> set (map (e_value en) [E_openAI, E_assistants, E_azureAssistants, E_azureOpenAI,
      E_agents, E_google, E_anthropic, E_custom, E_bedrock] @ [e_openrouter en])"

lemma not_built_in: "\<not> built_in en e \<Longrightarrow> own (compactEndpointSchemas en) e = None"
  "\<not> built_in en e \<Longrightarrow> own (endpointSchemas en) e = None"
  by (auto simp: built_in_def own_def compactEndpointSchemas_def endpointSchemas_def)

lemma custom_schema: "distinct_names en \<Longrightarrow> own (compactEndpointSchemas en) (e_value en E_custom) = Some openAISchema"
  by (auto simp: distinct_names_def own_def compactEndpointSchemas_def)

text \<open>A conversation of an endpoint that is not built in is parsed by the schema of the custom endpoint when the
  caller leaves the type out, so it is never refused as unknown, and the schema never sees the client's icon.\<close>

theorem custom_endpoint_parses:
  assumes "distinct_names en" "e \<noteq> []" "\<not> built_in en e" "\<not> inherited en e"
    and "ca_endpointType a = None" "\<not> isEndpointSchemaLookupKey en (ca_defaultParamsEndpoint a)"
  shows "parseCompactConvo en (Some e) conversation a
     = (case zod_parse en openAISchema (JObj (filter (\<lambda>p. fst p \<noteq> js ''iconURL'') conversation)) of
          None \<Rightarrow> Inl ZodError
        | Some convo \<Rightarrow> Inr (set_model (ca_models a) convo))"
proof -
  have none: "schema_at en (compactEndpointSchemas en) e = None"
    using not_built_in(1) [OF assms(3)] assms(4) by (simp add: schema_at_def)
  have "e_value en E_custom \<noteq> []" using assms(1) by (auto simp: distinct_names_def)
  moreover have "schema_at en (compactEndpointSchemas en) (e_value en E_custom) = Some (OwnSchema openAISchema)"
    by (simp add: schema_at_def custom_schema [OF assms(1)])
  ultimately have "chosen_schema en (compactEndpointSchemas en) e (ca_endpointType a) (ca_defaultParamsEndpoint a)
      = Some (OwnSchema openAISchema)"
    using none assms(5,6) by (simp add: chosen_schema_def effective_type_def getFallbackEndpointSchema_def)
  then show ?thesis using assms(2)
    by (simp add: parseCompactConvo_def run_schema_def without_iconURL_def split: option.splits)
qed

definition sample_provider :: provider_env where
  "sample_provider = \<lparr>e_value = (\<lambda>e. case e of E_openAI \<Rightarrow> js ''openAI'' | E_assistants \<Rightarrow> js ''assistants''
       | E_azureAssistants \<Rightarrow> js ''azureAssistants'' | E_azureOpenAI \<Rightarrow> js ''azureOpenAI'' | E_agents \<Rightarrow> js ''agents''
       | E_google \<Rightarrow> js ''google'' | E_anthropic \<Rightarrow> js ''anthropic'' | E_custom \<Rightarrow> js ''custom'' | E_bedrock \<Rightarrow> js ''bedrock''),
     e_in_enum = (\<lambda>k. k = js ''openAI''), e_is_agents = (\<lambda>e. e = js ''agents''), e_is_assistants = (\<lambda>e. e = js ''assistants''),
     e_openrouter = js ''openrouter'', zod_parse = (\<lambda>_ v. Some v), inherited = (\<lambda>k. k = js ''constructor''),
     ct_text = js ''text'', ct_think = js ''think''\<rparr>"

lemma custom_endpoint_parses_witness:
  "parseCompactConvo sample_provider (Some (js ''caladon'')) [(js ''iconURL'', JStr (js ''x'')), (js ''title'', JStr (js ''t''))]
       \<lparr>ca_endpointType = None, ca_models = Some [[], js ''m''], ca_defaultParamsEndpoint = None\<rparr>
     = Inr (JObj [(js ''title'', JStr (js ''t'')), (js ''model'', JStr (js ''m''))])"
  using custom_endpoint_parses [of sample_provider "js ''caladon''"
      "\<lparr>ca_endpointType = None, ca_models = Some [[], js ''m''], ca_defaultParamsEndpoint = None\<rparr>"
      "[(js ''iconURL'', JStr (js ''x'')), (js ''title'', JStr (js ''t''))]"]
  by (simp add: sample_provider_def distinct_names_def built_in_def isEndpointSchemaLookupKey_def set_model_def
      getFirstDefinedValue_def put_prop_def)

lemma client_icon_ignored:
  "parseCompactConvo en endpoint (put_prop conversation (js ''iconURL'', v)) a = parseCompactConvo en endpoint conversation a"
proof -
  have "filter (\<lambda>p. fst p \<noteq> k) (map (\<lambda>q. if fst q = k then (k, w) else q) m) = filter (\<lambda>p. fst p \<noteq> k) m"
    for k :: jsstring and w :: json and m
    by (induction m) auto
  then have "without_iconURL (put_prop conversation (js ''iconURL'', v)) = without_iconURL conversation"
    by (simp add: without_iconURL_def put_prop_def)
  note same = this
  show ?thesis unfolding parseCompactConvo_def same by (rule refl)
qed

text \<open>The payload of every submission goes to the one chat route of the shim and carries the conversation
  id the schema accepted, whatever the user message and the endpoint option carry under that name.\<close>

theorem payload_goes_to_the_chat_route:
  assumes "createPayload en tConvoUpdate sf = Some (server, payload)"
  shows "server = Some (js ''/api/caladon/chat'')
     \<and> (\<exists>c. tConvoUpdate (sf_conversation sf) = Some c \<and> map_of payload (js ''conversationId'') = getProp c (js ''conversationId''))"
proof -
  obtain c where c: "tConvoUpdate (sf_conversation sf) = Some c"
    using assms by (auto simp: createPayload_def split: option.splits)
  have a: "map_of (assign_opt m (k, v)) (js j) = (if j = k then v else map_of m (js j))" for m k v j
  proof -
    have f: "map_of (filter (\<lambda>q. fst q \<noteq> x) m) y = (if y = x then None else map_of m y)" for x y
      by (induction m) auto
    show ?thesis by (cases v) (auto simp: assign_opt_def f)
  qed
  have "server = Some (js ''/api/caladon/chat'')"
    using assms c by (simp add: createPayload_def Let_def EndpointURLs_def own_def CALADON_CHAT_URL_def)
  moreover have "map_of payload (js ''conversationId'') = getProp c (js ''conversationId'')"
    using assms c by (auto simp: createPayload_def Let_def a)
  ultimately show ?thesis using c by blast
qed

lemma payload_goes_to_the_chat_route_witness:
  "\<exists>payload. createPayload sample_provider Some
       \<lparr>sf_isEdited = None, sf_isContinued = None, sf_addedConvo = None, sf_userMessage = [(js ''conversationId'', JNull)],
        sf_isTemporary = None, sf_isRegenerate = None, sf_conversation = JObj [(js ''conversationId'', JStr (js ''c1''))],
        sf_editedContent = None, sf_ephemeralAgent = None, sf_endpointOption = [], sf_manualSkills = None\<rparr>
       = Some (Some (js ''/api/caladon/chat''), payload) \<and> map_of payload (js ''conversationId'') = Some (JStr (js ''c1''))"
  (is "\<exists>payload. createPayload _ _ ?sf = _ \<and> _")
proof -
  obtain server payload where p: "createPayload sample_provider Some ?sf = Some (server, payload)"
    by (simp add: createPayload_def Let_def)
  from payload_goes_to_the_chat_route [OF p] p show ?thesis by auto
qed

subsection \<open>Text parts and separators\<close>

lemma append_spaced_ink: "filter (\<lambda>c. c \<noteq> 32) (append_spaced a b) = filter (\<lambda>c. c \<noteq> 32) a @ filter (\<lambda>c. c \<noteq> 32) b"
  by (simp add: append_spaced_def)

text \<open>Joining the parts of a message keeps the text of every part, in order, and adds nothing but spaces.\<close>

theorem text_parts_keep_their_text:
  "filter (\<lambda>c. c \<noteq> 32) (parseTextParts en skip parts)
     = filter (\<lambda>c. c \<noteq> 32) (concat (map (part_value en skip) parts))"
proof -
  have "filter (\<lambda>c. c \<noteq> 32) (foldl (\<lambda>result part. append_spaced result (part_value en skip part)) r parts)
      = filter (\<lambda>c. c \<noteq> 32) r @ filter (\<lambda>c. c \<noteq> 32) (concat (map (part_value en skip) parts))" for r
    by (induction parts arbitrary: r) (simp_all add: append_spaced_ink)
  from this [of "[]"] show ?thesis by (simp add: parseTextParts_def)
qed

lemma last_separator:
  "findLastSeparatorIndex seps t = None \<longleftrightarrow> (\<forall>s\<in>set seps. \<not> sublist s t)"
  "findLastSeparatorIndex seps t = Some i \<Longrightarrow> (\<exists>s\<in>set seps. last_index_of s t = Some i)
      \<and> (\<forall>s\<in>set seps. \<forall>j. last_index_of s t = Some j \<longrightarrow> j \<le> i)"
proof -
  let ?f = "\<lambda>lastIndex sep. case last_index_of sep t of
         None \<Rightarrow> lastIndex | Some i \<Rightarrow> (case lastIndex of None \<Rightarrow> Some i | Some l \<Rightarrow> if l < i then Some i else Some l)"
  have "(foldl ?f r seps = None \<longleftrightarrow> r = None \<and> (\<forall>s\<in>set seps. \<not> sublist s t))
     \<and> (\<forall>i. foldl ?f r seps = Some i \<longrightarrow> (r = Some i \<or> (\<exists>s\<in>set seps. last_index_of s t = Some i))
          \<and> (\<forall>j. r = Some j \<longrightarrow> j \<le> i) \<and> (\<forall>s\<in>set seps. \<forall>j. last_index_of s t = Some j \<longrightarrow> j \<le> i))" for r
  proof (induction seps arbitrary: r)
    case (Cons s ss)
    show ?case
    proof (cases "last_index_of s t")
      case None
      then show ?thesis using Cons [of r] last_index_of_None [of s t] by (simp; blast)
    next
      case (Some k)
      then have "sublist s t" using last_index_of_None [of s t] by auto
      then show ?thesis using Some Cons [of "?f r s"] by (cases r) (auto split: if_splits; fastforce)+
    qed
  qed simp
  from this [of None] show "findLastSeparatorIndex seps t = None \<longleftrightarrow> (\<forall>s\<in>set seps. \<not> sublist s t)"
    "findLastSeparatorIndex seps t = Some i \<Longrightarrow> (\<exists>s\<in>set seps. last_index_of s t = Some i)
      \<and> (\<forall>s\<in>set seps. \<forall>j. last_index_of s t = Some j \<longrightarrow> j \<le> i)"
    by (auto simp: findLastSeparatorIndex_def)
qed

end
