(* ===== verification/LocalActions.thy ===== *)
theory LocalActions
  imports Hydration ProviderParsers
begin

text \<open>
  What the page does with the device store instead of a server: forking and importing conversations
  (\<open>store/useForkConversation.ts\<close>, \<open>store/useImportConversation.ts\<close>) and searching
  (\<open>data-provider/Search/useLocalSearchQuery.ts\<close>), all under \<open>web-client/overlay/client/src\<close>.
  A flow is a function of what its awaited calls yield and returns its result, the effects on the page in order
  and the requests it made of the store. The main results: a file that is not a chat export never reaches the
  store; no markup of a snippet survives into the rendered text; the cursor of a page reads back as the rank it was made of.
\<close>

subsection \<open>Effects of a flow\<close>

datatype flow_error = StoreErr serror | DateErr | FileTooLarge | ReadErr | NotJson | UnsupportedImport

datatype ui_action =
    FlowMutate
  | FlowLoading bool
  | FlowSeed jsstring "message list"
  | FlowListKey
  | FlowAddConvo message
  | FlowNavigate message jsstring
  | FlowForked jsstring "message option"
  | FlowImported
  | FlowError flow_error

subsection \<open>Forking\<close>

definition dated :: "hydrate_env \<Rightarrow> jsnum \<Rightarrow> jsnum \<Rightarrow> (jsstring \<times> jsstring) option" where
  "dated env created updated =
     (case (hy_iso env created, hy_iso env updated) of (Some c, Some u) \<Rightarrow> Some (c, u) | _ \<Rightarrow> None)"

text \<open>\<open>None\<close> is an exception, \<open>Some None\<close> the null of a missing row.\<close>

definition fork_columns :: "hydrate_env \<Rightarrow> StoredConversation \<Rightarrow> message option" where
  "fork_columns env row =
     map_option (\<lambda>(c, u). [(js ''conversationId'', JStr (cv_conversationId row)), (js ''title'', opt_json (cv_title row)),
         (js ''endpoint'', opt_json (cv_endpoint row)), (js ''model'', opt_json (cv_model row)),
         (js ''createdAt'', JStr c), (js ''updatedAt'', JStr u)])
       (dated env (cv_createdAt row) (cv_updatedAt row))"

definition fork_toTConversation :: "hydrate_env \<Rightarrow> StoredConversation option \<Rightarrow> message option option" where
  "fork_toTConversation env r =
     (case r of
        None \<Rightarrow> Some None
      | Some row \<Rightarrow>
          (case hy_parse env (cv_convoJson row) of
             None \<Rightarrow> map_option Some (fork_columns env row)
           | Some convo \<Rightarrow>
               if cv_title row = None \<and> convo = JNull then map_option Some (fork_columns env row)
               else Some (Some (assign_opt (put_prop (spread convo) (js ''conversationId'', JStr (cv_conversationId row)))
                 (''title'', case cv_title row of Some t \<Rightarrow> Some (JStr t) | None \<Rightarrow> getProp convo (js ''title''))))))"

definition fork_toTMessage :: "hydrate_env \<Rightarrow> StoredMessage \<Rightarrow> message option" where
  "fork_toTMessage env row =
     map_option (\<lambda>(c, u). [(js ''messageId'', JStr (ms_messageId row)), (js ''conversationId'', JStr (ms_conversationId row)),
         (js ''parentMessageId'', opt_json (ms_parentMessageId row)), (js ''text'', JStr (ms_text row)),
         (js ''isCreatedByUser'', JBool (ms_isCreatedByUser row)), (js ''model'', opt_json (ms_model row)),
         (js ''createdAt'', JStr c), (js ''updatedAt'', JStr u)]
         @ opt_prop ''content'' (case ms_contentJson row of None \<Rightarrow> None | Some t \<Rightarrow> hy_parse env t))
       (dated env (ms_createdAt row) (ms_updatedAt row))"

type_synonym 'a flow = "'a \<times> ui_action list \<times> request_body list"

text \<open>The part of the flow after the store has answered both requests.\<close>

definition fork_opened ::
  "hydrate_env \<Rightarrow> jsstring \<Rightarrow> jsstring \<Rightarrow> StoredConversation option \<Rightarrow> StoredMessage list \<Rightarrow> flow_error + ui_action list" where
  "fork_opened env conversationId newId conversation ms =
     (case fork_toTConversation env conversation of
        None \<Rightarrow> Inl DateErr
      | Some convo \<Rightarrow>
          (case those (map (fork_toTMessage env) ms) of
             None \<Rightarrow> Inl DateErr
           | Some tMessages \<Rightarrow> Inr ([FlowSeed newId tMessages]
               @ (case convo of
                    None \<Rightarrow> [FlowNavigate [(js ''conversationId'', JStr newId)] conversationId]
                  | Some c \<Rightarrow> [FlowAddConvo c, FlowNavigate c conversationId])
               @ [FlowForked newId convo])))"

definition flow_forkConversation ::
  "hydrate_env \<Rightarrow> jsstring \<Rightarrow> jsstring \<Rightarrow> serror + jsstring \<Rightarrow> serror + (StoredConversation option \<times> StoredMessage list)
     \<Rightarrow> jsstring option flow" where
  "flow_forkConversation env conversationId fromMessageId forked hydr =
     (if conversationId = [] \<or> fromMessageId = [] then (None, [], [])
      else
        let start = [FlowLoading True, FlowMutate];
            failed = (\<lambda>e rs. (None, start @ [FlowError e, FlowLoading False], rs)) in
        case forked of
          Inl e \<Rightarrow> failed (StoreErr e) [FORK conversationId fromMessageId]
        | Inr newId \<Rightarrow>
            let rs = [FORK conversationId fromMessageId, HYDRATE_CONVO newId] in
            (case hydr of
               Inl e \<Rightarrow> failed (StoreErr e) rs
             | Inr (conversation, ms) \<Rightarrow>
                 (case fork_opened env conversationId newId conversation ms of
                    Inl e \<Rightarrow> failed e rs
                  | Inr acts \<Rightarrow> (Some newId, start @ acts @ [FlowLoading False], rs))))"

subsection \<open>Importing\<close>

definition export_keys :: "jsstring list" where
  "export_keys = [js ''messages'', js ''mapping'', js ''conversationId'', js ''conversation_id'', js ''recordType'', js ''conversations'']"

fun looksLikeChatExport :: "json \<Rightarrow> bool" where
  "looksLikeChatExport (JArr xs) = (xs = [] \<or> list_ex looksLikeChatExport xs)"
| "looksLikeChatExport (JObj kvs) = list_ex (\<lambda>k. map_of kvs k \<noteq> None) export_keys"
| "looksLikeChatExport _ = False"

text \<open>A file is its size and the text the reader yields, \<open>None\<close> when reading fails.\<close>

record import_file =
  if_size :: int
  if_text :: "jsstring option"

definition sidebar_additions :: "message list \<Rightarrow> ui_action list" where
  "sidebar_additions tConvos =
     map FlowAddConvo (filter (\<lambda>c. defined (map_of c (js ''conversationId'')) \<noteq> None
        \<and> map_of c (js ''conversationId'') \<noteq> Some (JStr NEW_CONVO)) (rev tConvos))"

definition importFile ::
  "hydrate_env \<Rightarrow> int option \<Rightarrow> import_file option \<Rightarrow> serror + unit \<Rightarrow> serror + StoredConversation list \<Rightarrow> bool flow" where
  "importFile env maxFileSizeBytes f imported listed =
     (case f of
        None \<Rightarrow> (False, [], [])
      | Some file \<Rightarrow>
          if maxFileSizeBytes \<noteq> None \<and> the maxFileSizeBytes < if_size file then (False, [FlowError FileTooLarge], [])
          else
            let start = [FlowLoading True, FlowMutate];
                failed = (\<lambda>acts e rs. (False, start @ acts @ [FlowError e, FlowLoading False], rs)) in
            case if_text file of
              None \<Rightarrow> failed [] ReadErr []
            | Some t \<Rightarrow>
                (case hy_parse env t of
                   None \<Rightarrow> failed [] NotJson []
                 | Some v \<Rightarrow>
                     if \<not> looksLikeChatExport v then failed [] UnsupportedImport []
                     else
                       (case imported of
                          Inl e \<Rightarrow> failed [] (StoreErr e) [IMPORT (Some v)]
                        | Inr _ \<Rightarrow>
                            let rs = [IMPORT (Some v), LIST_CONVOS (Some 200) None] in
                            (case listed of
                               Inl e \<Rightarrow> failed [] (StoreErr e) rs
                             | Inr rows \<Rightarrow>
                                 if rows = [] then (True, start @ [FlowImported, FlowLoading False], rs)
                                 else (case those (map (toTConversation env) rows) of
                                     None \<Rightarrow> failed [FlowListKey] DateErr rs
                                   | Some tConvos \<Rightarrow>
                                       (True, start @ [FlowListKey] @ sidebar_additions tConvos @ [FlowImported, FlowLoading False], rs))))))"

text \<open>The store is asked to import exactly when the file is within the limit, its text parses and the
  value looks like a chat export, and then it is handed that value; every other file leaves the store alone.\<close>

theorem only_exports_reach_the_store:
  "IMPORT w \<in> set (snd (snd (importFile env limit f imported listed)))
     \<longleftrightarrow> (\<exists>file t v. f = Some file \<and> (\<forall>n. limit = Some n \<longrightarrow> if_size file \<le> n) \<and> if_text file = Some t
           \<and> hy_parse env t = Some v \<and> looksLikeChatExport v \<and> w = Some v)"
proof (cases f)
  case (Some fl)
  show ?thesis
  proof (cases "limit \<noteq> None \<and> the limit < if_size fl")
    case True
    then show ?thesis using Some by (auto simp: importFile_def)
  next
    case False
    then have ok: "limit = Some n \<Longrightarrow> if_size fl \<le> n" for n by auto
    show ?thesis
    proof (cases "if_text fl")
      case None
      then show ?thesis using Some False by (simp add: importFile_def Let_def)
    next
      case (Some t)
      note t = this
      show ?thesis
      proof (cases "hy_parse env t")
        case (Some v)
        then show ?thesis using \<open>f = Some fl\<close> t False ok
          by (cases imported; cases listed) (auto simp: importFile_def Let_def split: option.splits)
      qed (use Some \<open>f = Some fl\<close> False in \<open>simp add: importFile_def Let_def\<close>)
    qed
  qed
qed (simp add: importFile_def)

lemma only_exports_reach_the_store_witness:
  "\<not> looksLikeChatExport (JArr [JNum 1, JObj [(js ''a'', JNull)]])
     \<and> snd (snd (importFile \<lparr>hy_parse = (\<lambda>_. Some (JObj [(js ''mapping'', JObj [])])), hy_iso = (\<lambda>_. None)\<rparr> (Some 9)
          (Some \<lparr>if_size = 9, if_text = Some []\<rparr>) (Inr ()) (Inr []))) = [IMPORT (Some (JObj [(js ''mapping'', JObj [])])), LIST_CONVOS (Some 200) None]
     \<and> IMPORT (Some (JObj [(js ''mapping'', JObj [])])) \<in> set (snd (snd (importFile \<lparr>hy_parse = (\<lambda>_. Some (JObj [(js ''mapping'', JObj [])])), hy_iso = (\<lambda>_. None)\<rparr> (Some 9)
          (Some \<lparr>if_size = 9, if_text = Some []\<rparr>) (Inr ()) (Inr []))))"
  unfolding only_exports_reach_the_store
  by (simp add: importFile_def export_keys_def)

subsection \<open>Searching\<close>

definition DEFAULT_LIMIT :: int where "DEFAULT_LIMIT = 20"

text \<open>A page of no hits that is not short has no last hit to read, and throws.
  \<open>sn_show\<close> is the text of a number in a template, \<open>sn_parse\<close> is \<open>Number.parseFloat\<close> with NaN and the infinities as \<open>None\<close>.\<close>

record number_text =
  sn_show :: "jsnum \<Rightarrow> jsstring"
  sn_parse :: "jsstring \<Rightarrow> jsnum option"

definition encodeCursor :: "number_text \<Rightarrow> SearchHit list \<Rightarrow> int \<Rightarrow> jsstring option option" where
  "encodeCursor nt hits limit =
     (if int (length hits) < limit then Some None
      else if hits = [] then None
      else Some (Some (sn_show nt (sh_rank (last hits)) @ js '':'' @ sn_show nt (sh_createdAt (last hits)))))"

definition decodeRankCursor :: "number_text \<Rightarrow> jsstring option \<Rightarrow> jsnum option" where
  "decodeRankCursor nt pageParam =
     (let p = nullish pageParam [] in if p = [] then None else sn_parse nt (hd (split_str (js '':'') p)))"

text \<open>\<open>replace(/word/gi, rep)\<close> for an ASCII word.\<close>

function replace_word :: "string \<Rightarrow> jsstring \<Rightarrow> jsstring \<Rightarrow> jsstring" where
  "replace_word w rep [] = []"
| "replace_word w rep (c # cs) =
     (if w \<noteq> [] \<and> prefix_ci w (c # cs) then rep @ replace_word w rep (drop (length w) (c # cs))
      else c # replace_word w rep cs)"
  by pat_completeness auto
termination
  by (relation "measure (\<lambda>(w, rep, s). length s)") (auto simp: neq_Nil_conv)

text \<open>\<open>replace(/<[^>]+>/g, '')\<close>: from a \<open><\<close> to the next \<open>></\<close>, unless nothing is between them or none follows.\<close>

function strip_tags :: "jsstring \<Rightarrow> jsstring" where
  "strip_tags [] = []"
| "strip_tags (c # cs) =
     (if c = 60 \<and> take 1 cs \<noteq> [62] \<and> 62 \<in> set cs then strip_tags (drop 1 (dropWhile (\<lambda>x. x \<noteq> 62) cs))
      else c # strip_tags cs)"
  by pat_completeness auto
termination
  by (relation "measure length") (auto simp: le_imp_less_Suc length_dropWhile_le le_diff_conv le_SucI)

definition snippetToText :: "jsstring \<Rightarrow> jsstring" where
  "snippetToText snippet = strip_tags (replace_word ''</mark>'' (js ''**'') (replace_word ''<mark>'' (js ''**'') snippet))"

definition hitToMessage :: "hydrate_env \<Rightarrow> SearchHit \<Rightarrow> message option" where
  "hitToMessage env hit =
     map_option (\<lambda>d. [(js ''messageId'', JStr (sh_messageId hit)), (js ''conversationId'', JStr (sh_conversationId hit)),
         (js ''parentMessageId'', JStr NO_PARENT), (js ''text'', JStr (snippetToText (sh_snippet hit))),
         (js ''isCreatedByUser'', JBool False), (js ''searchResult'', JBool True), (js ''createdAt'', JStr d),
         (js ''updatedAt'', JStr d), (js ''error'', JBool False), (js ''unfinished'', JBool False)])
       (hy_iso env (sh_createdAt hit))"

text \<open>One page of the query: the request it makes of the store, and the page for an answer.\<close>

definition search_request :: "number_text \<Rightarrow> jsstring option \<Rightarrow> int option \<Rightarrow> jsstring option \<Rightarrow> request_body option" where
  "search_request nt sought pageSize pageParam =
     (let q = Prelude.trim (nullish sought []) in
      if q = [] then None
      else Some (SEARCH q (Some (nullish pageSize DEFAULT_LIMIT)) (decodeRankCursor nt pageParam)))"

definition search_page ::
  "hydrate_env \<Rightarrow> number_text \<Rightarrow> int option \<Rightarrow> SearchHit list \<Rightarrow> (message list \<times> jsstring option) option" where
  "search_page env nt pageSize hits =
     (case (those (map (hitToMessage env) hits), encodeCursor nt hits (nullish pageSize DEFAULT_LIMIT)) of
        (Some ms, Some nextCursor) \<Rightarrow> Some (ms, nextCursor)
      | _ \<Rightarrow> None)"

text \<open>The cursor handed to the next request is the rank of the last hit; the creation time beside it is not read again.\<close>

lemma cursor_reads_back:
  assumes "sn_parse nt (sn_show nt (sh_rank (last hits))) = Some (sh_rank (last hits))" "58 \<notin> set (sn_show nt (sh_rank (last hits)))"
    and "encodeCursor nt hits limit = Some (Some c)"
  shows "decodeRankCursor nt (Some c) = Some (sh_rank (last hits))"
proof -
  have c: "c = sn_show nt (sh_rank (last hits)) @ 58 # sn_show nt (sh_createdAt (last hits))"
    using assms(3) by (auto simp: encodeCursor_def js_def split: if_splits)
  have "split_str (js '':'') c = sn_show nt (sh_rank (last hits)) # split_str [58] (sn_show nt (sh_createdAt (last hits)))"
    using split_at_char [OF assms(2)] unfolding c by (simp add: js_def)
  moreover have "c \<noteq> []" by (simp add: c)
  ultimately show ?thesis using assms(1) by (simp add: decodeRankCursor_def)
qed

subsection \<open>No markup survives\<close>

text \<open>A tag: \<open><\<close>, at least one character that is not \<open>></\<close>, and later a \<open>></\<close>.\<close>

definition has_tag :: "jsstring \<Rightarrow> bool" where
  "has_tag s \<longleftrightarrow> (\<exists>a b. s = a @ 60 # b \<and> take 1 b \<noteq> [62] \<and> 62 \<in> set b)"

lemma has_tag_Cons: "has_tag (c # s) \<longleftrightarrow> (c = 60 \<and> take 1 s \<noteq> [62] \<and> 62 \<in> set s) \<or> has_tag s"
proof
  assume "has_tag (c # s)"
  then obtain a b where "c # s = a @ 60 # b" "take 1 b \<noteq> [62]" "62 \<in> set b" by (auto simp: has_tag_def)
  then show "(c = 60 \<and> take 1 s \<noteq> [62] \<and> 62 \<in> set s) \<or> has_tag s"
    unfolding has_tag_def by (cases a) auto
next
  assume "(c = 60 \<and> take 1 s \<noteq> [62] \<and> 62 \<in> set s) \<or> has_tag s"
  then show "has_tag (c # s)"
  proof
    assume "c = 60 \<and> take 1 s \<noteq> [62] \<and> 62 \<in> set s"
    then have "c # s = [] @ 60 # s \<and> take 1 s \<noteq> [62] \<and> 62 \<in> set s" by simp
    then show ?thesis unfolding has_tag_def by blast
  next
    assume "has_tag s"
    then obtain a b where "c # s = (c # a) @ 60 # b \<and> take 1 b \<noteq> [62] \<and> 62 \<in> set b" by (auto simp: has_tag_def)
    then show ?thesis unfolding has_tag_def by blast
  qed
qed

lemma strip_tags_set: "set (strip_tags s) \<subseteq> set s"
proof (induction s rule: strip_tags.induct)
  case (2 c cs)
  have "set (drop 1 (dropWhile (\<lambda>x. x \<noteq> 62) cs)) \<subseteq> set cs" by (meson in_set_dropD set_dropWhileD subsetI)
  then show ?case using 2 by auto
qed simp

text \<open>Whatever a snippet contains, the text made of it holds no tag: neither the highlight of the store nor any
  markup of the message reaches the renderer as HTML.\<close>

theorem no_markup_survives: "\<not> has_tag (snippetToText snippet)"
proof -
  have "\<not> has_tag (strip_tags s)" for s
  proof (induction s rule: strip_tags.induct)
    case (2 c cs)
    show ?case
    proof (cases "c = 60 \<and> take 1 cs \<noteq> [62] \<and> 62 \<in> set cs")
      case False
      have "\<not> (c = 60 \<and> take 1 (strip_tags cs) \<noteq> [62] \<and> 62 \<in> set (strip_tags cs))"
      proof
        assume a: "c = 60 \<and> take 1 (strip_tags cs) \<noteq> [62] \<and> 62 \<in> set (strip_tags cs)"
        then have "62 \<in> set cs" using strip_tags_set by blast
        then have "take 1 cs = [62]" using False a by blast
        then show False using a by (cases cs) auto
      qed
      then show ?thesis using 2 False by (auto simp: has_tag_Cons)
    qed (use 2 in auto)
  qed (simp add: has_tag_def)
  then show ?thesis by (simp add: snippetToText_def)
qed

end
