(* ===== verification/Artifacts.thy ===== *)
theory Artifacts
  imports ProviderConfig
begin

text \<open>
  The artifacts panel's decisions, \<open>utils/artifacts.ts\<close>: the tables of templates and dependencies, the routing of a
  file by its name and MIME type with the trust gate of office previews, and the fenced block source code is
  shown in, with a reference reader of fenced blocks as CommonMark defines them. \<open>toLowerCase\<close>, the test of
  \<open>excelMimeTypes\<close>, \<open>Date\<close> and the names every object inherits are fields of \<open>artifact_env\<close>.
\<close>

record artifact_env =
  ae_lower :: "jsstring \<Rightarrow> jsstring"
  ae_excel :: "jsstring \<Rightarrow> bool"
  ae_time :: "json \<Rightarrow> int option"
  ae_inherited :: "jsstring \<Rightarrow> bool"

subsection \<open>Templates and dependencies\<close>

definition artifactFilename :: "(jsstring \<times> jsstring) list" where
  "artifactFilename =
    [(js ''application/vnd.react'', js ''App.tsx''), (js ''application/vnd.ant.react'', js ''App.tsx''),
     (js ''text/html'', js ''index.html''), (js ''application/vnd.code-html'', js ''index.html''),
     (js ''application/vnd.librechat.docx-preview'', js ''index.html''),
     (js ''application/vnd.librechat.spreadsheet-preview'', js ''index.html''),
     (js ''application/vnd.librechat.presentation-preview'', js ''index.html''),
     (js ''default'', js ''index.html'')]"

definition artifactTemplate :: "(jsstring \<times> jsstring) list" where
  "artifactTemplate =
    [(js ''text/html'', js ''static''), (js ''application/vnd.react'', js ''react-ts''),
     (js ''application/vnd.ant.react'', js ''react-ts''), (js ''application/vnd.mermaid'', js ''react-ts''),
     (js ''application/vnd.code-html'', js ''static''), (js ''application/vnd.code'', js ''static''),
     (js ''text/markdown'', js ''static''), (js ''text/md'', js ''static''), (js ''text/plain'', js ''static''),
     (js ''application/vnd.librechat.docx-preview'', js ''static''),
     (js ''application/vnd.librechat.spreadsheet-preview'', js ''static''),
     (js ''application/vnd.librechat.presentation-preview'', js ''static''), (js ''default'', js ''static'')]"

text \<open>\<open>table[key] ?? table.default\<close>; None is a property the object literal inherits, which is not a string.\<close>

definition index_or_default :: "artifact_env \<Rightarrow> (jsstring \<times> 'a) list \<Rightarrow> jsstring \<Rightarrow> 'a option" where
  "index_or_default en tbl key =
     (case own tbl key of
        Some v \<Rightarrow> Some v
      | None \<Rightarrow> if ae_inherited en key then None else own tbl (js ''default''))"

definition getKey :: "jsstring \<Rightarrow> jsstring option \<Rightarrow> jsstring" where
  "getKey type lang = type @ (case lang of Some l \<Rightarrow> if 0 < length l then js ''-'' @ l else [] | None \<Rightarrow> [])"

definition getArtifactFilename :: "artifact_env \<Rightarrow> jsstring \<Rightarrow> jsstring option \<Rightarrow> jsstring option" where
  "getArtifactFilename en type lang = index_or_default en artifactFilename (getKey type lang)"

definition getTemplate :: "artifact_env \<Rightarrow> jsstring \<Rightarrow> jsstring option \<Rightarrow> jsstring option" where
  "getTemplate en type lang = index_or_default en artifactTemplate (getKey type lang)"

definition standardDependencies :: "(jsstring \<times> jsstring) list" where
  "standardDependencies =
    [(js ''three'', js ''^0.167.1''), (js ''lucide-react'', js ''^0.394.0''),
     (js ''react-router-dom'', js ''^6.11.2''), (js ''class-variance-authority'', js ''^0.6.0''),
     (js ''clsx'', js ''^1.2.1''), (js ''date-fns'', js ''^3.3.1''), (js ''tailwind-merge'', js ''^1.9.1''),
     (js ''tailwindcss-animate'', js ''^1.0.5''), (js ''recharts'', js ''2.12.7''),
     (js ''@radix-ui/react-accordion'', js ''^1.1.2''), (js ''@radix-ui/react-alert-dialog'', js ''^1.0.2''),
     (js ''@radix-ui/react-aspect-ratio'', js ''^1.1.0''), (js ''@radix-ui/react-avatar'', js ''^1.1.0''),
     (js ''@radix-ui/react-checkbox'', js ''^1.0.3''), (js ''@radix-ui/react-collapsible'', js ''^1.0.3''),
     (js ''@radix-ui/react-dialog'', js ''^1.0.2''), (js ''@radix-ui/react-dropdown-menu'', js ''^2.1.1''),
     (js ''@radix-ui/react-hover-card'', js ''^1.0.5''), (js ''@radix-ui/react-label'', js ''^2.0.0''),
     (js ''@radix-ui/react-menubar'', js ''^1.1.1''), (js ''@radix-ui/react-navigation-menu'', js ''^1.2.0''),
     (js ''@radix-ui/react-popover'', js ''^1.0.7''), (js ''@radix-ui/react-progress'', js ''^1.1.0''),
     (js ''@radix-ui/react-radio-group'', js ''^1.1.3''), (js ''@radix-ui/react-select'', js ''^2.0.0''),
     (js ''@radix-ui/react-separator'', js ''^1.0.3''), (js ''@radix-ui/react-slider'', js ''^1.1.1''),
     (js ''@radix-ui/react-switch'', js ''^1.0.3''), (js ''@radix-ui/react-tabs'', js ''^1.0.3''),
     (js ''@radix-ui/react-toast'', js ''^1.1.5''), (js ''@radix-ui/react-slot'', js ''^1.1.0''),
     (js ''@radix-ui/react-toggle'', js ''^1.1.0''), (js ''@radix-ui/react-toggle-group'', js ''^1.1.0''),
     (js ''@radix-ui/react-tooltip'', js ''^1.2.8''), (js ''embla-carousel-react'', js ''^8.2.0''),
     (js ''react-day-picker'', js ''^9.0.8''), (js ''dat.gui'', js ''^0.7.9''), (js ''vaul'', js ''^0.9.1'')]"

definition mermaidDependencies :: "(jsstring \<times> jsstring) list" where
  "mermaidDependencies =
    [(js ''mermaid'', js ''^11.4.1''), (js ''react-zoom-pan-pinch'', js ''^3.6.1''),
     (js ''class-variance-authority'', js ''^0.6.0''), (js ''clsx'', js ''^1.2.1''),
     (js ''tailwind-merge'', js ''^1.9.1''), (js ''@radix-ui/react-slot'', js ''^1.1.0'')]"

definition dependenciesMap :: "(jsstring \<times> (jsstring \<times> jsstring) list) list" where
  "dependenciesMap =
    [(js ''application/vnd.mermaid'', mermaidDependencies), (js ''application/vnd.react'', standardDependencies),
     (js ''application/vnd.ant.react'', standardDependencies), (js ''text/html'', standardDependencies),
     (js ''application/vnd.code-html'', standardDependencies), (js ''application/vnd.code'', []),
     (js ''text/markdown'', []), (js ''text/md'', []), (js ''text/plain'', []),
     (js ''application/vnd.librechat.docx-preview'', []),
     (js ''application/vnd.librechat.spreadsheet-preview'', []),
     (js ''application/vnd.librechat.presentation-preview'', []), (js ''default'', standardDependencies)]"

definition getDependencies :: "artifact_env \<Rightarrow> jsstring \<Rightarrow> (jsstring \<times> jsstring) list option" where
  "getDependencies en type =
     (case own dependenciesMap type of
        Some v \<Rightarrow> Some v
      | None \<Rightarrow> if ae_inherited en type then None else Some standardDependencies)"

text \<open>The sandbox: the vendored Tailwind and the bundler of the page's own origin, which a start-up configuration may
  replace (\<open>||\<close>: an empty one does not).\<close>

definition TAILWIND_SELF_HOSTED :: jsstring where
  "TAILWIND_SELF_HOSTED = js ''/artifacts/tailwind.js#tailwind.js''"

definition SELF_HOSTED_BUNDLER :: jsstring where
  "SELF_HOSTED_BUNDLER = js ''/sandpack-bundler/''"

record sandbox_config =
  su_staticBundlerURL :: "jsstring option"
  su_bundlerURL :: "jsstring option"

record sandpack_options =
  sp_externalResources :: "jsstring list"
  sp_bundlerURL :: jsstring

definition buildSandpackOptions :: "jsstring \<Rightarrow> sandbox_config option \<Rightarrow> sandpack_options" where
  "buildSandpackOptions template startup =
     \<lparr>sp_externalResources = [TAILWIND_SELF_HOSTED],
      sp_bundlerURL =
        (case startup of
           None \<Rightarrow> SELF_HOSTED_BUNDLER
         | Some c \<Rightarrow>
             let configured = (if template = js ''static'' then su_staticBundlerURL c else su_bundlerURL c)
             in if nullish configured [] = [] then SELF_HOSTED_BUNDLER else nullish configured [])\<rparr>"

subsection \<open>File names and MIME types\<close>

text \<open>What follows the last separator; \<open>[92]\<close> is a backslash.\<close>

definition basenameOf :: "jsstring \<Rightarrow> jsstring" where
  "basenameOf filename =
     (let p = map_option int (last_index_of (js ''/'') filename); q = map_option int (last_index_of [92] filename);
          slash = max (nullish p (- 1)) (nullish q (- 1))
      in if 0 \<le> slash then drop (nat (slash + 1)) filename else filename)"

definition extensionFromBasename :: "artifact_env \<Rightarrow> jsstring \<Rightarrow> jsstring" where
  "extensionFromBasename en base =
     (case last_index_of (js ''.'') base of
        None \<Rightarrow> []
      | Some dot \<Rightarrow> if dot = length base - 1 then [] else ae_lower en (drop (dot + 1) base))"

definition bareNameFromBasename :: "artifact_env \<Rightarrow> jsstring \<Rightarrow> jsstring" where
  "bareNameFromBasename en base = (if str_includes base (js ''.'') then [] else ae_lower en base)"

definition extensionOf :: "artifact_env \<Rightarrow> jsstring option \<Rightarrow> jsstring" where
  "extensionOf en filename =
     (if nullish filename [] = [] then [] else extensionFromBasename en (basenameOf (nullish filename [])))"

definition bareNameOf :: "artifact_env \<Rightarrow> jsstring option \<Rightarrow> jsstring" where
  "bareNameOf en filename =
     (if nullish filename [] = [] then [] else bareNameFromBasename en (basenameOf (nullish filename [])))"

definition baseMime :: "artifact_env \<Rightarrow> jsstring option \<Rightarrow> jsstring" where
  "baseMime en mime =
     (let m = nullish mime [] in
      if m = [] then []
      else ae_lower en (trim (case index_of (js '';'') m of None \<Rightarrow> m | Some semi \<Rightarrow> take semi m)))"

subsection \<open>Artifact types\<close>

datatype tool_type =
    T_HTML | T_REACT | T_MARKDOWN | T_MERMAID | T_PLAIN | T_CODE | T_DOCX | T_SPREADSHEET | T_PRESENTATION

fun TOOL_ARTIFACT_TYPES :: "tool_type \<Rightarrow> jsstring" where
  "TOOL_ARTIFACT_TYPES T_HTML = js ''text/html''"
| "TOOL_ARTIFACT_TYPES T_REACT = js ''application/vnd.react''"
| "TOOL_ARTIFACT_TYPES T_MARKDOWN = js ''text/markdown''"
| "TOOL_ARTIFACT_TYPES T_MERMAID = js ''application/vnd.mermaid''"
| "TOOL_ARTIFACT_TYPES T_PLAIN = js ''text/plain''"
| "TOOL_ARTIFACT_TYPES T_CODE = js ''application/vnd.code''"
| "TOOL_ARTIFACT_TYPES T_DOCX = js ''application/vnd.librechat.docx-preview''"
| "TOOL_ARTIFACT_TYPES T_SPREADSHEET = js ''application/vnd.librechat.spreadsheet-preview''"
| "TOOL_ARTIFACT_TYPES T_PRESENTATION = js ''application/vnd.librechat.presentation-preview''"

definition all_tool_types :: "tool_type list" where
  "all_tool_types = [T_HTML, T_REACT, T_MARKDOWN, T_MERMAID, T_PLAIN, T_CODE, T_DOCX, T_SPREADSHEET, T_PRESENTATION]"

definition isToolArtifactType :: "json option \<Rightarrow> bool" where
  "isToolArtifactType type = (case type of Some (JStr t) \<Rightarrow> t \<in> set (map TOOL_ARTIFACT_TYPES all_tool_types) | _ \<Rightarrow> False)"

definition OFFICE_HTML_BUCKETS :: "tool_type list" where
  "OFFICE_HTML_BUCKETS = [T_DOCX, T_SPREADSHEET, T_PRESENTATION]"

definition isPreviewOnlyArtifact :: "jsstring option \<Rightarrow> bool" where
  "isPreviewOnlyArtifact type =
     (case type of None \<Rightarrow> False
      | Some t \<Rightarrow> t \<in> set (map TOOL_ARTIFACT_TYPES [T_DOCX, T_SPREADSHEET, T_PRESENTATION]))"

definition isCodeOnlyArtifact :: "jsstring option \<Rightarrow> bool" where
  "isCodeOnlyArtifact type \<longleftrightarrow> type = Some (TOOL_ARTIFACT_TYPES T_CODE)"

definition CODE_EXTENSION_TO_LANGUAGE :: "(jsstring \<times> jsstring) list" where
  "CODE_EXTENSION_TO_LANGUAGE =
    [(js ''js'', js ''javascript''), (js ''mjs'', js ''javascript''), (js ''cjs'', js ''javascript''),
     (js ''ts'', js ''typescript''), (js ''py'', js ''python''), (js ''pyi'', js ''python''),
     (js ''rb'', js ''ruby''), (js ''php'', js ''php''), (js ''pl'', js ''perl''), (js ''pm'', js ''perl''),
     (js ''lua'', js ''lua''), (js ''go'', js ''go''), (js ''rs'', js ''rust''), (js ''c'', js ''c''),
     (js ''h'', js ''c''), (js ''cc'', js ''cpp''), (js ''cpp'', js ''cpp''), (js ''hpp'', js ''cpp''),
     (js ''cs'', js ''csharp''), (js ''m'', js ''objectivec''), (js ''mm'', js ''objectivec''),
     (js ''swift'', js ''swift''), (js ''java'', js ''java''), (js ''kt'', js ''kotlin''),
     (js ''kts'', js ''kotlin''), (js ''scala'', js ''scala''), (js ''r'', js ''r''), (js ''jl'', js ''julia''),
     (js ''dart'', js ''dart''), (js ''ex'', js ''elixir''), (js ''exs'', js ''elixir''),
     (js ''erl'', js ''erlang''), (js ''hs'', js ''haskell''), (js ''clj'', js ''clojure''),
     (js ''cljs'', js ''clojure''), (js ''fs'', js ''fsharp''), (js ''fsx'', js ''fsharp''),
     (js ''sh'', js ''bash''), (js ''bash'', js ''bash''), (js ''zsh'', js ''bash''), (js ''fish'', js ''bash''),
     (js ''ps1'', js ''powershell''), (js ''bat'', js ''batch''), (js ''cmd'', js ''batch''),
     (js ''sql'', js ''sql''), (js ''graphql'', js ''graphql''), (js ''gql'', js ''graphql''),
     (js ''proto'', js ''protobuf''), (js ''dockerfile'', js ''dockerfile''), (js ''makefile'', js ''makefile''),
     (js ''gemfile'', js ''ruby''), (js ''rakefile'', js ''ruby''), (js ''vagrantfile'', js ''ruby''),
     (js ''brewfile'', js ''ruby''), (js ''gradle'', js ''groovy''), (js ''tf'', js ''hcl''),
     (js ''hcl'', js ''hcl''), (js ''patch'', js ''diff''), (js ''diff'', js ''diff''), (js ''css'', js ''css''),
     (js ''scss'', js ''scss''), (js ''sass'', js ''sass''), (js ''less'', js ''less'')]"

definition MIME_TO_LANGUAGE :: "(jsstring \<times> jsstring) list" where
  "MIME_TO_LANGUAGE =
    [(js ''text/javascript'', js ''javascript''), (js ''application/javascript'', js ''javascript''),
     (js ''application/sql'', js ''sql''), (js ''application/x-sh'', js ''bash''),
     (js ''application/x-php'', js ''php''), (js ''application/x-powershell'', js ''powershell''),
     (js ''text/x-python'', js ''python''), (js ''text/x-typescript'', js ''typescript''),
     (js ''text/x-ruby'', js ''ruby''), (js ''text/x-go'', js ''go''), (js ''text/x-rust'', js ''rust''),
     (js ''text/x-c'', js ''c''), (js ''text/x-c++'', js ''cpp''), (js ''text/x-csharp'', js ''csharp''),
     (js ''text/x-java'', js ''java''), (js ''text/x-kotlin'', js ''kotlin''),
     (js ''text/x-scala'', js ''scala''), (js ''text/x-perl'', js ''perl''), (js ''text/x-r'', js ''r''),
     (js ''text/x-lua'', js ''lua''), (js ''text/x-swift'', js ''swift''), (js ''text/css'', js ''css'')]"

definition languageForFilename :: "artifact_env \<Rightarrow> jsstring option \<Rightarrow> jsstring option \<Rightarrow> jsstring" where
  "languageForFilename en filename mime =
     (let ext = extensionOf en filename in
      if ext \<noteq> [] then nullish (own CODE_EXTENSION_TO_LANGUAGE ext) ext
      else case own CODE_EXTENSION_TO_LANGUAGE (bareNameOf en filename) of
        Some l \<Rightarrow> l
      | None \<Rightarrow>
          if nullish mime [] = [] then []
          else nullish (own MIME_TO_LANGUAGE (baseMime en mime)) [])"

definition EXTENSION_TO_TOOL_ARTIFACT_TYPE_0 :: "(jsstring \<times> tool_type) list" where
  "EXTENSION_TO_TOOL_ARTIFACT_TYPE_0 =
    [(js ''html'', T_HTML), (js ''htm'', T_HTML), (js ''jsx'', T_REACT), (js ''tsx'', T_REACT),
     (js ''md'', T_MARKDOWN), (js ''markdown'', T_MARKDOWN), (js ''mdx'', T_MARKDOWN), (js ''mmd'', T_MERMAID),
     (js ''mermaid'', T_MERMAID), (js ''txt'', T_PLAIN), (js ''odt'', T_PLAIN), (js ''docx'', T_DOCX),
     (js ''csv'', T_SPREADSHEET), (js ''xlsx'', T_SPREADSHEET), (js ''xls'', T_SPREADSHEET),
     (js ''ods'', T_SPREADSHEET), (js ''pptx'', T_PRESENTATION)]"

text \<open>The loop that appends the extensions of source code.\<close>

definition EXTENSION_TO_TOOL_ARTIFACT_TYPE :: "(jsstring \<times> tool_type) list" where
  "EXTENSION_TO_TOOL_ARTIFACT_TYPE =
     fold (\<lambda>ext tbl. if own tbl ext \<noteq> None then tbl else tbl @ [(ext, T_CODE)])
       (map fst CODE_EXTENSION_TO_LANGUAGE) EXTENSION_TO_TOOL_ARTIFACT_TYPE_0"

definition MIME_TO_TOOL_ARTIFACT_TYPE :: "(jsstring \<times> tool_type) list" where
  "MIME_TO_TOOL_ARTIFACT_TYPE =
    [(js ''text/html'', T_HTML), (js ''application/vnd.code-html'', T_HTML), (js ''text/markdown'', T_MARKDOWN),
     (js ''text/md'', T_MARKDOWN), (js ''application/vnd.react'', T_REACT),
     (js ''application/vnd.ant.react'', T_REACT), (js ''application/vnd.mermaid'', T_MERMAID),
     (js ''text/javascript'', T_CODE), (js ''application/javascript'', T_CODE), (js ''application/sql'', T_CODE),
     (js ''application/x-sh'', T_CODE), (js ''application/x-php'', T_CODE),
     (js ''application/x-powershell'', T_CODE), (js ''text/x-python'', T_CODE),
     (js ''text/x-typescript'', T_CODE), (js ''text/x-ruby'', T_CODE), (js ''text/x-go'', T_CODE),
     (js ''text/x-rust'', T_CODE), (js ''text/x-c'', T_CODE), (js ''text/x-c++'', T_CODE),
     (js ''text/x-csharp'', T_CODE), (js ''text/x-java'', T_CODE), (js ''text/x-kotlin'', T_CODE),
     (js ''text/x-scala'', T_CODE), (js ''text/x-perl'', T_CODE), (js ''text/x-r'', T_CODE),
     (js ''text/x-lua'', T_CODE), (js ''text/x-swift'', T_CODE), (js ''text/css'', T_CODE),
     (js ''application/vnd.openxmlformats-officedocument.wordprocessingml.document'', T_DOCX),
     (js ''application/vnd.oasis.opendocument.text'', T_PLAIN),
     (js ''application/vnd.openxmlformats-officedocument.spreadsheetml.sheet'', T_SPREADSHEET),
     (js ''application/vnd.ms-excel'', T_SPREADSHEET),
     (js ''application/vnd.oasis.opendocument.spreadsheet'', T_SPREADSHEET), (js ''text/csv'', T_SPREADSHEET),
     (js ''application/csv'', T_SPREADSHEET), (js ''text/comma-separated-values'', T_SPREADSHEET),
     (js ''application/vnd.openxmlformats-officedocument.presentationml.presentation'', T_PRESENTATION)]"

subsection \<open>Routing\<close>

record attachment =
  af_file_id :: "jsstring option"
  af_filename :: "jsstring option"
  af_filepath :: "jsstring option"
  af_type :: "jsstring option"
  af_text :: "jsstring option"
  af_textFormat :: "jsstring option"
  af_messageId :: "jsstring option"
  af_updatedAt :: "json option"
  af_createdAt :: "json option"

text \<open>The buckets whose viewers take an empty text.\<close>

definition empty_ok :: "tool_type \<Rightarrow> bool" where
  "empty_ok t \<longleftrightarrow> t = T_PLAIN \<or> t = T_MARKDOWN \<or> t = T_CODE"

definition no_text :: "attachment \<Rightarrow> bool" where
  "no_text a \<longleftrightarrow> nullish (af_text a) [] = []"

definition detectArtifactTypeFromFile :: "artifact_env \<Rightarrow> attachment \<Rightarrow> tool_type option" where
  "detectArtifactTypeFromFile en a =
     (let base = (if nullish (af_filename a) [] = [] then [] else basenameOf (nullish (af_filename a) []));
          byExtension = own EXTENSION_TO_TOOL_ARTIFACT_TYPE (extensionFromBasename en base);
          byBareName = (case byExtension of
             Some t \<Rightarrow> None
           | None \<Rightarrow> own EXTENSION_TO_TOOL_ARTIFACT_TYPE (bareNameFromBasename en base));
          mime = baseMime en (af_type a);
          byMime = (case own MIME_TO_TOOL_ARTIFACT_TYPE mime of
             Some t \<Rightarrow> Some t
           | None \<Rightarrow> if ae_excel en mime then Some T_SPREADSHEET else None);
          type = (case byExtension of Some t \<Rightarrow> Some t | None \<Rightarrow>
                   (case byBareName of Some t \<Rightarrow> Some t | None \<Rightarrow> byMime))
      in case type of
           None \<Rightarrow> None
         | Some t \<Rightarrow>
             if t \<in> set OFFICE_HTML_BUCKETS \<and> af_textFormat a \<noteq> Some (js ''html'')
             then (if no_text a then None else Some T_PLAIN)
             else if no_text a \<and> \<not> empty_ok t then None
             else Some t)"

definition toolArtifactKey :: "attachment \<Rightarrow> jsstring" where
  "toolArtifactKey a =
     js ''tool-artifact-'' @ nullish (af_file_id a) (nullish (af_filename a) (nullish (af_filepath a) (js ''unknown'')))"

definition toLastUpdate :: "artifact_env \<Rightarrow> attachment \<Rightarrow> int" where
  "toLastUpdate en a =
     (case (case af_updatedAt a of Some v \<Rightarrow> Some v | None \<Rightarrow> af_createdAt a) of
        None \<Rightarrow> 0
      | Some v \<Rightarrow> nullish (ae_time en v) 0)"

record artifact =
  art_id :: jsstring
  art_type :: tool_type
  art_title :: jsstring
  art_content :: jsstring
  art_language :: "jsstring option"
  art_messageId :: "jsstring option"
  art_lastUpdateTime :: int

text \<open>\<open>options\<close>: the placeholder, and a type classified before.\<close>

definition fileToArtifact :: "artifact_env \<Rightarrow> jsstring option \<Rightarrow> tool_type option \<Rightarrow> attachment \<Rightarrow> artifact option" where
  "fileToArtifact en placeholder preClassified a =
     (case (case preClassified of Some t \<Rightarrow> Some t | None \<Rightarrow> detectArtifactTypeFromFile en a) of
        None \<Rightarrow> None
      | Some t \<Rightarrow>
          if no_text a \<and> \<not> empty_ok t then None
          else Some
            \<lparr>art_id = toolArtifactKey a, art_type = t, art_title = nullish (af_filename a) (js ''Generated artifact''),
             art_content = nullish (af_text a) (nullish placeholder []),
             art_language = (if t = T_CODE then Some (languageForFilename en (af_filename a) (af_type a)) else None),
             art_messageId = af_messageId a, art_lastUpdateTime = toLastUpdate en a\<rparr>)"

subsection \<open>Fenced code blocks\<close>

text \<open>A line start of a multiline regular expression follows one of four terminators. At a line start
  \<open>/^ {0,3}(`+)/\<close> takes at most three spaces and the run of backticks (96) that follows.\<close>

definition line_end :: "jschar \<Rightarrow> bool" where
  "line_end c \<longleftrightarrow> c \<in> {10, 13, 0x2028, 0x2029}"

definition leading_run :: "jsstring \<Rightarrow> nat" where
  "leading_run s =
     (let k = length (takeWhile (\<lambda>c. c = 32) s)
      in if k \<le> 3 then length (takeWhile (\<lambda>c. c = 96) (drop k s)) else 0)"

fun longest_run :: "bool \<Rightarrow> jsstring \<Rightarrow> nat" where
  "longest_run at_start [] = 0"
| "longest_run at_start (c # cs) = max (if at_start then leading_run (c # cs) else 0) (longest_run (line_end c) cs)"

definition longestLeadingBacktickRun :: "jsstring \<Rightarrow> nat" where
  "longestLeadingBacktickRun source = longest_run True source"

definition fence_body :: "jsstring \<Rightarrow> jsstring" where
  "fence_body source = (if suffix [10] source then butlast source else source)"

definition wrapAsFencedCodeBlock :: "jsstring \<Rightarrow> jsstring \<Rightarrow> jsstring" where
  "wrapAsFencedCodeBlock source lang =
     (let fence = replicate (max 3 (longestLeadingBacktickRun source + 1)) 96
      in fence @ lang @ [10] @ fence_body source @ [10] @ fence)"

text \<open>The reference: a fenced block as CommonMark reads it. The opening fence is at least three backticks, the rest of its
  line, the info string, has none; the block ends before the first line that starts with at most three
  spaces, has at least as many backticks and nothing else but spaces and tabs. A line ends at a newline or a
  carriage return.\<close>

definition md_end :: "jschar \<Rightarrow> bool" where
  "md_end c \<longleftrightarrow> c \<in> {10, 13}"

definition closes :: "nat \<Rightarrow> jsstring \<Rightarrow> bool" where
  "closes n s \<longleftrightarrow> n \<le> leading_run s
     \<and> (\<forall>c\<in>set (takeWhile (\<lambda>c. \<not> md_end c) (dropWhile (\<lambda>c. c = 96) (dropWhile (\<lambda>c. c = 32) s))). c = 32 \<or> c = 9)"

fun body_until :: "nat \<Rightarrow> bool \<Rightarrow> jsstring \<Rightarrow> jsstring option" where
  "body_until n at_start [] = None"
| "body_until n at_start (c # cs) =
     (if at_start \<and> closes n (c # cs) then Some [] else map_option (Cons c) (body_until n (md_end c) cs))"

definition read_fenced :: "jsstring \<Rightarrow> (jsstring \<times> jsstring) option" where
  "read_fenced s =
     (let n = length (takeWhile (\<lambda>c. c = 96) s); info = takeWhile (\<lambda>c. \<not> md_end c) (drop n s) in
      if n < 3 \<or> 96 \<in> set info then None
      else case drop (n + length info) s of
        [] \<Rightarrow> None
      | c # rest \<Rightarrow> map_option (Pair info) (body_until n True rest))"

lemma leading_run_stop:
  assumes "c \<noteq> 32" "c \<noteq> 96"
  shows "leading_run (s @ c # t) = leading_run s"
proof -
  have a: "takeWhile (\<lambda>x. x = 32) (s @ c # t) = takeWhile (\<lambda>x. x = 32) s"
    using assms(1) by (induction s) auto
  let ?k = "length (takeWhile (\<lambda>x. x = 32) s)"
  have "?k \<le> length s" by (rule length_takeWhile_le)
  then have "drop ?k (s @ c # t) = drop ?k s @ c # t" by simp
  moreover have "takeWhile (\<lambda>x. x = 96) (r @ c # t) = takeWhile (\<lambda>x. x = 96) r" for r
    using assms(2) by (induction r) auto
  ultimately show ?thesis by (simp add: leading_run_def a Let_def)
qed

lemma longest_run_weaken: "longest_run False s \<le> longest_run b s"
  by (cases s) simp_all

lemma longest_run_front: "longest_run b s \<le> longest_run b (s @ [10])"
proof (induction s arbitrary: b)
  case (Cons c s)
  have "leading_run (c # s @ [10]) = leading_run (c # s)" using leading_run_stop [of 10 "c # s" "[]"] by simp
  then show ?case using Cons [of "line_end c"] by (auto simp: max_def)
qed simp

lemma closing_fence: "closes n (replicate n 96)"
  by (cases n) (simp_all add: closes_def leading_run_def takeWhile_replicate dropWhile_replicate)

lemma body_read:
  assumes "longest_run b s < n" "0 < n"
  shows "body_until n b (s @ 10 # replicate n 96) = Some (s @ [10])"
  using assms(1)
proof (induction s arbitrary: b)
  case Nil
  obtain m where "n = Suc m" using assms(2) by (cases n) auto
  then have "body_until n True (replicate n 96) = Some []" using closing_fence [of n] by simp
  moreover have "\<not> closes n (10 # replicate n 96)" using assms(2) by (simp add: closes_def leading_run_def)
  ultimately show ?case by (simp add: md_end_def)
next
  case (Cons c s)
  have "leading_run (c # s @ 10 # replicate n 96) = leading_run (c # s)"
    using leading_run_stop [of 10 "c # s" "replicate n 96"] by simp
  then have no: "\<not> (b \<and> closes n (c # s @ 10 # replicate n 96))"
    using Cons.prems by (cases b) (simp_all add: closes_def)
  have "longest_run (line_end c) s < n" using Cons.prems by simp
  moreover have "longest_run (md_end c) s \<le> longest_run (line_end c) s"
  proof (cases "md_end c")
    case True
    then have "line_end c" by (auto simp: md_end_def line_end_def)
    then show ?thesis using True by simp
  qed (simp add: longest_run_weaken)
  ultimately have "body_until n (md_end c) (s @ 10 # replicate n 96) = Some (s @ [10])"
    by (intro Cons.IH) simp
  then show ?case using no by simp
qed

subsection \<open>Properties\<close>

text \<open>C40. Source shown as code stays code: whatever the source holds - fences of any length, at any indentation - a
  CommonMark reader finds in the block written for it exactly one code block, with the language and the
  whole source (a final newline apart), if the language has no backtick and no line break.\<close>

theorem fenced_source_reads_back:
  assumes "96 \<notin> set lang" "\<forall>c\<in>set lang. \<not> md_end c"
  shows "read_fenced (wrapAsFencedCodeBlock source lang) = Some (lang, fence_body source @ [10])"
proof -
  define n where "n = max 3 (longestLeadingBacktickRun source + 1)"
  define rest where "rest = fence_body source @ 10 # replicate n 96"
  have "longest_run True (fence_body source) \<le> longest_run True source"
  proof (cases "suffix [10] source")
    case True
    then obtain u where "source = u @ [10]" by (auto simp: suffix_def)
    then show ?thesis using longest_run_front [of True u] by (simp add: fence_body_def)
  qed (simp add: fence_body_def)
  then have b: "body_until n True rest = Some (fence_body source @ [10])"
    unfolding rest_def by (intro body_read) (auto simp: longestLeadingBacktickRun_def n_def)
  have w: "wrapAsFencedCodeBlock source lang = replicate n 96 @ lang @ 10 # rest"
    by (simp add: wrapAsFencedCodeBlock_def Let_def n_def rest_def)
  have "takeWhile (\<lambda>c. c = 96) (lang @ 10 # rest) = []" using assms(1) by (cases lang) auto
  then have t: "length (takeWhile (\<lambda>c. c = 96) (replicate n 96 @ lang @ 10 # rest)) = n"
    by (simp add: takeWhile_append)
  have i: "takeWhile (\<lambda>c. \<not> md_end c) (lang @ 10 # rest) = lang"
    using assms(2) by (subst takeWhile_append2) (auto simp: md_end_def)
  have "3 \<le> n" by (simp add: n_def)
  then show ?thesis unfolding w read_fenced_def Let_def t using assms(1) b by (simp add: i)
qed

lemma fenced_source_reads_back_witness:
  "read_fenced (wrapAsFencedCodeBlock (js ''a'' @ [10, 96, 96, 96, 10] @ js ''b'') (js ''js''))
     = Some (js ''js'', js ''a'' @ [10, 96, 96, 96, 10] @ js ''b'' @ [10])"
proof -
  have "fence_body (js ''a'' @ [10, 96, 96, 96, 10] @ js ''b'') = js ''a'' @ [10, 96, 96, 96, 10] @ js ''b''"
    by (simp add: fence_body_def js_def suffix_def)
  then show ?thesis
    using fenced_source_reads_back [of "js ''js''" "js ''a'' @ [10, 96, 96, 96, 10] @ js ''b''"]
    by (simp add: js_def md_end_def)
qed

text \<open>The languages of the tables satisfy the hypothesis; the fallback to the raw extension need not: a code file named
  \<open>a.x`y\<close>, routed by its MIME type, is written under a fence that is no fence.\<close>

lemma table_languages_clean:
  "l \<in> snd ` set (CODE_EXTENSION_TO_LANGUAGE @ MIME_TO_LANGUAGE) \<Longrightarrow> 96 \<notin> set l \<and> (\<forall>c\<in>set l. \<not> md_end c)"
  by (auto simp: CODE_EXTENSION_TO_LANGUAGE_def MIME_TO_LANGUAGE_def js_def md_end_def)

text \<open>The trust gate: a file is shown as an office preview, whose text is injected as an HTML document, only if the
  server has marked that text as HTML and there is one; classified without the mark, its text goes to the
  viewer that escapes it. No viewer that fails on an empty text gets one.\<close>

theorem office_preview_is_trusted:
  assumes "fileToArtifact en placeholder None a = Some art"
  shows "(art_type art \<in> {T_DOCX, T_SPREADSHEET, T_PRESENTATION} \<longrightarrow> af_textFormat a = Some (js ''html''))
    \<and> (art_content art = [] \<or> no_text a \<longrightarrow> art_type art \<in> {T_PLAIN, T_MARKDOWN, T_CODE})
    \<and> (art_type art = T_CODE \<longleftrightarrow> art_language art \<noteq> None)"
proof -
  obtain t where t: "detectArtifactTypeFromFile en a = Some t" "\<not> (no_text a \<and> \<not> empty_ok t)"
    and art: "art_type art = t" "art_content art = nullish (af_text a) (nullish placeholder [])"
      "art_language art \<noteq> None \<longleftrightarrow> t = T_CODE"
    using assms by (auto simp: fileToArtifact_def split: option.splits if_splits)
  have "af_textFormat a = Some (js ''html'')" if "t \<in> set OFFICE_HTML_BUCKETS"
    using t(1) that by (auto simp: detectArtifactTypeFromFile_def Let_def OFFICE_HTML_BUCKETS_def split: option.splits if_splits)
  moreover have "no_text a" if "art_content art = []"
    using that by (cases "af_text a") (simp_all add: art(2) no_text_def)
  ultimately show ?thesis using t(2) art(1,3) by (auto simp: OFFICE_HTML_BUCKETS_def empty_ok_def)
qed

definition sample_artifact_env :: artifact_env where
  "sample_artifact_env = \<lparr>ae_lower = (\<lambda>s. s), ae_excel = (\<lambda>_. False), ae_time = (\<lambda>_. Some 5), ae_inherited = (\<lambda>_. False)\<rparr>"

definition sample_attachment :: attachment where
  "sample_attachment = \<lparr>af_file_id = Some (js ''f''), af_filename = Some (js ''a.docx''), af_filepath = None, af_type = None,
     af_text = Some (js ''<p>''), af_textFormat = None, af_messageId = None, af_updatedAt = None, af_createdAt = Some JNull\<rparr>"

lemma sample_txt: "extensionFromBasename sample_artifact_env (js ''a.docx'') = js ''docx''"
  "basenameOf (js ''a.docx'') = js ''a.docx''"
  by (simp_all add: extensionFromBasename_def basenameOf_def sample_artifact_env_def js_def)

lemma sample_name: "js ''a.docx'' \<noteq> []" "js ''<p>'' \<noteq> []"
  by (simp_all add: js_def)

lemma own_docx: "own EXTENSION_TO_TOOL_ARTIFACT_TYPE (js ''docx'') = Some T_DOCX"
  by code_simp

lemma office_preview_is_trusted_witness:
  "\<exists>art. fileToArtifact sample_artifact_env None None sample_attachment = Some art \<and> art_type art = T_PLAIN
     \<and> (art_type art \<in> {T_DOCX, T_SPREADSHEET, T_PRESENTATION} \<longrightarrow> af_textFormat sample_attachment = Some (js ''html''))"
proof -
  have "detectArtifactTypeFromFile sample_artifact_env sample_attachment = Some T_PLAIN"
    using sample_name by (simp add: detectArtifactTypeFromFile_def sample_attachment_def sample_txt own_docx
        OFFICE_HTML_BUCKETS_def no_text_def Let_def)
  then obtain art where "fileToArtifact sample_artifact_env None None sample_attachment = Some art" "art_type art = T_PLAIN"
    by (simp add: fileToArtifact_def empty_ok_def)
  with office_preview_is_trusted show ?thesis by blast
qed

text \<open>The routing table: an explicit entry wins over the language table, every other language routes to code.\<close>

lemma code_extensions_route:
  "own EXTENSION_TO_TOOL_ARTIFACT_TYPE ext =
     (case own EXTENSION_TO_TOOL_ARTIFACT_TYPE_0 ext of
        Some t \<Rightarrow> Some t
      | None \<Rightarrow> if own CODE_EXTENSION_TO_LANGUAGE ext \<noteq> None then Some T_CODE else None)"
proof -
  let ?step = "\<lambda>ext tbl. if own tbl ext \<noteq> None then tbl else tbl @ [(ext, T_CODE)]"
  have "own (fold ?step exts tbl) k = (case own tbl k of Some t \<Rightarrow> Some t | None \<Rightarrow> if k \<in> set exts then Some T_CODE else None)"
    for exts tbl k
  proof (induction exts arbitrary: tbl)
    case (Cons e exts)
    have "own (?step e tbl) k = (if own tbl k = None \<and> k = e then Some T_CODE else own tbl k)" by (auto simp: own_def)
    then show ?case using Cons by (auto split: option.split)
  qed (simp split: option.split)
  moreover have "(ext \<in> set (map fst CODE_EXTENSION_TO_LANGUAGE)) = (own CODE_EXTENSION_TO_LANGUAGE ext \<noteq> None)"
    by (simp add: own_def map_of_eq_None_iff image_iff)
  ultimately show ?thesis
    unfolding EXTENSION_TO_TOOL_ARTIFACT_TYPE_def by (cases "own CODE_EXTENSION_TO_LANGUAGE ext") simp_all
qed

text \<open>Without a start-up configuration, and with one that is empty, nothing is fetched from another origin.\<close>

lemma sandbox_is_self_hosted:
  assumes "case startup of None \<Rightarrow> True | Some c \<Rightarrow> nullish (su_staticBundlerURL c) [] = [] \<and> nullish (su_bundlerURL c) [] = []"
  shows "buildSandpackOptions template startup =
    \<lparr>sp_externalResources = [TAILWIND_SELF_HOSTED], sp_bundlerURL = js ''/sandpack-bundler/''\<rparr>"
  using assms by (auto simp: buildSandpackOptions_def SELF_HOSTED_BUNDLER_def Let_def split: option.splits)

lemma raw_extension_breaks_fence:
  assumes "ae_lower en (js ''x'' @ [96] @ js ''y'') = js ''x'' @ [96] @ js ''y''"
  shows "read_fenced (wrapAsFencedCodeBlock source (languageForFilename en (Some (js ''a.x'' @ [96] @ js ''y'')) mime)) = None"
proof -
  have e: "extensionOf en (Some (js ''a.x'' @ [96] @ js ''y'')) = js ''x'' @ [96] @ js ''y''"
    using assms by (simp add: extensionOf_def basenameOf_def extensionFromBasename_def js_def)
  have sample_ext: "js ''x'' @ [96] @ js ''y'' \<noteq> []" by simp
  have "own CODE_EXTENSION_TO_LANGUAGE (js ''x'' @ [96] @ js ''y'') = None" by code_simp
  then have l: "languageForFilename en (Some (js ''a.x'' @ [96] @ js ''y'')) mime = js ''x'' @ [96] @ js ''y''"
    unfolding languageForFilename_def e Let_def if_P [OF sample_ext] by (simp only: nullish_simps)
  define n where "n = max 3 (longestLeadingBacktickRun source + 1)"
  have w: "wrapAsFencedCodeBlock source (js ''x'' @ [96] @ js ''y'')
     = replicate n 96 @ js ''x'' @ 96 # js ''y'' @ 10 # fence_body source @ 10 # replicate n 96"
    by (simp add: wrapAsFencedCodeBlock_def Let_def n_def)
  have t: "length (takeWhile (\<lambda>c. c = 96) (replicate n 96 @ js ''x'' @ r)) = n" for r
    by (simp add: takeWhile_append js_def)
  show ?thesis unfolding l w read_fenced_def Let_def t by (simp add: js_def md_end_def)
qed

end
