(* ===== verification/Preview.thy ===== *)
theory Preview
  imports Artifacts ProviderParsers
begin

text \<open>
  The preview of an artifact, \<open>components/Artifacts/ArtifactPreview.tsx\<close>: which view a type gets, the document of the
  sandboxed frame with the policy put into it, and the hash of the diagram ids. The views themselves (mermaid,
  react-markdown, the frame) are the library's; a view is the value the component returns.
\<close>

subsection \<open>The policy\<close>

definition q39 :: "string \<Rightarrow> jsstring" where
  "q39 s = [39] @ js s @ [39]"

definition TRUSTED_CSP :: jsstring where
  "TRUSTED_CSP =
     js ''default-src '' @ q39 ''self'' @ [32] @ q39 ''unsafe-inline'' @ [32] @ q39 ''unsafe-eval'' @ js '' data: blob:; ''
     @ js ''connect-src '' @ q39 ''none'' @ js ''; img-src '' @ q39 ''self'' @ js '' data: blob:; media-src '' @ q39 ''self''
     @ js '' data: blob:; '' @ js ''font-src '' @ q39 ''self'' @ js '' data:; style-src '' @ q39 ''self'' @ [32]
     @ q39 ''unsafe-inline'' @ js ''; script-src '' @ q39 ''self'' @ [32] @ q39 ''unsafe-inline'' @ [32] @ q39 ''unsafe-eval''
     @ js '';''"

definition CSP_META :: jsstring where
  "CSP_META = js ''<meta http-equiv='' @ [34] @ js ''Content-Security-Policy'' @ [34] @ js '' content='' @ [34]
     @ TRUSTED_CSP @ [34, 62]"

subsection \<open>The documents\<close>

text \<open>\<open>/<name[\s>]/i.test(content)\<close>; 62 is the closing bracket.\<close>

definition tag_here :: "string \<Rightarrow> jsstring \<Rightarrow> bool" where
  "tag_here name s \<longleftrightarrow> prefix_ci name s \<and> (case drop (length name) s of c # _ \<Rightarrow> is_ws c \<or> c = 62 | [] \<Rightarrow> False)"

fun tag_test :: "string \<Rightarrow> jsstring \<Rightarrow> bool" where
  "tag_test name [] = False"
| "tag_test name (c # cs) = (tag_here name (c # cs) \<or> tag_test name cs)"

text \<open>\<open>content.replace(/<name([^>]*)>/i, f)\<close>: the leftmost match, with the text of its group.\<close>

definition open_tag :: "string \<Rightarrow> jsstring \<Rightarrow> (jsstring \<times> jsstring) option" where
  "open_tag name s =
     (let r = drop (length name) s in
      if prefix_ci name s \<and> 62 \<in> set r then Some (takeWhile (\<lambda>c. c \<noteq> 62) r, tl (dropWhile (\<lambda>c. c \<noteq> 62) r)) else None)"

fun replace_tag :: "string \<Rightarrow> (jsstring \<Rightarrow> jsstring) \<Rightarrow> jsstring \<Rightarrow> jsstring" where
  "replace_tag name f [] = []"
| "replace_tag name f (c # cs) =
     (case open_tag name (c # cs) of Some (attrs, rest) \<Rightarrow> f attrs @ rest | None \<Rightarrow> c # replace_tag name f cs)"

definition DOC_OPEN :: jsstring where
  "DOC_OPEN = js ''<!DOCTYPE html><html><head><meta charset='' @ [34] @ js ''utf-8'' @ [34, 62]"

definition buildHtmlDoc :: "jsstring \<Rightarrow> jsstring" where
  "buildHtmlDoc code =
     (if tag_test ''<html'' code then
        if tag_test ''<head'' code
        then replace_tag ''<head'' (\<lambda>a. js ''<head'' @ a @ [62] @ CSP_META) code
        else replace_tag ''<html'' (\<lambda>a. js ''<html'' @ a @ js ''><head>'' @ CSP_META @ js ''</head>'') code
      else DOC_OPEN @ CSP_META
        @ js ''<style>html,body{margin:0;padding:12px;font-family:-apple-system,BlinkMacSystemFont,'' @ [34] @ js ''Segoe UI''
        @ [34] @ js '',sans-serif;}</style></head><body>'' @ code @ js ''</body></html>'')"

definition buildSvgDoc :: "jsstring \<Rightarrow> jsstring" where
  "buildSvgDoc code = DOC_OPEN @ CSP_META
     @ js ''<style>html,body{margin:0;height:100%;display:flex;align-items:center;justify-content:center;background:transparent;}svg{max-width:100%;max-height:100%;}</style></head><body>''
     @ code @ js ''</body></html>''"

subsection \<open>Views\<close>

text \<open>\<open>h << 5\<close>, the difference, the sum and \<open>h |= 0\<close> agree modulo \<open>2 ^ 32\<close>; the value is the signed one.\<close>

definition hash_word :: "jsstring \<Rightarrow> 32 word" where
  "hash_word s = foldl (\<lambda>h c. push_bit 5 h - h + ucast c) 0 s"

definition hashString :: "jsstring \<Rightarrow> int" where
  "hashString s = sint (hash_word s)"

definition diagram_id :: "jsstring \<Rightarrow> jsstring" where
  "diagram_id code = js ''caladon-mermaid-'' @ decimal (nat \<bar>hashString code\<bar>)"

datatype view =
    NoView
  | MermaidView jsstring jsstring
  | HardenedFrame jsstring "jsstring list"
  | MarkdownView jsstring
  | CodeOnlyNotice jsstring

definition framed :: "jsstring \<Rightarrow> view" where
  "framed doc = HardenedFrame doc [js ''allow-scripts'']"

definition preview :: "artifact_env \<Rightarrow> jsstring option \<Rightarrow> jsstring option \<Rightarrow> jsstring option \<Rightarrow> view" where
  "preview en artifactType currentCode artifactContent =
     (let type = ae_lower en (nullish artifactType []); code = nullish currentCode (nullish artifactContent []) in
      if code = [] then NoView
      else if str_includes type (js ''mermaid'') then MermaidView (diagram_id code) code
      else if type = js ''image/svg+xml'' \<or> str_includes type (js ''svg'') \<and> str_includes code (js ''<svg'')
      then framed (buildSvgDoc code)
      else if type = js ''text/html'' \<or> type = js ''application/vnd.code-html'' \<or> type = js ''application/vnd.ant.html''
      then framed (buildHtmlDoc code)
      else if type = js ''text/markdown'' \<or> type = js ''text/md'' \<or> type = js ''text/plain'' \<or> type = []
      then MarkdownView code
      else CodeOnlyNotice (if type = [] then js ''this type'' else type))"

subsection \<open>The hash is a polynomial\<close>

lemma hash_word_step: "foldl (\<lambda>h c. push_bit 5 h - h + ucast c) (of_int k) s
   = (of_int (foldl (\<lambda>n c. 31 * n + uint c) k s) :: 32 word)" for s :: jsstring
proof (induction s arbitrary: k)
  case (Cons c s)
  have "push_bit 5 (of_int k) - of_int k + ucast c = (of_int (31 * k + uint c) :: 32 word)"
    by (simp add: push_bit_eq_mult)
  then show ?case unfolding foldl.simps by (simp only: Cons)
qed simp

lemma hashString_polynomial:
  "hashString s mod 2 ^ 32 = foldl (\<lambda>n c. 31 * n + uint c) 0 s mod 2 ^ 32" "- (2 ^ 31) \<le> hashString s \<and> hashString s < 2 ^ 31"
proof -
  have "hash_word s = of_int (foldl (\<lambda>n c. 31 * n + uint c) 0 s)"
    using hash_word_step [of 0 s] by (simp add: hash_word_def)
  then have "uint (hash_word s) = foldl (\<lambda>n c. 31 * n + uint c) 0 s mod 2 ^ 32"
    by (simp add: uint_word_of_int)
  moreover have "sint (hash_word s) mod 2 ^ 32 = uint (hash_word s)"
    using uint_sint [of "hash_word s"] by (simp add: take_bit_eq_mod)
  ultimately show "hashString s mod 2 ^ 32 = foldl (\<lambda>n c. 31 * n + uint c) 0 s mod 2 ^ 32" by (simp add: hashString_def)
  show "- (2 ^ 31) \<le> hashString s \<and> hashString s < 2 ^ 31"
    using sint_ge [of "hash_word s"] sint_lt [of "hash_word s"] by (simp add: hashString_def)
qed

subsection \<open>When a policy counts\<close>

text \<open>The reference: a policy in a \<open>meta\<close> element is enforced when the parser meets it in the head. Reading a document from
  its start, only white space, comments, a doctype, the \<open>html\<close> and \<open>head\<close> tags and the charset may come first; any
  other text or tag opens the body, or can run a script, before the policy is known. A tag ends at the
  first closing bracket outside quotes, a comment at the first \<open>--\<close> with a bracket.\<close>

fun tag_rest :: "jschar option \<Rightarrow> jsstring \<Rightarrow> jsstring option" where
  "tag_rest q [] = None"
| "tag_rest None (c # cs) =
     (if c = 62 then Some cs else tag_rest (if c = 34 \<or> c = 39 then Some c else None) cs)"
| "tag_rest (Some q) (c # cs) = tag_rest (if c = q then None else Some q) cs"

lemma tag_rest_shorter: "tag_rest q s = Some r \<Longrightarrow> length r < length s"
  by (induction q s rule: tag_rest.induct) (auto split: if_splits)

definition html_ws :: "jschar \<Rightarrow> bool" where
  "html_ws c \<longleftrightarrow> c \<in> {9, 10, 12, 13, 32}"

definition CHARSET_META :: jsstring where
  "CHARSET_META = js ''<meta charset='' @ [34] @ js ''utf-8'' @ [34, 62]"

definition names_tag :: "jsstring \<Rightarrow> string \<Rightarrow> bool" where
  "names_tag s name \<longleftrightarrow> prefix_ci name s \<and> (case drop (length name) s of c # _ \<Rightarrow> html_ws c \<or> c = 62 | [] \<Rightarrow> False)"

function governed :: "jsstring \<Rightarrow> bool" where
  "governed [] = False"
| "governed (c # s) =
     (if html_ws c then governed s
      else if prefix CSP_META (c # s) then True
      else if prefix CHARSET_META (c # s) then governed (drop 21 s)
      else if prefix (js ''<!--'') (c # s)
      then (case index_of (js ''-->'') (drop 1 s) of None \<Rightarrow> False | Some i \<Rightarrow> governed (drop (i + 4) s))
      else if list_ex (names_tag (c # s)) [''<!doctype'', ''<html'', ''<head'']
      then (case tag_rest None s of None \<Rightarrow> False | Some r \<Rightarrow> governed r)
      else False)"
  by pat_completeness auto
termination
  by (relation "measure length") (auto dest: tag_rest_shorter)

text \<open>A document as an author writes it: white space, comments and doctypes without tags in them, an \<open>html\<close> tag, white
  space, and the rest, which starts with a \<open>head\<close> tag if there is one anywhere.\<close>

datatype piece = Space jschar | Comment jsstring | Doctype jsstring

fun piece_text :: "piece \<Rightarrow> jsstring" where
  "piece_text (Space c) = [c]"
| "piece_text (Comment s) = js ''<!--'' @ s @ js ''-->''"
| "piece_text (Doctype s) = js ''<!'' @ s @ [62]"

definition attrs_ok :: "jsstring \<Rightarrow> bool" where
  "attrs_ok a \<longleftrightarrow> (a = [] \<or> html_ws (hd a)) \<and> 60 \<notin> set a \<and> 62 \<notin> set a \<and> tag_rest None (a @ [62]) = Some []"

definition doctype_ok :: "jsstring \<Rightarrow> bool" where
  "doctype_ok s \<longleftrightarrow> (\<exists>n a. s = n @ a \<and> map ascii_lower n = js ''doctype'' \<and> attrs_ok a)"

fun piece_ok :: "piece \<Rightarrow> bool" where
  "piece_ok (Space c) = html_ws c"
| "piece_ok (Comment s) = (60 \<notin> set s \<and> 62 \<notin> set s)"
| "piece_ok (Doctype s) = doctype_ok s"

record html_doc =
  hd_pieces :: "piece list"
  hd_html :: jsstring
  hd_attrs :: jsstring
  hd_space :: jsstring
  hd_rest :: jsstring

definition doc_text :: "html_doc \<Rightarrow> jsstring" where
  "doc_text d = concat (map piece_text (hd_pieces d)) @ [60] @ hd_html d @ hd_attrs d @ [62] @ hd_space d @ hd_rest d"

definition doc_ok :: "html_doc \<Rightarrow> bool" where
  "doc_ok d \<longleftrightarrow> list_all piece_ok (hd_pieces d) \<and> map ascii_lower (hd_html d) = js ''html'' \<and> attrs_ok (hd_attrs d)
     \<and> list_all html_ws (hd_space d)
     \<and> (tag_test ''<head'' (doc_text d) \<longrightarrow>
          (\<exists>n a body. hd_rest d = [60] @ n @ a @ [62] @ body \<and> map ascii_lower n = js ''head'' \<and> attrs_ok a))"

lemma prefix_ci_Cons: "prefix_ci (c # name) (x # s) \<longleftrightarrow> of_char c = ascii_lower x \<and> prefix_ci name s"
  by (simp add: prefix_ci_def js_Cons)

lemma prefix_ci_Nil [simp]: "prefix_ci [] s"
  by (simp add: prefix_ci_def)

lemma lower_eq: "c < 65 \<or> 122 < c \<Longrightarrow> ascii_lower x = c \<longleftrightarrow> x = c"
  by (auto simp: ascii_lower_def) (unat_arith; simp)+

lemma lower_lt: "60 = ascii_lower x \<longleftrightarrow> x = 60" "33 = ascii_lower x \<longleftrightarrow> x = 33" "45 = ascii_lower x \<longleftrightarrow> x = 45"
  using lower_eq [of 60 x] lower_eq [of 33 x] lower_eq [of 45 x] by auto

lemma prefix_ci_app: "map ascii_lower n = js name \<Longrightarrow> prefix_ci name (n @ s)"
  by (simp add: prefix_ci_def)

subsection \<open>Reading past the parts of a document\<close>

lemma tag_rest_app: "tag_rest q a = Some [] \<Longrightarrow> tag_rest q (a @ r) = Some r"
  by (induction q a rule: tag_rest.induct) (auto split: if_splits)

lemma name_no_quote: "map ascii_lower n = js name \<Longrightarrow> list_all (\<lambda>c. c \<notin> {CHR 0x22, CHR 0x27, CHR ''>''}) name
  \<Longrightarrow> tag_rest None (n @ s) = tag_rest None s"
proof (induction n arbitrary: name)
  case (Cons x n)
  then obtain c m where c: "name = c # m" "ascii_lower x = of_char c" "map ascii_lower n = js m"
    by (cases name) (auto simp: js_Cons)
  have "x \<noteq> 62 \<and> x \<noteq> 34 \<and> x \<noteq> 39"
  proof (intro conjI notI)
    assume "x = 62" then have "(of_char c :: jschar) = of_char (CHR ''>'')" using c(2) lower_eq [of 62 62] by simp
    then show False using Cons.prems(2) c(1) by (simp only: of_char16_eq) simp
  next
    assume "x = 34" then have "(of_char c :: jschar) = of_char (CHR 0x22)" using c(2) lower_eq [of 34 34] by simp
    then show False using Cons.prems(2) c(1) by (simp only: of_char16_eq) simp
  next
    assume "x = 39" then have "(of_char c :: jschar) = of_char (CHR 0x27)" using c(2) lower_eq [of 39 39] by simp
    then show False using Cons.prems(2) c(1) by (simp only: of_char16_eq) simp
  qed
  then show ?case using Cons.IH [OF c(3)] Cons.prems(2) c(1) by simp
qed (cases name; simp)

lemma csp_start: "CSP_META = 60 # 109 # tl (tl CSP_META)" "CHARSET_META = 60 # 109 # tl (tl CHARSET_META)"
  by (simp_all add: CSP_META_def CHARSET_META_def js_def)

lemma governed_tag:
  assumes "map ascii_lower n = js name" "name \<in> {''!doctype'', ''html'', ''head''}" "attrs_ok a"
  shows "governed (60 # n @ a @ 62 # t) = governed t"
proof -
  obtain x m where n: "n = x # m" using assms(1,2) by (cases n) auto
  have x: "ascii_lower x = 33 \<or> ascii_lower x = 104" using assms(1,2) n by (auto simp: js_def)
  have m: "\<not> prefix CSP_META (60 # n @ s) \<and> \<not> prefix CHARSET_META (60 # n @ s)" for s
  proof -
    have "x \<noteq> 109" using x by (auto simp: ascii_lower_def)
    then show ?thesis by (subst csp_start(1), subst csp_start(2)) (simp add: n)
  qed
  have "hd m \<noteq> 45 \<or> x \<noteq> 33"
    using assms(1,2) n by (cases m) (auto simp: js_def ascii_lower_def)
  then have c: "\<not> prefix (js ''<!--'') (60 # n @ a @ 62 # t)"
    using assms(1,2) n by (cases m) (auto simp: js_def)
  have l: "length n = length name" using arg_cong [OF assms(1), of length] by simp
  have "names_tag (60 # n @ a @ 62 # t) (CHR ''<'' # name)"
    using prefix_ci_app [OF assms(1), of "a @ 62 # t"] assms(3) l
    by (auto simp: names_tag_def prefix_ci_Cons lower_lt attrs_ok_def split: list.split)
      (cases a; simp)+
  then have "list_ex (names_tag (60 # n @ a @ 62 # t)) [''<!doctype'', ''<html'', ''<head'']"
    using assms(2) by auto
  moreover have "tag_rest None (n @ a @ 62 # t) = Some t"
    using name_no_quote [OF assms(1), of "a @ 62 # t"] assms(2,3) tag_rest_app [of None "a @ [62]" t]
    by (auto simp: attrs_ok_def)
  ultimately show ?thesis using m c by (simp add: html_ws_def)
qed

lemma governed_space: "list_all html_ws s \<Longrightarrow> governed (s @ t) = governed t"
  by (induction s) auto

lemma governed_policy: "governed (CSP_META @ t)"
proof -
  have e: "CSP_META @ t = 60 # (tl CSP_META @ t)" by (subst (1) csp_start(1)) (subst csp_start(1), simp)
  then have "prefix CSP_META (60 # (tl CSP_META @ t))" by (metis prefixI)
  then show ?thesis unfolding e by (simp add: html_ws_def)
qed

lemma governed_charset: "governed (CHARSET_META @ CSP_META @ t)"
proof -
  have p: "\<not> prefix CSP_META (CHARSET_META @ s)" for s
    by (simp add: CSP_META_def CHARSET_META_def js_def)
  have e: "CHARSET_META @ s = 60 # (tl CHARSET_META @ s)" "drop 21 (tl CHARSET_META @ s) = s" for s
    by (simp_all add: CHARSET_META_def js_def)
  have "prefix CHARSET_META (60 # (tl CHARSET_META @ s))" for s using e(1) [of s] by (metis prefixI)
  then show ?thesis using p [of "CSP_META @ t"] governed_policy [of t] unfolding e(1)
    by (simp add: html_ws_def e(2) del: drop_append)
qed

lemma first_end:
  "62 \<notin> set s \<Longrightarrow> index_of (js ''-->'') (45 # 45 # s @ js ''-->'' @ t) = Some (length s + 2)"
proof -
  have "62 \<notin> set u \<Longrightarrow> index_of [45, 45, 62] (u @ [45, 45, 62] @ t) = Some (length u)" for u :: jsstring
  proof (induction u)
    case (Cons x u)
    have "\<not> prefix [45, 45, 62] (x # u @ [45, 45, 62] @ t)"
      using Cons.prems by (cases u; cases "tl u") auto
    then show ?case using Cons by simp
  qed simp
  from this [of "45 # 45 # s"] show "62 \<notin> set s \<Longrightarrow> ?thesis" by (simp add: js_def)
qed

lemma governed_comment:
  assumes "62 \<notin> set s"
  shows "governed (js ''<!--'' @ s @ js ''-->'' @ t) = governed t"
proof -
  have e: "js ''<!--'' @ r = 60 # 33 # 45 # 45 # r" for r by (simp add: js_def)
  have m: "\<not> prefix CSP_META (60 # 33 # r)" "\<not> prefix CHARSET_META (60 # 33 # r)" for r
    by (subst csp_start(1), simp) (subst csp_start(2), simp)
  have "drop (6 + length s) ((33 # 45 # 45 # s @ js ''-->'') @ t) = t" by (simp add: js_def del: append.simps append_assoc)
  then have "drop (6 + length s) (33 # 45 # 45 # s @ js ''-->'' @ t) = t" by simp
  then show ?thesis unfolding e
    using m first_end [OF assms, of t] by (simp add: html_ws_def e prefix_def)
qed

lemma governed_pieces: "list_all piece_ok ps \<Longrightarrow> governed (concat (map piece_text ps) @ t) = governed t"
proof (induction ps)
  case (Cons p ps)
  have "governed (piece_text p @ r) = governed r" if ok: "piece_ok p" for r
  proof (cases p)
    case (Doctype s)
    then obtain n a where s: "s = n @ a" "map ascii_lower n = js ''doctype''" "attrs_ok a"
      using ok by (auto simp: doctype_ok_def)
    have "map ascii_lower (33 # n) = js ''!doctype''" using s(2) by (simp add: js_Cons ascii_lower_def)
    from governed_tag [OF this _ s(3), of r] show ?thesis by (simp add: Doctype s(1) js_def)
  qed (use ok governed_comment in auto)
  then show ?case using Cons by simp
qed simp

declare governed.simps(2) [simp del]

subsection \<open>Where the policy is put\<close>

definition inert :: "string \<Rightarrow> jsstring \<Rightarrow> bool" where
  "inert name a \<longleftrightarrow> (\<forall>f t. replace_tag name f (a @ t) = a @ replace_tag name f t)"

lemma inert_append: "inert name a \<Longrightarrow> inert name b \<Longrightarrow> inert name (a @ b)"
  by (simp add: inert_def)

lemma inert_text: "60 \<notin> set a \<Longrightarrow> inert (CHR ''<'' # name) a"
proof (induction a)
  case (Cons x a)
  have "open_tag (CHR ''<'' # name) (x # s) = None" for s
    using Cons.prems by (simp add: open_tag_def prefix_ci_Cons lower_lt)
  then show ?case using Cons by (simp add: inert_def)
qed (simp add: inert_def)

lemma inert_tag: "(\<And>t. \<not> prefix_ci name (s @ t)) \<Longrightarrow> 60 \<notin> set s \<Longrightarrow> inert (CHR ''<'' # name) (60 # s)"
  using inert_text [of s name] by (auto simp: inert_def open_tag_def prefix_ci_Cons)

lemma no_bracket: "map ascii_lower n = js name \<Longrightarrow> 60 \<notin> set (js name) \<Longrightarrow> 60 \<notin> set n"
  by (metis imageI image_set lower_lt(1))

lemma inert_pieces:
  assumes "list_all piece_ok ps" "of_char c = (104 :: jschar)"
  shows "inert (CHR ''<'' # c # name) (concat (map piece_text ps))"
  using assms(1)
proof (induction ps)
  case (Cons p ps)
  have n: "\<not> prefix_ci (c # name) (33 # t)" for t
    using assms(2) by (simp add: prefix_ci_Cons ascii_lower_def)
  have "inert (CHR ''<'' # c # name) (piece_text p)"
  proof (cases p)
    case (Space x)
    then show ?thesis using Cons.prems by (intro inert_text) (auto simp: html_ws_def)
  next
    case (Comment s)
    then show ?thesis using Cons.prems n inert_tag [of "c # name" "33 # 45 # 45 # s @ js ''-->''"] by (simp add: js_def)
  next
    case (Doctype s)
    then obtain m a where s: "s = m @ a" "map ascii_lower m = js ''doctype''" "60 \<notin> set a"
      using Cons.prems by (auto simp: doctype_ok_def attrs_ok_def)
    have "60 \<notin> set m" using no_bracket [OF s(2)] by (simp add: js_def)
    then show ?thesis using n s inert_tag [of "c # name" "33 # s @ [62]"] by (simp add: Doctype js_def)
  qed
  then show ?case using Cons inert_append by simp
qed (simp add: inert_def)

lemma replace_here:
  assumes "map ascii_lower n = js name" "62 \<notin> set a"
  shows "replace_tag (CHR ''<'' # name) f (60 # n @ a @ 62 # t) = f a @ t"
proof -
  have "length n = length name" using arg_cong [OF assms(1), of length] by simp
  then have "open_tag (CHR ''<'' # name) (60 # n @ a @ 62 # t) = Some (a, t)"
    using prefix_ci_app [OF assms(1), of "a @ 62 # t"] assms(2)
    by (simp add: open_tag_def prefix_ci_Cons lower_lt takeWhile_tail dropWhile_append)
  then show ?thesis by simp
qed

text \<open>In a document as an author writes it, and in a fragment, the policy is enforced.\<close>

lemma attrs_no_bracket: "attrs_ok a \<Longrightarrow> 60 \<notin> set a" "attrs_ok a \<Longrightarrow> 62 \<notin> set a" "attrs_ok []"
  by (auto simp: attrs_ok_def)

lemma lower_names: "map ascii_lower (js ''html'') = js ''html''" "map ascii_lower (js ''head'') = js ''head''"
  by (simp_all add: js_def ascii_lower_def)

lemma governed_open: "governed (DOC_OPEN @ CSP_META @ t)"
proof -
  have e: "DOC_OPEN = 60 # js ''!DOCTYPE'' @ js '' html'' @ 62 # 60 # js ''html'' @ [] @ 62 # 60 # js ''head'' @ [] @ 62 # CHARSET_META"
    by (simp add: DOC_OPEN_def CHARSET_META_def js_def)
  have d: "map ascii_lower (js ''!DOCTYPE'') = js ''!doctype''" "attrs_ok (js '' html'')"
    by (simp_all add: js_def ascii_lower_def attrs_ok_def html_ws_def)
  show ?thesis
    using governed_tag [OF d(1) _ d(2), of "60 # js ''html'' @ [] @ 62 # 60 # js ''head'' @ [] @ 62 # CHARSET_META @ CSP_META @ t"]
      governed_tag [OF lower_names(1) _ attrs_no_bracket(3), of "60 # js ''head'' @ [] @ 62 # CHARSET_META @ CSP_META @ t"]
      governed_tag [OF lower_names(2) _ attrs_no_bracket(3), of "CHARSET_META @ CSP_META @ t"] governed_charset [of t]
    by (simp add: e del: js_append js_append_assoc)
qed

lemma governed_doc:
  assumes "doc_ok d"
  shows "governed (buildHtmlDoc (doc_text d))"
proof -
  let ?p = "concat (map piece_text (hd_pieces d))"
  have d: "list_all piece_ok (hd_pieces d)" "map ascii_lower (hd_html d) = js ''html''" "attrs_ok (hd_attrs d)"
    "list_all html_ws (hd_space d)" using assms by (auto simp: doc_ok_def)
  have ph: "of_char (CHR ''h'') = (104 :: jschar)" by simp
  have dt: "doc_text d = ?p @ 60 # hd_html d @ hd_attrs d @ 62 # hd_space d @ hd_rest d" by (simp add: doc_text_def)
  have sp: "60 \<notin> set (hd_space d)" using d(4) by (auto simp: list_all_iff html_ws_def)
  have nb: "60 \<notin> set (hd_html d)" using no_bracket [OF d(2)] by (simp add: js_def)
  note past = governed_pieces [OF d(1)] governed_tag [OF d(2) _ d(3)]
  consider "\<not> tag_test ''<html'' (doc_text d)" | "tag_test ''<html'' (doc_text d)" "tag_test ''<head'' (doc_text d)"
    | "tag_test ''<html'' (doc_text d)" "\<not> tag_test ''<head'' (doc_text d)" by blast
  then show ?thesis
  proof cases
    case 1
    then show ?thesis by (simp add: buildHtmlDoc_def governed_open)
  next
    case 2
    then obtain n a rest where r: "hd_rest d = 60 # n @ a @ 62 # rest" "map ascii_lower n = js ''head''" "attrs_ok a"
      using assms by (auto simp: doc_ok_def)
    have "\<not> prefix_ci ''head'' (hd_html d @ t)" for t
      using d(2) by (auto simp: js_def prefix_ci_def map_eq_Cons_conv)
    then have "inert ''<head'' (60 # hd_html d @ hd_attrs d @ 62 # hd_space d)"
      using nb sp attrs_no_bracket(1) [OF d(3)] by (intro inert_tag) auto
    then have i: "inert ''<head'' (?p @ 60 # hd_html d @ hd_attrs d @ 62 # hd_space d)"
      by (intro inert_append inert_pieces [OF d(1) ph])
    let ?f = "\<lambda>a. js ''<head'' @ a @ [62] @ CSP_META"
    have "replace_tag ''<head'' ?f (doc_text d) = (?p @ 60 # hd_html d @ hd_attrs d @ 62 # hd_space d) @ ?f a @ rest"
      using i [unfolded inert_def, rule_format, of ?f "hd_rest d"] replace_here [OF r(2) attrs_no_bracket(2) [OF r(3)], of ?f rest]
      by (simp add: dt r(1))
    then have "buildHtmlDoc (doc_text d)
        = ?p @ 60 # hd_html d @ hd_attrs d @ 62 # hd_space d @ 60 # js ''head'' @ a @ 62 # CSP_META @ rest"
      using 2 by (simp add: buildHtmlDoc_def js_def)
    then show ?thesis
      using governed_tag [OF lower_names(2) _ r(3), of "CSP_META @ rest"]
      by (simp add: past governed_space [OF d(4)] governed_policy)
  next
    case 3
    let ?f = "\<lambda>a. js ''<html'' @ a @ js ''><head>'' @ CSP_META @ js ''</head>''"
    have "replace_tag ''<html'' ?f (doc_text d) = ?p @ ?f (hd_attrs d) @ hd_space d @ hd_rest d"
      using inert_pieces [OF d(1) ph, of "''tml''", unfolded inert_def, rule_format, of ?f]
        replace_here [OF d(2) attrs_no_bracket(2) [OF d(3)], of ?f] by (simp add: dt)
    then have "buildHtmlDoc (doc_text d) = ?p @ 60 # js ''html'' @ hd_attrs d @ 62 # 60 # js ''head'' @ [] @ 62 # CSP_META
        @ js ''</head>'' @ hd_space d @ hd_rest d"
      using 3 by (simp add: buildHtmlDoc_def js_def)
    then show ?thesis
      using governed_tag [OF lower_names(1) _ d(3)] governed_tag [OF lower_names(2) _ attrs_no_bracket(3)]
      by (simp add: governed_pieces [OF d(1)] governed_policy)
  qed
qed

subsection \<open>Properties\<close>


definition sample_page :: html_doc where
  "sample_page = \<lparr>hd_pieces = [Doctype (js ''DOCTYPE html''), Space 10, Comment (js '' saved '')], hd_html = js ''HTML'',
     hd_attrs = js '' lang='' @ [34] @ js ''en'' @ [34], hd_space = [10], hd_rest = js ''<body></body></html>''\<rparr>"

lemma sample_page_ok: "doc_ok sample_page"
proof -
  have "\<not> tag_test ''<head'' (doc_text sample_page)"
    by (simp add: sample_page_def doc_text_def js_def tag_here_def prefix_ci_def ascii_lower_def)
  moreover have "doctype_ok (js ''DOCTYPE html'')"
    unfolding doctype_ok_def
    by (intro exI [of _ "js ''DOCTYPE''"] exI [of _ "js '' html''"]) (simp add: js_def ascii_lower_def attrs_ok_def html_ws_def)
  ultimately show ?thesis
    by (simp add: doc_ok_def) (simp add: sample_page_def js_def ascii_lower_def attrs_ok_def html_ws_def)
qed


text \<open>A document that hides a \<open>head\<close> tag in a comment gets the policy into the comment, and its script runs without one; so
  does one whose first \<open>head\<close> is the start of another tag's name.\<close>

lemma not_policy: "x \<noteq> 109 \<Longrightarrow> \<not> prefix CSP_META (60 # x # s)" "x \<noteq> 109 \<Longrightarrow> \<not> prefix CHARSET_META (60 # x # s)"
  by (subst csp_start(1), simp) (subst csp_start(2), simp)

lemma hidden_head:
  "\<not> governed (buildHtmlDoc (js ''<html><header></header><head>''))"
  "\<not> governed (buildHtmlDoc (js ''<!--<html><head>--><script>''))"
proof -
  have "buildHtmlDoc (js ''<html><header></header><head>'') = js ''<html><header>'' @ CSP_META @ js ''</header><head>''"
    by (simp add: buildHtmlDoc_def js_def tag_here_def prefix_ci_def ascii_lower_def open_tag_def is_ws_def ws_codes_def)
  then show "\<not> governed (buildHtmlDoc (js ''<html><header></header><head>''))"
    by (simp add: governed.simps(2) html_ws_def names_tag_def prefix_ci_def ascii_lower_def js_def not_policy)
  have b: "buildHtmlDoc (js ''<!--<html><head>--><script>'') = js ''<!--<html><head>'' @ CSP_META @ js ''--><script>''"
    by (simp add: buildHtmlDoc_def js_def tag_here_def prefix_ci_def ascii_lower_def open_tag_def)
  have i: "index_of (js ''-->'') (js ''--<html><head>'' @ CSP_META @ js ''--><script>'') = Some 313"
    by code_simp
  have n: "length CSP_META = 299" by (simp add: CSP_META_def TRUSTED_CSP_def q39_def)
  show "\<not> governed (buildHtmlDoc (js ''<!--<html><head>--><script>''))"
    unfolding b using i n
    by (simp add: governed.simps(2) html_ws_def names_tag_def prefix_ci_def ascii_lower_def js_def not_policy)
qed
end
