(* ===== verification/AgentStore.thy ===== *)
theory AgentStore
  imports StoreProps Prompt Hydration "HOL-Library.AList"
begin

text \<open>
  The agents and memories of the page, \<open>data-provider/Agents\<close> and \<open>data-provider/Memories\<close>: reading and writing them
  through the device store, and what the mutations do to the query cache. An object under construction is a
  list of properties whose values may be undefined (None); its JSON has those that are defined.
\<close>

type_synonym obj = "(jsstring \<times> json option) list"

definition obj_get :: "obj \<Rightarrow> string \<Rightarrow> json option" where
  "obj_get a k = (case map_of a (js k) of Some (Some v) \<Rightarrow> Some v | _ \<Rightarrow> None)"

definition obj_json :: "obj \<Rightarrow> json" where
  "obj_json a = JObj (List.map_filter (\<lambda>(k, v). map_option (Pair k) v) a)"

definition json_obj :: "json \<Rightarrow> obj" where
  "json_obj j = map (\<lambda>(k, v). (k, Some v)) (AList.clearjunk (spread j))"

subsection \<open>Waiting for the store\<close>

text \<open>\<open>for (i < 40 && !isOpen) await 100ms\<close>; \<open>open_at i\<close> is \<open>isOpen\<close> after i waits. The result is what the check after the
  loop reads.\<close>

function wait_open :: "(nat \<Rightarrow> bool) \<Rightarrow> nat \<Rightarrow> bool" where
  "wait_open open_at i = (if i < 40 \<and> \<not> open_at i then wait_open open_at (Suc i) else open_at i)"
  by auto
termination by (relation "measure (\<lambda>(_, i). 40 - i)") auto

declare wait_open.simps [simp del]

subsection \<open>Agents\<close>

definition newAgentId :: "jsstring \<Rightarrow> jsstring" where
  "newAgentId random = js ''agent_'' @ take 24 (filter (\<lambda>c. c \<noteq> of_char (CHR ''-'')) random)"

text \<open>A property the types declare as a string, or as a string or null.\<close>

definition str_or :: "jsstring \<Rightarrow> json option \<Rightarrow> jsstring" where
  "str_or dflt v = (case v of Some (JStr s) \<Rightarrow> s | _ \<Rightarrow> dflt)"

definition nullable_str :: "json option \<Rightarrow> jsstring option" where
  "nullable_str v = (case v of Some (JStr s) \<Rightarrow> Some s | _ \<Rightarrow> None)"

definition agentToStored :: "platform \<Rightarrow> jsnum \<Rightarrow> obj \<Rightarrow> StoredAgent" where
  "agentToStored p now agent =
     \<lparr>ag_agentId = str_or [] (obj_get agent ''id''), ag_name = str_or (js ''Agent'') (obj_get agent ''name''),
      ag_description = nullable_str (obj_get agent ''description''),
      ag_instructions = nullable_str (obj_get agent ''instructions''), ag_model = nullable_str (obj_get agent ''model''),
      ag_provider = nullable_str (obj_get agent ''provider''),
      ag_tools = (case obj_get agent ''tools'' of
                    Some t \<Rightarrow> if truthy (Some t) then Some (p_stringify p t) else None | None \<Rightarrow> None),
      ag_configJson = p_stringify p (obj_json agent),
      ag_createdAt = (case obj_get agent ''created_at'' of Some (JNum n) \<Rightarrow> n | _ \<Rightarrow> now),
      ag_updatedAt = now\<rparr>"

text \<open>\<open>params.k ?? d\<close>.\<close>

definition obj_or :: "obj \<Rightarrow> string \<Rightarrow> json \<Rightarrow> json" where
  "obj_or a k d = (case obj_get a k of Some v \<Rightarrow> if v = JNull then d else v | None \<Rightarrow> d)"

definition createAgentInStore :: "platform \<Rightarrow> jsstring \<Rightarrow> jsnum \<Rightarrow> jsnum \<Rightarrow> obj \<Rightarrow> obj \<times> request_body" where
  "createAgentInStore p random now1 now2 params =
     (let i = newAgentId random;
          agent = with_props
            [(js ''id'', Some (JStr i)), (js ''name'', Some (obj_or params ''name'' (JStr (js ''New Agent'')))),
             (js ''description'', Some (obj_or params ''description'' JNull)),
             (js ''instructions'', Some (obj_or params ''instructions'' JNull)),
             (js ''model'', Some (obj_or params ''model'' JNull)),
             (js ''provider'', Some (obj_or params ''provider'' (JStr (js ''caladon'')))),
             (js ''tools'', Some (obj_or params ''tools'' (JArr []))),
             (js ''model_parameters'', Some (obj_or params ''model_parameters'' (JObj []))),
             (js ''avatar'', Some (obj_or params ''avatar'' JNull)), (js ''created_at'', Some (JNum now1))] params;
          agent' = put_prop agent (js ''id'', Some (JStr i))
      in (agent', UPSERT_AGENT (agentToStored p now2 agent')))"

text \<open>\<open>existing\<close> is the answer to GET_AGENT.\<close>

definition updateAgentInStore ::
  "platform \<Rightarrow> jsnum \<Rightarrow> jsstring \<Rightarrow> obj \<Rightarrow> StoredAgent option \<Rightarrow> cerror + (obj \<times> request_body)" where
  "updateAgentInStore p now agent_id data existing =
     (case (case existing of None \<Rightarrow> Inr [(js ''id'', Some (JStr agent_id))]
            | Some row \<Rightarrow> map_sum id json_obj (storedToAgent p row)) of
        Inl e \<Rightarrow> Inl e
      | Inr old \<Rightarrow>
          let merged = put_prop (with_props old data) (js ''id'', Some (JStr agent_id))
          in Inr (merged, UPSERT_AGENT (agentToStored p now merged)))"

subsection \<open>Reading agents\<close>

datatype agent_error = AgentNotFound jsstring | StoredJson cerror

text \<open>\<open>rows\<close> and \<open>row\<close> are the answers of the store.\<close>

fun collect_agents :: "platform \<Rightarrow> StoredAgent list \<Rightarrow> cerror + json list" where
  "collect_agents p [] = Inr []"
| "collect_agents p (r # rs) =
     (case storedToAgent p r of
        Inl e \<Rightarrow> Inl e
      | Inr a \<Rightarrow> (case collect_agents p rs of Inl e \<Rightarrow> Inl e | Inr as \<Rightarrow> Inr (a # as)))"

definition id_or_null :: "json list \<Rightarrow> nat \<Rightarrow> json" where
  "id_or_null as i =
     (if i < length as then (case getProp (as ! i) (js ''id'') of Some v \<Rightarrow> v | None \<Rightarrow> JNull) else JNull)"

definition fetchAllAgentPages :: "platform \<Rightarrow> (nat \<Rightarrow> bool) \<Rightarrow> StoredAgent list \<Rightarrow> cerror + json" where
  "fetchAllAgentPages p open_at rows =
     (case collect_agents p (if wait_open open_at 0 then rows else []) of
        Inl e \<Rightarrow> Inl e
      | Inr as \<Rightarrow> Inr (JObj
          [(js ''object'', JStr (js ''list'')), (js ''data'', JArr as), (js ''has_more'', JBool False),
           (js ''after'', JNull), (js ''first_id'', id_or_null as 0),
           (js ''last_id'', if as = [] then JNull else id_or_null as (length as - 1))]))"

definition fetchStoredAgent :: "platform \<Rightarrow> (nat \<Rightarrow> bool) \<Rightarrow> jsstring \<Rightarrow> StoredAgent option \<Rightarrow> agent_error + json" where
  "fetchStoredAgent p open_at agent_id row =
     (case (if wait_open open_at 0 then row else None) of
        None \<Rightarrow> Inl (AgentNotFound agent_id)
      | Some r \<Rightarrow> map_sum StoredJson id (storedToAgent p r))"

text \<open>When a query runs at all; \<open>enabled\<close> is the property of the caller's configuration. The list query joins it with
  the endpoint; the query of one agent spreads the configuration last, so that it replaces the check of the id.\<close>

definition get_agent_enabled :: "(jsstring \<Rightarrow> bool) \<Rightarrow> bool option \<Rightarrow> jsstring option \<Rightarrow> bool" where
  "get_agent_enabled isEphemeralAgent enabled agent_id =
     (let isValidAgentId = (nullish agent_id [] \<noteq> [] \<and> \<not> isEphemeralAgent (nullish agent_id [])) in
      case enabled of Some b \<Rightarrow> b | None \<Rightarrow> isValidAgentId)"

definition list_agents_enabled :: "bool \<Rightarrow> bool option \<Rightarrow> bool" where
  "list_agents_enabled agents_endpoint enabled = (case enabled of Some b \<Rightarrow> b \<and> agents_endpoint | None \<Rightarrow> agents_endpoint)"

subsection \<open>Memories\<close>

record user_memory =
  um_key :: jsstring
  um_value :: jsstring
  um_tokenCount :: nat
  um_updated_at :: jsstring

record memories_response =
  mq_memories :: "user_memory list"
  mq_totalTokens :: nat

text \<open>\<open>tokenLimit\<close> and \<open>usagePercentage\<close> are null in every response. A date out of range throws (None).\<close>

definition toUserMemory :: "(jsnum \<Rightarrow> jsstring option) \<Rightarrow> StoredMemory \<Rightarrow> user_memory option" where
  "toUserMemory iso_of m =
     map_option (\<lambda>d. \<lparr>um_key = my_key m, um_value = my_value m, um_tokenCount = my_tokenCount m, um_updated_at = d\<rparr>)
       (iso_of (my_updatedAt m))"

definition readMemories :: "(jsnum \<Rightarrow> jsstring option) \<Rightarrow> (nat \<Rightarrow> bool) \<Rightarrow> StoredMemory list \<Rightarrow> memories_response option" where
  "readMemories iso_of open_at rows =
     (if \<not> wait_open open_at 0 then Some \<lparr>mq_memories = [], mq_totalTokens = 0\<rparr>
      else map_option (\<lambda>ms. \<lparr>mq_memories = ms, mq_totalTokens = foldl (\<lambda>n m. n + um_tokenCount m) 0 ms\<rparr>)
        (those (map (toUserMemory iso_of) rows)))"

text \<open>Update and create: the request, and the memory the page shows at once; \<open>now\<close> is the clock's ISO form.\<close>

definition shown_memory :: "jsstring \<Rightarrow> jsstring \<Rightarrow> jsstring \<Rightarrow> user_memory" where
  "shown_memory now key v = \<lparr>um_key = key, um_value = v, um_tokenCount = estimateTokens v, um_updated_at = now\<rparr>"

definition updateMemory :: "jsstring \<Rightarrow> jsstring \<Rightarrow> jsstring \<Rightarrow> jsstring option \<Rightarrow> request_body \<times> user_memory" where
  "updateMemory now key v originalKey = (UPSERT_MEMORY key v originalKey, shown_memory now key v)"

definition createMemory :: "jsstring \<Rightarrow> jsstring \<Rightarrow> jsstring \<Rightarrow> request_body \<times> user_memory" where
  "createMemory now key v = (UPSERT_MEMORY key v None, shown_memory now key v)"

text \<open>The preference: \<open>localStorage\<close> may throw, the answer is the same.\<close>

definition updateMemoryPreferences :: "bool \<Rightarrow> bool \<Rightarrow> (jsstring \<rightharpoonup> jsstring) \<Rightarrow> (bool \<times> bool) \<times> (jsstring \<rightharpoonup> jsstring)" where
  "updateMemoryPreferences storage_ok use storage =
     ((True, use),
      if storage_ok then storage(js ''caladon:memoryEnabled'' \<mapsto> (if use then js ''1'' else js ''0'')) else storage)"

subsection \<open>What is written is read back\<close>

lemma wait_open_iff: "i \<le> 40 \<Longrightarrow> wait_open open_at i \<longleftrightarrow> (\<exists>j. i \<le> j \<and> j \<le> 40 \<and> open_at j)"
proof (induction open_at i rule: wait_open.induct)
  case (1 open_at i)
  show ?case
  proof (cases "i < 40 \<and> \<not> open_at i")
    case True
    have "(\<exists>j. Suc i \<le> j \<and> j \<le> 40 \<and> open_at j) \<longleftrightarrow> (\<exists>j. i \<le> j \<and> j \<le> 40 \<and> open_at j)"
      using True by (metis Suc_leD le_antisym not_less_eq_eq)
    then show ?thesis using 1(1) [OF True] True by (subst wait_open.simps) simp
  next
    case False
    then have "wait_open open_at i = open_at i" by (subst wait_open.simps) (simp only: if_False)
    then show ?thesis using False 1(2) by (metis le_antisym le_refl not_le)
  qed
qed

lemma map_of_with_props: "map_of (with_props a b) = map_of a ++ map_of (rev b)"
  unfolding with_props_def
proof (induction b arbitrary: a)
  case (Cons p b)
  have "map_of (foldl put_prop (put_prop a p) b) = map_of (put_prop a p) ++ map_of (rev b)" by (rule Cons)
  then show ?case by (cases p) (simp add: map_add_upd)
qed simp

lemma map_of_with_distinct: "distinct (map fst b) \<Longrightarrow> map_of (with_props a b) = map_of a ++ map_of b"
  using map_of_inject_set [of "rev b" b] by (simp add: map_of_with_props rev_map [symmetric])

definition obj_ok :: "obj \<Rightarrow> bool" where
  "obj_ok a \<longleftrightarrow> distinct (map fst a)"

lemma obj_ok_put: "obj_ok a \<Longrightarrow> obj_ok (put_prop a p)"
proof (cases "fst p \<in> fst ` set a")
  case True
  have "map fst (map (\<lambda>q. if fst q = fst p then p else q) a) = map fst a" by (induction a) auto
  moreover assume "obj_ok a"
  ultimately show ?thesis using True by (simp add: obj_ok_def put_prop_def del: map_map)
qed (simp add: obj_ok_def put_prop_def)

lemma obj_ok_with: "obj_ok a \<Longrightarrow> obj_ok (with_props a b)"
  unfolding with_props_def by (induction b arbitrary: a) (simp_all add: obj_ok_put)

lemma getProp_obj_json:
  "obj_ok a \<Longrightarrow> getProp (obj_json a) k = (case map_of a k of Some (Some v) \<Rightarrow> Some v | _ \<Rightarrow> None)"
proof -
  let ?l = "\<lambda>a. map_of (List.map_filter (\<lambda>(k, v). map_option (Pair k) v) a) k"
  assume "obj_ok a"
  then have "?l a = (case map_of a k of Some (Some v) \<Rightarrow> Some v | _ \<Rightarrow> None)"
  proof (induction a)
    case (Cons p a)
    obtain j v where p: "p = (j, v)" by fastforce
    have IH: "?l a = (case map_of a k of Some (Some v) \<Rightarrow> Some v | _ \<Rightarrow> None)"
      using Cons by (simp add: obj_ok_def)
    have n: "map_of a j = None" using Cons.prems by (simp add: obj_ok_def p map_of_eq_None_iff)
    show ?case using IH n by (cases v) (auto simp: p List.map_filter_simps)
  qed (simp add: List.map_filter_simps)
  then show ?thesis by (simp add: obj_json_def)
qed

lemma obj_ok_json: "obj_ok (json_obj j)"
  by (simp add: obj_ok_def json_obj_def o_def case_prod_beta distinct_clearjunk)

lemma map_of_json_obj: "map_of (json_obj (JObj kvs)) k = map_option Some (map_of kvs k)"
proof -
  have "map_of (map (\<lambda>(k, v). (k, Some v)) l) k = map_option Some (map_of l k)" for l :: "(jsstring \<times> json) list"
    by (induction l) auto
  then show ?thesis by (simp add: json_obj_def map_of_clearjunk)
qed

text \<open>The values the types of an agent allow for the properties that have a column of their own.\<close>

definition typed_prop :: "jsstring \<Rightarrow> json \<Rightarrow> bool" where
  "typed_prop k v \<longleftrightarrow>
     (k \<in> {js ''id'', js ''name'', js ''provider''} \<longrightarrow> (\<exists>s. v = JStr s))
   \<and> (k \<in> {js ''instructions'', js ''model''} \<longrightarrow> v = JNull \<or> (\<exists>s. v = JStr s))
   \<and> (k = js ''tools'' \<longrightarrow> truthy (Some v))"

lemma column_names: "distinct [js ''id'', js ''name'', js ''instructions'', js ''model'', js ''provider'', js ''tools'']"
  by (simp add: js_def)

lemma columns:
  fixes row tls agent
  defines "a \<equiv> JObj (
          [(js ''id'', JStr (ag_agentId row)), (js ''name'', JStr (ag_name row)),
           (js ''instructions'', opt_str (ag_instructions row)), (js ''model'', opt_str (ag_model row)),
           (js ''provider'', JStr (nullish (ag_provider row) (js ''caladon'')))]
          @ (case tls of Some t \<Rightarrow> [(js ''tools'', t)] | None \<Rightarrow> [])
          @ spread (obj_json agent)
          @ [(js ''description'', opt_str (ag_description row)), (js ''model_parameters'', JObj []),
             (js ''avatar'', JNull), (js ''created_at'', JNum (ag_createdAt row))])"
  shows "getProp a (js ''id'') = Some (JStr (ag_agentId row))" "getProp a (js ''name'') = Some (JStr (ag_name row))"
    "getProp a (js ''instructions'') = Some (opt_str (ag_instructions row))"
    "getProp a (js ''model'') = Some (opt_str (ag_model row))"
    "getProp a (js ''provider'') = Some (JStr (nullish (ag_provider row) (js ''caladon'')))"
    "tls = Some t \<Longrightarrow> getProp a (js ''tools'') = Some t"
  using column_names unfolding a_def by simp_all

lemma stored_reads_back:
  assumes "obj_ok agent" "p_parse p (p_stringify p (obj_json agent)) = Some (obj_json agent)"
    and "\<And>t. obj_get agent ''tools'' = Some t \<Longrightarrow> p_parse p (p_stringify p t) = Some t"
    and "row = (agentToStored p now agent)\<lparr>ag_createdAt := c\<rparr>"
  shows "\<exists>a. storedToAgent p row = Inr a
    \<and> (\<forall>k v. map_of agent k = Some (Some v) \<longrightarrow> typed_prop k v \<longrightarrow> getProp a k = Some v)"
proof -
  have g: "getProp (obj_json agent) (js k) = obj_get agent k" for k
    by (simp add: getProp_obj_json [OF assms(1)] obj_get_def split: option.split)
  define tls where "tls = obj_get agent ''tools''"
  define a where "a = JObj (
          [(js ''id'', JStr (ag_agentId row)), (js ''name'', JStr (ag_name row)),
           (js ''instructions'', opt_str (ag_instructions row)), (js ''model'', opt_str (ag_model row)),
           (js ''provider'', JStr (nullish (ag_provider row) (js ''caladon'')))]
          @ (case tls of Some t \<Rightarrow> [(js ''tools'', t)] | None \<Rightarrow> [])
          @ spread (obj_json agent)
          @ [(js ''description'', opt_str (ag_description row)), (js ''model_parameters'', JObj []),
             (js ''avatar'', JNull), (js ''created_at'', JNum (ag_createdAt row))])"
  have parsed: "nullish (p_parse p (ag_configJson row)) (JObj []) = obj_json agent"
    by (simp add: assms(2,4) agentToStored_def)
  have "get_prop (obj_json agent) ''tools'' = Inr tls" using g [of "''tools''"] by (simp add: obj_json_def tls_def)
  moreover have "p_parse p (the (ag_tools row)) = Some (the tls) \<and> tls \<noteq> None" if "nullish (ag_tools row) [] \<noteq> []"
    using that assms(3) by (auto simp: assms(4) agentToStored_def tls_def split: option.splits if_splits)
  ultimately have "storedToAgent p row = Inr a"
    unfolding storedToAgent_def Let_def parsed a_def by (cases "nullish (ag_tools row) [] = []") auto
  note stored = this
  have row: "ag_agentId row = str_or [] (obj_get agent ''id'')" "ag_name row = str_or (js ''Agent'') (obj_get agent ''name'')"
    "ag_instructions row = nullable_str (obj_get agent ''instructions'')" "ag_model row = nullable_str (obj_get agent ''model'')"
    "ag_provider row = nullable_str (obj_get agent ''provider'')"
    by (simp_all add: assms(4) agentToStored_def)
  note col = columns [where row = row and tls = tls and agent = agent, folded a_def, unfolded row]
  have "getProp a k = Some v" if v: "map_of agent k = Some (Some v)" "typed_prop k v" for k v
  proof (cases "k \<in> set [js ''id'', js ''name'', js ''instructions'', js ''model'', js ''provider'', js ''tools'']")
    case True
    have own: "obj_get agent s = Some v" if "k = js s" for s using v(1) that by (simp add: obj_get_def)
    from True consider "k = js ''id''" | "k = js ''name''" | "k = js ''instructions''" | "k = js ''model''"
      | "k = js ''provider''" | "k = js ''tools''" by auto
    then show ?thesis
    proof cases
      case 1
      then show ?thesis using v(2) own [OF 1] col(1) by (auto simp: typed_prop_def str_or_def)
    next
      case 2
      then show ?thesis using v(2) own [OF 2] col(2) by (auto simp: typed_prop_def str_or_def)
    next
      case 3
      then show ?thesis using v(2) own [OF 3] col(3) by (auto simp: typed_prop_def nullable_str_def opt_str_def)
    next
      case 4
      then show ?thesis using v(2) own [OF 4] col(4) by (auto simp: typed_prop_def nullable_str_def opt_str_def)
    next
      case 5
      then show ?thesis using v(2) own [OF 5] col(5) by (auto simp: typed_prop_def nullable_str_def)
    next
      case 6
      then show ?thesis using own [OF 6] col(6) by (simp add: tls_def)
    qed
  next
    case False
    have "map_of (spread (obj_json agent)) k = Some v"
      using getProp_obj_json [OF assms(1), of k] v(1) by (simp add: obj_json_def)
    moreover have "map_of (case tls of Some t \<Rightarrow> [(js ''tools'', t)] | None \<Rightarrow> []) k = None"
      using False by (cases tls) auto
    ultimately show ?thesis using False by (simp add: a_def map_add_def)
  qed
  with stored show ?thesis by blast
qed

lemma typed_old: "storedToAgent p row = Inr a \<Longrightarrow> \<exists>kvs. a = JObj kvs"
  by (auto simp: storedToAgent_def Let_def split: sum.splits if_splits option.splits)

lemma update_merged:
  assumes "updateAgentInStore p now i data existing = Inr (merged, req)" "obj_ok data"
  obtains old where "case existing of None \<Rightarrow> old = JObj [(js ''id'', JStr i)] | Some row \<Rightarrow> storedToAgent p row = Inr old"
    "req = UPSERT_AGENT (agentToStored p now merged)" "obj_ok merged"
    "map_of merged = ((\<lambda>x. map_option Some (getProp old x)) ++ map_of data)(js ''id'' \<mapsto> Some (JStr i))"
proof -
  obtain base where b: "(case existing of None \<Rightarrow> Inr [(js ''id'', Some (JStr i))]
      | Some row \<Rightarrow> map_sum id json_obj (storedToAgent p row)) = (Inr base :: cerror + obj)"
    and m: "merged = put_prop (with_props base data) (js ''id'', Some (JStr i))"
    and r: "req = UPSERT_AGENT (agentToStored p now merged)"
    using assms(1) by (auto simp: updateAgentInStore_def Let_def split: sum.splits)
  have mo: "map_of merged = (map_of base ++ map_of data)(js ''id'' \<mapsto> Some (JStr i))"
    using assms(2) by (simp add: m obj_ok_def map_of_with_distinct)
  show ?thesis
  proof (cases existing)
    case None
    then have "base = [(js ''id'', Some (JStr i))]" using b by simp
    moreover from this have "obj_ok base" by (simp add: obj_ok_def)
    then have "obj_ok merged" unfolding m by (intro obj_ok_put obj_ok_with)
    ultimately show ?thesis using that [of "JObj [(js ''id'', JStr i)]"] None r mo by (auto simp: fun_eq_iff map_add_def split: option.split)
  next
    case (Some row)
    then obtain old where o: "storedToAgent p row = Inr old" "base = json_obj old"
      using b by (cases "storedToAgent p row") auto
    obtain kvs where k: "old = JObj kvs" using typed_old [OF o(1)] by blast
    have "map_of base = (\<lambda>x. map_option Some (getProp old x))" by (rule ext) (simp add: o(2) k map_of_json_obj)
    moreover have "obj_ok merged" by (simp add: m o(2) obj_ok_put obj_ok_with obj_ok_json)
    ultimately show ?thesis using that [of old] Some o(1) r mo by simp
  qed
qed

subsection \<open>Properties\<close>

text \<open>C34. An update of an agent is what is read afterwards: when the page has merged a patch into the agent the store
  answered with and the worker has served the write, reading the agent gives its id, every property of the
  patch, and every other property it had before, whatever the patch and the old agent hold - within the
  types of the properties that have columns, and if the platform reads back the JSON it wrote.\<close>

theorem agent_update_reads_back:
  assumes "opened s d" and "obj_ok data"
    and "updateAgentInStore p now i data (agent_find i d) = Inr (merged, req)"
    and "p_parse p (p_stringify p (obj_json merged)) = Some (obj_json merged)"
    and "\<And>t. obj_get merged ''tools'' = Some t \<Longrightarrow> p_parse p (p_stringify p t) = Some t"
  shows "\<exists>row a. answer env (GET_AGENT i) (after env req s) = AGENT (Some row)
    \<and> fetchStoredAgent p (\<lambda>_. True) i (Some row) = Inr a \<and> getProp a (js ''id'') = Some (JStr i)
    \<and> (\<forall>k v. k \<noteq> js ''id'' \<longrightarrow> typed_prop k v \<longrightarrow> map_of data k = Some (Some v) \<longrightarrow> getProp a k = Some v)
    \<and> (\<forall>old k v. map_option (storedToAgent p) (agent_find i d) = Some (Inr old) \<longrightarrow> k \<notin> fst ` set data \<longrightarrow> k \<noteq> js ''id''
         \<longrightarrow> typed_prop k v \<longrightarrow> getProp old k = Some v \<longrightarrow> getProp a k = Some v)"
proof -
  obtain old where m: "case agent_find i d of None \<Rightarrow> old = JObj [(js ''id'', JStr i)] | Some row \<Rightarrow> storedToAgent p row = Inr old"
    "req = UPSERT_AGENT (agentToStored p now merged)" "obj_ok merged"
    "map_of merged = ((\<lambda>x. map_option Some (getProp old x)) ++ map_of data)(js ''id'' \<mapsto> Some (JStr i))"
    using update_merged [OF assms(3,2)] by blast
  let ?new = "agentToStored p now merged" and ?d = "agents.exec (Put (agentToStored p now merged)) d"
  have i: "ag_agentId ?new = i" using m(4) by (simp add: agentToStored_def obj_get_def str_or_def)
  have after: "after env req s = put_db ?d s"
    using agent_request_exec [OF assms(1), of env "Put ?new"] by (simp add: m(2))
  have o: "opened (after env req s) ?d"
    unfolding after by (rule put_db_open [OF assms(1) agents.ok_exec [OF openedD(2) [OF assms(1)]] tables_exec(1)])
  define row where "row = (case agent_find i d of None \<Rightarrow> ?new | Some x \<Rightarrow> agent_merge x ?new)"
  have "agent_find i ?d = Some row"
    using agents.find_put [OF openedD(2) [OF assms(1)], of i ?new] i by (simp add: row_def)
  then have ans: "answer env (GET_AGENT i) (after env req s) = AGENT (Some row)"
    unfolding answer_eq(1) [of env "GET_AGENT i"] handle_body.simps getAgent_def andThen_def query_open [OF o]
    by (simp add: reply_def ret_def)
  have "\<exists>c. row = ?new\<lparr>ag_createdAt := c\<rparr>"
  proof (cases "agent_find i d")
    case None
    then show ?thesis by (intro exI [of _ "ag_createdAt ?new"]) (simp add: row_def)
  next
    case (Some x)
    have "ag_agentId x = ag_agentId ?new" using agents.find_key [OF openedD(2) [OF assms(1)] Some] i by simp
    then show ?thesis using Some by (intro exI [of _ "ag_createdAt x"]) (simp add: row_def agent_merge_def)
  qed
  then obtain c where c: "row = ?new\<lparr>ag_createdAt := c\<rparr>" by blast
  obtain a where a: "storedToAgent p row = Inr a"
    and rd: "\<And>k v. map_of merged k = Some (Some v) \<Longrightarrow> typed_prop k v \<Longrightarrow> getProp a k = Some v"
    using stored_reads_back [OF m(3) assms(4,5) c] by blast
  have "fetchStoredAgent p (\<lambda>_. True) i (Some row) = Inr a"
    by (simp add: fetchStoredAgent_def wait_open_iff a) auto
  moreover have "getProp a (js ''id'') = Some (JStr i)"
    using column_names by (intro rd) (auto simp: m(4) typed_prop_def)
  moreover have "getProp a k = Some v" if "k \<noteq> js ''id''" "typed_prop k v" "map_of data k = Some (Some v)" for k v
    using that by (intro rd) (simp_all add: m(4))
  moreover have "getProp a k = Some v"
    if "map_option (storedToAgent p) (agent_find i d) = Some (Inr old')" "k \<notin> fst ` set data" "k \<noteq> js ''id''"
      "typed_prop k v" "getProp old' k = Some v" for old' k v
  proof (rule rd)
    have "old' = old" using that(1) m(1) by (auto split: option.splits)
    moreover have "map_of data k = None" using that(2) by (simp add: map_of_eq_None_iff)
    ultimately show "map_of merged k = Some (Some v)" using that(3,5) by (simp add: m(4) map_add_def)
  qed (rule that(4))
  ultimately show ?thesis using ans by blast
qed

definition sample_agent_json :: platform where
  "sample_agent_json = (sample_platform (JObj [(js ''id'', JStr (js ''b'')), (js ''avatar'', JBool True)]))"

lemma agent_update_reads_back_witness:
  "\<exists>merged req row a. updateAgentInStore sample_agent_json 5 (js ''b'') [(js ''avatar'', Some (JBool True))]
       (agent_find (js ''b'') sample_db) = Inr (merged, req)
     \<and> answer sample_env (GET_AGENT (js ''b'')) (after sample_env req sample_state) = AGENT (Some row)
     \<and> fetchStoredAgent sample_agent_json (\<lambda>_. True) (js ''b'') (Some row) = Inr a
     \<and> getProp a (js ''avatar'') = Some (JBool True)"
proof -
  let ?data = "[(js ''avatar'', Some (JBool True))]" and ?m = "[(js ''id'', Some (JStr (js ''b''))), (js ''avatar'', Some (JBool True))]"
  have n: "js ''avatar'' \<noteq> js ''id''" "js ''tools'' \<noteq> js ''id''" "js ''tools'' \<noteq> js ''avatar''"
    "js ''avatar'' \<notin> {js ''id'', js ''name'', js ''provider'', js ''instructions'', js ''model'', js ''tools''}"
    by (simp_all add: js_def)
  have none: "agent_find (js ''b'') sample_db = None"
    by (simp add: agent_find_def sample_db_def sample_agent_def empty_db_def js_def)
  have u: "updateAgentInStore sample_agent_json 5 (js ''b'') ?data (agent_find (js ''b'') sample_db)
      = Inr (?m, UPSERT_AGENT (agentToStored sample_agent_json 5 ?m))"
    using n by (simp add: updateAgentInStore_def none with_props_def put_prop_def Let_def)
  have p: "p_parse sample_agent_json (p_stringify sample_agent_json (obj_json ?m)) = Some (obj_json ?m)"
    by (simp add: sample_agent_json_def sample_platform_def obj_json_def List.map_filter_simps)
  have t: "obj_get ?m ''tools'' = None" using n by (simp add: obj_get_def)
  have "obj_ok ?data" by (simp add: obj_ok_def)
  from agent_update_reads_back [OF sample_opened this u p, of sample_env]
  obtain row a where "answer sample_env (GET_AGENT (js ''b'')) (after sample_env (UPSERT_AGENT (agentToStored sample_agent_json 5 ?m)) sample_state) = AGENT (Some row)"
    "fetchStoredAgent sample_agent_json (\<lambda>_. True) (js ''b'') (Some row) = Inr a"
    "\<And>k v. k \<noteq> js ''id'' \<Longrightarrow> typed_prop k v \<Longrightarrow> map_of ?data k = Some (Some v) \<Longrightarrow> getProp a k = Some v"
    using t by auto
  moreover from this(3) have "getProp a (js ''avatar'') = Some (JBool True)" using n by (simp add: typed_prop_def)
  ultimately show ?thesis using u by blast
qed

text \<open>The panel waits at most forty times a tenth of a second, and reads the store if it opened in that time.\<close>

lemma panel_reads_when_open:
  "readMemories iso_of open_at rows = (if \<exists>j\<le>40. open_at j
     then map_option (\<lambda>ms. \<lparr>mq_memories = ms, mq_totalTokens = foldl (\<lambda>n m. n + um_tokenCount m) 0 ms\<rparr>)
       (those (map (toUserMemory iso_of) rows))
     else Some \<lparr>mq_memories = [], mq_totalTokens = 0\<rparr>)"
  by (auto simp: readMemories_def wait_open_iff)

end
