(* ===== verification/AgentCache.thy ===== *)
theory AgentCache
  imports AgentStore
begin

text \<open>
  What the mutations of \<open>data-provider/Agents/mutations.ts\<close> do to the query cache once the store or the server has
  answered: the two cached lists (by required permission), the single and expanded agents, the actions, the
  invalidations of the marketplace, and the calls of the caller's \<open>onSuccess\<close>.
\<close>

datatype permission = View | Edit

definition allAgentViewAndEditQueryKeys :: "permission list" where
  "allAgentViewAndEditQueryKeys = [View, Edit]"

text \<open>The other properties of a cached list response are \<open>lr_other\<close>.\<close>

record list_response =
  lr_other :: obj
  lr_data :: "obj list"

record agent_action =
  aa_action_id :: jsstring
  aa_domain :: jsstring

record agent_cache =
  ac_lists :: "permission \<Rightarrow> list_response option"
  ac_agent :: "jsstring \<Rightarrow> obj option"
  ac_expanded :: "jsstring \<Rightarrow> obj option"
  ac_actions :: "agent_action list option"
  ac_invalidated :: nat
  ac_callbacks :: nat

definition invalidateAgentMarketplaceQueries :: "agent_cache \<Rightarrow> agent_cache" where
  "invalidateAgentMarketplaceQueries c = c\<lparr>ac_invalidated := Suc (ac_invalidated c)\<rparr>"

definition call_onSuccess :: "agent_cache \<Rightarrow> agent_cache" where
  "call_onSuccess c = c\<lparr>ac_callbacks := Suc (ac_callbacks c)\<rparr>"

definition has_id :: "jsstring \<Rightarrow> obj \<Rightarrow> bool" where
  "has_id i a \<longleftrightarrow> obj_get a ''id'' = Some (JStr i)"

text \<open>\<open>keys.forEach\<close>: a cached list gets a new \<open>data\<close>; one that is not cached is skipped, and most of the hooks then call
  the caller's \<open>onSuccess\<close> (\<open>early\<close>), from inside the loop.\<close>

definition on_list :: "bool \<Rightarrow> (obj list \<Rightarrow> obj list) \<Rightarrow> permission \<Rightarrow> agent_cache \<Rightarrow> agent_cache" where
  "on_list early f key c =
     (case ac_lists c key of
        None \<Rightarrow> if early then call_onSuccess c else c
      | Some r \<Rightarrow> c\<lparr>ac_lists := (ac_lists c)(key \<mapsto> r\<lparr>lr_data := f (lr_data r)\<rparr>)\<rparr>)"

definition on_lists :: "bool \<Rightarrow> (obj list \<Rightarrow> obj list) \<Rightarrow> agent_cache \<Rightarrow> agent_cache" where
  "on_lists early f c = fold (on_list early f) allAgentViewAndEditQueryKeys c"

definition replace_agent :: "jsstring \<Rightarrow> obj \<Rightarrow> obj list \<Rightarrow> obj list" where
  "replace_agent i a as = map (\<lambda>x. if has_id i x then a else x) as"

definition set_single :: "jsstring \<Rightarrow> obj \<Rightarrow> agent_cache \<Rightarrow> agent_cache" where
  "set_single i a c = c\<lparr>ac_agent := (ac_agent c)(i \<mapsto> a), ac_expanded := (ac_expanded c)(i \<mapsto> a)\<rparr>"

text \<open>\<open>JSON.parse(JSON.stringify(data))\<close> drops what is undefined.\<close>

definition json_copy :: "obj \<Rightarrow> obj" where
  "json_copy a = filter (\<lambda>(k, v). v \<noteq> None) a"

definition on_created :: "obj \<Rightarrow> agent_cache \<Rightarrow> agent_cache" where
  "on_created newAgent c =
     call_onSuccess (invalidateAgentMarketplaceQueries (on_lists True (\<lambda>as. newAgent # map json_copy as) c))"

definition on_updated :: "jsstring \<Rightarrow> obj \<Rightarrow> agent_cache \<Rightarrow> agent_cache" where
  "on_updated agent_id updatedAgent c =
     call_onSuccess (invalidateAgentMarketplaceQueries (set_single agent_id updatedAgent
       (on_lists True (replace_agent agent_id updatedAgent) c)))"

definition on_deleted :: "jsstring \<Rightarrow> agent_cache \<Rightarrow> agent_cache" where
  "on_deleted agent_id c =
     call_onSuccess (invalidateAgentMarketplaceQueries
       (let c' = on_lists True (filter (\<lambda>a. \<not> has_id agent_id a)) c
        in c'\<lparr>ac_agent := (ac_agent c')(agent_id := None), ac_expanded := (ac_expanded c')(agent_id := None)\<rparr>))"

definition on_duplicated :: "obj \<Rightarrow> agent_action list \<Rightarrow> agent_cache \<Rightarrow> agent_cache" where
  "on_duplicated agent acts c =
     call_onSuccess (invalidateAgentMarketplaceQueries
       (let c' = on_lists False (\<lambda>as. agent # as) c
        in c'\<lparr>ac_actions := Some (nullish (ac_actions c') [] @ acts)\<rparr>))"

definition on_avatar :: "jsstring \<Rightarrow> obj \<Rightarrow> agent_cache \<Rightarrow> agent_cache" where
  "on_avatar agent_id updatedAgent c =
     call_onSuccess (invalidateAgentMarketplaceQueries (set_single agent_id updatedAgent
       (on_lists False (replace_agent agent_id updatedAgent) c)))"

definition put_action :: "jsstring option \<Rightarrow> agent_action \<Rightarrow> agent_action list option \<Rightarrow> agent_action list option" where
  "put_action action_id new prev =
     (case prev of
        None \<Rightarrow> Some [new]
      | Some as \<Rightarrow>
          if nullish action_id [] \<noteq> [] then Some (map (\<lambda>a. if aa_action_id a = nullish action_id [] then new else a) as)
          else Some (as @ [new]))"

definition on_action_updated :: "jsstring \<Rightarrow> jsstring option \<Rightarrow> obj \<Rightarrow> agent_action \<Rightarrow> agent_cache \<Rightarrow> agent_cache" where
  "on_action_updated agent_id action_id updatedAgent new c =
     call_onSuccess (set_single agent_id updatedAgent
       (let c' = on_lists True (replace_agent agent_id updatedAgent) c
        in c'\<lparr>ac_actions := put_action action_id new (ac_actions c')\<rparr>))"

text \<open>The loop over the actions leaves in \<open>domain\<close> the one it saw last; the tools whose name contains it are dropped.\<close>

definition last_domain :: "agent_action list option \<Rightarrow> jsstring" where
  "last_domain acts = (case acts of None \<Rightarrow> [] | Some as \<Rightarrow> fold (\<lambda>a d. aa_domain a) as [])"

definition drop_tools :: "jsstring \<Rightarrow> obj \<Rightarrow> obj" where
  "drop_tools domain a =
     put_prop a (js ''tools'',
       case obj_get a ''tools'' of
         Some (JArr ts) \<Rightarrow> Some (JArr (filter (\<lambda>t. case t of JStr s \<Rightarrow> \<not> str_includes s domain | _ \<Rightarrow> True) ts))
       | _ \<Rightarrow> None)"

definition on_action_deleted :: "jsstring \<Rightarrow> jsstring \<Rightarrow> agent_cache \<Rightarrow> agent_cache" where
  "on_action_deleted agent_id action_id c =
     (let domain = last_domain (ac_actions c);
          c1 = c\<lparr>ac_actions := map_option (filter (\<lambda>a. aa_action_id a \<noteq> action_id)) (ac_actions c)\<rparr>;
          c2 = on_lists False (map (\<lambda>a. if has_id agent_id a then drop_tools domain a else a)) c1
      in call_onSuccess (c2\<lparr>ac_agent := (ac_agent c2)(agent_id := map_option (drop_tools domain) (ac_agent c2 agent_id)),
           ac_expanded := (ac_expanded c2)(agent_id := map_option (drop_tools domain) (ac_expanded c2 agent_id))\<rparr>))"

definition on_reverted :: "jsstring \<Rightarrow> obj \<Rightarrow> agent_cache \<Rightarrow> agent_cache" where
  "on_reverted agent_id revertedAgent c =
     call_onSuccess (on_lists False (replace_agent agent_id revertedAgent)
       (c\<lparr>ac_agent := (ac_agent c)(agent_id \<mapsto> revertedAgent)\<rparr>))"

subsection \<open>The cached lists as finite maps\<close>

text \<open>What a reader of a cached list finds under an id, undefined properties apart.\<close>

definition listed :: "obj list \<Rightarrow> jsstring \<Rightarrow> obj option" where
  "listed as i = map_option json_copy (find (has_id i) as)"

datatype agent_mutation = Created jsstring obj | Updated jsstring obj | Deleted jsstring

fun cache_step :: "agent_mutation \<Rightarrow> agent_cache \<Rightarrow> agent_cache" where
  "cache_step (Created i a) = on_created a"
| "cache_step (Updated i a) = on_updated i a"
| "cache_step (Deleted i) = on_deleted i"

fun map_step :: "agent_mutation \<Rightarrow> (jsstring \<rightharpoonup> obj) \<Rightarrow> (jsstring \<rightharpoonup> obj)" where
  "map_step (Created i a) m = m(i \<mapsto> json_copy a)"
| "map_step (Updated i a) m = (if m i = None then m else m(i \<mapsto> json_copy a))"
| "map_step (Deleted i) m = m(i := None)"

fun mutation_ok :: "agent_mutation \<Rightarrow> bool" where
  "mutation_ok (Created i a) = (has_id i a \<and> obj_ok a)"
| "mutation_ok (Updated i a) = (has_id i a \<and> obj_ok a)"
| "mutation_ok (Deleted i) = True"

fun rows_step :: "agent_mutation \<Rightarrow> obj list \<Rightarrow> obj list" where
  "rows_step (Created i a) as = a # map json_copy as"
| "rows_step (Updated i a) as = replace_agent i a as"
| "rows_step (Deleted i) as = filter (\<lambda>a. \<not> has_id i a) as"

lemma map_of_copy: "obj_ok a \<Longrightarrow> map_of (json_copy a) k = (case map_of a k of Some (Some v) \<Rightarrow> Some (Some v) | _ \<Rightarrow> None)"
proof (induction a)
  case (Cons p a)
  obtain j v where p: "p = (j, v)" by fastforce
  have "map_of a j = None" using Cons.prems by (simp add: obj_ok_def p map_of_eq_None_iff)
  then show ?case using Cons by (cases v) (auto simp: p json_copy_def obj_ok_def)
qed (simp add: json_copy_def)

lemma obj_ok_copy: "obj_ok a \<Longrightarrow> obj_ok (json_copy a)"
  by (simp add: obj_ok_def json_copy_def distinct_map_filter)

lemma has_id_copy: "obj_ok a \<Longrightarrow> has_id i (json_copy a) = has_id i a"
  by (simp add: has_id_def obj_get_def map_of_copy split: option.split)

lemma copy_copy [simp]: "json_copy (json_copy a) = json_copy a"
  by (simp add: json_copy_def)

lemma has_id_unique: "has_id i a \<Longrightarrow> has_id j a \<longleftrightarrow> j = i"
  by (auto simp: has_id_def)

lemma listed_copies: "\<forall>a\<in>set as. obj_ok a \<Longrightarrow> listed (map json_copy as) = listed as"
  by (rule ext, induction as) (auto simp: listed_def has_id_copy)

lemma listed_step:
  assumes "\<forall>a\<in>set as. obj_ok a" "mutation_ok w"
  shows "listed (rows_step w as) = map_step w (listed as)" "\<forall>a\<in>set (rows_step w as). obj_ok a"
proof -
  show "listed (rows_step w as) = map_step w (listed as)"
  proof (cases w)
    case (Created i a)
    have "listed (a # map json_copy as) j = (if j = i then Some (json_copy a) else listed as j)" for j
      using fun_cong [OF listed_copies [OF assms(1)], of j] assms(2) has_id_unique [of i a j]
      by (simp add: Created listed_def)
    then show ?thesis by (auto simp: Created)
  next
    case (Updated i a)
    have i: "has_id i a" using assms(2) by (simp add: Updated)
    have "listed (replace_agent i a as) j
        = (if j = i \<and> listed as i \<noteq> None then Some (json_copy a) else listed as j)" for j
      by (induction as) (auto simp: listed_def replace_agent_def has_id_unique [OF i] has_id_unique)
    then show ?thesis by (auto simp: Updated fun_eq_iff)
  next
    case (Deleted i)
    have "listed (filter (\<lambda>a. \<not> has_id i a) as) j = (if j = i then None else listed as j)" for j
      by (induction as) (auto simp: listed_def has_id_unique)
    then show ?thesis by (auto simp: Deleted fun_eq_iff)
  qed
  show "\<forall>a\<in>set (rows_step w as). obj_ok a"
    using assms by (cases w) (auto simp: obj_ok_copy replace_agent_def)
qed

lemma on_lists_cached:
  assumes "\<forall>k. ac_lists c k \<noteq> None"
  shows "ac_lists (on_lists e f c) = (\<lambda>k. map_option (\<lambda>r. r\<lparr>lr_data := f (lr_data r)\<rparr>) (ac_lists c k))"
    "ac_callbacks (on_lists e f c) = ac_callbacks c"
proof -
  obtain v ed where l: "ac_lists c View = Some v" "ac_lists c Edit = Some ed" using assms by (metis not_None_eq)
  show "ac_lists (on_lists e f c) = (\<lambda>k. map_option (\<lambda>r. r\<lparr>lr_data := f (lr_data r)\<rparr>) (ac_lists c k))"
    "ac_callbacks (on_lists e f c) = ac_callbacks c"
    using l by (simp_all add: on_lists_def on_list_def allAgentViewAndEditQueryKeys_def fun_eq_iff)
      (metis permission.exhaust)
qed

lemma cache_step_cached:
  assumes "\<forall>k. ac_lists c k \<noteq> None"
  shows "ac_lists (cache_step w c) = (\<lambda>k. map_option (\<lambda>r. r\<lparr>lr_data := rows_step w (lr_data r)\<rparr>) (ac_lists c k))"
    "ac_callbacks (cache_step w c) = Suc (ac_callbacks c)"
  using on_lists_cached [OF assms]
  by (cases w; simp add: on_created_def on_updated_def on_deleted_def call_onSuccess_def
      invalidateAgentMarketplaceQueries_def set_single_def Let_def)+

definition list_of :: "agent_cache \<Rightarrow> permission \<Rightarrow> obj list" where
  "list_of c k = (case ac_lists c k of Some r \<Rightarrow> lr_data r | None \<Rightarrow> [])"

subsection \<open>Properties\<close>

text \<open>C35. The lists the page shows follow the store: once they are cached, any sequence of creations, updates and
  deletions of agents leaves each list, read by id, what the same sequence gives on a finite map - a
  creation puts its agent, an update replaces one that is there, a deletion removes it - with the rest of
  the response as it was, and calls the caller back once for each.\<close>

theorem agent_lists_refine_map:
  assumes "\<forall>k. ac_lists c k \<noteq> None" and "\<forall>k. \<forall>a\<in>set (list_of c k). obj_ok a" and "\<forall>w\<in>set ws. mutation_ok w"
  shows "let c' = fold cache_step ws c in
    listed (list_of c' k) = fold map_step ws (listed (list_of c k))
    \<and> map_option lr_other (ac_lists c' k) = map_option lr_other (ac_lists c k)
    \<and> ac_callbacks c' = ac_callbacks c + length ws"
proof -
  have "listed (list_of (fold cache_step ws c) k) = fold map_step ws (listed (list_of c k))
    \<and> map_option lr_other (ac_lists (fold cache_step ws c) k) = map_option lr_other (ac_lists c k)
    \<and> ac_callbacks (fold cache_step ws c) = ac_callbacks c + length ws"
    using assms
  proof (induction ws arbitrary: c)
    case (Cons w ws)
    let ?c = "cache_step w c"
    have l: "list_of ?c k = rows_step w (list_of c k)" for k
    proof -
      obtain r where "ac_lists c k = Some r" using Cons.prems(1) by blast
      then show ?thesis using cache_step_cached(1) [OF Cons.prems(1), of w] by (simp add: list_of_def)
    qed
    have "mutation_ok w" using Cons.prems(3) by simp
    note s = listed_step [OF _ this]
    have "listed (list_of (fold cache_step ws ?c) k) = fold map_step ws (listed (list_of ?c k))
      \<and> map_option lr_other (ac_lists (fold cache_step ws ?c) k) = map_option lr_other (ac_lists ?c k)
      \<and> ac_callbacks (fold cache_step ws ?c) = ac_callbacks ?c + length ws"
    proof (rule Cons.IH)
      show "\<forall>k. ac_lists ?c k \<noteq> None" using cache_step_cached(1) [OF Cons.prems(1), of w] Cons.prems(1) by simp
      show "\<forall>k. \<forall>a\<in>set (list_of ?c k). obj_ok a" using s(2) Cons.prems(2) unfolding l by blast
      show "\<forall>w\<in>set ws. mutation_ok w" using Cons.prems(3) by simp
    qed
    moreover have "listed (list_of ?c k) = map_step w (listed (list_of c k))" unfolding l by (rule s(1)) (use Cons.prems(2) in blast)
    ultimately show ?case using cache_step_cached [OF Cons.prems(1), of w] by (simp add: option.map_comp o_def)
  qed simp
  then show ?thesis by (simp add: Let_def)
qed

definition sample_cache :: agent_cache where
  "sample_cache = \<lparr>ac_lists = (\<lambda>_. Some \<lparr>lr_other = [], lr_data = []\<rparr>), ac_agent = (\<lambda>_. None), ac_expanded = (\<lambda>_. None),
     ac_actions = None, ac_invalidated = 0, ac_callbacks = 0\<rparr>"

definition sample_obj :: "bool \<Rightarrow> obj" where
  "sample_obj b = [(js ''id'', Some (JStr (js ''a''))), (js ''avatar'', Some (JBool b))]"

lemma agent_lists_refine_map_witness:
  "listed (list_of (fold cache_step [Created (js ''a'') (sample_obj True), Updated (js ''a'') (sample_obj False)] sample_cache) Edit)
     (js ''a'') = Some (json_copy (sample_obj False))"
proof -
  have n: "js ''avatar'' \<noteq> js ''id''" by (simp add: js_def)
  have "has_id (js ''a'') (sample_obj b)" "obj_ok (sample_obj b)" for b
    using n by (simp_all add: has_id_def obj_get_def sample_obj_def obj_ok_def)
  then show ?thesis
    using agent_lists_refine_map [of sample_cache "[Created (js ''a'') (sample_obj True), Updated (js ''a'') (sample_obj False)]" Edit]
    by (simp add: sample_cache_def list_of_def Let_def)
qed

text \<open>A list that is not cached has the caller called back once more, from inside the loop.\<close>

lemma extra_callbacks:
  assumes "\<forall>k. ac_lists c k = None"
  shows "ac_callbacks (on_created a c) = ac_callbacks c + 3"
  using assms by (simp add: on_created_def on_lists_def on_list_def allAgentViewAndEditQueryKeys_def
      call_onSuccess_def invalidateAgentMarketplaceQueries_def)

text \<open>Deleting an action takes from the agent the tools of the last action of the cache, not of the one deleted; with no
  actions cached, every tool.\<close>

lemma wrong_tools_dropped:
  assumes "ac_actions c = Some (as @ [x])" "ac_agent c i = Some a"
  shows "ac_agent (on_action_deleted i action_id c) i = Some (drop_tools (aa_domain x) a)"
proof -
  have "ac_agent (on_lists e f c') = ac_agent c'" for e f c'
    by (simp add: on_lists_def on_list_def allAgentViewAndEditQueryKeys_def call_onSuccess_def split: option.split)
  moreover have "ac_agent (c\<lparr>ac_actions := u\<rparr>) i = Some a" for u using assms(2) by simp
  ultimately show ?thesis
    using assms by (simp add: on_action_deleted_def last_domain_def call_onSuccess_def Let_def)
qed

end
