(* ===== verification/Skills.thy ===== *)
theory Skills
  imports AgentStore Runs
begin

text \<open>
  The skills of the composer, \<open>components/Caladon/SkillsControl.tsx\<close>: the list read from the device store, the active skill
  in the browser's storage, creating and deleting, joined to the store worker and to the injection of
  \<open>lib/skills/inject.ts\<close> (theory \<open>Prompt\<close>). The handlers are asynchronous and so is the model: a handler posts its request and
  the rest of it is a task that runs when the reply comes, with whatever clicks, timers and other replies in between,
  and with the values it closed over. The worker handles the requests one by one in the order they are posted and its
  replies arrive in that order. The page renders between two events. A request that is refused ends its handler silently,
  as in the code.
\<close>

definition ACTIVE_KEY :: jsstring where
  "ACTIVE_KEY = js ''caladon:activeSkillId''"

definition newSkillId :: "bytes \<Rightarrow> jsstring" where
  "newSkillId random = js ''skill_'' @ toHex random"

record skill_env =
  kv_store :: store_env
  kv_storage_ok :: bool

text \<open>What a handler still has to do after the request it awaits: \<open>save\<close> the skill, \<open>remove\<close> an id, with the active id of the
  render it was created in, or \<open>refresh\<close>. A request that was posted and then given up has nobody waiting.\<close>

datatype skill_task =
    Saving StoredSkill
  | Removing jsstring "jsstring option"
  | Listing
  | Given_up request_body

text \<open>The state of the control; the requests before the worker, the replies under way, the \<open>refresh\<close> loops that sleep, each
  with its \<open>i\<close>; and the store of the worker with the proxy's \<open>ready\<close>.\<close>

record skill_ui =
  ku_open :: bool
  ku_skills :: "StoredSkill list"
  ku_activeId :: "jsstring option"
  ku_creating :: bool
  ku_name :: jsstring
  ku_body :: jsstring
  ku_storage :: "jsstring \<Rightarrow> jsstring option"
  ku_posted :: "skill_task list"
  ku_replies :: "(skill_task \<times> response_body) list"
  ku_polls :: "nat list"
  ku_ready :: ready
  ku_store :: wstate

definition new_skill_ui :: "skill_env \<Rightarrow> (jsstring \<Rightarrow> jsstring option) \<Rightarrow> ready \<Rightarrow> wstate \<Rightarrow> skill_ui" where
  "new_skill_ui env storage r w =
     \<lparr>ku_open = False, ku_skills = [], ku_activeId = (if kv_storage_ok env then storage ACTIVE_KEY else None),
      ku_creating = False, ku_name = [], ku_body = [], ku_storage = storage, ku_posted = [], ku_replies = [], ku_polls = [],
      ku_ready = r, ku_store = w\<rparr>"

fun request_of :: "skill_task \<Rightarrow> request_body" where
  "request_of (Saving r) = UPSERT_SKILL r"
| "request_of (Removing i c) = DELETE_SKILL i"
| "request_of Listing = LIST_SKILLS"
| "request_of (Given_up b) = b"

text \<open>A method of the proxy awaits \<open>ready\<close> and posts: on a proxy whose opening failed it rejects, which the handler swallows.\<close>

definition post_task :: "skill_task \<Rightarrow> skill_ui \<Rightarrow> skill_ui" where
  "post_task k s = (case ku_ready s of Failed e \<Rightarrow> s | _ \<Rightarrow> s\<lparr>ku_posted := ku_posted s @ [k]\<rparr>)"

text \<open>The loop of \<open>refresh\<close> at \<open>i\<close>: it sleeps, it asks for the list, or it gives up.\<close>

definition refresh_from :: "nat \<Rightarrow> skill_ui \<Rightarrow> skill_ui" where
  "refresh_from i s =
     (if i < 40 \<and> ku_ready s \<noteq> Opened then s\<lparr>ku_polls := ku_polls s @ [i]\<rparr>
      else if ku_ready s = Opened then post_task Listing s else s)"

definition setActive :: "skill_env \<Rightarrow> jsstring option \<Rightarrow> skill_ui \<Rightarrow> skill_ui" where
  "setActive env i s =
     (let t = s\<lparr>ku_activeId := i\<rparr> in
      if \<not> kv_storage_ok env then t
      else t\<lparr>ku_storage := (ku_storage t)(ACTIVE_KEY := (if nullish i [] = [] then None else i))\<rparr>)"

definition typed_skill :: "bytes \<Rightarrow> jsnum \<Rightarrow> skill_ui \<Rightarrow> StoredSkill" where
  "typed_skill random now s =
     \<lparr>sk_skillId = newSkillId random, sk_name = Prelude.trim (ku_name s), sk_description = None,
      sk_body = Prelude.trim (ku_body s), sk_createdAt = now, sk_updatedAt = now\<rparr>"

definition save_skill :: "bytes \<Rightarrow> jsnum \<Rightarrow> skill_ui \<Rightarrow> skill_ui" where
  "save_skill random now s =
     (if Prelude.trim (ku_name s) = [] \<or> Prelude.trim (ku_body s) = [] then s else post_task (Saving (typed_skill random now s)) s)"

definition remove_skill :: "jsstring \<Rightarrow> skill_ui \<Rightarrow> skill_ui" where
  "remove_skill i s = post_task (Removing i (ku_activeId s)) s"

text \<open>The rest of the handlers, once the reply is there.\<close>

definition after_reply :: "skill_env \<Rightarrow> skill_task \<Rightarrow> response_body \<Rightarrow> skill_ui \<Rightarrow> skill_ui" where
  "after_reply env k a s =
     (case a of
        ERROR e \<Rightarrow> s
      | _ \<Rightarrow>
        (case k of
           Saving r \<Rightarrow>
             refresh_from 0 ((setActive env (Some (sk_skillId r)) s)\<lparr>ku_name := [], ku_body := [], ku_creating := False\<rparr>)
         | Removing i c \<Rightarrow> refresh_from 0 (if c = Some i then setActive env None s else s)
         | Listing \<Rightarrow> (case a of SKILLS rows \<Rightarrow> s\<lparr>ku_skills := rows\<rparr> | _ \<Rightarrow> s)
         | Given_up b \<Rightarrow> s))"

text \<open>Clicks and typing; then the world: a timer of a sleeping \<open>refresh\<close>, the store is opened or its opening fails, the worker
  handles its next request, its next reply arrives, the error event of the worker, which rejects all that is pending.\<close>

datatype skill_event =
    Toggle
  | Click_outside
  | Choose "jsstring option"
  | Delete jsstring
  | Create
  | Cancel
  | Type_name jsstring
  | Type_body jsstring
  | Save bytes jsnum
  | Timer nat
  | Store_opened
  | Store_failed proxy_error
  | Serve
  | Reply
  | Worker_error

text \<open>The controls that are rendered: the rows of the list while the menu is open, the fields while a skill is created.\<close>

fun skill_step :: "skill_env \<Rightarrow> skill_event \<Rightarrow> skill_ui \<Rightarrow> skill_ui" where
  "skill_step env Toggle s =
     (if ku_open s then s\<lparr>ku_open := False\<rparr> else refresh_from 0 (s\<lparr>ku_open := True\<rparr>))"
| "skill_step env Click_outside s = (if ku_open s then s\<lparr>ku_open := False, ku_creating := False\<rparr> else s)"
| "skill_step env (Choose i) s =
     (if ku_open s \<and> (i = None \<or> the i \<in> sk_skillId ` set (ku_skills s)) then setActive env i s else s)"
| "skill_step env (Delete i) s =
     (if ku_open s \<and> i \<in> sk_skillId ` set (ku_skills s) then remove_skill i s else s)"
| "skill_step env Create s = (if ku_open s then s\<lparr>ku_creating := True\<rparr> else s)"
| "skill_step env Cancel s =
     (if ku_open s \<and> ku_creating s then s\<lparr>ku_creating := False, ku_name := [], ku_body := []\<rparr> else s)"
| "skill_step env (Type_name v) s = (if ku_open s \<and> ku_creating s then s\<lparr>ku_name := v\<rparr> else s)"
| "skill_step env (Type_body v) s = (if ku_open s \<and> ku_creating s then s\<lparr>ku_body := v\<rparr> else s)"
| "skill_step env (Save random now) s = (if ku_open s \<and> ku_creating s then save_skill random now s else s)"
| "skill_step env (Timer n) s =
     (if n < length (ku_polls s)
      then refresh_from (Suc (ku_polls s ! n)) (s\<lparr>ku_polls := take n (ku_polls s) @ drop (Suc n) (ku_polls s)\<rparr>) else s)"
| "skill_step env Store_opened s = (if ku_ready s = Waiting then s\<lparr>ku_ready := Opened\<rparr> else s)"
| "skill_step env (Store_failed e) s = (if ku_ready s = Waiting then s\<lparr>ku_ready := Failed e, ku_posted := []\<rparr> else s)"
| "skill_step env Serve s =
     (case ku_posted s of
        k # ks \<Rightarrow>
          if ku_ready s \<noteq> Opened then s
          else s\<lparr>ku_posted := ks, ku_store := after (kv_store env) (request_of k) (ku_store s),
                 ku_replies := ku_replies s @ [(k, answer (kv_store env) (request_of k) (ku_store s))]\<rparr>
      | [] \<Rightarrow> s)"
| "skill_step env Reply s =
     (case ku_replies s of (k, a) # rs \<Rightarrow> after_reply env k a (s\<lparr>ku_replies := rs\<rparr>) | [] \<Rightarrow> s)"
| "skill_step env Worker_error s =
     (if ku_ready s = Opened then s\<lparr>ku_posted := map (Given_up \<circ> request_of) (ku_posted s), ku_replies := []\<rparr> else s)"

definition run_skills :: "skill_env \<Rightarrow> skill_event list \<Rightarrow> skill_ui \<Rightarrow> skill_ui" where
  "run_skills env evs s = fold (skill_step env) evs s"

subsection \<open>The active skill is stored\<close>

text \<open>What the turn reads: the browser's storage, and the skill as the worker answers once it has handled what is posted
  before.\<close>

definition worker_store :: "skill_env \<Rightarrow> skill_ui \<Rightarrow> wstate" where
  "worker_store env s = fold (\<lambda>k. after (kv_store env) (request_of k)) (ku_posted s) (ku_store s)"

definition reads_skills :: "turn_env \<Rightarrow> skill_env \<Rightarrow> skill_ui \<Rightarrow> bool" where
  "reads_skills tenv env s \<longleftrightarrow> t_open tenv = (ku_ready s = Opened) \<and> (\<forall>k. t_storage tenv k = Inr (ku_storage s k))
     \<and> (\<forall>i. t_getSkill tenv i = (case answer (kv_store env) (GET_SKILL i) (worker_store env s) of
          SKILL r \<Rightarrow> Inr r | _ \<Rightarrow> Inr None))"

text \<open>The tasks under way, and the ids of the rows that are shown or will be.\<close>

definition tasks :: "skill_ui \<Rightarrow> skill_task set" where
  "tasks s = set (ku_posted s) \<union> fst ` set (ku_replies s)"

definition row_ids :: "response_body \<Rightarrow> jsstring set" where
  "row_ids a = (case a of SKILLS rows \<Rightarrow> sk_skillId ` set rows | _ \<Rightarrow> {})"

definition shown_ids :: "skill_ui \<Rightarrow> jsstring set" where
  "shown_ids s = sk_skillId ` set (ku_skills s) \<union> (\<Union>(k, a)\<in>set (ku_replies s). row_ids a)"

fun new_id :: "skill_task \<Rightarrow> jsstring option" where
  "new_id (Saving r) = Some (sk_skillId r)"
| "new_id k = None"

text \<open>No row of a skill is shown before its \<open>save\<close> has run on.\<close>

fun unseen :: "jsstring set \<Rightarrow> (skill_task \<times> response_body) list \<Rightarrow> bool" where
  "unseen L [] = True"
| "unseen L ((k, a) # rs) = ((\<forall>i. new_id k = Some i \<longrightarrow> i \<notin> L) \<and> unseen (L \<union> row_ids a) rs)"

lemma skill_answers:
  assumes "opened w d"
  shows "answer env LIST_SKILLS w = SKILLS (skill_list d)" "after env LIST_SKILLS w = w"
    "answer env (GET_SKILL i) w = SKILL (skill_find i d)"
    "answer env (UPSERT_SKILL r) w = OK None" "after env (UPSERT_SKILL r) w = put_db (skill_put r d) w"
    "answer env (DELETE_SKILL i) w = OK None" "after env (DELETE_SKILL i) w = put_db (skill_remove i d) w"
  using assms skill_request_exec [OF assms, of env "Put r"] skill_request_exec [OF assms, of env "Remove i"]
  by (simp_all add: answer_eq listSkills_def getSkill_def upsertSkill_def deleteSkill_def query_open run_open
      monad_simps reply_def)

lemma skill_opened:
  "opened w d \<Longrightarrow> opened (put_db (skill_put r d) w) (skill_put r d)"
  "opened w d \<Longrightarrow> opened (put_db (skill_remove i d) w) (skill_remove i d)"
  using put_db_open skills.ok_put skills.ok_remove openedD(2) tables_exec(2) [of "Put r" d] tables_exec(2) [of "Remove i" d]
  by (metis skills.exec.simps)+

lemma unseen_mono: "unseen L rs \<Longrightarrow> L' \<subseteq> L \<Longrightarrow> unseen L' rs"
proof (induction L rs arbitrary: L' rule: unseen.induct)
  case (2 L k a rs)
  then show ?case by (simp add: subset_iff) (metis Un_iff subsetI)
qed simp

lemma unseen_snoc: "unseen L (rs @ [(k, a)]) \<longleftrightarrow>
    unseen L rs \<and> (\<forall>i. new_id k = Some i \<longrightarrow> i \<notin> L \<union> (\<Union>(k, a)\<in>set rs. row_ids a))"
  by (induction L rs rule: unseen.induct) auto

lemma unseen_saving: "unseen L rs \<Longrightarrow> Saving r \<in> fst ` set rs \<Longrightarrow> sk_skillId r \<notin> L"
  by (induction L rs rule: unseen.induct) auto

lemma new_ids: "set (List.map_filter new_id ks) = {sk_skillId r | r. Saving r \<in> set ks}"
proof (induction ks)
  case (Cons k ks)
  then show ?case by (cases k) (auto simp: List.map_filter_def)
qed (simp add: List.map_filter_def)

text \<open>The ids that are stored, and what writing does to them.\<close>

definition stored :: "sdb \<Rightarrow> jsstring set" where
  "stored d = {i. skill_find i d \<noteq> None}"

lemma stored_writes:
  assumes "db_ok d"
  shows "stored (skill_put r d) = insert (sk_skillId r) (stored d)" "stored (skill_remove i d) = stored d - {i}"
    "sk_skillId ` set (skill_list d) = stored d"
proof -
  show "sk_skillId ` set (skill_list d) = stored d"
  proof (intro set_eqI iffI)
    fix i assume "i \<in> stored d"
    then obtain r where r: "skill_find i d = Some r" unfolding stored_def by auto
    then have "sk_skillId r = i" by (rule skills.find_key [OF assms])
    then show "i \<in> sk_skillId ` set (skill_list d)" using r skills.list_find [OF assms, of r] by (intro image_eqI [of _ _ r]) simp_all
  next
    fix i assume "i \<in> sk_skillId ` set (skill_list d)"
    then show "i \<in> stored d" using skills.list_find [OF assms] unfolding stored_def by auto
  qed
  show "stored (skill_put r d) = insert (sk_skillId r) (stored d)" "stored (skill_remove i d) = stored d - {i}"
    unfolding stored_def skills.find_put [OF assms] skills.find_remove [OF assms] by auto
qed

text \<open>The invariant, over the ids \<open>S\<close> that are stored, \<open>D\<close> that were deleted by a click and \<open>K\<close> that were ever in use: a
  deletion under way closed over the active id as far as it matters; a new id is unseen until its \<open>save\<close> is over.\<close>

definition skills_ok :: "jsstring set \<Rightarrow> jsstring set \<Rightarrow> jsstring set \<Rightarrow> skill_ui \<Rightarrow> bool" where
  "skills_ok S D K s \<longleftrightarrow>
     nullish (ku_storage s ACTIVE_KEY) [] = nullish (ku_activeId s) []
     \<and> (\<forall>i. ku_activeId s = Some i \<longrightarrow> i \<noteq> [] \<longrightarrow> i \<in> S \<or> Removing i (Some i) \<in> fst ` set (ku_replies s))
     \<and> (\<forall>i c. Removing i c \<in> tasks s \<longrightarrow> i \<in> D \<and> (ku_activeId s = Some i \<longrightarrow> c = Some i))
     \<and> shown_ids s \<subseteq> K \<inter> (D \<union> S) \<and> S \<subseteq> K \<and> D \<subseteq> K
     \<and> distinct (List.map_filter new_id (ku_posted s))
     \<and> (\<forall>r. Saving r \<in> set (ku_posted s) \<longrightarrow> sk_skillId r \<in> K - D - S - shown_ids s)
     \<and> (\<forall>r. Saving r \<in> fst ` set (ku_replies s) \<longrightarrow> sk_skillId r \<in> S - D)
     \<and> (\<forall>i c. Removing i c \<in> fst ` set (ku_replies s) \<longrightarrow> i \<notin> S)
     \<and> (\<forall>b. Given_up b \<notin> tasks s) \<and> (\<forall>e. ERROR e \<notin> snd ` set (ku_replies s))
     \<and> unseen (sk_skillId ` set (ku_skills s)) (ku_replies s)"

definition skills_inv :: "sdb \<Rightarrow> jsstring set \<Rightarrow> jsstring set \<Rightarrow> skill_ui \<Rightarrow> bool" where
  "skills_inv d D K s \<longleftrightarrow> opened (ku_store s) d \<and> skills_ok (stored d) D K s"

lemma ok_fields:
  assumes "skills_ok S D K s"
  shows "skills_ok S D K (s\<lparr>ku_open := a\<rparr>)" "skills_ok S D K (s\<lparr>ku_creating := a\<rparr>)" "skills_ok S D K (s\<lparr>ku_name := v\<rparr>)"
    "skills_ok S D K (s\<lparr>ku_body := v\<rparr>)" "skills_ok S D K (s\<lparr>ku_polls := l\<rparr>)" "skills_ok S D K (s\<lparr>ku_ready := q\<rparr>)"
    "skills_ok S D K (s\<lparr>ku_store := w\<rparr>)" "skills_ok S D K (s\<lparr>ku_posted := []\<rparr>)"
  using assms by (simp_all add: skills_ok_def tasks_def shown_ids_def)

lemma ok_post_listing: "skills_ok S D K s \<Longrightarrow> skills_ok S D K (post_task Listing s)"
  by (auto simp: skills_ok_def post_task_def tasks_def shown_ids_def List.map_filter_def split: ready.split)

lemma ok_refresh: "skills_ok S D K s \<Longrightarrow> skills_ok S D K (refresh_from i s)"
  by (simp add: refresh_from_def ok_fields ok_post_listing)

lemma ok_active:
  assumes "skills_ok S D K s" "kv_storage_ok env" "\<forall>j. i = Some j \<longrightarrow> j \<in> S - D"
  shows "skills_ok S D K (setActive env i s)"
  using assms by (auto simp: skills_ok_def setActive_def tasks_def shown_ids_def nullish_def Let_def split: option.splits)

lemma ok_save:
  assumes "skills_ok S D K s" "newSkillId random \<notin> K"
  shows "skills_ok S D (insert (newSkillId random) K) (save_skill random now s)"
proof -
  let ?i = "newSkillId random"
  have new: "?i \<notin> D" "?i \<notin> S" "?i \<notin> shown_ids s" "?i \<notin> {sk_skillId r | r. Saving r \<in> set (ku_posted s)}"
    using assms unfolding skills_ok_def by auto
  have "skills_ok S D (insert ?i K) s" using assms(1) unfolding skills_ok_def by auto
  then show ?thesis using new new_ids [of "ku_posted s"]
    by (auto simp: skills_ok_def save_skill_def post_task_def tasks_def shown_ids_def List.map_filter_def typed_skill_def split: ready.split)
qed

lemma ok_remove:
  assumes "skills_ok S D K s" "i \<in> sk_skillId ` set (ku_skills s)"
  shows "skills_ok S (insert i D) K (remove_skill i s)"
proof -
  have "i \<in> shown_ids s" using assms(2) by (simp add: shown_ids_def)
  then have i: "i \<in> K" "Saving r \<in> set (ku_posted s) \<Longrightarrow> sk_skillId r \<noteq> i" for r
    using assms(1) unfolding skills_ok_def by auto
  have n: "Saving r \<in> fst ` set (ku_replies s) \<Longrightarrow> sk_skillId r \<noteq> i" for r
    using assms unseen_saving [of "sk_skillId ` set (ku_skills s)" "ku_replies s" r] unfolding skills_ok_def by auto
  show ?thesis using assms(1) i n
    by (auto simp: skills_ok_def remove_skill_def post_task_def tasks_def shown_ids_def List.map_filter_def split: ready.split)
qed

lemma ok_next:
  assumes "skills_ok S D K s" "ku_replies s = (k, a) # rs" "\<forall>i. k = Removing i (Some i) \<longrightarrow> ku_activeId s \<noteq> Some i"
  shows "skills_ok S D K (s\<lparr>ku_replies := rs\<rparr>)"
proof -
  have "unseen (sk_skillId ` set (ku_skills s)) rs"
    using assms(1,2) unseen_mono [of "sk_skillId ` set (ku_skills s) \<union> row_ids a" rs] by (simp add: skills_ok_def)
  then show ?thesis using assms by (auto simp: skills_ok_def tasks_def shown_ids_def)
qed

lemma ok_rows:
  assumes "skills_ok S D K s" "ku_replies s = (k, SKILLS rows) # rs" "\<forall>i c. k \<noteq> Removing i c"
  shows "skills_ok S D K (s\<lparr>ku_replies := rs, ku_skills := rows\<rparr>)"
proof -
  have "unseen (sk_skillId ` set rows) rs"
    using assms(1,2) unseen_mono [of "sk_skillId ` set (ku_skills s) \<union> row_ids (SKILLS rows)" rs]
    by (simp add: skills_ok_def row_ids_def)
  then show ?thesis using assms by (auto simp: skills_ok_def tasks_def shown_ids_def row_ids_def)
qed

lemma ok_reply:
  assumes "skills_ok S D K s" "kv_storage_ok env"
  shows "skills_ok S D K (skill_step env Reply s)"
proof (cases "ku_replies s")
  case (Cons ka rs)
  obtain k a where ka: "ku_replies s = (k, a) # rs" using Cons by (cases ka) auto
  let ?s = "s\<lparr>ku_replies := rs\<rparr>"
  have ok: "a \<noteq> ERROR e" for e using assms(1) ka by (auto simp: skills_ok_def)
  have after: "after_reply env k a ?s = (case k of
       Saving r \<Rightarrow> refresh_from 0 ((setActive env (Some (sk_skillId r)) ?s)\<lparr>ku_name := [], ku_body := [], ku_creating := False\<rparr>)
     | Removing i c \<Rightarrow> refresh_from 0 (if c = Some i then setActive env None ?s else ?s)
     | Listing \<Rightarrow> (case a of SKILLS rows \<Rightarrow> ?s\<lparr>ku_skills := rows\<rparr> | _ \<Rightarrow> ?s)
     | Given_up b \<Rightarrow> ?s)"
    using ok unfolding after_reply_def by (cases a) auto
  have step: "skill_step env Reply s = after_reply env k a ?s" using ka by simp
  show ?thesis
  proof (cases k)
    case (Saving r)
    have "sk_skillId r \<in> S - D" using assms(1) ka Saving by (auto simp: skills_ok_def)
    then show ?thesis unfolding step after using ok_next [OF assms(1) ka] ok_active [OF _ assms(2)] Saving
      by (simp add: ok_refresh ok_fields)
  next
    case (Removing i c)
    have "ku_activeId s = Some i \<longrightarrow> c = Some i" using assms(1) ka Removing by (auto simp: skills_ok_def tasks_def)
    show ?thesis
    proof (cases "c = Some i")
      case True
      have "skills_ok S D K (s\<lparr>ku_activeId := None, ku_storage := (ku_storage s)(ACTIVE_KEY := None)\<rparr>)"
        using ok_active [OF assms, of None] assms(2) by (simp add: setActive_def nullish_def)
      from ok_next [OF this, of k a rs] have "skills_ok S D K (s\<lparr>ku_activeId := None, ku_storage := (ku_storage s)(ACTIVE_KEY := None), ku_replies := rs\<rparr>)"
        using ka by simp
      moreover have "setActive env None ?s = s\<lparr>ku_activeId := None, ku_storage := (ku_storage s)(ACTIVE_KEY := None), ku_replies := rs\<rparr>"
        using assms(2) by (simp add: setActive_def nullish_def)
      ultimately have "skills_ok S D K (setActive env None ?s)" by simp
      then show ?thesis unfolding step after using Removing True by (simp add: ok_refresh)
    next
      case False
      then show ?thesis unfolding step after using ok_next [OF assms(1) ka] Removing by (auto simp: ok_refresh)
    qed
  next
    case Listing
    then show ?thesis unfolding step after using ok_next [OF assms(1) ka] ok_rows [OF assms(1)] ka
      by (auto split: response_body.split)
  next
    case (Given_up b)
    then show ?thesis using assms(1) ka by (auto simp: skills_ok_def tasks_def)
  qed
qed (use assms in simp)

text \<open>The worker handles a request.\<close>

lemma serve_cases:
  assumes "opened w d"
  shows "after env (request_of (Saving r)) w = put_db (skill_put r d) w" "answer env (request_of (Saving r)) w = OK None"
    "after env (request_of (Removing i c)) w = put_db (skill_remove i d) w" "answer env (request_of (Removing i c)) w = OK None"
    "after env (request_of Listing) w = w" "answer env (request_of Listing) w = SKILLS (skill_list d)"
  using skill_answers [OF assms] by simp_all

lemma ok_served:
  assumes ok: "skills_ok S D K s" and k: "ku_posted s = k # ks" and a: "\<forall>e. a \<noteq> ERROR e"
    and S: "S' \<subseteq> K" "S - D \<subseteq> S'" "S' \<subseteq> S \<union> {i. new_id k = Some i}" "\<forall>i. new_id k = Some i \<longrightarrow> i \<in> S'" "\<forall>i c. k = Removing i c \<longrightarrow> i \<notin> S'"
    and rows: "row_ids a \<subseteq> S'" and active: "\<forall>i. ku_activeId s = Some i \<longrightarrow> i \<in> S \<longrightarrow> i \<in> S' \<or> k = Removing i (Some i)"
  shows "skills_ok S' D K (s\<lparr>ku_posted := ks, ku_store := w, ku_replies := ku_replies s @ [(k, a)]\<rparr>)" (is "skills_ok _ _ _ ?s")
proof -
  have t: "tasks ?s = tasks s" using k by (auto simp: tasks_def)
  have h: "shown_ids ?s = shown_ids s \<union> row_ids a" by (auto simp: shown_ids_def)
  have p: "Saving r \<in> set ks \<Longrightarrow> Saving r \<in> set (ku_posted s)" for r using k by simp
  have new: "i \<in> K - D - S - shown_ids s" if "new_id k = Some i" for i using ok k that by (cases k) (auto simp: skills_ok_def)
  have ds: "distinct (List.map_filter new_id ks)" "\<forall>i. new_id k = Some i \<longrightarrow> i \<notin> set (List.map_filter new_id ks)"
    using ok k unfolding skills_ok_def by (cases "new_id k"; simp add: List.map_filter_simps)+
  have old: "sk_skillId r \<in> K - D - S' - shown_ids ?s" if "Saving r \<in> set ks" for r
  proof -
    have "sk_skillId r \<in> K - D - S - shown_ids s" using ok p [OF that] by (simp add: skills_ok_def)
    moreover have "sk_skillId r \<in> set (List.map_filter new_id ks)" using that unfolding new_ids by blast
    then have "sk_skillId r \<notin> S'" using S(3) calculation ds(2) by blast
    ultimately show ?thesis using rows h by blast
  qed
  have u: "unseen (sk_skillId ` set (ku_skills s)) (ku_replies s @ [(k, a)])"
  proof -
    have "unseen (sk_skillId ` set (ku_skills s)) (ku_replies s)" using ok by (simp add: skills_ok_def)
    moreover have "\<forall>i. new_id k = Some i \<longrightarrow> i \<notin> shown_ids s" using new by blast
    ultimately show ?thesis unfolding unseen_snoc shown_ids_def by simp
  qed
  have active0: "\<forall>i. ku_activeId s = Some i \<longrightarrow> i \<noteq> [] \<longrightarrow> i \<in> S \<or> Removing i (Some i) \<in> fst ` set (ku_replies s)"
    and shown0: "shown_ids s \<subseteq> K \<inter> (D \<union> S)" "S \<subseteq> K"
    and saved0: "\<forall>r. Saving r \<in> fst ` set (ku_replies s) \<longrightarrow> sk_skillId r \<in> S - D"
    and gone0: "\<forall>i c. Removing i c \<in> fst ` set (ku_replies s) \<longrightarrow> i \<notin> S"
    and dead0: "\<forall>i c. Removing i c \<in> tasks s \<longrightarrow> i \<in> D"
    using ok by (simp_all add: skills_ok_def)
  have r: "fst ` set (ku_replies ?s) = insert k (fst ` set (ku_replies s))" "snd ` set (ku_replies ?s) = insert a (snd ` set (ku_replies s))"
    by auto
  have act: "\<forall>i. ku_activeId ?s = Some i \<longrightarrow> i \<noteq> [] \<longrightarrow> i \<in> S' \<or> Removing i (Some i) \<in> fst ` set (ku_replies ?s)"
    using active0 active unfolding r by auto
  have shown: "shown_ids ?s \<subseteq> K \<inter> (D \<union> S')"
    using shown0 rows S(1,2) unfolding h by blast
  have saved: "\<forall>r. Saving r \<in> fst ` set (ku_replies ?s) \<longrightarrow> sk_skillId r \<in> S' - D"
  proof (intro allI impI)
    fix q assume "Saving q \<in> fst ` set (ku_replies ?s)"
    then consider "k = Saving q" | "Saving q \<in> fst ` set (ku_replies s)" unfolding r by blast
    then show "sk_skillId q \<in> S' - D"
      using saved0 S(2,4) new by cases auto
  qed
  have gone: "\<forall>i c. Removing i c \<in> fst ` set (ku_replies ?s) \<longrightarrow> i \<notin> S'"
  proof (intro allI impI)
    fix i c assume m: "Removing i c \<in> fst ` set (ku_replies ?s)"
    show "i \<notin> S'"
    proof (cases "Removing i c = k")
      case False
      then have "Removing i c \<in> fst ` set (ku_replies s)" using m unfolding r by blast
      then have "i \<in> D" "i \<notin> S" using gone0 dead0 unfolding tasks_def by blast+
      then show ?thesis using S(3) new by blast
    qed (use S(5) in blast)
  qed
  have base: "nullish (ku_storage ?s ACTIVE_KEY) [] = nullish (ku_activeId ?s) []" "D \<subseteq> K"
    "\<forall>i c. Removing i c \<in> tasks ?s \<longrightarrow> i \<in> D \<and> (ku_activeId ?s = Some i \<longrightarrow> c = Some i)"
    "\<forall>b. Given_up b \<notin> tasks ?s" "distinct (List.map_filter new_id (ku_posted ?s))"
    unfolding t using ok ds(1) by (simp_all add: skills_ok_def)
  have err: "\<forall>e. ERROR e \<notin> snd ` set (ku_replies ?s)"
    using ok a unfolding r skills_ok_def by (metis insertE)
  have new_posted: "\<forall>r. Saving r \<in> set (ku_posted ?s) \<longrightarrow> sk_skillId r \<in> K - D - S' - shown_ids ?s" using old by simp
  have u': "unseen (sk_skillId ` set (ku_skills ?s)) (ku_replies ?s)" using u by simp
  show ?thesis
    unfolding skills_ok_def by (intro conjI base err new_posted u' act shown saved gone S(1))
qed

lemma ok_serve:
  assumes "skills_inv d D K s" "ku_posted s = k # ks" "ku_ready s = Opened"
  shows "\<exists>d'. skills_inv d' D K (skill_step env Serve s)"
proof -
  have o: "opened (ku_store s) d" "db_ok d" and ok: "skills_ok (stored d) D K s" using assms(1) openedD(2) by (auto simp: skills_inv_def)
  note sv = serve_cases [OF o(1), of "kv_store env"] and st = stored_writes [OF o(2)] and served = ok_served [OF ok assms(2)]
  have K: "stored d \<subseteq> K" using ok by (simp add: skills_ok_def)
  show ?thesis
  proof (cases k)
    case (Saving r)
    have "sk_skillId r \<in> K" using ok assms(2) Saving by (simp add: skills_ok_def)
    then have "skills_ok (stored (skill_put r d)) D K (s\<lparr>ku_posted := ks, ku_store := put_db (skill_put r d) (ku_store s),
        ku_replies := ku_replies s @ [(k, OK None)]\<rparr>)"
      using K Saving by (intro served) (auto simp: st row_ids_def)
    then show ?thesis using assms(2,3) Saving sv skill_opened(1) [OF o(1)] by (intro exI [of _ "skill_put r d"]) (simp add: skills_inv_def)
  next
    case (Removing i c)
    have "i \<in> D" "ku_activeId s = Some i \<longrightarrow> c = Some i" using ok assms(2) Removing by (auto simp: skills_ok_def tasks_def)
    then have "skills_ok (stored (skill_remove i d)) D K (s\<lparr>ku_posted := ks, ku_store := put_db (skill_remove i d) (ku_store s),
        ku_replies := ku_replies s @ [(k, OK None)]\<rparr>)"
      using K Removing by (intro served) (auto simp: st row_ids_def)
    then show ?thesis using assms(2,3) Removing sv skill_opened(2) [OF o(1)] by (intro exI [of _ "skill_remove i d"]) (simp add: skills_inv_def)
  next
    case Listing
    have "skills_ok (stored d) D K (s\<lparr>ku_posted := ks, ku_store := ku_store s, ku_replies := ku_replies s @ [(k, SKILLS (skill_list d))]\<rparr>)"
      using K Listing by (intro served) (auto simp: row_ids_def st(3) [symmetric])
    then show ?thesis using assms(2,3) Listing sv o by (intro exI [of _ d]) (simp add: skills_inv_def)
  next
    case (Given_up b)
    then show ?thesis using ok assms(2) by (auto simp: skills_ok_def tasks_def)
  qed
qed

subsection \<open>Runs\<close>

text \<open>What a run must respect: a new id is drawn that was never in use, no row is chosen after its own deletion was
  clicked, and the worker raises no error event. \<open>K\<close> are the ids in use, \<open>D\<close> those whose deletion was clicked.\<close>

definition orderly :: "jsstring set \<Rightarrow> jsstring set \<Rightarrow> skill_event \<Rightarrow> bool" where
  "orderly K D ev = (case ev of Save random now \<Rightarrow> newSkillId random \<notin> K | Choose (Some i) \<Rightarrow> i \<notin> D | Worker_error \<Rightarrow> False | _ \<Rightarrow> True)"

definition drawn :: "skill_event \<Rightarrow> jsstring set \<Rightarrow> jsstring set" where
  "drawn ev K = (case ev of Save random now \<Rightarrow> insert (newSkillId random) K | _ \<Rightarrow> K)"

definition doomed :: "skill_event \<Rightarrow> jsstring set \<Rightarrow> jsstring set" where
  "doomed ev D = (case ev of Delete i \<Rightarrow> insert i D | _ \<Rightarrow> D)"

fun careful :: "jsstring set \<Rightarrow> jsstring set \<Rightarrow> skill_event list \<Rightarrow> bool" where
  "careful K D [] = True"
| "careful K D (ev # evs) = (orderly K D ev \<and> careful (drawn ev K) (doomed ev D) evs)"

lemma ok_known: "skills_ok S D K s \<Longrightarrow> K \<subseteq> K' \<Longrightarrow> skills_ok S D K' s"
  unfolding skills_ok_def by (elim conjE, intro conjI) (assumption | blast)+

lemma ok_user:
  assumes ok: "skills_ok S D K s" "kv_storage_ok env" "orderly K D' ev" "D \<subseteq> D'" "ev \<noteq> Serve"
  shows "\<exists>E \<subseteq> doomed ev D'. skills_ok S E (drawn ev K) (skill_step env ev s)"
proof -
  have same: ?thesis if "doomed ev D' = D'" "drawn ev K = K" "skills_ok S D K (skill_step env ev s)"
    using that ok(4) by auto
  show ?thesis
  proof (cases ev)
    case Toggle
    then show ?thesis using ok(1) by (intro same) (simp_all add: doomed_def drawn_def ok_refresh ok_fields)
  next
    case (Choose i)
    have "\<forall>j. i = Some j \<longrightarrow> j \<in> S - D" if "i = None \<or> the i \<in> sk_skillId ` set (ku_skills s)"
    proof (intro allI impI)
      fix j assume j: "i = Some j"
      then have "j \<in> shown_ids s" using that by (simp add: shown_ids_def)
      moreover have "j \<notin> D" using ok(3,4) j Choose by (auto simp: orderly_def)
      ultimately show "j \<in> S - D" using ok(1) unfolding skills_ok_def by blast
    qed
    then have "skills_ok S D K (skill_step env (Choose i) s)" using ok(1) ok_active [OF ok(1,2), of i] by auto
    then show ?thesis using Choose by (intro same) (simp_all add: doomed_def drawn_def)
  next
    case (Delete i)
    show ?thesis
    proof (cases "ku_open s \<and> i \<in> sk_skillId ` set (ku_skills s)")
      case True
      then show ?thesis using Delete ok(4) ok_remove [OF ok(1)] by (intro exI [of _ "insert i D"]) (auto simp: doomed_def drawn_def)
    next
      case False
      then show ?thesis using Delete ok(1,4) by (intro exI [of _ D]) (auto simp: doomed_def drawn_def)
    qed
  next
    case (Save random now)
    have "newSkillId random \<notin> K" using ok(3) Save by (simp add: orderly_def)
    then show ?thesis using Save ok(4) ok_save [OF ok(1)] ok_known [OF ok(1), of "insert (newSkillId random) K"]
      by (intro exI [of _ D]) (auto simp: doomed_def drawn_def)
  next
    case Reply
    then show ?thesis using ok(4) ok_reply [OF ok(1,2)] by (intro exI [of _ D]) (simp add: doomed_def drawn_def)
  next
    case (Store_failed e)
    then show ?thesis using ok ok_fields(8) [OF ok_fields(6) [OF ok(1), of "Failed e"]]
      by (intro exI [of _ D]) (simp add: doomed_def drawn_def)
  next
    case Worker_error
    then show ?thesis using ok(3) by (simp add: orderly_def)
  next
    case Serve
    then show ?thesis using ok(5) by simp
  qed ((rule same; use ok(1) in \<open>simp add: doomed_def drawn_def ok_fields ok_refresh\<close>)+)
qed

lemma step_store: "ev \<noteq> Serve \<Longrightarrow> ku_store (skill_step env ev s) = ku_store s"
  by (cases ev) (simp_all add: refresh_from_def post_task_def setActive_def save_skill_def remove_skill_def after_reply_def Let_def
      split: ready.split list.split prod.split response_body.split skill_task.split)

lemma inv_skill_step:
  assumes "skills_inv d D K s" "kv_storage_ok env" "orderly K D' ev" "D \<subseteq> D'"
  shows "\<exists>d1 D1. skills_inv d1 D1 (drawn ev K) (skill_step env ev s) \<and> D1 \<subseteq> doomed ev D'"
proof (cases "ev = Serve")
  case True
  then have "\<exists>d1. skills_inv d1 D K (skill_step env Serve s)"
  proof (cases "ku_posted s \<noteq> [] \<and> ku_ready s = Opened")
    case True
    then show ?thesis using ok_serve [OF assms(1)] by (cases "ku_posted s") blast+
  qed (use assms(1) in \<open>auto split: list.split\<close>)
  then show ?thesis using True assms(4) by (auto simp: drawn_def doomed_def)
next
  case False
  then show ?thesis using ok_user [OF _ assms(2-4) False] step_store [OF False, of env s] assms(1)
    unfolding skills_inv_def by metis
qed

lemma inv_run_skills:
  assumes "skills_inv d D K s" "kv_storage_ok env" "careful K D' evs" "D \<subseteq> D'"
  shows "\<exists>d1 D1 K1. skills_inv d1 D1 K1 (run_skills env evs s)"
  using assms
proof (induction evs arbitrary: d D K D' s)
  case Nil
  then show ?case by (auto simp: run_skills_def)
next
  case (Cons ev evs)
  then obtain d1 D1 where "skills_inv d1 D1 (drawn ev K) (skill_step env ev s)" "D1 \<subseteq> doomed ev D'"
    using inv_skill_step [of d D K s env D' ev] by auto
  from Cons.IH [OF this(1) Cons.prems(2) _ this(2)] Cons.prems(3) show ?case by (simp add: run_skills_def)
qed

text \<open>The worker catches up.\<close>

lemma inv_caught_up:
  assumes "skills_inv d D K s" "ku_ready s = Opened"
  shows "\<exists>d'. opened (worker_store env s) d'
    \<and> (\<forall>i. ku_activeId s = Some i \<longrightarrow> i \<noteq> [] \<longrightarrow> (i \<in> stored d' \<longleftrightarrow> (\<nexists>c. Removing i c \<in> tasks s)))"
  using assms
proof (induction "ku_posted s" arbitrary: d s)
  case Nil
  then have "ku_posted s = []" by simp
  then have "tasks s = fst ` set (ku_replies s)" "worker_store env s = ku_store s" by (simp_all add: tasks_def worker_store_def)
  moreover have o: "opened (ku_store s) d"
    and live: "\<forall>i. ku_activeId s = Some i \<longrightarrow> i \<noteq> [] \<longrightarrow> i \<in> stored d \<or> Removing i (Some i) \<in> fst ` set (ku_replies s)"
    and gone: "\<forall>i c. Removing i c \<in> fst ` set (ku_replies s) \<longrightarrow> i \<notin> stored d"
    using Nil.prems(1) by (simp_all add: skills_inv_def skills_ok_def)
  ultimately show ?case using live gone by (intro exI [of _ d]) metis
next
  case (Cons k ks)
  then have k: "ku_posted s = k # ks" by simp
  let ?s = "skill_step env Serve s"
  have s: "ku_posted ?s = ks" "ku_ready ?s = Opened" "ku_activeId ?s = ku_activeId s" "tasks ?s = tasks s"
    "worker_store env ?s = worker_store env s"
    using k Cons.prems(2) by (auto simp: tasks_def worker_store_def)
  obtain d1 where "skills_inv d1 D K ?s" using ok_serve [OF Cons.prems(1) k Cons.prems(2)] by blast
  from Cons.hyps(1) [OF s(1) [symmetric] this s(2)] show ?case unfolding s(3-5) .
qed

text \<open>C11. The skill shown as active is the one that is applied: in every interleaving of clicks, typing, timers, worker and
  replies, from a page whose active skill is stored, the next prompt starts with the body of the stored skill whose id is
  active. It is left alone when none is active, when the store is not open, and when a deletion of that very skill is on
  its way; once nothing is on its way no active id has lost its skill. The run is \<open>careful\<close>: new ids are fresh, no row is
  chosen after its own deletion was clicked - where it is, the property fails, as shown below - and the worker raises no
  error event.\<close>

theorem active_skill_is_applied:
  assumes "opened w d" "kv_storage_ok env"
    and "\<And>i. storage ACTIVE_KEY = Some i \<Longrightarrow> skill_find i d \<noteq> None"
    and "careful {i. skill_find i d \<noteq> None} {} evs" "s = run_skills env evs (new_skill_ui env storage r w)" "reads_skills tenv env s"
  shows "if nullish (ku_activeId s) [] = [] \<or> ku_ready s \<noteq> Opened \<or> (\<exists>c. Removing (nullish (ku_activeId s) []) c \<in> tasks s)
    then injectActiveSkillIntoPrompt tenv p = p
    else \<exists>sk. answer (kv_store env) (GET_SKILL (nullish (ku_activeId s) [])) (worker_store env s) = SKILL (Some sk)
      \<and> sk_skillId sk = nullish (ku_activeId s) []
      \<and> injectActiveSkillIntoPrompt tenv p
          = (if Prelude.trim (sk_body sk) = [] then p else Prelude.trim (sk_body sk) @ [10, 10] @ p)"
proof -
  have "skills_inv d {} {i. skill_find i d \<noteq> None} (new_skill_ui env storage r w)"
    using assms(1-3) by (auto simp: skills_inv_def skills_ok_def new_skill_ui_def tasks_def shown_ids_def stored_def List.map_filter_simps)
  from inv_run_skills [OF this assms(2,4)] obtain d1 D1 K1 where inv: "skills_inv d1 D1 K1 s" unfolding assms(5) by blast
  let ?a = "nullish (ku_activeId s) []"
  have a: "activeSkillId tenv = ku_storage s ACTIVE_KEY" "nullish (ku_storage s ACTIVE_KEY) [] = ?a"
    using assms(6) inv by (simp_all add: reads_skills_def activeSkillId_def ACTIVE_KEY_def skills_inv_def skills_ok_def)
  show ?thesis
  proof (cases "?a = [] \<or> ku_ready s \<noteq> Opened")
    case True
    then show ?thesis using a assms(6) by (auto simp: injectActiveSkillIntoPrompt_def reads_skills_def Let_def)
  next
    case False
    then obtain i where i: "ku_activeId s = Some i" "?a = i" "i \<noteq> []" "ku_ready s = Opened"
      by (cases "ku_activeId s") (simp_all add: nullish_def)
    then obtain d2 where d2: "opened (worker_store env s) d2" "?a \<in> stored d2 \<longleftrightarrow> (\<nexists>c. Removing ?a c \<in> tasks s)"
      using inv_caught_up [OF inv i(4), of env] by auto
    have g: "answer (kv_store env) (GET_SKILL ?a) (worker_store env s) = SKILL (skill_find ?a d2)" by (rule skill_answers(3) [OF d2(1)])
    have "sk_skillId q = ?a" if "skill_find ?a d2 = Some q" for q using skills.find_key [OF openedD(2) [OF d2(1)] that] .
    then show ?thesis using a assms(6) d2(2) g False
      by (cases "skill_find ?a d2") (auto simp: injectActiveSkillIntoPrompt_def reads_skills_def Let_def stored_def)
  qed
qed

text \<open>A row chosen while its deletion is pending: the rest of \<open>remove\<close> compares with the active id of the click, so the
  deleted skill stays active, in the state and in the browser's storage.\<close>

lemma chosen_while_deleted:
  assumes "opened w d" "kv_storage_ok env" "skill_find i d \<noteq> None" "i \<noteq> []" "storage ACTIVE_KEY = None"
    and "s = run_skills env [Toggle, Serve, Reply, Delete i, Choose (Some i), Serve, Reply, Serve, Reply] (new_skill_ui env storage Opened w)"
  shows "ku_activeId s = Some i \<and> ku_storage s ACTIVE_KEY = Some i \<and> tasks s = {}
    \<and> answer (kv_store env) (GET_SKILL i) (worker_store env s) = SKILL None"
proof -
  have "i \<in> sk_skillId ` set (skill_list d)" using stored_writes(3) [OF openedD(2) [OF assms(1)]] assms(3) by (simp add: stored_def)
  then show ?thesis unfolding assms(6) using assms(1,2,4,5) skill_opened(2) [OF assms(1), of i]
    by (simp add: run_skills_def new_skill_ui_def refresh_from_def post_task_def skill_answers remove_skill_def after_reply_def setActive_def
        nullish_def tasks_def worker_store_def Let_def skills.find_remove [OF openedD(2) [OF assms(1)]])
qed

definition sample_skills :: skill_env where
  "sample_skills = \<lparr>kv_store = StoreProps.sample_env, kv_storage_ok = True\<rparr>"

definition sample_skill_events :: "skill_event list" where
  "sample_skill_events =
     [Toggle, Create, Type_name (js ''n''), Type_body (js ''Be brief.''), Save [] 1, Serve, Serve, Reply, Reply]"

definition sample_control :: skill_ui where
  "sample_control = run_skills sample_skills sample_skill_events (new_skill_ui sample_skills (\<lambda>_. None) Opened sample_state)"

definition sample_reader :: turn_env where
  "sample_reader = (sample_turn sample_runtime)\<lparr>t_open := True, t_storage := (\<lambda>k. Inr (ku_storage sample_control k)),
     t_getSkill := (\<lambda>i. case answer StoreProps.sample_env (GET_SKILL i) (worker_store sample_skills sample_control) of
        SKILL r \<Rightarrow> Inr r | _ \<Rightarrow> Inr None)\<rparr>"

lemma active_skill_is_applied_witness:
  "injectActiveSkillIntoPrompt sample_reader (js ''hi'') = js ''Be brief.'' @ [10, 10] @ js ''hi''"
proof -
  let ?r = "\<lparr>sk_skillId = newSkillId [], sk_name = js ''n'', sk_description = None, sk_body = js ''Be brief.'', sk_createdAt = 1, sk_updatedAt = 1\<rparr>"
  have t: "Prelude.trim (js ''n'') = js ''n''" "Prelude.trim (js ''Be brief.'') = js ''Be brief.''"
    by (simp_all add: Prelude.trim_def trim_end_def is_ws_def ws_codes_def js_def)
  have n: "js ''n'' \<noteq> []" "js ''Be brief.'' \<noteq> []" "newSkillId [] \<noteq> []" by (simp_all add: js_def newSkillId_def)
  have none: "skill_find i sample_db = None" for i by (simp add: sample_db_def empty_db_def skill_find_def find_row_def)
  note o = skill_opened(1) [OF sample_opened, of ?r]
  have s: "ku_activeId sample_control = Some (newSkillId [])" "ku_ready sample_control = Opened" "tasks sample_control = {Listing}"
    "worker_store sample_skills sample_control = put_db (skill_put ?r sample_db) sample_state"
    using o by (simp_all add: sample_control_def sample_skill_events_def run_skills_def new_skill_ui_def refresh_from_def post_task_def
        sample_skills_def skill_answers [OF sample_opened] skill_answers [OF o] save_skill_def typed_skill_def t n after_reply_def
        setActive_def tasks_def worker_store_def Let_def)
  have g: "answer StoreProps.sample_env (GET_SKILL (newSkillId [])) (worker_store sample_skills sample_control) = SKILL (Some ?r)"
    unfolding s(4) skill_answers(3) [OF o] by (simp add: skills.find_put openedD(2) [OF sample_opened] none)
  have c: "careful {i. skill_find i sample_db \<noteq> None} {} sample_skill_events"
    by (simp add: sample_skill_events_def orderly_def drawn_def doomed_def none)
  have "reads_skills sample_reader sample_skills sample_control"
    by (simp add: reads_skills_def sample_reader_def s(2)) (simp add: sample_skills_def)
  from active_skill_is_applied [OF sample_opened _ _ c sample_control_def this, of "js ''hi''"] s g n
  show ?thesis by (simp add: sample_skills_def t nullish_def)
qed

end
