(* ===== verification/Requests.thy ===== *)
theory Requests
  imports AgentStore
begin

text \<open>
  The HTTP functions of the package, \<open>packages/data-provider/src/request.ts\<close>. Axios is a parameter: what comes back
  as a function of the calls made so far, the last one included. A configuration is the object passed to axios, form data
  any value.
\<close>

datatype axios_method = M_get | M_post | M_put | M_delete | M_patch

datatype 'f axios_body = NoBody | JsonText jsstring | FormBody 'f

record 'f axios_call =
  ax_method :: axios_method
  ax_url :: jsstring
  ax_body :: "'f axios_body"
  ax_config :: obj

text \<open>An error has the response it came with, if there was one.\<close>

record axios_response =
  rx_status :: nat
  rx_data :: json

record axios_error =
  xe_message :: jsstring
  xe_response :: "axios_response option"

type_synonym 'f axios = "'f axios_call list \<Rightarrow> axios_error + axios_response"
type_synonym ('f, 'a) http = "('f axios_call list, axios_error, 'a) exc"

text \<open>The response interceptor: what succeeded is passed on, every error is rejected as it is - also a 401, which
  upstream answered with a token refresh.\<close>

definition on_rejected :: "axios_error \<Rightarrow> axios_error + axios_response" where
  "on_rejected e = (if xe_response e = None then Inl e else Inl e)"

definition interceptor :: "axios_error + axios_response \<Rightarrow> axios_error + axios_response" where
  "interceptor r = (case r of Inr res \<Rightarrow> Inr res | Inl e \<Rightarrow> on_rejected e)"

definition axios_send :: "'f axios \<Rightarrow> axios_method \<Rightarrow> jsstring \<Rightarrow> 'f axios_body \<Rightarrow> obj \<Rightarrow> ('f, axios_response) http" where
  "axios_send ax m url b opts =
     (\<lambda>calls. let calls' = calls @ [\<lparr>ax_method = m, ax_url = url, ax_body = b, ax_config = opts\<rparr>]
       in (interceptor (ax calls'), calls'))"

definition data_of :: "('f, axios_response) http \<Rightarrow> ('f, json) http" where
  "data_of m = andThen m (\<lambda>r. ret (rx_data r))"

definition content_type :: "string \<Rightarrow> jsstring \<times> json option" where
  "content_type t = (js ''headers'', Some (JObj [(js ''Content-Type'', JStr (js t))]))"

text \<open>\<open>JSON.stringify(undefined)\<close> is undefined.\<close>

definition json_body :: "platform \<Rightarrow> json option \<Rightarrow> 'f axios_body" where
  "json_body p data = (case data of None \<Rightarrow> NoBody | Some v \<Rightarrow> JsonText (p_stringify p v))"

definition request_get :: "'f axios \<Rightarrow> jsstring \<Rightarrow> obj \<Rightarrow> ('f, json) http" where
  "request_get ax url options = data_of (axios_send ax M_get url NoBody options)"

definition request_getResponse :: "'f axios \<Rightarrow> jsstring \<Rightarrow> obj \<Rightarrow> ('f, axios_response) http" where
  "request_getResponse ax url options = axios_send ax M_get url NoBody options"

definition request_post :: "'f axios \<Rightarrow> platform \<Rightarrow> jsstring \<Rightarrow> json option \<Rightarrow> ('f, json) http" where
  "request_post ax p url data = data_of (axios_send ax M_post url (json_body p data) [content_type ''application/json''])"

definition request_postMultiPart :: "'f axios \<Rightarrow> jsstring \<Rightarrow> 'f \<Rightarrow> obj \<Rightarrow> ('f, json) http" where
  "request_postMultiPart ax url form options =
     data_of (axios_send ax M_post url (FormBody form) (put_prop options (content_type ''multipart/form-data'')))"

definition request_postTTS :: "'f axios \<Rightarrow> jsstring \<Rightarrow> 'f \<Rightarrow> obj \<Rightarrow> ('f, json) http" where
  "request_postTTS ax url form options =
     data_of (axios_send ax M_post url (FormBody form)
       (put_prop (put_prop options (content_type ''multipart/form-data'')) (js ''responseType'', Some (JStr (js ''arraybuffer'')))))"

definition request_put :: "'f axios \<Rightarrow> platform \<Rightarrow> jsstring \<Rightarrow> json option \<Rightarrow> ('f, json) http" where
  "request_put ax p url data = data_of (axios_send ax M_put url (json_body p data) [content_type ''application/json''])"

definition request_delete :: "'f axios \<Rightarrow> jsstring \<Rightarrow> ('f, json) http" where
  "request_delete ax url = data_of (axios_send ax M_delete url NoBody [])"

definition request_deleteWithOptions :: "'f axios \<Rightarrow> jsstring \<Rightarrow> obj \<Rightarrow> ('f, json) http" where
  "request_deleteWithOptions ax url options = data_of (axios_send ax M_delete url NoBody options)"

definition request_patch :: "'f axios \<Rightarrow> platform \<Rightarrow> jsstring \<Rightarrow> json option \<Rightarrow> ('f, json) http" where
  "request_patch ax p url data = data_of (axios_send ax M_patch url (json_body p data) [content_type ''application/json''])"

text \<open>The stub kept for callers of the bearer flow.\<close>

definition refreshToken :: "bool option \<Rightarrow> json option" where
  "refreshToken retry = None"

subsection \<open>One call, no retry\<close>

text \<open>\<open>sends m c\<close>: the computation makes exactly the call c, after those made before, and ends as axios ended it.\<close>

definition sends :: "'f axios \<Rightarrow> ('f, 'a) http \<Rightarrow> 'f axios_call \<Rightarrow> bool" where
  "sends ax m c \<longleftrightarrow> (\<forall>calls. snd (m calls) = calls @ [c]
     \<and> (\<forall>e. fst (m calls) = Inl e \<longleftrightarrow> ax (calls @ [c]) = Inl e))"

lemma sends_axios: "sends ax (axios_send ax m url b opts) \<lparr>ax_method = m, ax_url = url, ax_body = b, ax_config = opts\<rparr>"
  by (simp add: sends_def axios_send_def interceptor_def on_rejected_def Let_def split: sum.splits)

lemma sends_data: "sends ax m c \<Longrightarrow> sends ax (data_of m) c"
proof -
  assume "sends ax m c"
  then have "snd (m s) = s @ [c] \<and> (\<forall>e. fst (m s) = Inl e \<longleftrightarrow> ax (s @ [c]) = Inl e)" for s by (simp add: sends_def)
  then show ?thesis
    unfolding sends_def data_of_def andThen_def ret_def by (auto simp: case_prod_beta split: sum.split) (metis Inl_Inr_False)
qed

lemma every_function_sends_once:
  "\<exists>c. sends ax (request_get ax url options) c" "\<exists>c. sends ax (request_getResponse ax url options) c"
  "\<exists>c. sends ax (request_post ax p url data) c" "\<exists>c. sends ax (request_postMultiPart ax url form options) c"
  "\<exists>c. sends ax (request_postTTS ax url form options) c" "\<exists>c. sends ax (request_put ax p url data) c"
  "\<exists>c. sends ax (request_delete ax url) c" "\<exists>c. sends ax (request_deleteWithOptions ax url options) c"
  "\<exists>c. sends ax (request_patch ax p url data) c"
  unfolding request_get_def request_getResponse_def request_post_def request_postMultiPart_def request_postTTS_def
    request_put_def request_delete_def request_deleteWithOptions_def request_patch_def
  by (blast intro: sends_axios sends_data)+

end
